(* ===== verification/Prelude.thy ===== *)
theory Prelude
  imports Main "HOL-Library.Word" "HOL-Library.Monad_Syntax"
begin

text \<open>
  Shared vocabulary of the development: the machine types of the Rust program, panics and
  I/O results, overflow-checked \<open>usize\<close> arithmetic, slices, and the arithmetic on TCP
  sequence numbers that the program uses everywhere.

  Conventions.
  \<^item> A \<open>u8\<close>, \<open>u16\<close> or \<open>u32\<close> is a word of that width; a \<open>usize\<close> or \<open>u64\<close> is a natural
    number, with its bound \<open>USIZE_MAX\<close> or \<open>U64_MAX\<close> written out in every operation that
    can pass it (a 64 bit target).
  \<^item> A computation that can panic has type \<open>'a option\<close>; \<open>None\<close> is the panic (an arithmetic
    overflow under overflow checks, an index out of range, an \<open>unwrap\<close> of nothing).
  \<^item> An \<open>io::Result\<close> is a value of \<open>io_error + 'a\<close>, written \<open>Err e\<close> and \<open>Ok a\<close>. A method
    that can return an error and changes \<open>self\<close> returns the result beside the new state,
    because the changes made before an early return stay.
\<close>

section \<open>Types\<close>

type_synonym u8 = "8 word"
type_synonym u16 = "16 word"
type_synonym u32 = "32 word"
type_synonym usize = nat
type_synonym u64 = nat

text \<open>The kinds of \<open>io::ErrorKind\<close> the program constructs or inspects.\<close>

datatype io_kind = Other | InvalidInput | InvalidData | WriteZero | NotConnected | TimedOut | NotFound

datatype io_error = IoError io_kind string

type_synonym 'a io_result = "io_error + 'a"

abbreviation Ok :: "'a \<Rightarrow> 'a io_result" where "Ok \<equiv> Inr"
abbreviation Err :: "io_error \<Rightarrow> 'a io_result" where "Err \<equiv> Inl"

text \<open>A method on a state that may panic, fail or succeed.\<close>

type_synonym ('a, 's) outcome = "('a io_result \<times> 's) option"

text \<open>The operator \<open>?\<close>: go on with the value, or return the error with the state reached.\<close>

definition and_then :: "('a, 's) outcome \<Rightarrow> ('a \<Rightarrow> 's \<Rightarrow> ('b, 's) outcome) \<Rightarrow> ('b, 's) outcome" where
  "and_then m k = (case m of
      None \<Rightarrow> None
    | Some (r, s) \<Rightarrow> (case r of Inl e \<Rightarrow> Some (Err e, s) | Inr a \<Rightarrow> k a s))"

lemma and_then_simps [simp]:
  "and_then None k = None" "and_then (Some (Err e, s)) k = Some (Err e, s)" "and_then (Some (Ok a, s)) k = k a s"
  by (simp_all add: and_then_def)

section \<open>Collections of facts\<close>

named_theorems usize_simps \<open>overflow-checked arithmetic whose guard is known to hold\<close>
named_theorems slice_simps \<open>slice operations whose bounds are known to hold\<close>
named_theorems seq_simps \<open>sequence number arithmetic on natural numbers\<close>

section \<open>Overflow-checked arithmetic\<close>

definition USIZE_MAX :: nat where
  "USIZE_MAX = 18446744073709551615"

definition U64_MAX :: nat where
  "U64_MAX = 18446744073709551615"

definition uadd :: "usize \<Rightarrow> usize \<Rightarrow> usize option" where
  "uadd a b = (if a + b \<le> USIZE_MAX then Some (a + b) else None)"

definition usub :: "usize \<Rightarrow> usize \<Rightarrow> usize option" where
  "usub a b = (if b \<le> a then Some (a - b) else None)"

definition umul :: "usize \<Rightarrow> usize \<Rightarrow> usize option" where
  "umul a b = (if a * b \<le> USIZE_MAX then Some (a * b) else None)"

definition umod :: "usize \<Rightarrow> usize \<Rightarrow> usize option" where
  "umod a b = (if b = 0 then None else Some (a mod b))"

text \<open>\<open>checked_add\<close>, \<open>checked_sub\<close> and \<open>checked_mul\<close> of \<open>usize\<close> and \<open>u64\<close>.\<close>

definition checked_add_u64 :: "u64 \<Rightarrow> u64 \<Rightarrow> u64 option" where
  "checked_add_u64 a b = (if a + b \<le> U64_MAX then Some (a + b) else None)"

definition checked_mul_u64 :: "u64 \<Rightarrow> u64 \<Rightarrow> u64 option" where
  "checked_mul_u64 a b = (if a * b \<le> U64_MAX then Some (a * b) else None)"

definition checked_sub_nat :: "nat \<Rightarrow> nat \<Rightarrow> nat option" where
  "checked_sub_nat a b = (if b \<le> a then Some (a - b) else None)"

definition unwrap_or :: "'a option \<Rightarrow> 'a \<Rightarrow> 'a" where
  "unwrap_or m d = (case m of Some x \<Rightarrow> x | None \<Rightarrow> d)"

lemma unwrap_or_simps [simp]:
  "unwrap_or (Some x) d = x"
  "unwrap_or None d = d"
  by (simp_all add: unwrap_or_def)

text \<open>\<open>Result::unwrap\<close>\<close>

definition unwrap_result :: "'a io_result \<Rightarrow> 'a option" where
  "unwrap_result r = (case r of Inr x \<Rightarrow> Some x | Inl _ \<Rightarrow> None)"

lemma unwrap_result_simps [simp]:
  "unwrap_result (Ok x) = Some x"
  "unwrap_result (Err e) = None"
  by (simp_all add: unwrap_result_def)

lemma uadd_eq [usize_simps]: "a + b \<le> USIZE_MAX \<Longrightarrow> uadd a b = Some (a + b)"
  by (simp add: uadd_def)

lemma usub_eq [usize_simps]: "b \<le> a \<Longrightarrow> usub a b = Some (a - b)"
  by (simp add: usub_def)

lemma umul_eq [usize_simps]: "a * b \<le> USIZE_MAX \<Longrightarrow> umul a b = Some (a * b)"
  by (simp add: umul_def)

lemma umod_eq [usize_simps]: "0 < b \<Longrightarrow> umod a b = Some (a mod b)"
  by (simp add: umod_def)

section \<open>Slices\<close>

text \<open>\<open>&xs[i..j]\<close>\<close>

definition subslice :: "'a list \<Rightarrow> usize \<Rightarrow> usize \<Rightarrow> 'a list option" where
  "subslice xs i j = (if i \<le> j \<and> j \<le> length xs then Some (take (j - i) (drop i xs)) else None)"

text \<open>\<open>xs[i..j].copy_from_slice(ys)\<close>\<close>

definition write_slice :: "'a list \<Rightarrow> usize \<Rightarrow> usize \<Rightarrow> 'a list \<Rightarrow> 'a list option" where
  "write_slice xs i j ys =
     (if i \<le> j \<and> j \<le> length xs \<and> length ys = j - i
      then Some (take i xs @ ys @ drop j xs) else None)"

text \<open>\<open>xs.copy_within(i..j, d)\<close>\<close>

definition copy_within :: "'a list \<Rightarrow> usize \<Rightarrow> usize \<Rightarrow> usize \<Rightarrow> 'a list option" where
  "copy_within xs i j d =
     (if i \<le> j \<and> j \<le> length xs \<and> d + (j - i) \<le> length xs
      then Some (take d xs @ take (j - i) (drop i xs) @ drop (d + (j - i)) xs) else None)"

text \<open>\<open>xs.resize(n, v)\<close>\<close>

definition resize :: "'a list \<Rightarrow> usize \<Rightarrow> 'a \<Rightarrow> 'a list" where
  "resize xs n v = take n xs @ replicate (n - length xs) v"

lemma subslice_eq [slice_simps]:
  "i \<le> j \<Longrightarrow> j \<le> length xs \<Longrightarrow> subslice xs i j = Some (take (j - i) (drop i xs))"
  by (simp add: subslice_def)

lemma write_slice_eq [slice_simps]:
  "i \<le> j \<Longrightarrow> j \<le> length xs \<Longrightarrow> length ys = j - i \<Longrightarrow>
     write_slice xs i j ys = Some (take i xs @ ys @ drop j xs)"
  by (simp add: write_slice_def)

lemma copy_within_eq [slice_simps]:
  "i \<le> j \<Longrightarrow> j \<le> length xs \<Longrightarrow> d + (j - i) \<le> length xs \<Longrightarrow>
     copy_within xs i j d = Some (take d xs @ take (j - i) (drop i xs) @ drop (d + (j - i)) xs)"
  by (simp add: copy_within_def)

lemma length_resize [simp]: "length (resize xs n v) = n"
  by (simp add: resize_def)

lemma nth_splice:
  assumes "i + length ys \<le> length xs" and "k < length xs"
  shows "(take i xs @ ys @ drop (i + length ys) xs) ! k =
    (if i \<le> k \<and> k < i + length ys then ys ! (k - i) else xs ! k)"
  using assms by (auto simp: nth_append min_def)

lemma sorted_le_last: "sorted xs \<Longrightarrow> x \<in> set xs \<Longrightarrow> x \<le> last xs"
  by (induction xs) (auto dest: last_in_set)

end
