(* ===== verification/Seq.thy ===== *)
theory Seq
  imports Prelude
begin

text \<open>
  Arithmetic on 32 bit TCP sequence numbers. The program never uses \<open>wrapping_add\<close>; it
  writes \<open>a.checked_add(n).unwrap_or_else(|| n - (u32::MAX - a))\<close> and
  \<open>a.checked_sub(b).unwrap_or_else(|| a + (u32::MAX - b))\<close> at every place. Both are modelled
  here once (\<open>seq_add\<close>, \<open>seq_sub\<close>). They compute modulo \<open>2 ^ 32 - 1\<close>, not modulo \<open>2 ^ 32\<close>:
  consistent with each other, and one off the arithmetic of the peer after a wrap-around.
  The locale \<open>sequence_space\<close> states what the caches need of such an arithmetic.
\<close>

section \<open>The two idioms\<close>

definition U32_MAX :: u32 where
  "U32_MAX = 4294967295"

definition checked_add_u32 :: "u32 \<Rightarrow> u32 \<Rightarrow> u32 option" where
  "checked_add_u32 a b = (if unat a + unat b \<le> 4294967295 then Some (a + b) else None)"

definition checked_sub_u32 :: "u32 \<Rightarrow> u32 \<Rightarrow> u32 option" where
  "checked_sub_u32 a b = (if b \<le> a then Some (a - b) else None)"

definition seq_add :: "u32 \<Rightarrow> u32 \<Rightarrow> u32" where
  "seq_add a n = (case checked_add_u32 a n of Some r \<Rightarrow> r | None \<Rightarrow> n - (U32_MAX - a))"

definition seq_sub :: "u32 \<Rightarrow> u32 \<Rightarrow> u32" where
  "seq_sub a b = (case checked_sub_u32 a b of Some r \<Rightarrow> r | None \<Rightarrow> a + (U32_MAX - b))"

text \<open>The same with the \<open>as u32\<close> and \<open>as usize\<close> casts the program puts around them.\<close>

definition seq_adv :: "u32 \<Rightarrow> usize \<Rightarrow> u32" where
  "seq_adv a n = seq_add a (of_nat n)"

definition seq_dist :: "u32 \<Rightarrow> u32 \<Rightarrow> usize" where
  "seq_dist a b = unat (seq_sub a b)"

definition MAX_U32_WINDOW_SIZE :: usize where
  "MAX_U32_WINDOW_SIZE = 16 * 1024 * 1024"

section \<open>Their values\<close>

lemma unat_u32_le: "unat (a :: u32) \<le> 4294967295"
proof -
  have "unat a < 2 ^ LENGTH(32)" by (rule unsigned_less)
  then show ?thesis by simp
qed

lemma unat_U32_MAX_minus: "unat (U32_MAX - a) = 4294967295 - unat a"
proof -
  have "a \<le> U32_MAX"
    using unat_u32_le [of a] by (simp add: U32_MAX_def word_le_nat_alt)
  then show ?thesis
    by (simp add: unat_sub U32_MAX_def)
qed

lemma unat_seq_add [seq_simps]:
  "unat (seq_add a n) =
    (if unat a + unat n \<le> 4294967295 then unat a + unat n else unat a + unat n - 4294967295)"
proof (cases "unat a + unat n \<le> 4294967295")
  case True
  then show ?thesis
    by (simp add: seq_add_def checked_add_u32_def unat_word_ariths)
next
  case False
  then have "U32_MAX - a \<le> n"
    by (simp add: word_le_nat_alt unat_U32_MAX_minus)
  with False show ?thesis
    using unat_u32_le [of a]
    by (simp add: seq_add_def checked_add_u32_def unat_sub unat_U32_MAX_minus)
qed

lemma unat_seq_sub [seq_simps]:
  "unat (seq_sub a b) =
    (if unat b \<le> unat a then unat a - unat b else unat a + 4294967295 - unat b)"
proof (cases "unat b \<le> unat a")
  case True
  then show ?thesis
    by (simp add: seq_sub_def checked_sub_u32_def word_le_nat_alt unat_sub)
next
  case False
  have "unat a + unat (U32_MAX - b) < 2 ^ 32"
    using False unat_u32_le [of b] by (simp add: unat_U32_MAX_minus)
  then have "unat (a + (U32_MAX - b)) = unat a + unat (U32_MAX - b)"
    by (simp add: unat_word_ariths)
  with False show ?thesis
    using unat_u32_le [of b]
    by (simp add: seq_sub_def checked_sub_u32_def word_le_nat_alt unat_U32_MAX_minus)
qed

lemma unat_of_nat_u32 [seq_simps]: "n \<le> 4294967295 \<Longrightarrow> unat (of_nat n :: u32) = n"
  by (simp add: unat_of_nat)

lemma unat_seq_adv [seq_simps]:
  "n \<le> 4294967295 \<Longrightarrow> unat (seq_adv a n) =
    (if unat a + n \<le> 4294967295 then unat a + n else unat a + n - 4294967295)"
  by (simp add: seq_adv_def seq_simps)

lemma seq_dist_eq [seq_simps]:
  "seq_dist a b =
    (if unat b \<le> unat a then unat a - unat b else unat a + 4294967295 - unat b)"
  by (simp add: seq_dist_def seq_simps)

lemma u32_eq_iff: "(a :: u32) = b \<longleftrightarrow> unat a = unat b"
  by (rule word_unat_eq_iff)

lemma seq_adv_0 [simp]: "seq_adv a 0 = a"
  using unat_u32_le [of a] by (simp add: u32_eq_iff seq_simps)

lemma seq_dist_self [simp]: "seq_dist a a = 0"
  by (simp add: seq_simps)

section \<open>What the caches need\<close>

text \<open>
  \<open>adv s n\<close> is the sequence number \<open>n\<close> bytes after \<open>s\<close> and \<open>dist t s\<close> how far \<open>t\<close> is
  ahead of \<open>s\<close>. Numbers are compared by their offsets from a common base.
\<close>

locale sequence_space =
  fixes adv :: "'s \<Rightarrow> nat \<Rightarrow> 's"
    and dist :: "'s \<Rightarrow> 's \<Rightarrow> nat"
    and period :: nat
  assumes adv_0: "adv s 0 = s"
    and dist_adv: "n < period \<Longrightarrow> dist (adv s n) s = n"
    and dist_ahead: "dist t s < period \<Longrightarrow> j \<le> dist t s \<Longrightarrow> dist t (adv s j) = dist t s - j"
    and dist_behind: "dist t s < j \<Longrightarrow> j < period \<Longrightarrow> dist t (adv s j) = period - (j - dist t s)"
    and adv_rebase: "dist t s < j \<Longrightarrow> j < period \<Longrightarrow> adv t (j - dist t s) = adv s j"
begin

lemma adv_adv: "m + n < period \<Longrightarrow> adv (adv s m) n = adv s (m + n)"
  using adv_rebase [of "adv s m" s "m + n"] dist_adv [of m s]
  by (cases "n = 0") (auto simp: adv_0)

lemma dist_adv_adv:
  assumes "i < period" and "j < period"
  shows "dist (adv s i) (adv s j) = (if j \<le> i then i - j else period - (j - i))"
  using assms dist_adv [of i s] dist_ahead [of "adv s i" s j] dist_behind [of "adv s i" s j]
  by auto

text \<open>The test \<open>dist \<le> w\<close> decides whether a number is at or at most \<open>w\<close> after another.\<close>

lemma within_iff:
  assumes "i + w < period" and "j + w < period"
  shows "dist (adv s i) (adv s j) \<le> w \<longleftrightarrow> j \<le> i \<and> i - j \<le> w"
  using assms by (auto simp: dist_adv_adv)

lemma within_base_iff:
  assumes "dist t s \<le> w" and "j + w < period"
  shows "dist t (adv s j) \<le> w \<longleftrightarrow> j \<le> dist t s"
  using assms dist_ahead [of t s j] dist_behind [of t s j] by force

lemma adv_inj:
  assumes "i < period" and "j < period" and "adv s i = adv s j"
  shows "i = j"
  using assms dist_adv by metis

end

interpretation seq: sequence_space seq_adv seq_dist 4294967295
proof unfold_locales
  fix s t :: u32 and n j :: nat
  show "seq_adv s 0 = s" by simp
  show "n < 4294967295 \<Longrightarrow> seq_dist (seq_adv s n) s = n"
    using unat_u32_le [of s] by (auto simp: seq_simps)
  show "seq_dist t s < 4294967295 \<Longrightarrow> j \<le> seq_dist t s \<Longrightarrow>
      seq_dist t (seq_adv s j) = seq_dist t s - j"
    using unat_u32_le [of s] unat_u32_le [of t]
    by (cases "unat s \<le> unat t"; cases "unat s + j \<le> 4294967295") (auto simp: seq_simps)
  show "seq_dist t s < j \<Longrightarrow> j < 4294967295 \<Longrightarrow>
      seq_dist t (seq_adv s j) = 4294967295 - (j - seq_dist t s)"
    using unat_u32_le [of s] unat_u32_le [of t] by (auto simp: seq_simps split: if_splits)
  show "seq_dist t s < j \<Longrightarrow> j < 4294967295 \<Longrightarrow> seq_adv t (j - seq_dist t s) = seq_adv s j"
    using unat_u32_le [of s] unat_u32_le [of t]
    by (auto simp: u32_eq_iff seq_simps split: if_splits)
qed

text \<open>The window test of the program.\<close>

lemma seq_within_iff:
  "i + MAX_U32_WINDOW_SIZE < 4294967295 \<Longrightarrow> j + MAX_U32_WINDOW_SIZE < 4294967295 \<Longrightarrow>
     seq_dist (seq_adv s i) (seq_adv s j) \<le> MAX_U32_WINDOW_SIZE \<longleftrightarrow>
       j \<le> i \<and> i - j \<le> MAX_U32_WINDOW_SIZE"
  by (rule seq.within_iff)

lemma seq_within_base_iff:
  "seq_dist t s \<le> MAX_U32_WINDOW_SIZE \<Longrightarrow> j + MAX_U32_WINDOW_SIZE < 4294967295 \<Longrightarrow>
     seq_dist t (seq_adv s j) \<le> MAX_U32_WINDOW_SIZE \<longleftrightarrow> j \<le> seq_dist t s"
  by (rule seq.within_base_iff)

section \<open>Against the arithmetic of TCP\<close>

lemma seq_add_no_overflow: "unat a + unat n \<le> 4294967295 \<Longrightarrow> seq_add a n = a + n"
  by (simp add: seq_add_def checked_add_u32_def)

lemma seq_add_overflow:
  assumes "4294967295 < unat a + unat n"
  shows "seq_add a n = a + n + 1"
proof -
  have "n - (U32_MAX - a) = a + n + 1"
    by (simp add: U32_MAX_def)
  with assms show ?thesis
    by (simp add: seq_add_def checked_add_u32_def)
qed

lemma seq_sub_no_borrow: "unat b \<le> unat a \<Longrightarrow> seq_sub a b = a - b"
  by (simp add: seq_sub_def checked_sub_u32_def word_le_nat_alt)

lemma seq_sub_borrow:
  assumes "unat a < unat b"
  shows "seq_sub a b = a - b - 1"
proof -
  have "a + (U32_MAX - b) = a - b - 1"
    by (simp add: U32_MAX_def)
  with assms show ?thesis
    by (simp add: seq_sub_def checked_sub_u32_def word_le_nat_alt)
qed

end
