(* ===== verification/Ring.thy ===== *)
theory Ring
  imports Seq
begin

text \<open>
  Byte ring buffers. \<open>Queue\<close> and \<open>Window\<close> of \<open>cache/mod.rs\<close> keep their bytes in a growable
  \<open>Vec<u8>\<close> used as a ring and repeat the same four pieces of code: computing the tail,
  extending the buffer, writing a payload that may wrap around, and reading a range that may
  wrap around. Each piece is modelled once, with its panics, and related to \<open>ring_list\<close>, the
  list of bytes found by walking the ring.
\<close>

section \<open>The code\<close>

definition checked_add_usize :: "usize \<Rightarrow> usize \<Rightarrow> usize option" where
  "checked_add_usize a b = (if a + b \<le> USIZE_MAX then Some (a + b) else None)"

text \<open>\<open>head + n\<close>, wrapped once at the end of the buffer.\<close>

definition ring_pos :: "usize \<Rightarrow> usize \<Rightarrow> usize \<Rightarrow> usize" where
  "ring_pos len head n =
     (let tmp = (case checked_add_usize head n of Some t \<Rightarrow> t | None \<Rightarrow> n - (USIZE_MAX - head))
      in unwrap_or (checked_sub_nat tmp len) tmp)"

definition ring_extend :: "u8 list \<Rightarrow> usize \<Rightarrow> usize \<Rightarrow> usize \<Rightarrow> usize \<Rightarrow> u8 list option" where
  "ring_extend buf head prev_tail cap need = do {
     m \<leftarrow> umul (length buf) 3;
     let prev_len = length buf;
     let new_len = min cap (max (m div 2) need);
     let buf = resize buf new_len 0;
     if prev_tail \<le> head then do {
       grown \<leftarrow> usub new_len prev_len;
       let len_a = min prev_tail grown;
       buf \<leftarrow> copy_within buf 0 len_a prev_len;
       let len_b = prev_tail - len_a;
       if 0 < len_b then copy_within buf len_a (len_a + len_b) 0 else Some buf
     } else Some buf
   }"

definition ring_write :: "u8 list \<Rightarrow> usize \<Rightarrow> u8 list \<Rightarrow> u8 list option" where
  "ring_write buf pos payload = do {
     room \<leftarrow> usub (length buf) pos;
     let len_a = min room (length payload);
     buf \<leftarrow> write_slice buf pos (pos + len_a) (take len_a payload);
     let len_b = length payload - len_a;
     if 0 < len_b then write_slice buf 0 len_b (drop len_a payload) else Some buf
   }"

definition ring_read :: "u8 list \<Rightarrow> usize \<Rightarrow> usize \<Rightarrow> u8 list option" where
  "ring_read buf head n = do {
     room \<leftarrow> usub (length buf) head;
     let len_a = min n room;
     part_a \<leftarrow> subslice buf head (head + len_a);
     let len_b = n - len_a;
     if 0 < len_b then do {
       part_b \<leftarrow> subslice buf 0 len_b;
       Some (part_a @ part_b)
     } else Some part_a
   }"

section \<open>The bytes of a ring\<close>

definition ring_list :: "'a list \<Rightarrow> nat \<Rightarrow> nat \<Rightarrow> 'a list" where
  "ring_list buf head n = map (\<lambda>i. buf ! ((head + i) mod length buf)) [0..<n]"

lemma length_ring_list [simp]: "length (ring_list buf head n) = n"
  by (simp add: ring_list_def)

lemma nth_ring_list [simp]: "i < n \<Longrightarrow> ring_list buf head n ! i = buf ! ((head + i) mod length buf)"
  by (simp add: ring_list_def)

lemma ring_list_0 [simp]: "ring_list buf head 0 = []"
  by (simp add: ring_list_def)

lemma mod_ring:
  fixes h i L :: nat
  assumes "h < L" and "i < L"
  shows "(h + i) mod L = (if h + i < L then h + i else h + i - L)"
  using assms by (simp add: mod_if)

lemma ring_pos_eq:
  assumes "head + n \<le> USIZE_MAX"
  shows "ring_pos len head n = (if len \<le> head + n then head + n - len else head + n)"
  using assms by (simp add: ring_pos_def checked_add_usize_def checked_sub_nat_def)

lemma ring_list_drop:
  assumes "d \<le> n"
  shows "drop d (ring_list buf head n) = ring_list buf ((head + d) mod length buf) (n - d)"
  using assms by (auto intro!: nth_equalityI simp: mod_simps ac_simps)

lemma ring_list_take: "k \<le> n \<Longrightarrow> take k (ring_list buf head n) = ring_list buf head k"
  by (auto intro!: nth_equalityI)

lemma ring_list_append:
  "ring_list buf head (m + n) = ring_list buf head m @ ring_list buf ((head + m) mod length buf) n"
  using append_take_drop_id [of m "ring_list buf head (m + n)"]
  by (simp add: ring_list_take ring_list_drop)

section \<open>Reading\<close>

lemma ring_read_eq:
  assumes h: "head < length buf \<or> n = 0 \<and> head \<le> length buf" and n: "n \<le> length buf"
  shows "ring_read buf head n = Some (ring_list buf head n)"
proof (cases "head + n \<le> length buf")
  case True
  have "take n (drop head buf) = ring_list buf head n"
  proof (rule nth_equalityI)
    show "length (take n (drop head buf)) = length (ring_list buf head n)"
      using True by simp
  next
    fix i assume "i < length (take n (drop head buf))"
    then have i: "i < n" by simp
    with True have "(head + i) mod length buf = head + i" by simp
    with i True show "take n (drop head buf) ! i = ring_list buf head n ! i" by simp
  qed
  with True h show ?thesis
    by (auto simp: ring_read_def usize_simps slice_simps min_def)
next
  case False
  define a where "a = length buf - head"
  have head: "head < length buf" using h False by auto
  have a: "a < n" "head + a = length buf" using False head by (auto simp: a_def)
  have "take a (drop head buf) @ take (n - a) buf = ring_list buf head n"
  proof (rule nth_equalityI)
    show "length (take a (drop head buf) @ take (n - a) buf) = length (ring_list buf head n)"
      using n a by simp
  next
    fix i assume "i < length (take a (drop head buf) @ take (n - a) buf)"
    then have i: "i < n" using n a by simp
    show "(take a (drop head buf) @ take (n - a) buf) ! i = ring_list buf head n ! i"
    proof (cases "i < a")
      case True
      with i n a head show ?thesis by (auto simp: nth_append mod_ring)
    next
      case False
      have "head + i - length buf = i - a" "\<not> head + i < length buf"
        using a False by linarith+
      with i n head have "(head + i) mod length buf = i - a"
        by (simp add: mod_ring)
      moreover have "length (take a (drop head buf)) = a" using a by simp
      ultimately show ?thesis using False i n by (simp add: nth_append)
    qed
  qed
  with a n head show ?thesis
    by (auto simp: ring_read_def usize_simps slice_simps min_def a_def)
qed

section \<open>Writing\<close>

lemma ring_write_at:
  assumes h: "h < length buf" and fit: "m + length p \<le> length buf"
    and pos: "pos = (if length buf \<le> h + m then h + m - length buf else h + m)"
  obtains buf' where "ring_write buf pos p = Some buf'" and "length buf' = length buf"
    and "\<And>i. i < length buf \<Longrightarrow> buf' ! ((h + i) mod length buf) =
      (if m \<le> i \<and> i < m + length p then p ! (i - m) else buf ! ((h + i) mod length buf))"
proof (cases "pos + length p \<le> length buf")
  case True
  define buf' where "buf' = take pos buf @ p @ drop (pos + length p) buf"
  have nth: "buf' ! k = (if pos \<le> k \<and> k < pos + length p then p ! (k - pos) else buf ! k)"
    if "k < length buf" for k
    unfolding buf'_def using True that by (rule nth_splice)
  show ?thesis
  proof
    have "min (length buf - pos) (length p) = length p" using True by simp
    then show "ring_write buf pos p = Some buf'"
      using True by (simp add: ring_write_def usize_simps slice_simps buf'_def)
    show "length buf' = length buf" using True by (simp add: buf'_def)
    fix i assume i: "i < length buf"
    with h fit pos True show "buf' ! ((h + i) mod length buf) =
      (if m \<le> i \<and> i < m + length p then p ! (i - m) else buf ! ((h + i) mod length buf))"
      by (auto simp: mod_ring nth split: if_splits)
  qed
next
  case False
  define a where "a = length buf - pos"
  define buf1 where "buf1 = take pos buf @ take a p @ drop (pos + length (take a p)) buf"
  define buf' where "buf' = take 0 buf1 @ drop a p @ drop (0 + length (drop a p)) buf1"
  have pos_less: "pos < length buf" using h fit pos by (auto split: if_splits)
  have a: "a < length p" "pos + a = length buf" using False pos_less by (auto simp: a_def)
  have len1: "length buf1 = length buf" using a by (simp add: buf1_def)
  have nth1: "buf1 ! k = (if pos \<le> k \<and> k < pos + length (take a p) then take a p ! (k - pos) else buf ! k)"
    if "k < length buf" for k
    unfolding buf1_def by (rule nth_splice) (use a that in auto)
  have nth: "buf' ! k = (if 0 \<le> k \<and> k < 0 + length (drop a p) then drop a p ! (k - 0) else buf1 ! k)"
    if "k < length buf" for k
    unfolding buf'_def by (rule nth_splice) (use a len1 fit that in auto)
  show ?thesis
  proof
    show "ring_write buf pos p = Some buf'"
      using a pos_less fit len1
      by (simp add: ring_write_def usize_simps slice_simps min_def Let_def buf'_def buf1_def a_def)
    show "length buf' = length buf" using a fit len1 by (simp add: buf'_def)
    fix i assume i: "i < length buf"
    with h fit pos a pos_less show "buf' ! ((h + i) mod length buf) =
      (if m \<le> i \<and> i < m + length p then p ! (i - m) else buf ! ((h + i) mod length buf))"
      by (auto simp: mod_ring nth nth1 intro!: arg_cong [where f = "nth p"] split: if_splits)
  qed
qed

section \<open>Extending\<close>

lemma nth_copy:
  assumes "i + n \<le> length xs" and "d + n \<le> length xs" and "k < length xs"
  shows "(take d xs @ take n (drop i xs) @ drop (d + n) xs) ! k =
    (if d \<le> k \<and> k < d + n then xs ! (i + (k - d)) else xs ! k)"
  using assms nth_splice [of d "take n (drop i xs)" xs k] by auto

lemma nth_resize_old: "length xs \<le> n \<Longrightarrow> k < length xs \<Longrightarrow> resize xs n v ! k = xs ! k"
  by (simp add: resize_def nth_append)

text \<open>
  Growing keeps the \<open>n\<close> bytes from the head: bytes that had wrapped to the front of the old
  buffer are moved behind its old end, and what does not fit there to the front.
\<close>

text \<open>The bytes at the front of a buffer of length \<open>L\<close> that has grown to \<open>L'\<close>, moved behind the old end and on.\<close>

lemma ring_moved:
  assumes old: "length buf = L" "\<And>k. k < L \<Longrightarrow> b1 ! k = buf ! k"
    and b2: "\<And>k. k < L' \<Longrightarrow> b2 ! k = (if L \<le> k \<and> k < L + a then b1 ! (k - L) else b1 ! k)"
    and b3: "\<And>k. k < L' \<Longrightarrow> b3 ! k = (if k < tail - a then b2 ! (a + k) else b2 ! k)"
    and L: "L < L'" "head < L" "i < n" "n \<le> L" and wrap: "L \<le> head + n" "tail = head + n - L" and a: "a = min tail (L' - L)"
  shows "b3 ! ((head + i) mod L') = buf ! ((head + i) mod L)"
proof (cases "head + i < L")
  case True
  with wrap L a show ?thesis by (auto simp: b3 b2 old(2))
next
  case False
  define k where "k = head + i - L"
  have k: "k < tail" "k < L" using False wrap L by (auto simp: k_def)
  have mods: "(head + i) mod L = k" "(head + i) mod L' = (if head + i < L' then L + k else k - (L' - L))"
    using False L by (auto simp: k_def mod_ring)
  show ?thesis
  proof (cases "head + i < L'")
    case True
    then have "k < a" "tail - a \<le> L + k" using k False wrap L by (auto simp: a k_def)
    with True k L show ?thesis by (auto simp: mods b3 b2 old(2) k_def)
  next
    case wrapped: False
    then have "a = L' - L" "a \<le> k" using k False L by (auto simp: a k_def)
    with wrapped k L wrap show ?thesis by (auto simp: mods b3 b2 old(2))
  qed
qed

lemma ring_extend_keeps:
  assumes ring: "head < length buf \<or> n = 0 \<and> head = 0" and n: "n \<le> length buf"
    and need: "length buf < need" "need \<le> cap" and small: "3 * length buf \<le> USIZE_MAX"
    and tail: "tail = (if length buf \<le> head + n then head + n - length buf else head + n)"
  obtains buf' where "ring_extend buf head tail cap need = Some buf'"
    and "need \<le> length buf'" and "length buf' \<le> cap"
    and "\<And>i. i < n \<Longrightarrow> buf' ! ((head + i) mod length buf') = buf ! ((head + i) mod length buf)"
proof -
  define L where "L = length buf"
  define L' where "L' = min cap (max (L * 3 div 2) need)"
  define b1 where "b1 = resize buf L' 0"
  have L': "L < L'" "need \<le> L'" "L' \<le> cap" using need by (auto simp: L_def L'_def)
  have m: "umul (length buf) 3 = Some (length buf * 3)" using small by (simp add: umul_def)
  have b1_len: "length b1 = L'" and b1: "\<And>k. k < L \<Longrightarrow> b1 ! k = buf ! k"
    using L' by (auto simp: b1_def L_def nth_resize_old)
  show ?thesis
  proof (cases "tail \<le> head")
    case False
    then have nowrap: "head + n < L" using tail n ring by (auto simp: L_def split: if_splits)
    show ?thesis
    proof (rule that)
      show "ring_extend buf head tail cap need = Some b1"
        using False m by (simp add: ring_extend_def b1_def L'_def L_def)
      show "need \<le> length b1" "length b1 \<le> cap" using L' b1_len by simp_all
      fix i assume "i < n"
      with nowrap L' show "b1 ! ((head + i) mod length b1) = buf ! ((head + i) mod length buf)"
        by (simp add: b1_len b1 flip: L_def)
    qed
  next
    case True
    define a where "a = min tail (L' - L)"
    define b2 where "b2 = take L b1 @ take a (drop 0 b1) @ drop (L + a) b1"
    define b3 where "b3 = take 0 b2 @ take (tail - a) (drop a b2) @ drop (0 + (tail - a)) b2"
    have tL: "tail \<le> L" using True ring by (auto simp: L_def)
    have a: "a \<le> tail" "L + a \<le> L'" using L' by (auto simp: a_def)
    have b2_len: "length b2 = L'" using a tL L' b1_len by (simp add: b2_def)
    have b2: "b2 ! k = (if L \<le> k \<and> k < L + a then b1 ! (k - L) else b1 ! k)" if "k < L'" for k
      using nth_copy [of 0 a b1 L k] a tL L' b1_len that by (simp add: b2_def)
    have b3_len: "length b3 = L'" using a tL L' b2_len by (simp add: b3_def)
    have b3: "b3 ! k = (if k < tail - a then b2 ! (a + k) else b2 ! k)" if "k < L'" for k
      using nth_copy [of a "tail - a" b2 0 k] a tL L' b2_len that by (simp add: b3_def)
    have run: "ring_extend buf head tail cap need = Some b3"
    proof -
      have 1: "copy_within b1 0 a L = Some b2"
        using a tL L' b1_len by (simp add: copy_within_def b2_def)
      have 2: "(if a < tail then copy_within b2 a tail 0 else Some b2) = Some b3"
        using a tL L' b2_len by (auto simp: copy_within_def b3_def)
      show ?thesis
        using 1 2 True m L' a
        by (auto simp: ring_extend_def usize_simps Let_def simp flip: L'_def b1_def a_def L_def
            split: if_splits)
    qed
    show ?thesis
    proof (rule that [OF run])
      show "need \<le> length b3" "length b3 \<le> cap" using L' b3_len by simp_all
      fix i assume i: "i < n"
      then have hd: "head < L" using ring n by (auto simp: L_def)
      have "L \<le> head + n" "tail = head + n - L" using True tail i hd by (auto simp: L_def split: if_splits)
      then show "b3 ! ((head + i) mod length b3) = buf ! ((head + i) mod length buf)"
        unfolding b3_len L_def [symmetric] using n
        by (intro ring_moved [OF L_def [symmetric] b1 b2 b3 L'(1) hd i]) (simp_all add: L_def a_def)
    qed
  qed
qed

end
