(* ===== verification/Timer.thy ===== *)
theory Timer
  imports Prelude
begin

text \<open>
  Timers of \<open>lib.rs\<close>. An \<open>Instant\<close> is the reading of a monotonic clock in nanoseconds and a
  \<open>Duration\<close> a number of nanoseconds. The clock is an input of the model: an operation that
  reads it takes the reading as its argument \<open>now\<close> (one reading per operation).
\<close>

type_synonym instant = nat
type_synonym duration = nat

definition from_millis :: "u64 \<Rightarrow> duration" where
  "from_millis ms = ms * 1000000"

definition as_millis :: "duration \<Rightarrow> nat" where
  "as_millis d = d div 1000000"

record timer =
  t_instant :: instant
  t_timeout :: duration

definition timer_new :: "instant \<Rightarrow> u64 \<Rightarrow> timer" where
  "timer_new now timeout = \<lparr>t_instant = now, t_timeout = from_millis timeout\<rparr>"

definition timer_elapsed :: "instant \<Rightarrow> timer \<Rightarrow> duration" where
  "timer_elapsed now t = now - t_instant t"

definition timer_is_timedout :: "instant \<Rightarrow> timer \<Rightarrow> bool" where
  "timer_is_timedout now t \<longleftrightarrow> timer_elapsed now t > t_timeout t"

text \<open>A new timer runs for its whole timeout and not longer.\<close>

lemma timer_new_timedout_iff:
  "now \<le> later \<Longrightarrow> timer_is_timedout later (timer_new now ms) \<longleftrightarrow> now + from_millis ms < later"
  by (auto simp: timer_is_timedout_def timer_elapsed_def timer_new_def)

lemma timer_new_not_timedout [simp]: "\<not> timer_is_timedout now (timer_new now ms)"
  by (simp add: timer_is_timedout_def timer_elapsed_def timer_new_def)

end
