(* ===== verification/Queue.thy ===== *)
theory Queue
  imports Ring Timer
begin

text \<open>
  The send cache \<open>Queue\<close> of \<open>cache/mod.rs\<close>: the bytes sent and not yet acknowledged, in a
  ring buffer, and one clock per appended payload for retransmission and round-trip times.
  \<open>queue_bytes\<close> is what the queue holds; the locale \<open>send_cache\<close> is the contract its client
  (\<open>TcpTxState\<close>) relies on.
\<close>

section \<open>State\<close>

type_synonym clock = "u32 \<times> timer"

record queue =
  q_buffer :: "u8 list"
  q_capacity :: usize
  q_sequence :: u32
  q_head :: usize
  q_size :: usize
  q_clocks :: "clock list"
  q_retrans :: "u32 option"

text \<open>
  \<open>VecDeque::with_capacity\<close> panics when the allocation would pass \<open>isize::MAX\<close> bytes; a
  \<open>(u32, Timer)\<close> takes 40 bytes on a 64 bit Unix target.
\<close>

definition vec_deque_with_capacity :: "usize \<Rightarrow> clock list option" where
  "vec_deque_with_capacity n = (if n * 40 \<le> 9223372036854775807 then Some [] else None)"

definition queue_with_capacity :: "usize \<Rightarrow> u32 \<Rightarrow> queue option" where
  "queue_with_capacity capacity sequence = do {
     clocks \<leftarrow> vec_deque_with_capacity capacity;
     Some \<lparr>q_buffer = [], q_capacity = capacity, q_sequence = sequence, q_head = 0, q_size = 0,
       q_clocks = clocks, q_retrans = None\<rparr>
   }"

definition queue_new :: "u32 \<Rightarrow> queue option" where
  "queue_new sequence = queue_with_capacity USIZE_MAX sequence"

section \<open>Operations\<close>

definition queue_remaining :: "queue \<Rightarrow> usize option" where
  "queue_remaining q = usub (q_capacity q) (q_size q)"

definition queue_tail :: "queue \<Rightarrow> usize" where
  "queue_tail q = ring_pos (length (q_buffer q)) (q_head q) (q_size q)"

definition queue_recv_next :: "queue \<Rightarrow> u32" where
  "queue_recv_next q = seq_adv (q_sequence q) (q_size q)"

definition queue_is_empty :: "queue \<Rightarrow> bool" where
  "queue_is_empty q \<longleftrightarrow> q_size q = 0"

definition queue_append :: "queue \<Rightarrow> u8 list \<Rightarrow> u64 \<Rightarrow> instant \<Rightarrow> (unit, queue) outcome" where
  "queue_append q payload rto now = do {
     remaining \<leftarrow> queue_remaining q;
     if length payload > remaining then Some (Err (IoError Other ''queue is full''), q)
     else do {
       free \<leftarrow> usub (length (q_buffer q)) (q_size q);
       buf \<leftarrow> (if length payload > free then do {
           need \<leftarrow> uadd (q_size q) (length payload);
           ring_extend (q_buffer q) (q_head q) (queue_tail q) (q_capacity q) need
         } else Some (q_buffer q));
       let q = q\<lparr>q_buffer := buf\<rparr>;
       let sequence = seq_adv (q_sequence q) (q_size q);
       let q = q\<lparr>q_clocks := q_clocks q @ [(sequence, timer_new now rto)]\<rparr>;
       buf \<leftarrow> ring_write (q_buffer q) (queue_tail q) payload;
       n \<leftarrow> uadd (q_size q) (length payload);
       Some (Ok (), q\<lparr>q_buffer := buf, q_size := n\<rparr>)
     }
   }"

text \<open>The loop that pops the clocks of acknowledged payloads and chooses the round-trip time.\<close>

fun pop_clocks :: "u32 \<Rightarrow> u32 \<Rightarrow> u32 option \<Rightarrow> instant \<Rightarrow> clock list \<Rightarrow> duration option
    \<Rightarrow> clock list \<times> duration option" where
  "pop_clocks sequence recv_next retrans now [] rtt = ([], rtt)"
| "pop_clocks sequence recv_next retrans now (c # cs) rtt =
     (let dist = seq_dist sequence (fst c);
          next = (case cs of [] \<Rightarrow> recv_next | c' # _ \<Rightarrow> fst c');
          dist_next = seq_dist sequence next
      in if dist \<le> MAX_U32_WINDOW_SIZE \<and> dist_next \<le> MAX_U32_WINDOW_SIZE then
           pop_clocks sequence recv_next retrans now cs
             (if \<not> timer_is_timedout now (snd c) \<and> rtt = None then
                (case retrans of
                   Some r \<Rightarrow> if seq_dist r sequence \<le> MAX_U32_WINDOW_SIZE then None
                     else Some (timer_elapsed now (snd c))
                 | None \<Rightarrow> Some (timer_elapsed now (snd c)))
              else rtt)
         else if dist \<le> MAX_U32_WINDOW_SIZE then ((sequence, snd c) # cs, rtt)
         else (c # cs, rtt))"

text \<open>The head after \<open>n\<close> bytes have been dropped, where \<open>size\<close> is already the new size.\<close>

definition queue_next_head :: "queue \<Rightarrow> usize \<Rightarrow> usize option" where
  "queue_next_head q n =
     (if q_size q = 0 then Some 0 else do {
        r \<leftarrow> umod n (length (q_buffer q));
        h \<leftarrow> uadd (q_head q) r;
        umod h (length (q_buffer q))
      })"

definition queue_invalidate_to :: "queue \<Rightarrow> u32 \<Rightarrow> instant \<Rightarrow> (duration option \<times> queue) option" where
  "queue_invalidate_to q sequence now =
     (let n = seq_dist sequence (q_sequence q)
      in if n \<le> MAX_U32_WINDOW_SIZE then do {
           let q = q\<lparr>q_sequence := sequence, q_size := unwrap_or (checked_sub_nat (q_size q) n) 0\<rparr>;
           head \<leftarrow> queue_next_head q n;
           let q = q\<lparr>q_head := head\<rparr>;
           let (clocks, rtt) =
             pop_clocks sequence (queue_recv_next q) (q_retrans q) now (q_clocks q) None;
           let q = q\<lparr>q_clocks := clocks\<rparr>;
           let q = (case q_retrans q of
               Some r \<Rightarrow> if seq_dist (q_sequence q) r \<le> MAX_U32_WINDOW_SIZE
                 then q\<lparr>q_retrans := None\<rparr> else q
             | None \<Rightarrow> q);
           Some (rtt, q)
         }
         else Some (None, q))"

definition queue_get :: "queue \<Rightarrow> u32 \<Rightarrow> usize \<Rightarrow> u8 list io_result option" where
  "queue_get q sequence n =
     (if n = 0 then Some (Ok [])
      else let distance = seq_dist sequence (q_sequence q)
      in if distance > q_size q then
           Some (Err (IoError InvalidInput ''queue at the certain sequence does not exist''))
         else if q_size q - distance < n then
           Some (Err (IoError InvalidInput ''request size too big''))
         else do {
           head \<leftarrow> uadd (q_head q) distance;
           let head = unwrap_or (checked_sub_nat head (length (q_buffer q))) head;
           payload \<leftarrow> ring_read (q_buffer q) head n;
           Some (Ok payload)
         })"

definition queue_get_all :: "queue \<Rightarrow> u8 list option" where
  "queue_get_all q = do {
     r \<leftarrow> queue_get q (q_sequence q) (q_size q);
     unwrap_result r
   }"

text \<open>The sequence of the first clock that has not timed out.\<close>

fun first_unexpired :: "instant \<Rightarrow> clock list \<Rightarrow> u32 option" where
  "first_unexpired now [] = None"
| "first_unexpired now (c # cs) =
     (if \<not> timer_is_timedout now (snd c) then Some (fst c) else first_unexpired now cs)"

definition queue_get_timed_out :: "queue \<Rightarrow> instant \<Rightarrow> u8 list option" where
  "queue_get_timed_out q now =
     (case first_unexpired now (q_clocks q) of
        Some recv_next \<Rightarrow> do {
          r \<leftarrow> queue_get q (q_sequence q) (seq_dist recv_next (q_sequence q));
          unwrap_result r
        }
      | None \<Rightarrow> queue_get_all q)"

fun update_clocks :: "u32 \<Rightarrow> u32 \<Rightarrow> u64 \<Rightarrow> instant \<Rightarrow> clock list \<Rightarrow> clock list" where
  "update_clocks sequence recv_next rto now [] = []"
| "update_clocks sequence recv_next rto now (c # cs) =
     (if seq_dist recv_next (fst c) \<le> MAX_U32_WINDOW_SIZE
      then update_clocks sequence recv_next rto now cs
      else (sequence, timer_new now rto) # c # cs)"

definition queue_get_timed_out_and_update ::
    "queue \<Rightarrow> u64 \<Rightarrow> instant \<Rightarrow> (u8 list \<times> queue) option" where
  "queue_get_timed_out_and_update q rto now =
     (case first_unexpired now (q_clocks q) of
        Some recv_next \<Rightarrow> do {
          let n = seq_dist recv_next (q_sequence q);
          let q = q\<lparr>q_clocks := update_clocks (q_sequence q) recv_next rto now (q_clocks q),
                q_retrans := Some recv_next\<rparr>;
          r \<leftarrow> queue_get q (q_sequence q) n;
          payload \<leftarrow> unwrap_result r;
          Some (payload, q)
        }
      | None \<Rightarrow> do {
          let q = q\<lparr>q_clocks := [(q_sequence q, timer_new now rto)],
                q_retrans := Some (queue_recv_next q)\<rparr>;
          payload \<leftarrow> queue_get_all q;
          Some (payload, q)
        })"

section \<open>Well-formed queues\<close>

definition queue_bytes :: "queue \<Rightarrow> u8 list" where
  "queue_bytes q = ring_list (q_buffer q) (q_head q) (q_size q)"

definition queue_wf :: "queue \<Rightarrow> bool" where
  "queue_wf q \<longleftrightarrow>
     q_size q \<le> length (q_buffer q) \<and> length (q_buffer q) \<le> q_capacity q \<and>
     (q_head q < length (q_buffer q) \<or> q_size q = 0 \<and> q_head q = 0) \<and>
     q_capacity q + MAX_U32_WINDOW_SIZE < 4294967295"

lemma length_queue_bytes [simp]: "length (queue_bytes q) = q_size q"
  by (simp add: queue_bytes_def)

lemma queue_wf_sizes:
  assumes "queue_wf q"
  shows "q_size q \<le> q_capacity q" and "q_size q + MAX_U32_WINDOW_SIZE < 4294967295"
    and "q_head q + q_size q + q_capacity q \<le> USIZE_MAX" and "q_head q + q_capacity q \<le> USIZE_MAX"
    and "3 * length (q_buffer q) \<le> USIZE_MAX"
  using assms by (auto simp: queue_wf_def USIZE_MAX_def)

lemma queue_tail_eq:
  assumes "queue_wf q"
  shows "queue_tail q = (if length (q_buffer q) \<le> q_head q + q_size q
    then q_head q + q_size q - length (q_buffer q) else q_head q + q_size q)"
  using queue_wf_sizes [OF assms] by (simp add: queue_tail_def ring_pos_eq)

section \<open>Appending\<close>

text \<open>After the first step of \<open>append\<close> the buffer holds the old bytes and has room for the payload.\<close>

lemma queue_room:
  assumes wf: "queue_wf q" and fit: "q_size q + length p \<le> q_capacity q"
  obtains buf where
    "(if length p > length (q_buffer q) - q_size q
      then uadd (q_size q) (length p) \<bind>
        (\<lambda>need. ring_extend (q_buffer q) (q_head q) (queue_tail q) (q_capacity q) need)
      else Some (q_buffer q)) = Some buf"
    and "q_size q + length p \<le> length buf" and "length buf \<le> q_capacity q"
    and "ring_list buf (q_head q) (q_size q) = queue_bytes q"
    and "q_head q < length buf \<or> buf = [] \<and> p = [] \<and> q_head q = 0 \<and> q_size q = 0"
proof (cases "length p > length (q_buffer q) - q_size q")
  case True
  note sizes = queue_wf_sizes [OF wf]
  have ring: "q_head q < length (q_buffer q) \<or> q_size q = 0 \<and> q_head q = 0"
    and n: "q_size q \<le> length (q_buffer q)" using wf by (auto simp: queue_wf_def)
  have need: "length (q_buffer q) < q_size q + length p" using True n by simp
  from ring_extend_keeps [OF ring n need fit sizes(5) queue_tail_eq [OF wf]] obtain buf where
    buf: "ring_extend (q_buffer q) (q_head q) (queue_tail q) (q_capacity q) (q_size q + length p) = Some buf"
      "q_size q + length p \<le> length buf" "length buf \<le> q_capacity q"
      "\<And>i. i < q_size q \<Longrightarrow> buf ! ((q_head q + i) mod length buf) =
        q_buffer q ! ((q_head q + i) mod length (q_buffer q))"
    by blast
  show ?thesis
  proof (rule that)
    show "(if length p > length (q_buffer q) - q_size q
      then uadd (q_size q) (length p) \<bind>
        (\<lambda>need. ring_extend (q_buffer q) (q_head q) (queue_tail q) (q_capacity q) need)
      else Some (q_buffer q)) = Some buf"
      using True buf(1) fit sizes by (simp add: uadd_def)
    show "ring_list buf (q_head q) (q_size q) = queue_bytes q"
      by (auto intro!: nth_equalityI simp: queue_bytes_def buf(4))
    show "q_head q < length buf \<or> buf = [] \<and> p = [] \<and> q_head q = 0 \<and> q_size q = 0"
      using ring need buf(2) by auto
  qed (use buf in simp_all)
next
  case False
  then show ?thesis
    using wf by (intro that [of "q_buffer q"]) (auto simp: queue_wf_def queue_bytes_def)
qed

lemma ring_list_after_write:
  assumes "ring_write buf pos p = Some buf'" and len: "length buf' = length buf"
    and nth: "\<And>i. i < length buf \<Longrightarrow> buf' ! ((h + i) mod length buf) =
      (if n \<le> i \<and> i < n + length p then p ! (i - n) else buf ! ((h + i) mod length buf))"
    and "n + length p \<le> length buf"
  shows "ring_list buf' h (n + length p) = ring_list buf h n @ p"
  using assms by (auto intro!: nth_equalityI simp: nth_append)

text \<open>
  Appending to a queue with room: the payload goes behind the bytes, and a clock for its first
  byte behind the clocks.
\<close>

lemma queue_append_ok:
  assumes wf: "queue_wf q" and fit: "q_size q + length p \<le> q_capacity q"
  obtains q' where "queue_append q p rto now = Some (Ok (), q')" and "queue_wf q'"
    and "queue_bytes q' = queue_bytes q @ p"
    and "q_sequence q' = q_sequence q" and "q_capacity q' = q_capacity q"
    and "q_clocks q' = q_clocks q @ [(queue_recv_next q, timer_new now rto)]"
    and "q_retrans q' = q_retrans q"
proof -
  note sizes = queue_wf_sizes [OF wf]
  obtain buf where buf: "(if length p > length (q_buffer q) - q_size q
      then uadd (q_size q) (length p) \<bind>
        (\<lambda>need. ring_extend (q_buffer q) (q_head q) (queue_tail q) (q_capacity q) need)
      else Some (q_buffer q)) = Some buf"
    "q_size q + length p \<le> length buf" "length buf \<le> q_capacity q"
    "ring_list buf (q_head q) (q_size q) = queue_bytes q"
    "q_head q < length buf \<or> buf = [] \<and> p = [] \<and> q_head q = 0 \<and> q_size q = 0"
    using queue_room [OF wf fit] by blast
  define pos where "pos = ring_pos (length buf) (q_head q) (q_size q)"
  have pos: "pos = (if length buf \<le> q_head q + q_size q
      then q_head q + q_size q - length buf else q_head q + q_size q)"
    using sizes by (simp add: pos_def ring_pos_eq)
  obtain buf' where buf': "ring_write buf pos p = Some buf'" "length buf' = length buf"
    "ring_list buf' (q_head q) (q_size q + length p) = queue_bytes q @ p"
  proof (cases "q_head q < length buf")
    case True
    from ring_write_at [OF True buf(2) pos] obtain buf' where
      w: "ring_write buf pos p = Some buf'" "length buf' = length buf"
      and nth: "\<And>i. i < length buf \<Longrightarrow> buf' ! ((q_head q + i) mod length buf) =
        (if q_size q \<le> i \<and> i < q_size q + length p then p ! (i - q_size q)
         else buf ! ((q_head q + i) mod length buf))"
      by blast
    from ring_list_after_write [OF w nth buf(2)] show ?thesis
      using that [OF w] buf(4) by simp
  next
    case False
    with buf(5) pos have "ring_write buf pos p = Some []" "buf = []" "p = []" "q_size q = 0"
      by (auto simp: ring_write_def usub_def write_slice_def)
    then show ?thesis by (intro that) (auto simp: queue_bytes_def)
  qed
  define q' where "q' = q\<lparr>q_buffer := buf', q_size := q_size q + length p,
    q_clocks := q_clocks q @ [(queue_recv_next q, timer_new now rto)]\<rparr>"
  show ?thesis
  proof (rule that)
    show "queue_append q p rto now = Some (Ok (), q')"
      using fit sizes buf(1) buf'(1) wf
      by (simp add: queue_append_def queue_remaining_def usub_def uadd_def queue_wf_def
          queue_tail_def queue_recv_next_def q'_def flip: pos_def)
    show "queue_wf q'" using wf buf(2,3,5) buf'(2) by (auto simp: queue_wf_def q'_def)
    show "queue_bytes q' = queue_bytes q @ p"
      using buf'(3) by (subst queue_bytes_def) (simp add: q'_def)
  qed (simp_all add: q'_def)
qed

lemma queue_append_full:
  assumes "queue_wf q" and "q_capacity q < q_size q + length p"
  shows "queue_append q p rto now = Some (Err (IoError Other ''queue is full''), q)"
proof -
  have "q_size q \<le> q_capacity q" "q_capacity q - q_size q < length p"
    using assms queue_wf_sizes(1) [OF assms(1)] by linarith+
  then show ?thesis by (simp add: queue_append_def queue_remaining_def usub_def)
qed

section \<open>Reading\<close>

lemma queue_get_ok:
  assumes wf: "queue_wf q" and d: "seq_dist sequence (q_sequence q) + n \<le> q_size q"
  shows "queue_get q sequence n =
    Some (Ok (take n (drop (seq_dist sequence (q_sequence q)) (queue_bytes q))))"
proof (cases "n = 0")
  case True
  then show ?thesis by (simp add: queue_get_def)
next
  case False
  define d where "d = seq_dist sequence (q_sequence q)"
  define h where "h = (if length (q_buffer q) \<le> q_head q + d
    then q_head q + d - length (q_buffer q) else q_head q + d)"
  note sizes = queue_wf_sizes [OF wf]
  have head: "q_head q < length (q_buffer q)" "q_size q \<le> length (q_buffer q)"
    using wf d False by (auto simp: queue_wf_def)
  have h: "h < length (q_buffer q)" "h = (q_head q + d) mod length (q_buffer q)"
    using head d False by (auto simp: h_def d_def mod_if)
  have "ring_read (q_buffer q) h n = Some (ring_list (q_buffer q) h n)"
    using h head d by (intro ring_read_eq) auto
  moreover have "take n (drop d (queue_bytes q)) = ring_list (q_buffer q) h n"
    using d by (simp add: queue_bytes_def ring_list_drop ring_list_take h(2) d_def)
  moreover have "uadd (q_head q) d = Some (q_head q + d)"
    using sizes d by (auto simp: uadd_def d_def)
  ultimately show ?thesis
    using d False by (simp add: queue_get_def checked_sub_nat_def h_def flip: d_def split: if_splits)
qed

lemma queue_get_errors:
  "0 < n \<Longrightarrow> q_size q < seq_dist sequence (q_sequence q) \<Longrightarrow> queue_get q sequence n =
     Some (Err (IoError InvalidInput ''queue at the certain sequence does not exist''))"
  "0 < n \<Longrightarrow> seq_dist sequence (q_sequence q) \<le> q_size q \<Longrightarrow>
     q_size q < seq_dist sequence (q_sequence q) + n \<Longrightarrow>
     queue_get q sequence n = Some (Err (IoError InvalidInput ''request size too big''))"
  by (auto simp: queue_get_def Let_def)

lemma queue_get_all_ok: "queue_wf q \<Longrightarrow> queue_get_all q = Some (queue_bytes q)"
  using queue_get_ok [of q "q_sequence q" "q_size q"] by (simp add: queue_get_all_def)

section \<open>Clocks\<close>

text \<open>
  The clocks are in order of their sequence numbers, all of them between the first byte of the
  queue and the byte after its last.
\<close>

definition clock_offsets :: "u32 \<Rightarrow> clock list \<Rightarrow> nat list" where
  "clock_offsets s cs = map (\<lambda>c. seq_dist (fst c) s) cs"

definition clocks_ok :: "u32 \<Rightarrow> usize \<Rightarrow> clock list \<Rightarrow> bool" where
  "clocks_ok s n cs \<longleftrightarrow>
     map fst cs = map (seq_adv s) (clock_offsets s cs) \<and> sorted (clock_offsets s cs) \<and>
     list_all (\<lambda>k. k \<le> n) (clock_offsets s cs)"

lemma clock_offsets_adv:
  assumes "map fst cs = map (seq_adv s) ks" and "\<forall>k\<in>set ks. k < 4294967295"
  shows "clock_offsets s cs = ks"
proof -
  have "clock_offsets s cs = map (\<lambda>t. seq_dist t s) (map fst cs)"
    by (simp add: clock_offsets_def comp_def)
  also have "\<dots> = map (\<lambda>k. seq_dist (seq_adv s k) s) ks"
    using assms(1) by (simp add: comp_def)
  also have "\<dots> = ks"
    using assms(2) by (auto simp: seq.dist_adv intro: map_idI)
  finally show ?thesis .
qed

lemma clocks_okI:
  assumes "map fst cs = map (seq_adv s) ks" and "sorted ks" and "\<forall>k\<in>set ks. k \<le> n"
    and "n < 4294967295"
  shows "clocks_ok s n cs"
  using assms clock_offsets_adv [OF assms(1)] by (fastforce simp: clocks_ok_def list_all_iff)

lemma clocks_okE:
  assumes "clocks_ok s n cs"
  obtains ks where "map fst cs = map (seq_adv s) ks" and "sorted ks" and "\<forall>k\<in>set ks. k \<le> n"
  using assms by (auto simp: clocks_ok_def list_all_iff)

lemma clocks_ok_snoc:
  assumes "clocks_ok s n cs" and "n \<le> n'" and "n' < 4294967295"
  shows "clocks_ok s n' (cs @ [(seq_adv s n, t)])"
proof -
  from assms(1) obtain ks where "map fst cs = map (seq_adv s) ks" "sorted ks" "\<forall>k\<in>set ks. k \<le> n"
    by (rule clocks_okE)
  with assms(2,3) show ?thesis
    by (intro clocks_okI [of _ _ "ks @ [n]"]) (auto simp: sorted_append)
qed

lemma seq_rebase_map:
  assumes "\<forall>k\<in>set ks. seq_dist t s < k \<and> k < 4294967295"
  shows "map (seq_adv s) ks = map (seq_adv t) (map (\<lambda>k. k - seq_dist t s) ks)"
  using assms by (auto simp: seq.adv_rebase)

lemma pop_clocks_ok:
  fixes t s :: u32
  defines "d \<equiv> seq_dist t s"
  assumes "map fst cs = map (seq_adv s) ks" and "sorted ks" and "\<forall>k\<in>set ks. k \<le> n"
    and n: "n + MAX_U32_WINDOW_SIZE < 4294967295" and d: "d \<le> MAX_U32_WINDOW_SIZE"
    and rn: "rn = seq_adv t (n - d)"
  shows "\<exists>ks'. map fst (fst (pop_clocks t rn retrans now cs rtt)) = map (seq_adv t) ks' \<and>
    sorted ks' \<and> (\<forall>k\<in>set ks'. k \<le> n - d)"
  using assms(2-4)
proof (induction cs arbitrary: ks rtt)
  case Nil
  then show ?case by (intro exI [of _ "[]"]) simp
next
  case (Cons c cs)
  from Cons.prems(1) obtain k ks' where ks: "ks = k # ks'" "fst c = seq_adv s k"
      "map fst cs = map (seq_adv s) ks'"
    by (cases ks) auto
  have small: "\<forall>j\<in>set ks. j + MAX_U32_WINDOW_SIZE < 4294967295"
    using Cons.prems(3) n by force
  have rest: "\<exists>js. map fst (c' # cs) = map (seq_adv t) js \<and> sorted js \<and> (\<forall>j\<in>set js. j \<le> n - d)"
    if "fst c' = seq_adv t j" "j \<le> n - d" "\<forall>i\<in>set ks'. d < i \<and> j \<le> i - d" for c' j
  proof (intro exI [of _ "j # map (\<lambda>i. i - d) ks'"] conjI)
    have "\<forall>i\<in>set ks'. seq_dist t s < i \<and> i < 4294967295"
      using that(3) small by (auto simp: ks(1) d_def)
    then have "map (seq_adv s) ks' = map (seq_adv t) (map (\<lambda>i. i - seq_dist t s) ks')"
      by (rule seq_rebase_map)
    then show "map fst (c' # cs) = map (seq_adv t) (j # map (\<lambda>i. i - d) ks')"
      using that(1) ks(3) by (simp add: d_def)
    show "sorted (j # map (\<lambda>i. i - d) ks')"
      using Cons.prems(2) that(3) by (auto simp: ks(1) sorted_map intro: sorted_wrt_mono_rel [of ks' "(\<le>)"])
    show "\<forall>i\<in>set (j # map (\<lambda>i. i - d) ks'). i \<le> n - d"
      using that Cons.prems(3) by (auto simp: ks(1) intro: diff_le_mono)
  qed
  have in_k: "seq_dist t (fst c) \<le> MAX_U32_WINDOW_SIZE \<longleftrightarrow> k \<le> d"
    using d small by (simp add: ks seq_within_base_iff d_def)
  show ?case
  proof (cases "k \<le> d")
    case False
    then have "\<exists>js. map fst (c # cs) = map (seq_adv t) js \<and> sorted js \<and> (\<forall>j\<in>set js. j \<le> n - d)"
    proof (intro rest [of c "k - d"])
      show "fst c = seq_adv t (k - d)"
        using False small by (simp add: ks seq.adv_rebase d_def)
      show "k - d \<le> n - d" using Cons.prems(3) by (auto simp: ks)
      show "\<forall>i\<in>set ks'. d < i \<and> k - d \<le> i - d" using False Cons.prems(2) by (fastforce simp: ks)
    qed
    with False in_k show ?thesis by simp
  next
    case True
    define nxt where "nxt = (case cs of [] \<Rightarrow> rn | c' # _ \<Rightarrow> fst c')"
    have beyond: "\<forall>i\<in>set ks'. d < i" if "\<not> seq_dist t nxt \<le> MAX_U32_WINDOW_SIZE"
    proof (cases ks')
      case (Cons k' ks'')
      with ks(3) have "nxt = seq_adv s k'" by (auto simp: nxt_def)
      with that Cons d small have "d < k'"
        by (auto simp: ks seq_within_base_iff d_def)
      with Cons Cons.prems(2) show ?thesis by (fastforce simp: ks)
    qed simp
    show ?thesis
    proof (cases "seq_dist t nxt \<le> MAX_U32_WINDOW_SIZE")
      case popped: True
      have "sorted ks'" "\<forall>k\<in>set ks'. k \<le> n" using Cons.prems(2,3) by (auto simp: ks)
      from Cons.IH [OF ks(3) this] True popped in_k show ?thesis
        by (simp add: Let_def flip: nxt_def)
    next
      case False
      from rest [of "(t, snd c)" 0] beyond [OF False]
      have "\<exists>js. map fst ((t, snd c) # cs) = map (seq_adv t) js \<and> sorted js \<and> (\<forall>j\<in>set js. j \<le> n - d)"
        by simp
      with True False in_k show ?thesis
        by (simp add: Let_def flip: nxt_def)
    qed
  qed
qed

lemma update_clocks_ok:
  assumes "map fst cs = map (seq_adv s) ks" and "sorted ks" and "\<forall>k\<in>set ks. k \<le> n"
  shows "\<exists>ks'. map fst (update_clocks s rn rto now cs) = map (seq_adv s) ks' \<and> sorted ks' \<and>
    (\<forall>k\<in>set ks'. k \<le> n)"
  using assms
proof (induction cs arbitrary: ks)
  case Nil
  then show ?case by (intro exI [of _ "[]"]) simp
next
  case (Cons c cs)
  then obtain k ks' where ks: "ks = k # ks'" "fst c = seq_adv s k" "map fst cs = map (seq_adv s) ks'"
    by (cases ks) auto
  show ?case
  proof (cases "seq_dist rn (fst c) \<le> MAX_U32_WINDOW_SIZE")
    case True
    then show ?thesis using Cons.IH [OF ks(3)] Cons.prems(2,3) by (simp add: ks)
  next
    case False
    then show ?thesis using Cons.prems by (intro exI [of _ "0 # ks"]) auto
  qed
qed

lemma first_unexpired_mem:
  "first_unexpired now cs = Some s \<Longrightarrow> \<exists>c\<in>set cs. fst c = s \<and> \<not> timer_is_timedout now (snd c)"
  by (induction cs) (auto split: if_splits)

section \<open>Invalidating\<close>

text \<open>
  Acknowledging up to a sequence number at most \<open>MAX_U32_WINDOW_SIZE\<close> ahead drops the bytes
  before it; any other number leaves the queue as it is.
\<close>

lemma queue_invalidate_to_ok:
  assumes wf: "queue_wf q" and d: "seq_dist sequence (q_sequence q) \<le> MAX_U32_WINDOW_SIZE"
  obtains rtt q' where "queue_invalidate_to q sequence now = Some (rtt, q')" and "queue_wf q'"
    and "queue_bytes q' = drop (seq_dist sequence (q_sequence q)) (queue_bytes q)"
    and "q_sequence q' = sequence" and "q_capacity q' = q_capacity q"
    and "(q_clocks q', rtt) = pop_clocks sequence
      (seq_adv sequence (q_size q - seq_dist sequence (q_sequence q))) (q_retrans q) now (q_clocks q) None"
    and "q_retrans q' = (case q_retrans q of None \<Rightarrow> None
      | Some r \<Rightarrow> if seq_dist sequence r \<le> MAX_U32_WINDOW_SIZE then None else Some r)"
proof -
  define d where "d = seq_dist sequence (q_sequence q)"
  define L where "L = length (q_buffer q)"
  define h where "h = (if q_size q \<le> d then 0 else (q_head q + d) mod L)"
  define res where "res = pop_clocks sequence (seq_adv sequence (q_size q - d))
    (q_retrans q) now (q_clocks q) None"
  define q' where "q' = q\<lparr>q_sequence := sequence, q_size := q_size q - d, q_head := h,
    q_clocks := fst res, q_retrans := (case q_retrans q of None \<Rightarrow> None
      | Some r \<Rightarrow> if seq_dist sequence r \<le> MAX_U32_WINDOW_SIZE then None else Some r)\<rparr>"
  note sizes = queue_wf_sizes [OF wf]
  have size: "unwrap_or (checked_sub_nat (q_size q) d) 0 = q_size q - d"
    by (simp add: checked_sub_nat_def)
  have head: "queue_next_head (q\<lparr>q_sequence := sequence, q_size := q_size q - d\<rparr>) d = Some h"
  proof (cases "q_size q \<le> d")
    case False
    then have L: "q_head q < L" "0 < L" using wf by (auto simp: queue_wf_def L_def)
    then have "d mod L < L" by simp
    moreover have "L < 4294967295" using wf by (simp add: queue_wf_def L_def)
    ultimately have "q_head q + d mod L \<le> USIZE_MAX"
      using L unfolding USIZE_MAX_def by linarith
    with False L show ?thesis
      by (simp add: queue_next_head_def h_def umod_def uadd_def mod_simps flip: L_def)
  qed (simp add: queue_next_head_def h_def)
  show ?thesis
  proof (rule that)
    show "queue_invalidate_to q sequence now = Some (snd res, q')"
      using assms(2) head
      by (cases "q_retrans q") (auto simp: queue_invalidate_to_def size Let_def res_def q'_def
          queue_recv_next_def simp flip: d_def L_def split: prod.splits)
    have "\<not> q_size q \<le> d \<Longrightarrow> h < L"
      using wf by (auto simp: queue_wf_def h_def L_def intro!: mod_less_divisor)
    then show "queue_wf q'" using wf by (auto simp: queue_wf_def q'_def h_def L_def)
    show "queue_bytes q' = drop (seq_dist sequence (q_sequence q)) (queue_bytes q)"
      by (auto simp: queue_bytes_def q'_def h_def L_def ring_list_drop simp flip: d_def)
  qed (simp_all add: q'_def res_def flip: d_def)
qed

lemma queue_invalidate_to_ignored:
  "MAX_U32_WINDOW_SIZE < seq_dist sequence (q_sequence q) \<Longrightarrow>
     queue_invalidate_to q sequence now = Some (None, q)"
  by (simp add: queue_invalidate_to_def)

text \<open>Karn's rule: no round-trip time while the retransmitted range is not acknowledged.\<close>

lemma pop_clocks_no_sample:
  "seq_dist r t \<le> MAX_U32_WINDOW_SIZE \<Longrightarrow> snd (pop_clocks t rn (Some r) now cs None) = None"
  by (induction cs) (simp_all add: Let_def)

section \<open>The invariant\<close>

definition queue_inv :: "queue \<Rightarrow> bool" where
  "queue_inv q \<longleftrightarrow> queue_wf q \<and> clocks_ok (q_sequence q) (q_size q) (q_clocks q)"

lemma queue_inv_wf [dest, simp]: "queue_inv q \<Longrightarrow> queue_wf q"
  by (simp add: queue_inv_def)

lemma queue_inv_with_capacity:
  assumes "capacity + MAX_U32_WINDOW_SIZE < 4294967295"
  obtains q where "queue_with_capacity capacity sequence = Some q" and "queue_inv q"
    and "queue_bytes q = []" and "q_sequence q = sequence" and "q_capacity q = capacity"
proof
  define q where "q = \<lparr>q_buffer = [], q_capacity = capacity, q_sequence = sequence, q_head = 0,
    q_size = 0, q_clocks = [], q_retrans = None\<rparr>"
  show "queue_with_capacity capacity sequence = Some q"
    using assms by (simp add: queue_with_capacity_def vec_deque_with_capacity_def q_def)
  show "queue_inv q"
    using assms by (simp add: queue_inv_def queue_wf_def clocks_ok_def clock_offsets_def q_def)
qed (simp_all add: queue_bytes_def)

lemma queue_append_inv:
  assumes inv: "queue_inv q" and fit: "q_size q + length p \<le> q_capacity q"
  obtains q' where "queue_append q p rto now = Some (Ok (), q')" and "queue_inv q'"
    and "queue_bytes q' = queue_bytes q @ p"
    and "q_sequence q' = q_sequence q" and "q_capacity q' = q_capacity q"
proof -
  from queue_append_ok [OF queue_inv_wf [OF inv] fit, of rto now] obtain q' where
    q': "queue_append q p rto now = Some (Ok (), q')" "queue_wf q'"
      "queue_bytes q' = queue_bytes q @ p" "q_sequence q' = q_sequence q" "q_capacity q' = q_capacity q"
      "q_clocks q' = q_clocks q @ [(queue_recv_next q, timer_new now rto)]"
    by blast
  have "q_size q' = q_size q + length p"
    using arg_cong [OF q'(3), of length] by simp
  then have "clocks_ok (q_sequence q') (q_size q') (q_clocks q')"
    using inv queue_wf_sizes(2) [OF q'(2)] unfolding q'(4,6) queue_recv_next_def
    by (intro clocks_ok_snoc) (auto simp: queue_inv_def)
  with q' show ?thesis by (intro that [of q']) (simp_all add: queue_inv_def)
qed

lemma queue_invalidate_inv:
  assumes inv: "queue_inv q"
  obtains rtt q' where "queue_invalidate_to q sequence now = Some (rtt, q')" and "queue_inv q'"
    and "q_capacity q' = q_capacity q"
    and "q_sequence q' = (if seq_dist sequence (q_sequence q) \<le> MAX_U32_WINDOW_SIZE
      then sequence else q_sequence q)"
    and "queue_bytes q' = (if seq_dist sequence (q_sequence q) \<le> MAX_U32_WINDOW_SIZE
      then drop (seq_dist sequence (q_sequence q)) (queue_bytes q) else queue_bytes q)"
proof (cases "seq_dist sequence (q_sequence q) \<le> MAX_U32_WINDOW_SIZE")
  case True
  from queue_invalidate_to_ok [OF queue_inv_wf [OF inv] True, of now] obtain rtt q' where
    q': "queue_invalidate_to q sequence now = Some (rtt, q')" "queue_wf q'"
      "queue_bytes q' = drop (seq_dist sequence (q_sequence q)) (queue_bytes q)"
      "q_sequence q' = sequence" "q_capacity q' = q_capacity q"
      "(q_clocks q', rtt) = pop_clocks sequence
        (seq_adv sequence (q_size q - seq_dist sequence (q_sequence q))) (q_retrans q) now (q_clocks q) None"
    by blast
  have size: "q_size q' = q_size q - seq_dist sequence (q_sequence q)"
    using arg_cong [OF q'(3), of length] by simp
  obtain ks where "map fst (q_clocks q) = map (seq_adv (q_sequence q)) ks" "sorted ks"
      "\<forall>k\<in>set ks. k \<le> q_size q"
    using inv by (auto simp: queue_inv_def elim: clocks_okE)
  from pop_clocks_ok [OF this queue_wf_sizes(2) [OF queue_inv_wf [OF inv]] True refl]
  have "\<exists>ks'. map fst (q_clocks q') = map (seq_adv sequence) ks' \<and> sorted ks' \<and>
      (\<forall>k\<in>set ks'. k \<le> q_size q')"
    unfolding size by (metis fst_conv q'(6))
  then have "clocks_ok (q_sequence q') (q_size q') (q_clocks q')"
    using queue_wf_sizes(2) [OF q'(2)] q'(4) by (auto intro: clocks_okI)
  with q' True show ?thesis by (intro that) (simp_all add: queue_inv_def)
next
  case False
  with inv show ?thesis by (intro that) (simp_all add: queue_invalidate_to_ignored)
qed

lemma queue_timed_out_inv:
  assumes inv: "queue_inv q"
  obtains k q' where "queue_get_timed_out_and_update q rto now = Some (take k (queue_bytes q), q')"
    and "k \<le> q_size q" and "queue_inv q'" and "queue_bytes q' = queue_bytes q"
    and "q_sequence q' = q_sequence q" and "q_capacity q' = q_capacity q"
    and "k = (case first_unexpired now (q_clocks q) of None \<Rightarrow> q_size q
      | Some s \<Rightarrow> seq_dist s (q_sequence q))"
proof (cases "first_unexpired now (q_clocks q)")
  case None
  define q' where "q' = q\<lparr>q_clocks := [(q_sequence q, timer_new now rto)],
    q_retrans := Some (queue_recv_next q)\<rparr>"
  have "queue_inv q'"
    using inv by (auto simp: queue_inv_def queue_wf_def clocks_ok_def clock_offsets_def q'_def)
  moreover have "queue_bytes q' = queue_bytes q" by (simp add: queue_bytes_def q'_def)
  ultimately show ?thesis
    using None queue_get_all_ok [of q']
    by (intro that [of "q_size q" q']) (simp_all add: queue_get_timed_out_and_update_def q'_def)
next
  case (Some s)
  define n where "n = seq_dist s (q_sequence q)"
  define q' where "q' = q\<lparr>q_clocks := update_clocks (q_sequence q) s rto now (q_clocks q),
    q_retrans := Some s\<rparr>"
  note sizes = queue_wf_sizes [OF queue_inv_wf [OF inv]]
  obtain ks where ks: "map fst (q_clocks q) = map (seq_adv (q_sequence q)) ks" "sorted ks"
      "\<forall>k\<in>set ks. k \<le> q_size q"
    using inv by (auto simp: queue_inv_def elim: clocks_okE)
  have "clocks_ok (q_sequence q') (q_size q') (q_clocks q')"
    using update_clocks_ok [OF ks, of s rto now] sizes(2) by (auto simp: q'_def intro: clocks_okI)
  then have inv': "queue_inv q'" using inv by (simp add: queue_inv_def queue_wf_def q'_def)
  have bytes: "queue_bytes q' = queue_bytes q" by (simp add: queue_bytes_def q'_def)
  have "s \<in> set (map fst (q_clocks q))" using first_unexpired_mem [OF Some] by auto
  then obtain k where "s = seq_adv (q_sequence q) k" "k \<le> q_size q" using ks by auto
  then have n: "n \<le> q_size q" using sizes by (simp add: n_def seq.dist_adv)
  have "queue_get q' (q_sequence q') n = Some (Ok (take n (queue_bytes q)))"
    using queue_get_ok [of q' "q_sequence q'" n] inv' n bytes by (simp add: q'_def)
  then show ?thesis
    using Some n inv' bytes
    by (intro that [of n q'])
      (simp_all add: queue_get_timed_out_and_update_def Let_def q'_def n_def)
qed

section \<open>The contract of a send cache\<close>

locale send_cache =
  fixes append :: "'q \<Rightarrow> u8 list \<Rightarrow> u64 \<Rightarrow> instant \<Rightarrow> (unit, 'q) outcome"
    and invalidate_to :: "'q \<Rightarrow> u32 \<Rightarrow> instant \<Rightarrow> (duration option \<times> 'q) option"
    and get :: "'q \<Rightarrow> u32 \<Rightarrow> usize \<Rightarrow> u8 list io_result option"
    and timed_out :: "'q \<Rightarrow> u64 \<Rightarrow> instant \<Rightarrow> (u8 list \<times> 'q) option"
    and bytes :: "'q \<Rightarrow> u8 list"
    and base :: "'q \<Rightarrow> u32"
    and cap :: "'q \<Rightarrow> usize"
    and invar :: "'q \<Rightarrow> bool"
  assumes append_room: "invar q \<Longrightarrow> length (bytes q) + length p \<le> cap q \<Longrightarrow>
      \<exists>q'. append q p rto now = Some (Ok (), q') \<and> invar q' \<and> bytes q' = bytes q @ p \<and>
        base q' = base q \<and> cap q' = cap q"
    and append_no_room: "invar q \<Longrightarrow> cap q < length (bytes q) + length p \<Longrightarrow>
      \<exists>e. append q p rto now = Some (Err e, q)"
    and invalidate: "invar q \<Longrightarrow> \<exists>rtt q'. invalidate_to q s now = Some (rtt, q') \<and> invar q' \<and>
      cap q' = cap q \<and>
      (if seq_dist s (base q) \<le> MAX_U32_WINDOW_SIZE
       then base q' = s \<and> bytes q' = drop (seq_dist s (base q)) (bytes q)
       else base q' = base q \<and> bytes q' = bytes q)"
    and get_range: "invar q \<Longrightarrow> seq_dist s (base q) + n \<le> length (bytes q) \<Longrightarrow>
      get q s n = Some (Ok (take n (drop (seq_dist s (base q)) (bytes q))))"
    and timed_out_prefix: "invar q \<Longrightarrow> \<exists>k q'. timed_out q rto now = Some (take k (bytes q), q') \<and>
      invar q' \<and> bytes q' = bytes q \<and> base q' = base q \<and> cap q' = cap q"
    and bounded: "invar q \<Longrightarrow> length (bytes q) \<le> cap q"
    and cap_bounded: "invar q \<Longrightarrow> cap q < 4294967295"
begin

text \<open>What has been appended last is found at the old end of the cache.\<close>

lemma get_appended:
  assumes "invar q" and "append q p rto now = Some (Ok (), q')"
  shows "get q' (seq_adv (base q) (length (bytes q))) (length p) = Some (Ok p)"
proof -
  have fit: "length (bytes q) + length p \<le> cap q"
    using append_no_room [OF assms(1), of p rto now] assms(2) by (cases "cap q < length (bytes q) + length p") auto
  with append_room [OF assms(1) fit, of rto now] assms(2)
  have q': "invar q'" "bytes q' = bytes q @ p" "base q' = base q" by auto
  have "length (bytes q) < 4294967295"
    using fit cap_bounded [OF assms(1)] by simp
  then show ?thesis
    using get_range [OF q'(1), of "seq_adv (base q) (length (bytes q))" "length p"] q'
    by (simp add: seq.dist_adv)
qed

text \<open>No operation fails with a panic.\<close>

lemma total:
  assumes "invar q"
  shows "append q p rto now \<noteq> None" and "invalidate_to q s now \<noteq> None"
    and "timed_out q rto now \<noteq> None"
  using append_room [OF assms, of p rto now] append_no_room [OF assms, of p rto now]
    invalidate [OF assms, of s now] timed_out_prefix [OF assms, of rto now]
  by (cases "length (bytes q) + length p \<le> cap q"; auto)+

lemma preserved:
  assumes "invar q"
  shows "append q p rto now = Some (r, q') \<Longrightarrow> invar q'"
    and "invalidate_to q s now = Some (rtt, q') \<Longrightarrow> invar q'"
    and "timed_out q rto now = Some (xs, q') \<Longrightarrow> invar q'"
  using append_room [OF assms, of p rto now] append_no_room [OF assms, of p rto now]
    invalidate [OF assms, of s now] timed_out_prefix [OF assms, of rto now] assms
  by (cases "length (bytes q) + length p \<le> cap q"; auto)+

text \<open>Moving a prefix of a backlog into the cache loses and reorders nothing.\<close>

lemma append_conserves:
  assumes "invar q" and "append q (take n xs) rto now = Some (Ok (), q')"
  shows "bytes q' @ drop n xs = bytes q @ xs"
  using append_room [OF assms(1), of "take n xs" rto now]
    append_no_room [OF assms(1), of "take n xs" rto now] assms(2)
  by (cases "length (bytes q) + length (take n xs) \<le> cap q") auto

lemma invalidate_suffix:
  assumes "invar q" and "invalidate_to q s now = Some (rtt, q')"
  shows "\<exists>k. bytes q' = drop k (bytes q)"
proof -
  have "bytes q' = drop (if seq_dist s (base q) \<le> MAX_U32_WINDOW_SIZE then seq_dist s (base q) else 0) (bytes q)"
    using invalidate [OF assms(1), of s now] assms(2) by (auto split: if_splits)
  then show ?thesis by blast
qed

end

interpretation sq: send_cache queue_append queue_invalidate_to queue_get
  queue_get_timed_out_and_update queue_bytes q_sequence q_capacity queue_inv
proof unfold_locales
  fix q :: queue and p :: "u8 list" and rto now :: nat and s :: u32 and n :: usize
  assume inv: "queue_inv q"
  show "\<exists>q'. queue_append q p rto now = Some (Ok (), q') \<and> queue_inv q' \<and>
      queue_bytes q' = queue_bytes q @ p \<and> q_sequence q' = q_sequence q \<and> q_capacity q' = q_capacity q"
    if "length (queue_bytes q) + length p \<le> q_capacity q"
    using queue_append_inv [OF inv, of p rto now] that by (metis length_queue_bytes)
  show "\<exists>e. queue_append q p rto now = Some (Err e, q)"
    if "q_capacity q < length (queue_bytes q) + length p"
    using queue_append_full [OF queue_inv_wf [OF inv], of p rto now] that by auto
  show "\<exists>rtt q'. queue_invalidate_to q s now = Some (rtt, q') \<and> queue_inv q' \<and>
      q_capacity q' = q_capacity q \<and>
      (if seq_dist s (q_sequence q) \<le> MAX_U32_WINDOW_SIZE
       then q_sequence q' = s \<and> queue_bytes q' = drop (seq_dist s (q_sequence q)) (queue_bytes q)
       else q_sequence q' = q_sequence q \<and> queue_bytes q' = queue_bytes q)"
    by (rule queue_invalidate_inv [OF inv, of s now]) auto
  show "queue_get q s n = Some (Ok (take n (drop (seq_dist s (q_sequence q)) (queue_bytes q))))"
    if "seq_dist s (q_sequence q) + n \<le> length (queue_bytes q)"
    using queue_get_ok [OF queue_inv_wf [OF inv]] that by simp
  show "\<exists>k q'. queue_get_timed_out_and_update q rto now = Some (take k (queue_bytes q), q') \<and>
      queue_inv q' \<and> queue_bytes q' = queue_bytes q \<and> q_sequence q' = q_sequence q \<and>
      q_capacity q' = q_capacity q"
    by (rule queue_timed_out_inv [OF inv, of rto now]) auto
  show "length (queue_bytes q) \<le> q_capacity q" "q_capacity q < 4294967295"
    using inv by (auto simp: queue_inv_def queue_wf_def)
qed

section \<open>Reachable queues\<close>

inductive queue_step :: "queue \<Rightarrow> queue \<Rightarrow> bool" where
  step_append: "queue_append q p rto now = Some (r, q') \<Longrightarrow> queue_step q q'"
| step_invalidate: "queue_invalidate_to q s now = Some (rtt, q') \<Longrightarrow> queue_step q q'"
| step_timed_out: "queue_get_timed_out_and_update q rto now = Some (xs, q') \<Longrightarrow> queue_step q q'"

inductive queue_reachable :: "usize \<Rightarrow> u32 \<Rightarrow> queue \<Rightarrow> bool" for capacity sequence where
  reachable_new: "queue_with_capacity capacity sequence = Some q \<Longrightarrow>
    queue_reachable capacity sequence q"
| reachable_step: "queue_reachable capacity sequence q \<Longrightarrow> queue_step q q' \<Longrightarrow>
    queue_reachable capacity sequence q'"

lemma queue_step_inv: "queue_step q q' \<Longrightarrow> queue_inv q \<Longrightarrow> queue_inv q'"
  by (induction rule: queue_step.induct) (auto intro: sq.preserved)

lemma queue_reachable_inv:
  assumes "queue_reachable capacity sequence q" and "capacity + MAX_U32_WINDOW_SIZE < 4294967295"
  shows "queue_inv q"
  using assms
proof (induction rule: queue_reachable.induct)
  case (reachable_new q)
  then show ?case by (metis queue_inv_with_capacity option.inject)
next
  case (reachable_step q q')
  then show ?case by (blast intro: queue_step_inv)
qed

section \<open>Properties\<close>

text \<open>A queue used by the witnesses: five bytes, two of them wrapped to the front of the buffer.\<close>

definition sample_queue :: queue where
  "sample_queue = \<lparr>q_buffer = [14, 15, 0, 11, 12, 13], q_capacity = 9, q_sequence = 4294967293,
     q_head = 3, q_size = 5,
     q_clocks = [(4294967293, \<lparr>t_instant = 10, t_timeout = 20\<rparr>),
                 (seq_adv 4294967293 3, \<lparr>t_instant = 90, t_timeout = 20\<rparr>)],
     q_retrans = None\<rparr>"

lemma sample_queue_sel [simp]:
  "q_sequence sample_queue = 4294967293" "q_size sample_queue = 5" "q_capacity sample_queue = 9"
  by (simp_all add: sample_queue_def)

lemma sample_queue_inv: "queue_inv sample_queue"
  by (simp add: sample_queue_def queue_inv_def queue_wf_def clocks_ok_def clock_offsets_def
      MAX_U32_WINDOW_SIZE_def seq_adv_def seq_add_def checked_add_u32_def seq_dist_def
      seq_sub_def checked_sub_u32_def U32_MAX_def word_le_nat_alt)

lemma sample_queue_bytes: "queue_bytes sample_queue = [11, 12, 13, 14, 15]"
  by (simp add: sample_queue_def queue_bytes_def ring_list_def upt_rec)

lemma queue_get_total: "queue_wf q \<Longrightarrow> queue_get q s n \<noteq> None"
  using queue_get_ok [of q s n] queue_get_errors [where q = q and sequence = s and n = n]
  by (cases "n = 0"; cases "seq_dist s (q_sequence q) + n \<le> q_size q";
      cases "q_size q < seq_dist s (q_sequence q)") (auto simp: queue_get_def)

text \<open>
  In every state a send cache can reach from its creation by appending, acknowledging and
  collecting timed out data, in any order, the ring buffer and its clocks are well-formed, none
  of the operations panics (no index out of range, no overflow, no failing \<open>unwrap\<close>), and
  \<open>get_all\<close> returns all its bytes.
\<close>

theorem queue_reachable_safe:
  assumes "queue_reachable capacity sequence q" and "capacity + MAX_U32_WINDOW_SIZE < 4294967295"
  shows "queue_inv q \<and> queue_append q p rto now \<noteq> None \<and> queue_invalidate_to q s now \<noteq> None \<and>
    queue_get_timed_out_and_update q rto now \<noteq> None \<and> queue_get q s n \<noteq> None \<and>
    queue_get_all q = Some (queue_bytes q)"
proof -
  have inv: "queue_inv q" using assms by (rule queue_reachable_inv)
  then show ?thesis by (simp add: sq.total queue_get_total queue_get_all_ok)
qed

definition sample_queue_1 :: queue where
  "sample_queue_1 = \<lparr>q_buffer = [1, 2], q_capacity = 9, q_sequence = 7, q_head = 0, q_size = 2,
     q_clocks = [(7, \<lparr>t_instant = 3, t_timeout = 1000000000\<rparr>)], q_retrans = None\<rparr>"

lemma sample_queue_1_reachable: "queue_reachable 9 7 sample_queue_1"
proof -
  obtain q where q: "queue_with_capacity 9 7 = Some q" "queue_append q [1, 2] 1000 3 = Some (Ok (), sample_queue_1)"
    by (simp add: queue_with_capacity_def vec_deque_with_capacity_def queue_append_def
        queue_remaining_def usub_def uadd_def umul_def ring_extend_def ring_write_def queue_tail_def
        ring_pos_def checked_add_usize_def checked_sub_nat_def resize_def write_slice_def
        copy_within_def USIZE_MAX_def timer_new_def from_millis_def sample_queue_1_def)
  show ?thesis by (rule reachable_step [OF reachable_new [OF q(1)] step_append [OF q(2)]])
qed

theorem queue_reachable_safe_witness:
  "queue_reachable 9 7 sample_queue_1 \<and> queue_append sample_queue_1 [5] 1000 4 \<noteq> None \<and>
   queue_get_all sample_queue_1 = Some [1, 2]"
  using queue_reachable_safe [OF sample_queue_1_reachable, where p = "[5]" and rto = 1000 and now = 4]
    sample_queue_1_reachable
  by (simp add: MAX_U32_WINDOW_SIZE_def sample_queue_1_def queue_bytes_def ring_list_def upt_rec)

text \<open>
  Appending refines appending to a list of bounded length: with room for the payload the
  bytes become the old bytes followed by the payload, at the same base sequence number and
  capacity, however the ring is wrapped or grown; without room the call returns the error
  \<open>queue is full\<close> and changes nothing.
\<close>

theorem queue_append_refines:
  assumes "queue_inv q"
  shows "if q_size q + length p \<le> q_capacity q
    then \<exists>q'. queue_append q p rto now = Some (Ok (), q') \<and> queue_inv q' \<and>
      queue_bytes q' = queue_bytes q @ p \<and> q_sequence q' = q_sequence q \<and> q_capacity q' = q_capacity q
    else queue_append q p rto now = Some (Err (IoError Other ''queue is full''), q)"
  using sq.append_room [OF assms, of p rto now] queue_append_full [OF queue_inv_wf [OF assms], of p rto now]
  by auto

theorem queue_append_refines_witness:
  "\<exists>q'. queue_append sample_queue [16, 17, 18] 1000 5 = Some (Ok (), q') \<and>
     queue_bytes q' = [11, 12, 13, 14, 15, 16, 17, 18]"
  using queue_append_refines [OF sample_queue_inv, of "[16, 17, 18]" 1000 5]
  by (auto simp: sample_queue_bytes)

text \<open>
  Reading a range returns exactly the requested bytes when it lies in the queue, the first
  error when it starts behind the end, and the second when it is too long.
\<close>

theorem queue_get_spec:
  assumes "queue_wf q"
  shows "queue_get q s n =
    (if n = 0 then Some (Ok [])
     else if q_size q < seq_dist s (q_sequence q) then
       Some (Err (IoError InvalidInput ''queue at the certain sequence does not exist''))
     else if q_size q < seq_dist s (q_sequence q) + n then
       Some (Err (IoError InvalidInput ''request size too big''))
     else Some (Ok (take n (drop (seq_dist s (q_sequence q)) (queue_bytes q)))))"
  using queue_get_ok [OF assms, of s n] queue_get_errors [where q = q and sequence = s and n = n]
  by (auto simp: queue_get_def)

theorem queue_get_spec_witness:
  "queue_get sample_queue (seq_adv 4294967293 2) 2 = Some (Ok [13, 14])"
  using queue_get_spec [OF queue_inv_wf [OF sample_queue_inv], of "seq_adv 4294967293 2" 2]
  by (simp add: sample_queue_bytes seq.dist_adv)

text \<open>
  C21. Acknowledging up to a sequence number within the window drops exactly the bytes before it
  and makes it the base; an older or too distant number changes nothing and yields no round-trip
  time.
\<close>

theorem queue_invalidate_refines:
  assumes "queue_inv q"
  shows "if seq_dist s (q_sequence q) \<le> MAX_U32_WINDOW_SIZE
    then \<exists>rtt q'. queue_invalidate_to q s now = Some (rtt, q') \<and> queue_inv q' \<and>
      q_sequence q' = s \<and> queue_bytes q' = drop (seq_dist s (q_sequence q)) (queue_bytes q) \<and>
      q_capacity q' = q_capacity q
    else queue_invalidate_to q s now = Some (None, q)"
  using sq.invalidate [OF assms, of s now] by (auto simp: queue_invalidate_to_ignored split: if_splits)

theorem queue_invalidate_refines_witness:
  "\<exists>rtt q'. queue_invalidate_to sample_queue (seq_adv 4294967293 4) 95 = Some (rtt, q') \<and>
     queue_bytes q' = [15]"
  using queue_invalidate_refines [OF sample_queue_inv, of "seq_adv 4294967293 4" 95]
  by (auto simp: sample_queue_bytes seq.dist_adv MAX_U32_WINDOW_SIZE_def)

text \<open>
  A payload that was appended is read back unchanged at the sequence number \<open>recv_next\<close> had
  before, the number under which it is sent.
\<close>

theorem queue_append_get_roundtrip:
  assumes "queue_inv q" and "queue_append q p rto now = Some (Ok (), q')"
  shows "queue_get q' (queue_recv_next q) (length p) = Some (Ok p)"
  using sq.get_appended [OF assms] by (simp add: queue_recv_next_def)

theorem queue_append_get_roundtrip_witness:
  "\<exists>q'. queue_append sample_queue [16, 17, 18] 1000 5 = Some (Ok (), q') \<and>
     queue_get q' (queue_recv_next sample_queue) 3 = Some (Ok [16, 17, 18])"
proof -
  have "length (queue_bytes sample_queue) + length [16, 17, 18 :: u8] \<le> q_capacity sample_queue"
    by simp
  from sq.append_room [OF sample_queue_inv this, of 1000 5] obtain q' where
    "queue_append sample_queue [16, 17, 18] 1000 5 = Some (Ok (), q')" by blast
  with queue_append_get_roundtrip [OF sample_queue_inv this] show ?thesis
    by (simp add: eval_nat_numeral)
qed

text \<open>
  Collecting timed out data returns the bytes before the first clock that has not timed out
  (all bytes when every clock has), and leaves the cached bytes as they are.
\<close>

theorem queue_timed_out_prefix:
  assumes "queue_inv q"
  shows "\<exists>q'. queue_get_timed_out_and_update q rto now =
      Some (take (case first_unexpired now (q_clocks q) of None \<Rightarrow> q_size q
        | Some s \<Rightarrow> seq_dist s (q_sequence q)) (queue_bytes q), q') \<and>
    queue_inv q' \<and> queue_bytes q' = queue_bytes q \<and> q_sequence q' = q_sequence q"
  by (rule queue_timed_out_inv [OF assms, of rto now]) blast

theorem queue_timed_out_prefix_witness:
  "\<exists>q'. queue_get_timed_out_and_update sample_queue 1000 95 = Some ([11, 12, 13], q')"
proof -
  have "first_unexpired 95 (q_clocks sample_queue) = Some (seq_adv 4294967293 3)"
    by (simp add: sample_queue_def timer_is_timedout_def timer_elapsed_def)
  moreover have "q_sequence sample_queue = 4294967293" by (simp add: sample_queue_def)
  ultimately show ?thesis
    using queue_timed_out_prefix [OF sample_queue_inv, of 1000 95]
    by (auto simp: sample_queue_bytes seq.dist_adv)
qed

text \<open>
  While a retransmitted range reaches beyond the acknowledged number, an acknowledgement
  yields no round-trip time (Karn's rule).
\<close>

theorem queue_karn:
  assumes "queue_inv q" and "q_retrans q = Some r" and "seq_dist r s \<le> MAX_U32_WINDOW_SIZE"
  shows "\<exists>q'. queue_invalidate_to q s now = Some (None, q')"
proof (cases "seq_dist s (q_sequence q) \<le> MAX_U32_WINDOW_SIZE")
  case True
  from queue_invalidate_to_ok [OF queue_inv_wf [OF assms(1)] True, of now] obtain rtt q' where
    q': "queue_invalidate_to q s now = Some (rtt, q')"
      "(q_clocks q', rtt) = pop_clocks s (seq_adv s (q_size q - seq_dist s (q_sequence q)))
        (q_retrans q) now (q_clocks q) None"
    by blast
  then have "rtt = None"
    using pop_clocks_no_sample [OF assms(3)] assms(2) by (metis snd_conv)
  with q' show ?thesis by blast
qed (simp add: queue_invalidate_to_ignored)

theorem queue_karn_witness:
  "\<exists>q'. queue_invalidate_to (sample_queue\<lparr>q_retrans := Some (seq_adv 4294967293 5)\<rparr>)
     (seq_adv 4294967293 3) 95 = Some (None, q')"
proof (rule queue_karn)
  show "queue_inv (sample_queue\<lparr>q_retrans := Some (seq_adv 4294967293 5)\<rparr>)"
    using sample_queue_inv by (simp add: queue_inv_def queue_wf_def)
  show "q_retrans (sample_queue\<lparr>q_retrans := Some (seq_adv 4294967293 5)\<rparr>) = Some (seq_adv 4294967293 5)"
    by simp
  show "seq_dist (seq_adv 4294967293 5) (seq_adv 4294967293 3) \<le> MAX_U32_WINDOW_SIZE"
    by (subst seq_within_iff) (simp_all add: MAX_U32_WINDOW_SIZE_def)
qed

text \<open>
  C27. When the first clock that has not timed out is the last one, collecting timed out data
  removes every clock while the bytes stay cached: the running clock of the last payload is lost,
  and the next call returns the whole cache as timed out at any time, without a timeout having
  passed.
\<close>

theorem queue_timed_out_drops_clocks:
  assumes "queue_inv q" and "q_size q \<le> MAX_U32_WINDOW_SIZE"
    and "q_clocks q = cs @ [c]" and "\<forall>x\<in>set cs. timer_is_timedout now (snd x)"
    and "\<not> timer_is_timedout now (snd c)"
  shows "\<exists>xs q'. queue_get_timed_out_and_update q rto now = Some (xs, q') \<and> q_clocks q' = [] \<and>
    queue_bytes q' = queue_bytes q \<and>
    (\<forall>rto' now'. \<exists>q''. queue_get_timed_out_and_update q' rto' now' = Some (queue_bytes q, q''))"
proof -
  have first: "first_unexpired now (cs @ [c]) = Some (fst c)"
    using assms(4,5) by (induction cs) auto
  obtain ks where ks: "map fst (q_clocks q) = map (seq_adv (q_sequence q)) ks" "sorted ks"
      "\<forall>k\<in>set ks. k \<le> q_size q"
    using assms(1) by (auto simp: queue_inv_def elim: clocks_okE)
  have popped: "update_clocks s t rto now ds = []"
    if "\<forall>d\<in>set ds. seq_dist t (fst d) \<le> MAX_U32_WINDOW_SIZE" for s t ds
    using that by (induction ds) auto
  have "\<forall>d\<in>set (cs @ [c]). seq_dist (fst c) (fst d) \<le> MAX_U32_WINDOW_SIZE"
  proof
    fix d assume "d \<in> set (cs @ [c])"
    then have "fst d \<in> set (map fst (q_clocks q))" using assms(3) by auto
    then obtain j where j: "fst d = seq_adv (q_sequence q) j" "j \<in> set ks" using ks(1) by auto
    have "ks \<noteq> []" using ks(1) assms(3) by auto
    moreover from this have "last (map fst (q_clocks q)) = seq_adv (q_sequence q) (last ks)"
      unfolding ks(1) by (rule last_map)
    ultimately have c: "fst c = seq_adv (q_sequence q) (last ks)" "last ks \<in> set ks"
      using assms(3) by simp_all
    have "j \<le> last ks" using ks(2) j(2) by (rule sorted_le_last)
    with j c ks(3) assms(2) show "seq_dist (fst c) (fst d) \<le> MAX_U32_WINDOW_SIZE"
      by (subst j, subst c, subst seq_within_iff) (auto simp: MAX_U32_WINDOW_SIZE_def)
  qed
  note none = popped [OF this, of "q_sequence q"]
  from queue_timed_out_inv [OF assms(1), of rto now] obtain k q' where
    q': "queue_get_timed_out_and_update q rto now = Some (take k (queue_bytes q), q')"
      "queue_inv q'" "queue_bytes q' = queue_bytes q" by blast
  have "q_clocks q' = []"
    using q'(1) none first assms(3)
    by (auto simp: queue_get_timed_out_and_update_def Let_def bind_eq_Some_conv)
  then have "\<exists>q''. queue_get_timed_out_and_update q' rto' now' = Some (queue_bytes q, q'')" for rto' now'
    using queue_timed_out_inv [OF q'(2), of rto' now'] q'(3)
    by (metis first_unexpired.simps(1) length_queue_bytes option.simps(4) take_all_iff order_refl)
  with q' \<open>q_clocks q' = []\<close> show ?thesis by blast
qed

theorem queue_timed_out_drops_clocks_witness:
  "\<exists>xs q'. queue_get_timed_out_and_update sample_queue 1000 95 = Some (xs, q') \<and> q_clocks q' = [] \<and>
     queue_bytes q' = [11, 12, 13, 14, 15]"
proof -
  have "q_size sample_queue \<le> MAX_U32_WINDOW_SIZE"
    "q_clocks sample_queue = [(4294967293, \<lparr>t_instant = 10, t_timeout = 20\<rparr>)] @
      [(seq_adv 4294967293 3, \<lparr>t_instant = 90, t_timeout = 20\<rparr>)]"
    "\<forall>x\<in>set [(4294967293 :: u32, \<lparr>t_instant = 10, t_timeout = 20\<rparr>)]. timer_is_timedout 95 (snd x)"
    "\<not> timer_is_timedout 95 (snd (seq_adv 4294967293 3, \<lparr>t_instant = 90, t_timeout = 20\<rparr>))"
    by (simp_all add: sample_queue_def MAX_U32_WINDOW_SIZE_def timer_is_timedout_def timer_elapsed_def)
  from queue_timed_out_drops_clocks [OF sample_queue_inv this, of 1000] show ?thesis
    by (auto simp: sample_queue_bytes)
qed

end
