(* ===== verification/Edges.thy ===== *)
theory Edges
  imports Seq
begin

text \<open>
  The filled ranges of a receive window. \<open>Window\<close> of \<open>cache/mod.rs\<close> keeps them in a
  \<open>BTreeMap<u64, usize>\<close> from the first position of a range to its length, modelled as an
  association list in ascending order of its keys. \<open>edges_insert\<close> is the block of
  \<open>Window::append\<close> that inserts a range and merges it with its neighbours; \<open>covered\<close> is the
  set of positions the ranges hold.
\<close>

section \<open>The map\<close>

type_synonym edges = "(u64 \<times> usize) list"

fun bt_insert :: "u64 \<Rightarrow> usize \<Rightarrow> edges \<Rightarrow> edges" where
  "bt_insert k v [] = [(k, v)]"
| "bt_insert k v ((k', v') # m) =
     (if k < k' then (k, v) # (k', v') # m
      else if k = k' then (k, v) # m
      else (k', v') # bt_insert k v m)"

definition bt_remove :: "u64 \<Rightarrow> edges \<Rightarrow> edges" where
  "bt_remove k m = filter (\<lambda>e. fst e \<noteq> k) m"

text \<open>\<open>range((Included(lo), Included(hi)))\<close>\<close>

definition bt_range :: "u64 \<Rightarrow> u64 \<Rightarrow> edges \<Rightarrow> edges" where
  "bt_range lo hi m = filter (\<lambda>e. lo \<le> fst e \<and> fst e \<le> hi) m"

section \<open>Inserting and merging a range\<close>

lemma length_bt_removes: "length (fold bt_remove ks m) \<le> length m"
proof (induction ks arbitrary: m)
  case (Cons k ks)
  have "length (bt_remove k m) \<le> length m" by (simp add: bt_remove_def)
  with Cons [of "bt_remove k m"] show ?case by (simp add: le_trans)
qed simp

lemma bt_removes_less:
  "bt_range lo hi m \<noteq> [] \<Longrightarrow> length (fold bt_remove (map fst (bt_range lo hi m)) m) < length m"
proof -
  assume "bt_range lo hi m \<noteq> []"
  then obtain k v es where sel: "bt_range lo hi m = (k, v) # es"
    by (cases "bt_range lo hi m") auto
  have "(k, v) \<in> set (bt_range lo hi m)" by (simp add: sel)
  then have "(k, v) \<in> set m" by (simp add: bt_range_def)
  then have "length (bt_remove k m) < length m"
    unfolding bt_remove_def by (rule length_filter_less) simp
  with length_bt_removes [of "map fst es" "bt_remove k m"] show ?thesis
    by (simp add: sel)
qed

text \<open>
  The loop that removes every range starting between the first position and the end of the new
  one, and extends the end to theirs. It runs until a pass finds no such range.
\<close>

function merge_loop :: "u64 \<Rightarrow> u64 \<Rightarrow> edges \<Rightarrow> u64 \<Rightarrow> edges \<times> u64" where
  "merge_loop lo hi m end' =
     (let sel = bt_range lo hi m
      in if sel = [] then (m, end')
         else merge_loop lo hi (fold bt_remove (map fst sel) m)
                (fold (\<lambda>e acc. max acc (fst e + snd e)) sel end'))"
  by pat_completeness auto
termination
  by (relation "measure (\<lambda>(lo, hi, m, end'). length m)") (auto simp: bt_removes_less)

declare merge_loop.simps [simp del]

definition prev_key :: "u64 \<Rightarrow> edges \<Rightarrow> u64 option" where
  "prev_key s m = fold (\<lambda>k acc. if k < s then Some k else acc) (map fst m) None"

definition edges_insert :: "u64 \<Rightarrow> usize \<Rightarrow> edges \<Rightarrow> edges option" where
  "edges_insert s len m = do {
     let (m, end') = merge_loop s (s + len) m (s + len);
     let n = end' - s;
     (s, n) \<leftarrow> (case prev_key s m of
         Some k \<Rightarrow> do {
           prev_size \<leftarrow> map_of m k;
           Some (if s \<le> k + prev_size then (k, n + (s - k)) else (s, n))
         }
       | None \<Rightarrow> Some (s, n));
     Some (bt_insert s n m)
   }"

section \<open>Ranges that are apart\<close>

definition apart :: "edges \<Rightarrow> bool" where
  "apart m \<longleftrightarrow> sorted_wrt (\<lambda>e f. fst e + snd e < fst f) m"

definition covered :: "edges \<Rightarrow> nat set" where
  "covered m = (\<Union>e\<in>set m. {fst e..<fst e + snd e})"

lemma covered_simps [simp]:
  "covered [] = {}"
  "covered (e # m) = {fst e..<fst e + snd e} \<union> covered m"
  "covered (m @ m') = covered m \<union> covered m'"
  by (auto simp: covered_def)

lemma apart_Cons: "apart (e # m) \<longleftrightarrow> (\<forall>f\<in>set m. fst e + snd e < fst f) \<and> apart m"
  by (simp add: apart_def)

lemma apart_append:
  "apart (m @ m') \<longleftrightarrow> apart m \<and> apart m' \<and> (\<forall>e\<in>set m. \<forall>f\<in>set m'. fst e + snd e < fst f)"
  by (auto simp: apart_def sorted_wrt_append)

lemma apart_Nil [simp]: "apart []"
  by (simp add: apart_def)

lemma apart_distinct_keys: "apart m \<Longrightarrow> distinct (map fst m)"
  by (induction m) (force simp: apart_Cons)+

text \<open>Ranges that are apart split at a position and at a later one.\<close>

lemma apart_split:
  assumes "apart m" and "s \<le> t"
  shows "m = filter (\<lambda>e. fst e < s) m @ bt_range s t m @ filter (\<lambda>e. t < fst e) m"
  using assms(1)
proof (induction m)
  case Nil
  then show ?case by (simp add: bt_range_def)
next
  case (Cons e m)
  have later: "filter (\<lambda>f. fst f < s) m = []" if "s \<le> fst e"
    using Cons.prems that by (force simp: apart_Cons filter_empty_conv)
  have last: "bt_range s t m = []" if "t < fst e"
    using Cons.prems that by (force simp: apart_Cons bt_range_def filter_empty_conv)
  from Cons have "m = filter (\<lambda>e. fst e < s) m @ bt_range s t m @ filter (\<lambda>e. t < fst e) m"
    by (simp add: apart_Cons)
  with later last assms(2) show ?case
    by (cases "fst e < s"; cases "t < fst e") (auto simp: bt_range_def)
qed

lemma bt_removes_eq:
  "fold bt_remove ks m = filter (\<lambda>e. fst e \<notin> set ks) m"
  by (induction ks arbitrary: m) (auto simp: bt_remove_def intro: filter_cong)

lemma merge_loop_eq:
  assumes "apart m" and "s \<le> t"
  shows "merge_loop s t m t =
    (filter (\<lambda>e. fst e < s) m @ filter (\<lambda>e. t < fst e) m,
     fold (\<lambda>e acc. max acc (fst e + snd e)) (bt_range s t m) t)"
proof -
  define L S R where "L = filter (\<lambda>e. fst e < s) m" and "S = bt_range s t m"
    and "R = filter (\<lambda>e. t < fst e) m"
  have m: "m = L @ S @ R"
    unfolding L_def S_def R_def by (rule apart_split [OF assms])
  have "fold bt_remove (map fst S) m = filter (\<lambda>e. fst e < s \<or> t < fst e) m"
    by (auto simp: bt_removes_eq S_def bt_range_def not_le intro!: filter_cong)
  also have "\<dots> = L @ R"
    using assms(2)
    by (subst m) (auto simp: L_def S_def R_def bt_range_def filter_empty_conv intro!: arg_cong2 [of _ _ _ _ append] filter_cong)
  finally have rest: "fold bt_remove (map fst S) m = L @ R" .
  have none: "bt_range s t (L @ R) = []"
    using assms(2) by (auto simp: L_def R_def bt_range_def filter_empty_conv)
  have "merge_loop s t m t =
      (L @ R, fold (\<lambda>e acc. max acc (fst e + snd e)) S t)"
  proof (cases "S = []")
    case True
    then have "m = L @ R" using m by simp
    with True none show ?thesis by (subst merge_loop.simps) (simp add: Let_def flip: S_def)
  next
    case False
    have "merge_loop s t (L @ R) u = (L @ R, u)" for u
      by (subst merge_loop.simps) (simp add: none)
    with False rest show ?thesis
      by (subst merge_loop.simps) (simp add: Let_def flip: S_def)
  qed
  then show ?thesis by (simp add: L_def R_def S_def)
qed

lemma prev_key_append:
  assumes "\<forall>e\<in>set m. fst e < s" and "\<forall>e\<in>set m'. s \<le> fst e"
  shows "prev_key s (m @ m') = (if m = [] then None else Some (fst (last m)))"
proof -
  have "fold (\<lambda>k acc. if k < s then Some k else acc) (map fst m') acc = acc" for acc
    using assms(2) by (induction m' arbitrary: acc) auto
  moreover have "fold (\<lambda>k acc. if k < s then Some k else acc) (map fst m) acc =
      (if m = [] then acc else Some (fst (last m)))" for acc
    using assms(1) by (induction m arbitrary: acc) auto
  ultimately show ?thesis by (simp add: prev_key_def)
qed

lemma bt_insert_between:
  assumes "\<forall>e\<in>set m. fst e < k" and "\<forall>e\<in>set m'. k < fst e"
  shows "bt_insert k v (m @ m') = m @ (k, v) # m'"
  using assms
proof (induction m)
  case Nil
  then show ?case by (cases m') auto
next
  case (Cons e m)
  then show ?case by (cases e) auto
qed

lemma bt_insert_replace:
  assumes "\<forall>e\<in>set m. fst e < k"
  shows "bt_insert k v (m @ (k, v') # m') = m @ (k, v) # m'"
  using assms
proof (induction m)
  case (Cons e m)
  then show ?case by (cases e) auto
qed simp

section \<open>What an insertion does\<close>

text \<open>The end of the merged range: the end of the new one or the furthest end of a merged one.\<close>

lemma merge_end:
  fixes S :: edges and t :: nat
  assumes "\<forall>e\<in>set S. fst e \<le> t"
  defines "u \<equiv> fold (\<lambda>e acc. max acc (fst e + snd e)) S t"
  shows "t \<le> u" and "{t..<u} \<subseteq> covered S" and "\<forall>e\<in>set S. fst e + snd e \<le> u"
    and "\<And>b. t \<le> b \<Longrightarrow> \<forall>e\<in>set S. fst e + snd e \<le> b \<Longrightarrow> u \<le> b"
proof -
  have gen: "acc \<le> fold (\<lambda>e acc. max acc (fst e + snd e)) S acc \<and>
      (\<forall>x. acc \<le> x \<longrightarrow> x < fold (\<lambda>e acc. max acc (fst e + snd e)) S acc \<longrightarrow>
         (\<exists>e\<in>set S. x < fst e + snd e)) \<and>
      (\<forall>e\<in>set S. fst e + snd e \<le> fold (\<lambda>e acc. max acc (fst e + snd e)) S acc) \<and>
      (\<forall>b. acc \<le> b \<longrightarrow> (\<forall>e\<in>set S. fst e + snd e \<le> b) \<longrightarrow>
         fold (\<lambda>e acc. max acc (fst e + snd e)) S acc \<le> b)" for acc :: nat
  proof (induction S arbitrary: acc)
    case (Cons e S)
    from Cons [of "max acc (fst e + snd e)"] show ?case
      by (auto simp: not_le)
  qed simp
  from gen [of t] show "t \<le> u" "\<forall>e\<in>set S. fst e + snd e \<le> u"
    "\<And>b. t \<le> b \<Longrightarrow> \<forall>e\<in>set S. fst e + snd e \<le> b \<Longrightarrow> u \<le> b"
    by (auto simp: u_def)
  show "{t..<u} \<subseteq> covered S"
  proof
    fix x assume "x \<in> {t..<u}"
    with gen [of t] obtain e where e: "e \<in> set S" "x < fst e + snd e" by (auto simp: u_def)
    with assms(1) \<open>x \<in> {t..<u}\<close> show "x \<in> covered S" by (force simp: covered_def)
  qed
qed

text \<open>
  The shape of the result: the ranges before the new one, the merged range from \<open>k\<close> to \<open>u\<close>, and
  the ranges behind it.
\<close>

lemma edges_insert_shape:
  fixes s len :: nat and m :: edges
  assumes m: "apart m" and len: "0 < len"
  defines "L \<equiv> filter (\<lambda>e. fst e < s) m" and "S \<equiv> bt_range s (s + len) m"
    and "R \<equiv> filter (\<lambda>e. s + len < fst e) m"
  defines "u \<equiv> fold (\<lambda>e acc. max acc (fst e + snd e)) S (s + len)"
  shows "edges_insert s len m = Some
    (if L \<noteq> [] \<and> s \<le> fst (last L) + snd (last L)
     then butlast L @ (fst (last L), u - fst (last L)) # R
     else L @ (s, u - s) # R)"
proof -
  have split: "m = L @ S @ R"
    unfolding L_def S_def R_def by (rule apart_split [OF m]) simp
  have L: "\<forall>e\<in>set L. fst e < s" and R: "\<forall>e\<in>set R. s + len < fst e"
    by (auto simp: L_def R_def)
  have LR: "apart (L @ R)" using m split by (simp add: apart_append)
  have u: "s + len \<le> u"
    unfolding u_def by (rule merge_end) (auto simp: S_def bt_range_def)
  have loop: "merge_loop s (s + len) m (s + len) = (L @ R, u)"
    using merge_loop_eq [OF m, of s "s + len"] by (simp add: L_def R_def S_def u_def)
  have prev: "prev_key s (L @ R) = (if L = [] then None else Some (fst (last L)))"
    by (rule prev_key_append) (use L R in force)+
  show ?thesis
  proof (cases "L = []")
    case True
    then show ?thesis
      using loop prev R len bt_insert_between [of "[]" s R "u - s"]
      by (fastforce simp: edges_insert_def)
  next
    case False
    then obtain B k v where Lk: "L = B @ [(k, v)]"
      by (metis append_butlast_last_id surj_pair)
    have B: "\<forall>e\<in>set B. fst e < k" using LR by (force simp: Lk apart_append)
    have get: "map_of (L @ R) k = Some v"
      by (rule map_of_is_SomeI [OF apart_distinct_keys [OF LR]]) (simp add: Lk)
    have "bt_insert k (u - s + (s - k)) (L @ R) = B @ (k, u - k) # R"
      using bt_insert_replace [OF B, of "u - s + (s - k)" v R] L u by (simp add: Lk)
    moreover have "bt_insert s (u - s) (L @ R) = L @ (s, u - s) # R"
      by (rule bt_insert_between) (use L R in force)+
    ultimately show ?thesis
      using loop prev get by (simp add: edges_insert_def Lk)
  qed
qed

text \<open>Ranges without an empty one.\<close>

definition edges_ok :: "edges \<Rightarrow> bool" where
  "edges_ok m \<longleftrightarrow> apart m \<and> (\<forall>e\<in>set m. 0 < snd e)"

lemma edges_ok_Nil [simp]: "edges_ok []"
  by (simp add: edges_ok_def)

lemma covered_bounds:
  "edges_ok m \<Longrightarrow> covered m \<subseteq> {lo..<hi} \<Longrightarrow> e \<in> set m \<Longrightarrow> lo \<le> fst e \<and> fst e + snd e \<le> hi"
proof -
  assume m: "edges_ok m" "covered m \<subseteq> {lo..<hi}" and e: "e \<in> set m"
  then have pos: "0 < snd e" by (simp add: edges_ok_def)
  with e have "fst e \<in> covered m" "fst e + snd e - 1 \<in> covered m" by (force simp: covered_def)+
  with m(2) have "fst e \<in> {lo..<hi}" "fst e + snd e - 1 \<in> {lo..<hi}" by blast+
  with pos show ?thesis by auto
qed

text \<open>
  The two results of an insertion at \<open>s\<close>: \<open>L\<close> are the ranges before it, \<open>S\<close> those it swallows up to \<open>u\<close>, \<open>R\<close> those behind;
  the new range is joined to the last one of \<open>L\<close>, or stands alone.
\<close>

lemma insert_joined:
  assumes m: "edges_ok (B @ (k, v) # S @ R)" and kv: "k < s" "s \<le> k + v" and u: "s + len \<le> u" "{s + len..<u} \<subseteq> covered S"
    and covS: "covered S \<subseteq> {s..<u}" and uR: "\<forall>f\<in>set R. u < fst f" and len: "0 < len"
    and m': "m' = B @ (k, u - k) # R"
  shows "edges_ok m'" and "covered m' \<subseteq> covered (B @ (k, v) # S @ R) \<union> {s..<s + len}" and "{s..<s + len} \<subseteq> covered m'"
    and "k + v \<le> s + len \<Longrightarrow> covered m' = covered (B @ (k, v) # S @ R) \<union> {s..<s + len}"
proof -
  have new: "covered m' = covered B \<union> {k..<u} \<union> covered R" using kv u(1) by (auto simp: m')
  show "edges_ok m'" using m uR kv u(1) len unfolding m' by (auto simp: edges_ok_def apart_append apart_Cons)
  show sub: "covered m' \<subseteq> covered (B @ (k, v) # S @ R) \<union> {s..<s + len}" using u(2) kv unfolding new by (force simp: subset_eq)
  show "{s..<s + len} \<subseteq> covered m'" using kv u(1) by (auto simp: new)
  assume "k + v \<le> s + len"
  then have "covered (B @ (k, v) # S @ R) \<union> {s..<s + len} \<subseteq> covered m'"
    using covS u(1) kv unfolding new by (force simp: subset_eq)
  with sub show "covered m' = covered (B @ (k, v) # S @ R) \<union> {s..<s + len}" by blast
qed

lemma insert_alone:
  assumes m: "edges_ok (L @ S @ R)" and gap: "\<forall>e\<in>set L. fst e + snd e < s" and u: "s + len \<le> u" "{s + len..<u} \<subseteq> covered S"
    and covS: "covered S \<subseteq> {s..<u}" and uR: "\<forall>f\<in>set R. u < fst f" and len: "0 < len"
    and m': "m' = L @ (s, u - s) # R"
  shows "edges_ok m'" and "{s..<s + len} \<subseteq> covered m'" and "covered m' = covered (L @ S @ R) \<union> {s..<s + len}"
proof -
  have new: "covered m' = covered L \<union> {s..<u} \<union> covered R" using u(1) by (auto simp: m')
  show "edges_ok m'" using m uR gap u(1) len unfolding m' by (auto simp: edges_ok_def apart_append apart_Cons)
  show "{s..<s + len} \<subseteq> covered m'" using u(1) by (auto simp: new)
  have "{s..<u} = {s..<s + len} \<union> {s + len..<u}" using u(1) by (simp add: ivl_disj_un)
  with u(2) covS show "covered m' = covered (L @ S @ R) \<union> {s..<s + len}" unfolding new by auto
qed

lemma edges_insert_ok:
  fixes s len :: nat
  assumes m: "edges_ok m" and len: "0 < len"
  obtains m' where "edges_insert s len m = Some m'" and "edges_ok m'"
    and "covered m' \<subseteq> covered m \<union> {s..<s + len}" and "{s..<s + len} \<subseteq> covered m'"
    and "\<forall>e\<in>set m. fst e < s \<longrightarrow> fst e + snd e \<le> s + len \<Longrightarrow>
      covered m' = covered m \<union> {s..<s + len}"
proof -
  define L S R where "L = filter (\<lambda>e. fst e < s) m" and "S = bt_range s (s + len) m"
    and "R = filter (\<lambda>e. s + len < fst e) m"
  define u where "u = fold (\<lambda>e acc. max acc (fst e + snd e)) S (s + len)"
  define m' where "m' = (if L \<noteq> [] \<and> s \<le> fst (last L) + snd (last L)
     then butlast L @ (fst (last L), u - fst (last L)) # R else L @ (s, u - s) # R)"
  have ap: "apart m" and pos: "\<forall>e\<in>set m. 0 < snd e" using m by (auto simp: edges_ok_def)
  have split: "m = L @ S @ R"
    unfolding L_def S_def R_def by (rule apart_split [OF ap]) simp
  have L: "\<forall>e\<in>set L. fst e < s" and S: "\<forall>e\<in>set S. s \<le> fst e \<and> fst e \<le> s + len"
    and R: "\<forall>e\<in>set R. s + len < fst e"
    by (auto simp: L_def S_def R_def bt_range_def)
  have parts: "apart L" "apart R" "\<forall>e\<in>set L. \<forall>f\<in>set R. fst e + snd e < fst f"
    "\<forall>e\<in>set S. \<forall>f\<in>set R. fst e + snd e < fst f"
    using ap unfolding split by (auto simp: apart_append)
  have "\<forall>e\<in>set S. fst e \<le> s + len" using S by simp
  from merge_end [OF this, folded u_def]
  have u: "s + len \<le> u" "{s + len..<u} \<subseteq> covered S" "\<forall>e\<in>set S. fst e + snd e \<le> u"
    and least: "\<And>b. s + len \<le> b \<Longrightarrow> \<forall>e\<in>set S. fst e + snd e \<le> b \<Longrightarrow> u \<le> b"
    by blast+
  have uR: "u < fst f" if "f \<in> set R" for f
    using least [of "fst f - 1"] R parts(4) that by force
  have covS: "covered S \<subseteq> {s..<u}" using S u(3) by (force simp: covered_def)
  have run: "edges_insert s len m = Some m'"
    unfolding m'_def L_def R_def u_def S_def by (rule edges_insert_shape [OF ap len])
  show ?thesis
  proof (cases "L \<noteq> [] \<and> s \<le> fst (last L) + snd (last L)")
    case True
    then obtain B k v where Lk: "L = B @ [(k, v)]" by (metis append_butlast_last_id surj_pair)
    with True have kv: "k < s" "s \<le> k + v" using L by auto
    have m_eq: "m = B @ (k, v) # S @ R" by (simp add: split Lk)
    have m': "m' = B @ (k, u - k) # R" using True by (simp add: m'_def Lk)
    note new = insert_joined [OF m [unfolded m_eq] kv u(1,2) covS _ len m', folded m_eq]
    have "k + v \<le> s + len" if "\<forall>e\<in>set m. fst e < s \<longrightarrow> fst e + snd e \<le> s + len" using that kv(1) by (force simp: m_eq)
    with new uR show ?thesis by (intro that [OF run]) blast+
  next
    case False
    have "fst e + snd e < s" if "e \<in> set L" for e
    proof -
      from that obtain B l where Ll: "L = B @ [l]" by (metis append_butlast_last_id list.set_cases list.discI)
      with False have "fst l + snd l < s" by auto
      with that L parts(1) show ?thesis by (fastforce simp: Ll apart_append)
    qed
    moreover have "m' = L @ (s, u - s) # R" unfolding m'_def using False by (rule if_not_P)
    ultimately show ?thesis
      using that [OF run] insert_alone [OF m [unfolded split] _ u(1,2) covS _ len, of m', folded split] uR by blast
  qed
qed

lemma apart_pairs:
  "apart m \<Longrightarrow> e \<in> set m \<Longrightarrow> f \<in> set m \<Longrightarrow>
     e = f \<or> fst e + snd e < fst f \<or> fst f + snd f < fst e"
  by (induction m) (auto simp: apart_Cons)

text \<open>A range inserted inside an older one: the older one is cut where the new one ends.\<close>

lemma edges_insert_inside:
  fixes s len :: nat
  assumes m: "edges_ok m" and len: "0 < len" and e: "(k, n) \<in> set m"
    and k: "k < s" and inside: "s + len \<le> k + n" and ins: "edges_insert s len m = Some m'"
  shows "covered m' = covered m - {s + len..<k + n}"
proof -
  define L R where "L = filter (\<lambda>e. fst e < s) m" and "R = filter (\<lambda>e. s + len < fst e) m"
  have ap: "apart m" using m by (simp add: edges_ok_def)
  have other: "f = (k, n) \<or> k + n < fst f \<or> fst f + snd f < k" if "f \<in> set m" for f
    using apart_pairs [OF ap e that] by auto
  have S: "bt_range s (s + len) m = []"
    using other k inside by (force simp: bt_range_def filter_empty_conv)
  have split: "m = L @ R"
    using apart_split [OF ap, of s "s + len"] S by (simp add: L_def R_def)
  have kL: "(k, n) \<in> set L" using e k by (simp add: L_def)
  then obtain B l where Ll: "L = B @ [l]" by (metis append_butlast_last_id list.set_cases list.discI)
  have "l = (k, n)"
  proof (rule ccontr)
    assume ne: "l \<noteq> (k, n)"
    with kL have "(k, n) \<in> set B" by (simp add: Ll)
    with ap have "k + n < fst l" by (force simp: split Ll apart_append apart_Cons)
    moreover have "l \<in> set L" by (simp add: Ll)
    ultimately show False using inside len by (simp add: L_def)
  qed
  then have Lk: "L = B @ [(k, n)]" by (simp add: Ll)
  have m': "m' = B @ (k, s + len - k) # R"
    using edges_insert_shape [OF ap len, of s] ins S k inside
    by (simp add: Lk flip: L_def R_def)
  have B: "covered B \<subseteq> {..<k}" and R: "covered R \<subseteq> {k + n..}"
    using ap by (force simp: split Lk apart_append apart_Cons covered_def)+
  show ?thesis
    using B R k inside by (force simp: m' split Lk)
qed

end
