(* ===== verification/Window.thy ===== *)
theory Window
  imports Ring Edges
begin

text \<open>
  The receive cache \<open>Window\<close> of \<open>cache/mod.rs\<close>: bytes that arrived out of order are kept in a
  ring buffer at their distance from the next expected sequence number, the filled ranges in
  \<open>edges\<close>, and a run that starts at the expected number is popped and returned. The invariant
  \<open>window_holds\<close> relates a window to the byte stream of the sender; the locale \<open>reassembler\<close> is
  the contract its client (\<open>TcpRxState\<close>) relies on.
\<close>

section \<open>State\<close>

record window =
  w_buffer :: "u8 list"
  w_capacity :: usize
  w_sequence :: u32
  w_head :: usize
  w_size :: usize
  w_edges :: edges

definition window_with_capacity :: "usize \<Rightarrow> u32 \<Rightarrow> window" where
  "window_with_capacity capacity sequence =
     \<lparr>w_buffer = [], w_capacity = capacity, w_sequence = sequence, w_head = 0, w_size = 0,
      w_edges = []\<rparr>"

definition window_new :: "u32 \<Rightarrow> window" where
  "window_new sequence = window_with_capacity USIZE_MAX sequence"

section \<open>Operations\<close>

definition window_len :: "window \<Rightarrow> usize" where
  "window_len w = w_size w"

definition window_recv_next :: "window \<Rightarrow> u32" where
  "window_recv_next w = seq_adv (w_sequence w) (w_size w)"

definition window_remaining :: "window \<Rightarrow> usize option" where
  "window_remaining w = usub (w_capacity w) (w_size w)"

definition window_tail :: "window \<Rightarrow> usize" where
  "window_tail w = ring_pos (length (w_buffer w)) (w_head w) (w_size w)"

definition window_is_empty :: "window \<Rightarrow> bool" where
  "window_is_empty w \<longleftrightarrow> w_size w = 0"

definition window_filled :: "window \<Rightarrow> (u32 \<times> u32) list" where
  "window_filled w = map (\<lambda>(sequence, len).
     let begin = of_nat (unwrap_or (checked_sub_nat sequence 4294967295) sequence)
     in (begin, seq_adv begin len)) (w_edges w)"

text \<open>
  The first part of \<open>append\<close>: a segment that starts before the window is cut to it. The inner
  \<open>None\<close> is the early \<open>return Ok(None)\<close>.
\<close>

definition window_trim :: "window \<Rightarrow> u32 \<Rightarrow> u8 list \<Rightarrow> (u32 \<times> u8 list \<times> usize) option option" where
  "window_trim w sequence payload =
     (let sub_sequence = seq_dist sequence (w_sequence w)
      in if sub_sequence > MAX_U32_WINDOW_SIZE then do {
           let recv_next = seq_adv sequence (length payload);
           sub_recv_next \<leftarrow> (case checked_sub_u32 recv_next (w_sequence w) of
               Some d \<Rightarrow> Some d
             | None \<Rightarrow> checked_add_u32 sequence (U32_MAX - recv_next));
           if sub_recv_next > 0 then do {
             n \<leftarrow> checked_sub_u32 (w_sequence w) sequence;
             rest \<leftarrow> subslice payload (unat n) (length payload);
             Some (Some (w_sequence w, rest, 0))
           } else Some None
         } else Some (Some (sequence, payload, sub_sequence)))"

text \<open>Making room for \<open>need\<close> bytes from the head.\<close>

definition window_room :: "window \<Rightarrow> usize \<Rightarrow> u8 list option" where
  "window_room w need =
     (if need > length (w_buffer w)
      then ring_extend (w_buffer w) (w_head w) (window_tail w) (w_capacity w) need
      else Some (w_buffer w))"

text \<open>The size after a payload at \<open>sequence\<close> has been stored.\<close>

definition window_grow :: "window \<Rightarrow> u32 \<Rightarrow> u8 list \<Rightarrow> usize option" where
  "window_grow w sequence payload =
     (let sub_recv_next = seq_dist (seq_adv sequence (length payload)) (window_recv_next w)
      in if sub_recv_next \<le> MAX_U32_WINDOW_SIZE then uadd (w_size w) sub_recv_next
         else Some (w_size w))"

text \<open>The key of a sequence number: one before the window's is taken to be after a wrap.\<close>

definition edge_key :: "window \<Rightarrow> u32 \<Rightarrow> u64" where
  "edge_key w sequence =
     (if sequence < w_sequence w then unat sequence + 4294967295 else unat sequence)"

definition window_store :: "window \<Rightarrow> u32 \<Rightarrow> u8 list \<Rightarrow> usize \<Rightarrow> window option" where
  "window_store w sequence payload sub_sequence = do {
     size \<leftarrow> uadd sub_sequence (length payload);
     buf \<leftarrow> window_room w size;
     buf \<leftarrow> ring_write buf (ring_pos (length buf) (w_head w) sub_sequence) payload;
     size \<leftarrow> window_grow w sequence payload;
     edges \<leftarrow> edges_insert (edge_key w sequence) (length payload) (w_edges w);
     Some (w\<lparr>w_buffer := buf, w_size := size, w_edges := edges\<rparr>)
   }"

text \<open>The keys after the window's sequence number has wrapped.\<close>

fun shift_edges :: "u64 list \<Rightarrow> edges \<Rightarrow> edges option" where
  "shift_edges [] m = Some m"
| "shift_edges (k # ks) m = do {
     v \<leftarrow> map_of m k;
     k' \<leftarrow> checked_sub_nat k 4294967295;
     shift_edges ks (bt_insert k' v (bt_remove k m))
   }"

definition window_next_head :: "window \<Rightarrow> usize \<Rightarrow> usize option" where
  "window_next_head w n = do {
     r \<leftarrow> umod n (length (w_buffer w));
     h \<leftarrow> uadd (w_head w) r;
     umod h (length (w_buffer w))
   }"

definition window_pop :: "window \<Rightarrow> (u8 list option \<times> window) option" where
  "window_pop w =
     (case w_edges w of
        [] \<Rightarrow> None
      | (first_key, len) # rest \<Rightarrow>
          if of_nat first_key = w_sequence w then do {
            edges \<leftarrow> (if 4294967295 - unat (w_sequence w) < len
              then shift_edges (map fst rest) rest else Some rest);
            cont_payload \<leftarrow> ring_read (w_buffer w) (w_head w) len;
            head \<leftarrow> window_next_head w len;
            n \<leftarrow> usub (w_size w) (length cont_payload);
            Some (Some cont_payload,
              w\<lparr>w_sequence := seq_adv (w_sequence w) len, w_head := head, w_size := n,
                w_edges := edges\<rparr>)
          } else Some (None, w))"

definition window_append :: "window \<Rightarrow> u32 \<Rightarrow> u8 list \<Rightarrow> (u8 list option, window) outcome" where
  "window_append w sequence payload = do {
     trimmed \<leftarrow> window_trim w sequence payload;
     (case trimmed of
        None \<Rightarrow> Some (Ok None, w)
      | Some (sequence, payload, sub_sequence) \<Rightarrow> do {
          size \<leftarrow> uadd sub_sequence (length payload);
          if size > w_capacity w then Some (Err (IoError Other ''window is full''), w)
          else do {
            w \<leftarrow> window_store w sequence payload sub_sequence;
            (out, w) \<leftarrow> window_pop w;
            Some (Ok out, w)
          }
        })
   }"

section \<open>Shifting the keys\<close>

definition unshift :: "edges \<Rightarrow> edges" where
  "unshift m = map (\<lambda>e. (fst e - 4294967295, snd e)) m"

lemma shift_edges_from:
  assumes "distinct (map fst (P @ m))" and "sorted_wrt (<) (map fst m)"
    and "\<forall>e\<in>set P. \<forall>f\<in>set m. fst e + 4294967295 < fst f"
    and "\<forall>f\<in>set m. 4294967295 < fst f \<and> fst f < 2 * 4294967295"
  shows "shift_edges (map fst m) (P @ m) = Some (P @ unshift m)"
  using assms
proof (induction m arbitrary: P)
  case Nil
  then show ?case by (simp add: unshift_def)
next
  case (Cons f m)
  obtain k v where f: "f = (k, v)" by force
  let ?k = "k - 4294967295"
  have k: "4294967295 < k" "k < 2 * 4294967295" and m: "\<forall>e\<in>set m. k < fst e"
    and P: "\<forall>e\<in>set P. fst e + 4294967295 < k"
    using Cons.prems(2-4) by (auto simp: f)
  have "map_of (P @ f # m) k = Some v"
    by (rule map_of_is_SomeI [OF Cons.prems(1)]) (simp add: f)
  moreover have "bt_remove k (P @ f # m) = P @ m"
  proof -
    have "filter (\<lambda>e. fst e \<noteq> k) P = P" "filter (\<lambda>e. fst e \<noteq> k) m = m"
      using m P by (force simp: filter_id_conv)+
    then show ?thesis by (simp add: f bt_remove_def)
  qed
  moreover have "bt_insert ?k v (P @ m) = P @ (?k, v) # m"
    by (rule bt_insert_between) (use k m P in force)+
  moreover have "shift_edges (map fst m) ((P @ [(?k, v)]) @ m) = Some ((P @ [(?k, v)]) @ unshift m)"
  proof (rule Cons.IH)
    show "distinct (map fst ((P @ [(?k, v)]) @ m))"
      using Cons.prems(1) k m P by (auto simp: f)
    show "\<forall>e\<in>set (P @ [(?k, v)]). \<forall>g\<in>set m. fst e + 4294967295 < fst g"
      using k m P by (auto intro: less_trans)
  qed (use Cons.prems in auto)
  ultimately show ?case
    using k by (simp add: f checked_sub_nat_def unshift_def)
qed

lemma apart_sorted_keys: "apart m \<Longrightarrow> sorted_wrt (<) (map fst m)"
  by (induction m) (auto simp: apart_Cons)

lemma shift_edges_eq:
  assumes "apart m" and "\<forall>f\<in>set m. 4294967295 < fst f \<and> fst f < 2 * 4294967295"
  shows "shift_edges (map fst m) m = Some (unshift m)"
  using shift_edges_from [of "[]" m] assms
  by (simp add: apart_sorted_keys apart_distinct_keys)

lemma covered_unshift:
  "\<forall>f\<in>set m. 4294967295 \<le> fst f \<Longrightarrow> i \<in> covered (unshift m) \<longleftrightarrow> i + 4294967295 \<in> covered m"
  by (induction m) (auto simp: unshift_def)

lemma edges_ok_unshift:
  "\<forall>f\<in>set m. 4294967295 \<le> fst f \<Longrightarrow> edges_ok m \<Longrightarrow> edges_ok (unshift m)"
  by (induction m) (auto simp: unshift_def edges_ok_def apart_Cons)

section \<open>Invariant\<close>

text \<open>The byte \<open>i\<close> after the expected one, and whether it has arrived.\<close>

definition window_at :: "window \<Rightarrow> nat \<Rightarrow> u8" where
  "window_at w i = w_buffer w ! ((w_head w + i) mod length (w_buffer w))"

definition window_has :: "window \<Rightarrow> nat \<Rightarrow> bool" where
  "window_has w i \<longleftrightarrow> unat (w_sequence w) + i \<in> covered (w_edges w)"

definition window_shape :: "window \<Rightarrow> bool" where
  "window_shape w \<longleftrightarrow> w_capacity w \<le> MAX_U32_WINDOW_SIZE \<and> w_size w \<le> length (w_buffer w) \<and>
     length (w_buffer w) \<le> w_capacity w \<and>
     (w_head w < length (w_buffer w) \<or> w_buffer w = [] \<and> w_head w = 0) \<and>
     edges_ok (w_edges w) \<and>
     covered (w_edges w) \<subseteq> {unat (w_sequence w)..<unat (w_sequence w) + w_size w}"

text \<open>
  The window expects position \<open>p\<close> of the stream \<open>st\<close>, and every byte it has is the byte of the
  stream at its position. Between operations the expected byte itself has not arrived.
\<close>

definition window_data :: "(nat \<Rightarrow> u8) \<Rightarrow> nat \<Rightarrow> window \<Rightarrow> bool" where
  "window_data st p w \<longleftrightarrow> window_shape w \<and> (\<forall>i. window_has w i \<longrightarrow> window_at w i = st (p + i))"

definition window_holds :: "(nat \<Rightarrow> u8) \<Rightarrow> nat \<Rightarrow> window \<Rightarrow> bool" where
  "window_holds st p w \<longleftrightarrow> window_data st p w \<and> \<not> window_has w 0"

lemma window_shape_sizes:
  assumes "window_shape w"
  shows "w_size w \<le> length (w_buffer w)" and "length (w_buffer w) \<le> w_capacity w"
    and "w_capacity w \<le> MAX_U32_WINDOW_SIZE" and "w_capacity w \<le> 16777216"
    and "w_buffer w \<noteq> [] \<Longrightarrow> w_head w < length (w_buffer w)"
    and "w_buffer w = [] \<Longrightarrow> w_head w = 0"
  using assms by (auto simp: window_shape_def MAX_U32_WINDOW_SIZE_def)

lemma window_holds_with_capacity:
  "capacity \<le> MAX_U32_WINDOW_SIZE \<Longrightarrow> window_holds st p (window_with_capacity capacity sequence)"
  by (simp add: window_holds_def window_data_def window_shape_def window_has_def
      window_with_capacity_def)

section \<open>Storing\<close>

lemma edge_key_adv:
  assumes "d < 4294967295"
  shows "edge_key w (seq_adv (w_sequence w) d) = unat (w_sequence w) + d"
  using assms unat_u32_le [of "w_sequence w"]
  by (auto simp: edge_key_def word_less_nat_alt seq_simps)

lemma window_grow_eq:
  assumes "window_shape w" and "d + length payload \<le> w_capacity w"
  shows "window_grow w (seq_adv (w_sequence w) d) payload = Some (max (w_size w) (d + length payload))"
proof -
  have small: "d + length payload \<le> 16777216" "w_size w \<le> 16777216"
    using window_shape_sizes [OF assms(1)] assms(2) by auto
  have "seq_adv (seq_adv (w_sequence w) d) (length payload) = seq_adv (w_sequence w) (d + length payload)"
    by (rule seq.adv_adv) (use small in simp)
  then show ?thesis
    using small
    by (auto simp: window_grow_def window_recv_next_def seq.dist_adv_adv uadd_def USIZE_MAX_def
        MAX_U32_WINDOW_SIZE_def max_def Let_def)
qed

lemma window_room_ok:
  assumes shape: "window_shape w" and need: "0 < need" "need \<le> w_capacity w"
  obtains buf where "window_room w need = Some buf" and "need \<le> length buf"
    and "length (w_buffer w) \<le> length buf" and "length buf \<le> w_capacity w"
    and "w_head w < length buf"
    and "\<And>i. i < w_size w \<Longrightarrow> buf ! ((w_head w + i) mod length buf) = window_at w i"
proof (cases "length (w_buffer w) < need")
  case False
  then have "w_buffer w \<noteq> []" using need by auto
  with False need window_shape_sizes [OF shape] show ?thesis
    by (intro that [of "w_buffer w"]) (auto simp: window_room_def window_at_def)
next
  case True
  note sz = window_shape_sizes [OF shape]
  have ring: "w_head w < length (w_buffer w) \<or> w_size w = 0 \<and> w_head w = 0"
    using sz by (cases "w_buffer w = []") auto
  have tail: "window_tail w = (if length (w_buffer w) \<le> w_head w + w_size w
      then w_head w + w_size w - length (w_buffer w) else w_head w + w_size w)"
    unfolding window_tail_def using sz ring by (intro ring_pos_eq) (auto simp: USIZE_MAX_def)
  have "3 * length (w_buffer w) \<le> USIZE_MAX" using sz by (simp add: USIZE_MAX_def)
  from ring_extend_keeps [OF ring sz(1) True need(2) this tail]
  obtain buf where buf: "ring_extend (w_buffer w) (w_head w) (window_tail w) (w_capacity w) need = Some buf"
      "need \<le> length buf" "length buf \<le> w_capacity w"
      "\<And>i. i < w_size w \<Longrightarrow> buf ! ((w_head w + i) mod length buf) =
        w_buffer w ! ((w_head w + i) mod length (w_buffer w))" by blast
  show ?thesis
    by (rule that [of buf]) (use buf True ring in \<open>auto simp: window_room_def window_at_def\<close>)
qed

text \<open>
  Storing a segment of the stream at distance \<open>d\<close>: every byte of it has arrived, every byte that
  has arrived is of the stream, and no byte is lost unless the segment ends inside a range that
  begins before it.
\<close>

definition overshoots :: "window \<Rightarrow> nat \<Rightarrow> nat \<Rightarrow> bool" where
  "overshoots w d len \<longleftrightarrow> (\<exists>e\<in>set (w_edges w). fst e < unat (w_sequence w) + d \<and>
     unat (w_sequence w) + d + len < fst e + snd e)"

text \<open>The buffer after a segment has been written at the offset \<open>d\<close>, grown where it has to be.\<close>

lemma window_buffer_ok:
  assumes shape: "window_shape w" and n: "0 < length payload" and fit: "d + length payload \<le> w_capacity w"
  obtains buf buf' where "window_room w (d + length payload) = Some buf"
    and "ring_write buf (ring_pos (length buf) (w_head w) d) payload = Some buf'" and "length buf' = length buf"
    and "d + length payload \<le> length buf" and "length (w_buffer w) \<le> length buf" and "length buf \<le> w_capacity w" and "w_head w < length buf"
    and "\<And>i. i < length buf \<Longrightarrow> i < w_size w \<or> d \<le> i \<and> i < d + length payload \<Longrightarrow> buf' ! ((w_head w + i) mod length buf) =
      (if d \<le> i \<and> i < d + length payload then payload ! (i - d) else window_at w i)"
proof -
  note sz = window_shape_sizes [OF shape]
  obtain buf where room: "window_room w (d + length payload) = Some buf" "d + length payload \<le> length buf"
      "length (w_buffer w) \<le> length buf" "length buf \<le> w_capacity w" "w_head w < length buf"
      "\<And>i. i < w_size w \<Longrightarrow> buf ! ((w_head w + i) mod length buf) = window_at w i"
    using window_room_ok [OF shape, of "d + length payload"] n fit by auto
  have pos: "ring_pos (length buf) (w_head w) d =
      (if length buf \<le> w_head w + d then w_head w + d - length buf else w_head w + d)"
    by (rule ring_pos_eq) (use room sz in \<open>simp add: USIZE_MAX_def\<close>)
  obtain buf' where wr: "ring_write buf (ring_pos (length buf) (w_head w) d) payload = Some buf'"
      "length buf' = length buf" "\<And>i. i < length buf \<Longrightarrow> buf' ! ((w_head w + i) mod length buf) =
        (if d \<le> i \<and> i < d + length payload then payload ! (i - d) else buf ! ((w_head w + i) mod length buf))"
    using ring_write_at [OF room(5) room(2) pos] by blast
  show ?thesis by (rule that [OF room(1) wr(1,2) room(2-5)]) (use wr(3) room(6) in auto)
qed

lemma window_store_ok:
  assumes data: "window_data st p w" and ne: "payload \<noteq> []"
    and fit: "d + length payload \<le> w_capacity w"
    and seg: "payload = map st [p + d..<p + d + length payload]"
  obtains w' where "window_store w (seq_adv (w_sequence w) d) payload d = Some w'"
    and "window_data st p w'" and "w_sequence w' = w_sequence w" and "w_capacity w' = w_capacity w"
    and "\<And>i. d \<le> i \<Longrightarrow> i < d + length payload \<Longrightarrow> window_has w' i"
    and "\<And>i. window_has w' i \<Longrightarrow> window_has w i \<or> d \<le> i \<and> i < d + length payload"
    and "\<And>i. \<not> overshoots w d (length payload) \<Longrightarrow> window_has w i \<Longrightarrow> window_has w' i"
    and "w_size w' = max (w_size w) (d + length payload)" and "w_edges w' \<noteq> []"
    and "edges_insert (unat (w_sequence w) + d) (length payload) (w_edges w) = Some (w_edges w')"
proof -
  let ?b = "unat (w_sequence w)" and ?n = "length payload"
  have shape: "window_shape w" and at: "\<And>i. window_has w i \<Longrightarrow> window_at w i = st (p + i)"
    using data by (auto simp: window_data_def)
  note sz = window_shape_sizes [OF shape]
  have n: "0 < ?n" using ne by simp
  obtain buf buf' where room: "window_room w (d + ?n) = Some buf" and wr: "ring_write buf (ring_pos (length buf) (w_head w) d) payload = Some buf'"
      "length buf' = length buf" and len: "d + ?n \<le> length buf" "length (w_buffer w) \<le> length buf" "length buf \<le> w_capacity w" "w_head w < length buf"
      and buf': "\<And>i. i < length buf \<Longrightarrow> i < w_size w \<or> d \<le> i \<and> i < d + ?n \<Longrightarrow> buf' ! ((w_head w + i) mod length buf) =
        (if d \<le> i \<and> i < d + ?n then payload ! (i - d) else window_at w i)"
    by (rule window_buffer_ok [OF shape n fit]) (rule that; (assumption | blast))
  have edges_ok: "edges_ok (w_edges w)" using shape by (simp add: window_shape_def)
  obtain m where ins: "edges_insert (?b + d) ?n (w_edges w) = Some m" "edges_ok m"
      "covered m \<subseteq> covered (w_edges w) \<union> {?b + d..<?b + d + ?n}" "{?b + d..<?b + d + ?n} \<subseteq> covered m"
      "\<not> overshoots w d ?n \<Longrightarrow> covered m = covered (w_edges w) \<union> {?b + d..<?b + d + ?n}"
    by (rule edges_insert_ok [OF edges_ok n, of "?b + d"]) (force simp: overshoots_def not_less)
  define w' where "w' = w\<lparr>w_buffer := buf', w_size := max (w_size w) (d + ?n), w_edges := m\<rparr>"
  have d: "d < 4294967295" using fit sz by simp
  have "uadd d ?n = Some (d + ?n)" using fit sz by (simp add: uadd_def USIZE_MAX_def)
  then have run: "window_store w (seq_adv (w_sequence w) d) payload d = Some w'"
    by (simp add: window_store_def room wr window_grow_eq [OF shape fit] edge_key_adv [OF d] ins w'_def)
  have has: "window_has w' i \<longleftrightarrow> ?b + i \<in> covered m" for i
    by (simp add: window_has_def w'_def)
  have inside: "i < w_size w" if "window_has w i" for i
    using that shape by (auto simp: window_has_def window_shape_def)
  have has_cases: "window_has w i \<or> d \<le> i \<and> i < d + ?n" if "window_has w' i" for i
    using that ins(3) unfolding has by (fastforce simp: window_has_def subset_eq)
  have new_at: "window_at w' i =
      (if d \<le> i \<and> i < d + ?n then payload ! (i - d) else window_at w i)" if "window_has w' i" for i
    using buf' [of i] inside [of i] has_cases [OF that] len(1,2) sz(1) by (auto simp: window_at_def w'_def wr(2))
  have "covered m \<subseteq> {?b..<?b + w_size w'}"
  proof
    fix x assume x: "x \<in> covered m"
    then have "?b \<le> x" using ins(3) shape by (auto simp: window_shape_def subset_eq)
    then obtain i where i: "x = ?b + i" by (metis le_Suc_ex)
    with x have "window_has w' i" by (simp add: has)
    from has_cases [OF this] inside [of i] have "i < max (w_size w) (d + ?n)" by auto
    with i show "x \<in> {?b..<?b + w_size w'}" by (simp add: w'_def)
  qed
  then have "window_shape w'"
    using shape len wr ins(2) by (auto simp: window_shape_def w'_def)
  moreover have "window_at w' i = st (p + i)" if "window_has w' i" for i
  proof -
    have "payload ! (i - d) = st (p + i)" if "d \<le> i" "i < d + ?n"
      using that by (subst seg) simp
    with new_at [OF that] at has_cases [OF that] show ?thesis by auto
  qed
  ultimately have "window_data st p w'" by (simp add: window_data_def)
  then show ?thesis
  proof (rule that [OF run])
    show "window_has w' i" if "d \<le> i" "i < d + ?n" for i
      using ins(4) that by (auto simp: has subset_eq)
    show "window_has w' i" if "\<not> overshoots w d ?n" "window_has w i" for i
      using ins(5) that unfolding has by (simp add: window_has_def)
    show "w_edges w' \<noteq> []" using ins(4) n by (auto simp: w'_def)
  qed (use has_cases ins(1) in \<open>auto simp: w'_def\<close>)
qed

section \<open>Popping\<close>

lemma window_next_head_eq:
  assumes "w_head w < length (w_buffer w)" and "length (w_buffer w) \<le> 16777216"
  shows "window_next_head w n = Some ((w_head w + n) mod length (w_buffer w))"
proof -
  have "0 < length (w_buffer w)" using assms by linarith
  then have "n mod length (w_buffer w) < length (w_buffer w)" by simp
  with assms have "w_buffer w \<noteq> []" "w_head w + n mod length (w_buffer w) \<le> 18446744073709551615"
    by (auto intro: order_trans)
  with assms show ?thesis
    by (simp add: window_next_head_def umod_def uadd_def USIZE_MAX_def mod_simps)
qed

text \<open>The first range starts at the expected number exactly when the expected byte has arrived.\<close>

lemma first_edge_has:
  assumes shape: "window_shape w" and e: "w_edges w = (k, n) # rest"
  shows "of_nat k = w_sequence w \<longleftrightarrow> window_has w 0"
    and "window_has w 0 \<longleftrightarrow> k = unat (w_sequence w)"
proof -
  let ?b = "unat (w_sequence w)"
  have ok: "edges_ok (w_edges w)" and cov: "covered (w_edges w) \<subseteq> {?b..<?b + w_size w}"
    using shape by (auto simp: window_shape_def)
  from covered_bounds [OF ok cov, of "(k, n)"] e
  have k: "?b \<le> k" "k + n \<le> ?b + w_size w" by auto
  have n: "0 < n" and rest: "\<forall>f\<in>set rest. k + n < fst f"
    using ok e by (auto simp: edges_ok_def apart_Cons)
  then show has: "window_has w 0 \<longleftrightarrow> k = ?b"
    using k by (force simp: window_has_def e covered_def)
  have "k < ?b + 4294967296"
    using k n window_shape_sizes [OF shape] by linarith
  moreover have "k mod 4294967296 = (if k < 4294967296 then k else k - 4294967296)"
    using \<open>k < ?b + 4294967296\<close> unat_u32_le [of "w_sequence w"] by (auto simp: mod_if)
  ultimately have "k = ?b" if "of_nat k = w_sequence w"
    using that k by (auto simp: u32_eq_iff unat_of_nat split: if_splits)
  then show "of_nat k = w_sequence w \<longleftrightarrow> window_has w 0"
    using has by auto
qed

text \<open>The ranges behind a first one that is popped, shifted when the numbers wrap.\<close>

lemma pop_edges_ok:
  assumes ok: "edges_ok ((b, n) # rest)" and cov: "covered ((b, n) # rest) \<subseteq> {b..<b + len}"
    and small: "b + len < 2 * 4294967295" and b': "b' = (if 4294967295 - b < n then b + n - 4294967295 else b + n)"
  obtains m where "(if 4294967295 - b < n then shift_edges (map fst rest) rest else Some rest) = Some m" and "edges_ok m"
    and "\<And>i. b' + i \<in> covered m \<longleftrightarrow> b + n + i \<in> covered rest" and "covered m \<subseteq> {b'..<b' + (len - n)}" and "b + n \<notin> covered rest"
proof -
  have n: "0 < n" and rest: "\<forall>f\<in>set rest. b + n < fst f" and rest_ok: "edges_ok rest"
    using ok by (auto simp: edges_ok_def apart_Cons)
  have n_le: "n \<le> len" using covered_bounds [OF ok cov, of "(b, n)"] by auto
  have rest_end: "fst f + snd f \<le> b + len" if "f \<in> set rest" for f
    using covered_bounds [OF ok cov, of f] that by auto
  have bound: "fst f < 2 * 4294967295" if "f \<in> set rest" for f
    using rest_end [OF that] small by linarith
  define m where "m = (if 4294967295 - b < n then unshift rest else rest)"
  have wrap_rest: "\<forall>f\<in>set rest. 4294967295 \<le> fst f" if "4294967295 - b < n"
    using rest that by force
  have "covered rest \<subseteq> {b + n..<b + len}"
    using rest rest_end by (force simp: covered_def)
  then have sub: "covered m \<subseteq> {b'..<b' + (len - n)}"
    using covered_unshift [OF wrap_rest] n_le n unfolding b' m_def by (force simp: subset_eq)
  show ?thesis
  proof (rule that [OF _ _ _ sub])
    show "(if 4294967295 - b < n then shift_edges (map fst rest) rest else Some rest) = Some m"
      using rest bound rest_ok by (auto simp: m_def edges_ok_def intro!: shift_edges_eq)
    show "edges_ok m" using edges_ok_unshift [OF wrap_rest] rest_ok by (auto simp: m_def)
    show "b' + i \<in> covered m \<longleftrightarrow> b + n + i \<in> covered rest" for i
      using covered_unshift [OF wrap_rest] by (auto simp: m_def b' ac_simps)
    show "b + n \<notin> covered rest" using rest by (force simp: covered_def)
  qed
qed

lemma window_pop_ok:
  assumes data: "window_data st p w" and ne: "w_edges w \<noteq> []"
  obtains n w' where "window_pop w = Some (if n = 0 then None else Some (map st [p..<p + n]), w')"
    and "window_holds st (p + n) w'" and "w_sequence w' = seq_adv (w_sequence w) n"
    and "w_capacity w' = w_capacity w" and "n \<le> w_size w" and "w_size w' = w_size w - n"
    and "\<And>i. window_has w' i \<longleftrightarrow> window_has w (n + i)" and "\<And>i. i < n \<Longrightarrow> window_has w i"
    and "n = 0 \<Longrightarrow> w' = w"
proof (cases "window_has w 0")
  case False
  have shape: "window_shape w" using data by (simp add: window_data_def)
  obtain k n rest where e: "w_edges w = (k, n) # rest" using ne by (cases "w_edges w") auto
  have "window_pop w = Some (None, w)"
    using False first_edge_has(1) [OF shape e] by (simp add: window_pop_def e)
  with False data show ?thesis by (intro that [of 0 w]) (auto simp: window_holds_def)
next
  case True
  let ?b = "unat (w_sequence w)" and ?L = "length (w_buffer w)"
  have shape: "window_shape w" and at: "\<And>i. window_has w i \<Longrightarrow> window_at w i = st (p + i)"
    using data by (auto simp: window_data_def)
  note sz = window_shape_sizes [OF shape]
  obtain n rest where e: "w_edges w = (?b, n) # rest"
    using ne True first_edge_has(2) [OF shape] by (cases "w_edges w") auto
  have ok: "edges_ok ((?b, n) # rest)" and cov: "covered ((?b, n) # rest) \<subseteq> {?b..<?b + w_size w}"
    using shape by (auto simp: window_shape_def simp flip: e)
  have n: "0 < n" using ok by (auto simp: edges_ok_def apart_Cons)
  have n_le: "n \<le> w_size w" using covered_bounds [OF ok cov, of "(?b, n)"] by auto
  have head: "w_head w < ?L" "n \<le> ?L" using sz n n_le by (cases "w_buffer w = []", auto)+
  have small: "?b + w_size w < 2 * 4294967295" using sz(1,2,4) unat_u32_le [of "w_sequence w"] by linarith
  have b': "unat (seq_adv (w_sequence w) n) = (if 4294967295 - ?b < n then ?b + n - 4294967295 else ?b + n)"
    using n_le sz unat_u32_le [of "w_sequence w"] by (auto simp: seq_simps)
  obtain m where m: "(if 4294967295 - ?b < n then shift_edges (map fst rest) rest else Some rest) = Some m" "edges_ok m"
      "\<And>i. unat (seq_adv (w_sequence w) n) + i \<in> covered m \<longleftrightarrow> ?b + n + i \<in> covered rest"
      "covered m \<subseteq> {unat (seq_adv (w_sequence w) n)..<unat (seq_adv (w_sequence w) n) + (w_size w - n)}" "?b + n \<notin> covered rest"
    by (rule pop_edges_ok [OF ok cov small b']) (rule that; (assumption | blast))
  have has0: "window_has w i" if "i < n" for i using that by (simp add: window_has_def e)
  have read: "ring_read (w_buffer w) (w_head w) n = Some (map st [p..<p + n])"
  proof -
    have "ring_list (w_buffer w) (w_head w) n = map st [p..<p + n]"
      using at has0 by (auto intro!: nth_equalityI simp: window_at_def)
    with ring_read_eq [of "w_head w" "w_buffer w" n] head show ?thesis by simp
  qed
  define w' where "w' = w\<lparr>w_sequence := seq_adv (w_sequence w) n,
    w_head := (w_head w + n) mod ?L, w_size := w_size w - n, w_edges := m\<rparr>"
  have "of_nat ?b = w_sequence w" by simp
  then have run: "window_pop w = Some (Some (map st [p..<p + n]), w')"
    using sz n_le head m(1)
    by (simp add: window_pop_def e read window_next_head_eq usub_def w'_def)
  have has: "window_has w' i \<longleftrightarrow> window_has w (n + i)" for i
    using m(3) [of i] by (auto simp: window_has_def e w'_def ac_simps)
  have not0: "\<not> window_has w' 0" using m(3) [of 0] m(5) by (simp add: window_has_def w'_def)
  have at': "window_at w' i = window_at w (n + i)" for i
    by (simp add: window_at_def w'_def mod_simps ac_simps)
  have "(w_head w + n) mod ?L < ?L" using head by (intro mod_less_divisor) linarith
  then have "window_shape w'"
    using shape n_le m(2,4) by (auto simp: window_shape_def w'_def)
  then have "window_holds st (p + n) w'"
    using not0 has at at' by (simp add: window_holds_def window_data_def ac_simps)
  then show ?thesis
    using n run has has0 n_le by (intro that [of n w']) (auto simp: w'_def)
qed

section \<open>Appending\<close>

text \<open>A segment at or after the expected position.\<close>

lemma window_append_ahead:
  assumes holds: "window_holds st p w" and ne: "payload \<noteq> []"
    and fit: "d + length payload \<le> w_capacity w"
    and seg: "payload = map st [p + d..<p + d + length payload]"
  obtains n w' where "window_append w (seq_adv (w_sequence w) d) payload =
      Some (Ok (if n = 0 then None else Some (map st [p..<p + n])), w')"
    and "window_holds st (p + n) w'" and "w_sequence w' = seq_adv (w_sequence w) n"
    and "w_capacity w' = w_capacity w" and "d = 0 \<longleftrightarrow> 0 < n" and "d = 0 \<Longrightarrow> length payload \<le> n"
    and "n + w_size w' = max (w_size w) (d + length payload)"
    and "\<And>i. \<not> overshoots w d (length payload) \<Longrightarrow> window_has w' i \<longleftrightarrow>
      window_has w (n + i) \<or> d \<le> n + i \<and> n + i < d + length payload"
    and "n = 0 \<Longrightarrow> edges_insert (unat (w_sequence w) + d) (length payload) (w_edges w) = Some (w_edges w')"
    and "\<And>i. window_has w' i \<Longrightarrow> window_has w (n + i) \<or> d \<le> n + i \<and> n + i < d + length payload"
    and "\<And>i. i < n \<Longrightarrow> window_has w i \<or> d \<le> i \<and> i < d + length payload"
proof -
  have data: "window_data st p w" and shape: "window_shape w" and not0: "\<not> window_has w 0"
    using holds by (auto simp: window_holds_def window_data_def)
  note sz = window_shape_sizes [OF shape]
  obtain w1 where st: "window_store w (seq_adv (w_sequence w) d) payload d = Some w1"
      "window_data st p w1" "w_sequence w1 = w_sequence w" "w_capacity w1 = w_capacity w"
      "\<And>i. d \<le> i \<Longrightarrow> i < d + length payload \<Longrightarrow> window_has w1 i"
      "\<And>i. window_has w1 i \<Longrightarrow> window_has w i \<or> d \<le> i \<and> i < d + length payload"
      "\<And>i. \<not> overshoots w d (length payload) \<Longrightarrow> window_has w i \<Longrightarrow> window_has w1 i"
      "w_size w1 = max (w_size w) (d + length payload)" "w_edges w1 \<noteq> []"
      "edges_insert (unat (w_sequence w) + d) (length payload) (w_edges w) = Some (w_edges w1)"
    using window_store_ok [OF data ne fit seg] by blast
  obtain n w' where pop: "window_pop w1 = Some (if n = 0 then None else Some (map st [p..<p + n]), w')"
      "window_holds st (p + n) w'" "w_sequence w' = seq_adv (w_sequence w1) n"
      "w_capacity w' = w_capacity w1" "n \<le> w_size w1" "w_size w' = w_size w1 - n"
      "\<And>i. window_has w' i \<longleftrightarrow> window_has w1 (n + i)" "\<And>i. i < n \<Longrightarrow> window_has w1 i"
      "n = 0 \<Longrightarrow> w' = w1"
    using window_pop_ok [OF st(2,9)] by blast
  have "window_trim w (seq_adv (w_sequence w) d) payload =
      Some (Some (seq_adv (w_sequence w) d, payload, d))"
    using fit sz by (simp add: window_trim_def seq.dist_adv MAX_U32_WINDOW_SIZE_def)
  moreover have "uadd d (length payload) = Some (d + length payload)"
    using fit sz by (simp add: uadd_def USIZE_MAX_def)
  ultimately have run: "window_append w (seq_adv (w_sequence w) d) payload =
      Some (Ok (if n = 0 then None else Some (map st [p..<p + n])), w')"
    using fit by (simp add: window_append_def st(1) pop(1))
  have stop: "\<not> window_has w1 n" using pop(2) pop(7) [of 0] by (auto simp: window_holds_def)
  have n_pay: "length payload \<le> n" if "d = 0" using st(5) [of n] stop that by linarith
  have n0: "d = 0" if "0 < n" using st(6) [OF pop(8) [OF that]] not0 by auto
  show ?thesis
  proof (rule that [OF run pop(2)])
    have "0 < length payload" using ne by simp
    then show "d = 0 \<longleftrightarrow> 0 < n" using n0 n_pay by linarith
    show "window_has w' i \<longleftrightarrow> window_has w (n + i) \<or> d \<le> n + i \<and> n + i < d + length payload"
      if "\<not> overshoots w d (length payload)" for i
      using st(5-7) that by (auto simp: pop(7))
    show "window_has w (n + i) \<or> d \<le> n + i \<and> n + i < d + length payload" if "window_has w' i" for i
      using st(6) that by (simp add: pop(7))
    show "window_has w i \<or> d \<le> i \<and> i < d + length payload" if "i < n" for i by (rule st(6) [OF pop(8) [OF that]])
  qed (use pop st n_pay in auto)
qed

text \<open>A segment that starts \<open>e\<close> bytes before the expected position, without a wrap between.\<close>

lemma window_trim_behind:
  assumes e: "0 < e" and seq: "unat s + e = unat (w_sequence w)"
    and nowrap: "unat s + length payload \<le> 4294967295"
    and near: "e < 4294967295 - MAX_U32_WINDOW_SIZE"
  shows "window_trim w s payload =
    (if length payload < e then None else if length payload = e then Some None
     else Some (Some (w_sequence w, drop e payload, 0)))"
proof -
  have far: "MAX_U32_WINDOW_SIZE < seq_dist s (w_sequence w)"
    using e seq near by (simp add: seq_simps)
  have next_val: "unat (seq_adv s (length payload)) = unat s + length payload"
    using nowrap by (simp add: seq_simps)
  have sub: "checked_sub_u32 (w_sequence w) s = Some (w_sequence w - s)" "unat (w_sequence w - s) = e"
    using seq by (auto simp: checked_sub_u32_def word_le_nat_alt unat_sub)
  show ?thesis
  proof (cases "length payload < e")
    case True
    have "unat s + unat (U32_MAX - seq_adv s (length payload)) = 4294967295 - length payload"
      using nowrap by (simp add: unat_U32_MAX_minus next_val)
    moreover have "0 < 4294967295 - length payload"
      using True near by simp
    ultimately have "checked_add_u32 s (U32_MAX - seq_adv s (length payload)) =
        Some (s + (U32_MAX - seq_adv s (length payload)))"
      "0 < s + (U32_MAX - seq_adv s (length payload))"
      by (simp_all add: checked_add_u32_def word_less_nat_alt unat_word_ariths)
    moreover have "checked_sub_u32 (seq_adv s (length payload)) (w_sequence w) = None"
      using True seq by (simp add: checked_sub_u32_def word_le_nat_alt next_val)
    ultimately show ?thesis
      using True far sub by (simp add: window_trim_def subslice_def Let_def)
  next
    case False
    then have le: "w_sequence w \<le> seq_adv s (length payload)"
      using seq by (simp add: word_le_nat_alt next_val)
    have "unat (seq_adv s (length payload) - w_sequence w) = length payload - e"
      using False seq by (simp add: unat_sub [OF le] next_val)
    then have "0 < seq_adv s (length payload) - w_sequence w \<longleftrightarrow> length payload \<noteq> e"
      using False by (auto simp: word_less_nat_alt)
    with False le far sub show ?thesis
      by (simp add: window_trim_def checked_sub_u32_def [of "seq_adv s (length payload)"]
          subslice_def Let_def)
  qed
qed

lemma window_append_behind:
  assumes e: "0 < e" "e < length payload" and seq: "unat s + e = unat (w_sequence w)"
    and nowrap: "unat s + length payload \<le> 4294967295"
    and near: "e < 4294967295 - MAX_U32_WINDOW_SIZE"
  shows "window_append w s payload = window_append w (w_sequence w) (drop e payload)"
proof -
  have "window_trim w s payload = Some (Some (w_sequence w, drop e payload, 0))"
    using window_trim_behind [OF e(1) seq nowrap near] e by simp
  moreover have "window_trim w (w_sequence w) (drop e payload) =
      Some (Some (w_sequence w, drop e payload, 0))"
    by (simp add: window_trim_def)
  ultimately show ?thesis by (simp add: window_append_def)
qed

lemma window_append_full:
  assumes "d \<le> MAX_U32_WINDOW_SIZE" and "w_capacity w < d + length payload"
    and "d + length payload \<le> USIZE_MAX"
  shows "window_append w (seq_adv (w_sequence w) d) payload =
    Some (Err (IoError Other ''window is full''), w)"
proof -
  have "window_trim w (seq_adv (w_sequence w) d) payload =
      Some (Some (seq_adv (w_sequence w) d, payload, d))"
    using assms(1) by (simp add: window_trim_def seq.dist_adv MAX_U32_WINDOW_SIZE_def)
  with assms show ?thesis by (simp add: window_append_def uadd_def)
qed

section \<open>The contract\<close>

text \<open>
  What the receiver of a connection needs of its cache: the bytes a segment completes, from the
  expected position on and no others; progress when the expected byte is in the segment. Positions
  are those of the byte stream of the sender, position \<open>p\<close> being the expected one.
\<close>

text \<open>
  \<open>segment_ok st s0 p q payload\<close>: the payload is the part of the stream from position \<open>q\<close>, sent
  with the number \<open>q\<close> bytes after the initial \<open>s0\<close> when the receiver expects position \<open>p\<close>. It does
  not end before \<open>p\<close>, starts before it only if no number wraps, and is at most 16 MiB ahead; the
  stream stays below the 4 GiB after which numbers repeat.
\<close>

definition segment_ok :: "(nat \<Rightarrow> u8) \<Rightarrow> u32 \<Rightarrow> nat \<Rightarrow> nat \<Rightarrow> u8 list \<Rightarrow> bool" where
  "segment_ok st s0 p q payload \<longleftrightarrow> payload \<noteq> [] \<and> payload = map st [q..<q + length payload] \<and>
     p \<le> q + length payload \<and> (q < p \<longrightarrow> unat s0 + q + length payload \<le> 4294967295) \<and>
     q + length payload \<le> p + MAX_U32_WINDOW_SIZE \<and> p + MAX_U32_WINDOW_SIZE < 4294967295"

definition delivered :: "u8 list option io_result \<Rightarrow> u8 list" where
  "delivered r = (case r of Inr (Some bytes) \<Rightarrow> bytes | _ \<Rightarrow> [])"

lemma delivered_simps [simp]:
  "delivered (Ok (Some bytes)) = bytes" "delivered (Ok None) = []" "delivered (Err e) = []"
  by (simp_all add: delivered_def)

locale reassembler =
  fixes append :: "'w \<Rightarrow> u32 \<Rightarrow> u8 list \<Rightarrow> (u8 list option, 'w) outcome"
    and expected :: "'w \<Rightarrow> u32"
    and capacity :: "'w \<Rightarrow> nat"
    and holds :: "(nat \<Rightarrow> u8) \<Rightarrow> nat \<Rightarrow> 'w \<Rightarrow> bool"
  assumes capacity_bound: "holds st p w \<Longrightarrow> capacity w \<le> MAX_U32_WINDOW_SIZE"
    and append_ahead: "\<lbrakk>holds st p w; payload \<noteq> []; d + length payload \<le> capacity w;
      payload = map st [p + d..<p + d + length payload]\<rbrakk> \<Longrightarrow>
      \<exists>n w'. append w (seq_adv (expected w) d) payload =
          Some (Ok (if n = 0 then None else Some (map st [p..<p + n])), w') \<and>
        holds st (p + n) w' \<and> expected w' = seq_adv (expected w) n \<and> capacity w' = capacity w \<and>
        n \<le> capacity w \<and> (d = 0 \<longleftrightarrow> 0 < n) \<and> (d = 0 \<longrightarrow> length payload \<le> n)"
    and append_full: "\<lbrakk>holds st p w; d \<le> MAX_U32_WINDOW_SIZE; capacity w < d + length payload;
      d + length payload \<le> USIZE_MAX\<rbrakk> \<Longrightarrow>
      \<exists>e. append w (seq_adv (expected w) d) payload = Some (Err e, w)"
    and append_behind: "\<lbrakk>0 < e; e < length payload; unat s + e = unat (expected w);
      unat s + length payload \<le> 4294967295; e < 4294967295 - MAX_U32_WINDOW_SIZE\<rbrakk> \<Longrightarrow>
      append w s payload = append w (expected w) (drop e payload)"
    and append_repeated: "\<lbrakk>0 < length payload; unat s + length payload = unat (expected w);
      length payload < 4294967295 - MAX_U32_WINDOW_SIZE\<rbrakk> \<Longrightarrow> append w s payload = Some (Ok None, w)"
begin

lemma append_at:
  assumes holds: "holds st p w" and ne: "payload \<noteq> []" and d: "d \<le> MAX_U32_WINDOW_SIZE"
    and len: "d + length payload \<le> USIZE_MAX"
    and seg: "payload = map st [p + d..<p + d + length payload]"
  obtains n r w' where "append w (seq_adv (expected w) d) payload = Some (r, w')"
    and "holds st (p + n) w'" and "expected w' = seq_adv (expected w) n"
    and "capacity w' = capacity w" and "delivered r = map st [p..<p + n]" and "n \<le> capacity w"
    and "d + length payload \<le> capacity w \<Longrightarrow> isl r = False"
    and "d = 0 \<Longrightarrow> length payload \<le> capacity w \<Longrightarrow> length payload \<le> n"
proof (cases "d + length payload \<le> capacity w")
  case True
  from append_ahead [OF holds ne True seg] obtain n w' where
    "append w (seq_adv (expected w) d) payload =
          Some (Ok (if n = 0 then None else Some (map st [p..<p + n])), w')"
        "holds st (p + n) w'" "expected w' = seq_adv (expected w) n" "capacity w' = capacity w"
        "n \<le> capacity w" "d = 0 \<longrightarrow> length payload \<le> n" by blast
  then show ?thesis
    by (intro that [of "Ok (if n = 0 then None else Some (map st [p..<p + n]))" w' n]) auto
next
  case False
  then obtain e where "append w (seq_adv (expected w) d) payload = Some (Err e, w)"
    using append_full [OF holds d _ len] by fastforce
  with False holds show ?thesis by (intro that [of "Err e" w 0]) auto
qed

lemma segment_step:
  assumes holds: "holds st p w" and exp: "expected w = seq_adv s0 p"
    and seg: "segment_ok st s0 p q payload"
  obtains n r w' where "append w (seq_adv s0 q) payload = Some (r, w')"
    and "holds st (p + n) w'" and "expected w' = seq_adv s0 (p + n)"
    and "capacity w' = capacity w" and "delivered r = map st [p..<p + n]" and "n \<le> capacity w"
    and "q + length payload \<le> p + capacity w \<Longrightarrow> isl r = False"
    and "q \<le> p \<Longrightarrow> q + length payload \<le> p + capacity w \<Longrightarrow> q + length payload \<le> p + n"
proof -
  let ?n = "length payload"
  have ne: "payload \<noteq> []" and pay: "payload = map st [q..<q + ?n]" and old: "p \<le> q + ?n"
    and nowrap: "q < p \<Longrightarrow> unat s0 + q + ?n \<le> 4294967295"
    and far: "q + ?n \<le> p + MAX_U32_WINDOW_SIZE" and low: "p + MAX_U32_WINDOW_SIZE < 4294967295"
    using seg by (auto simp: segment_ok_def)
  have adv: "seq_adv (expected w) n = seq_adv s0 (p + n)" if "n \<le> MAX_U32_WINDOW_SIZE" for n
    unfolding exp using that low by (intro seq.adv_adv) simp
  note cap = capacity_bound [OF holds]
  have small: "MAX_U32_WINDOW_SIZE < USIZE_MAX" by (simp add: MAX_U32_WINDOW_SIZE_def USIZE_MAX_def)
  consider "p \<le> q" | "q < p" "p < q + ?n" | "p = q + ?n" "q < p" using old by linarith
  then show ?thesis
  proof cases
    case 1
    define d where "d = q - p"
    have d: "d \<le> MAX_U32_WINDOW_SIZE" "d + ?n \<le> USIZE_MAX" "q = p + d"
      using 1 far small by (auto simp: d_def)
    obtain n r w' where "append w (seq_adv (expected w) d) payload = Some (r, w')"
        "holds st (p + n) w'" "expected w' = seq_adv (expected w) n" "capacity w' = capacity w"
        "delivered r = map st [p..<p + n]" "n \<le> capacity w"
        "d + ?n \<le> capacity w \<Longrightarrow> isl r = False"
        "d = 0 \<Longrightarrow> ?n \<le> capacity w \<Longrightarrow> ?n \<le> n"
      using append_at [OF holds ne d(1,2)] pay unfolding d(3) by metis
    then show ?thesis using adv [of d] adv [of n] cap d by (intro that [of r w' n]) auto
  next
    case 2
    define e where "e = p - q"
    let ?tail = "drop e payload"
    have e: "0 < e" "e < ?n" "unat (seq_adv s0 q) + e = unat (expected w)"
        "unat (seq_adv s0 q) + ?n \<le> 4294967295" "e < 4294967295 - MAX_U32_WINDOW_SIZE"
      using 2 nowrap low unfolding exp by (auto simp: e_def seq_simps)
    have "?tail = map st [p + 0..<p + 0 + length ?tail]"
      using 2 by (subst pay) (simp add: e_def drop_map ac_simps)
    moreover have "?tail \<noteq> []" "0 + length ?tail \<le> USIZE_MAX"
      using e far 2 small by (auto simp: e_def)
    ultimately obtain n r w' where "append w (seq_adv (expected w) 0) ?tail = Some (r, w')"
        "holds st (p + n) w'" "expected w' = seq_adv (expected w) n" "capacity w' = capacity w"
        "delivered r = map st [p..<p + n]" "n \<le> capacity w"
        "0 + length ?tail \<le> capacity w \<Longrightarrow> isl r = False"
        "length ?tail \<le> capacity w \<Longrightarrow> length ?tail \<le> n"
      using append_at [OF holds, of ?tail 0] by (metis zero_le)
    moreover have "length ?tail \<le> x \<longleftrightarrow> q + ?n \<le> p + x" for x
      using 2 by (auto simp: e_def)
    ultimately show ?thesis
      using append_behind [OF e] adv [of n] cap by (intro that [of r w' n]) auto
  next
    case 3
    then have "append w (seq_adv s0 q) payload = Some (Ok None, w)"
      using nowrap low ne by (intro append_repeated) (auto simp: exp seq_simps)
    then show ?thesis using holds exp 3 by (intro that [of "Ok None" w 0]) auto
  qed
qed

end

interpretation wr: reassembler window_append w_sequence w_capacity window_holds
proof unfold_locales
  fix st :: "nat \<Rightarrow> u8" and p d e :: nat and w :: window and payload :: "u8 list" and s :: u32
  show "w_capacity w \<le> MAX_U32_WINDOW_SIZE" if "window_holds st p w"
    using that by (simp add: window_holds_def window_data_def window_shape_def)
  show "\<exists>n w'. window_append w (seq_adv (w_sequence w) d) payload =
          Some (Ok (if n = 0 then None else Some (map st [p..<p + n])), w') \<and>
        window_holds st (p + n) w' \<and> w_sequence w' = seq_adv (w_sequence w) n \<and>
        w_capacity w' = w_capacity w \<and> n \<le> w_capacity w \<and> (d = 0 \<longleftrightarrow> 0 < n) \<and> (d = 0 \<longrightarrow> length payload \<le> n)"
    if a: "window_holds st p w" "payload \<noteq> []" "d + length payload \<le> w_capacity w"
      "payload = map st [p + d..<p + d + length payload]"
  proof -
    obtain n w' where run: "window_append w (seq_adv (w_sequence w) d) payload =
          Some (Ok (if n = 0 then None else Some (map st [p..<p + n])), w')"
        "window_holds st (p + n) w'" "w_sequence w' = seq_adv (w_sequence w) n"
        "w_capacity w' = w_capacity w" "d = 0 \<longleftrightarrow> 0 < n" "d = 0 \<Longrightarrow> length payload \<le> n"
        "n + w_size w' = max (w_size w) (d + length payload)"
      using window_append_ahead [OF a] by metis
    have "w_size w \<le> w_capacity w"
      using a(1) by (simp add: window_holds_def window_data_def window_shape_def)
    with run a(3) show ?thesis by (intro exI [of _ n] exI [of _ w']) auto
  qed
  show "\<exists>e. window_append w (seq_adv (w_sequence w) d) payload = Some (Err e, w)"
    if "d \<le> MAX_U32_WINDOW_SIZE" "w_capacity w < d + length payload" "d + length payload \<le> USIZE_MAX"
    using window_append_full [OF that] by blast
  show "window_append w s payload = Some (Ok None, w)"
    if "0 < length payload" "unat s + length payload = unat (w_sequence w)"
      "length payload < 4294967295 - MAX_U32_WINDOW_SIZE"
    using window_trim_behind [OF that(1,2), of payload] that unat_u32_le [of "w_sequence w"]
    by (simp add: window_append_def)
qed (rule window_append_behind)

section \<open>Receiving a stream\<close>

text \<open>
  The windows a receiver goes through, with the bytes it has handed on: each segment is some part
  of the stream, in any order and any number of times. Segments the window refuses as too far
  ahead are included.
\<close>

inductive received :: "(nat \<Rightarrow> u8) \<Rightarrow> u32 \<Rightarrow> usize \<Rightarrow> window \<Rightarrow> u8 list \<Rightarrow> bool" for st s0 cap where
  received_init: "received st s0 cap (window_with_capacity cap s0) []"
| received_segment: "\<lbrakk>received st s0 cap w out; segment_ok st s0 (length out) q payload;
    window_append w (seq_adv s0 q) payload = Some (r, w')\<rbrakk> \<Longrightarrow>
    received st s0 cap w' (out @ delivered r)"

lemma received_inv:
  assumes "received st s0 cap w out" and "cap \<le> MAX_U32_WINDOW_SIZE"
  shows "window_holds st (length out) w \<and> w_sequence w = seq_adv s0 (length out) \<and>
    w_capacity w = cap \<and> out = map st [0..<length out]"
  using assms
proof (induction rule: received.induct)
  case received_init
  then show ?case by (simp add: window_holds_with_capacity) (simp add: window_with_capacity_def)
next
  case (received_segment w out q payload r w')
  then have holds: "window_holds st (length out) w" and exp: "w_sequence w = seq_adv s0 (length out)"
    and out: "out = map st [0..<length out]" by auto
  obtain n where n: "window_holds st (length out + n) w'" "w_sequence w' = seq_adv s0 (length out + n)"
      "w_capacity w' = w_capacity w" "delivered r = map st [length out..<length out + n]"
    by (rule wr.segment_step [OF holds exp received_segment.hyps(2)])
      (use received_segment.hyps(3) in simp)
  have "out @ delivered r = map st [0..<length out + n]"
    using arg_cong2 [of _ _ _ _ append, OF out n(4)] by (simp only: upt_add_eq_append [of 0, simplified] map_append)
  moreover have "length (out @ delivered r) = length out + n" by (simp add: n(4))
  moreover have "w_capacity w' = cap" using n(3) received_segment by simp
  ultimately show ?case by (simp only: n(1,2) simp_thms)
qed

section \<open>What has arrived\<close>

text \<open>The positions of the stream the window has, when it expects position \<open>p\<close>.\<close>

definition window_positions :: "nat \<Rightarrow> window \<Rightarrow> nat set" where
  "window_positions p w = {k. p \<le> k \<and> window_has w (k - p)}"

text \<open>A segment leaves nothing in the window, and delivers nothing, that was not there before or is in the segment.\<close>

definition only_adds :: "nat \<Rightarrow> window \<Rightarrow> nat \<Rightarrow> window \<Rightarrow> nat set \<Rightarrow> bool \<Rightarrow> bool" where
  "only_adds p w n w' S exact \<longleftrightarrow> window_positions (p + n) w' \<subseteq> window_positions p w \<union> S \<and>
     {p..<p + n} \<subseteq> window_positions p w \<union> S \<and>
     (exact \<longrightarrow> (window_positions p w \<union> S) \<inter> {p + n..} \<subseteq> window_positions (p + n) w')"

lemma only_adds_nothing: "only_adds p w 0 w {} exact"
  by (simp add: only_adds_def)

lemma window_append_adds:
  assumes holds: "window_holds st p w" and ne: "payload \<noteq> []" and d: "d \<le> MAX_U32_WINDOW_SIZE" and len: "d + length payload \<le> USIZE_MAX"
    and seg: "payload = map st [p + d..<p + d + length payload]"
    and run: "window_append w (seq_adv (w_sequence w) d) payload = Some (r, w')"
  shows "only_adds p w (length (delivered r)) w' (if isl r then {} else {p + d..<p + d + length payload})
    (\<not> overshoots w d (length payload))"
proof (cases "d + length payload \<le> w_capacity w")
  case True
  obtain n where n: "r = Ok (if n = 0 then None else Some (map st [p..<p + n]))"
      "\<And>i. \<not> overshoots w d (length payload) \<Longrightarrow> window_has w' i \<longleftrightarrow> window_has w (n + i) \<or> d \<le> n + i \<and> n + i < d + length payload"
      "\<And>i. window_has w' i \<Longrightarrow> window_has w (n + i) \<or> d \<le> n + i \<and> n + i < d + length payload"
      "\<And>i. i < n \<Longrightarrow> window_has w i \<or> d \<le> i \<and> i < d + length payload"
    by (rule window_append_ahead [OF holds ne True seg]) (use run in auto)
  have "length (delivered r) = n" by (simp add: n(1))
  moreover have "window_positions (p + n) w' \<subseteq> window_positions p w \<union> {p + d..<p + d + length payload}"
  proof
    fix k assume "k \<in> window_positions (p + n) w'"
    then have k: "p + n \<le> k" "n + (k - (p + n)) = k - p" "window_has w' (k - (p + n))" by (auto simp: window_positions_def)
    with n(3) [OF k(3)] show "k \<in> window_positions p w \<union> {p + d..<p + d + length payload}" by (auto simp: window_positions_def)
  qed
  moreover have "{p..<p + n} \<subseteq> window_positions p w \<union> {p + d..<p + d + length payload}"
  proof
    fix k assume "k \<in> {p..<p + n}"
    then have "p \<le> k" "k - p < n" by auto
    with n(4) [of "k - p"] show "k \<in> window_positions p w \<union> {p + d..<p + d + length payload}" by (auto simp: window_positions_def)
  qed
  moreover have "(window_positions p w \<union> {p + d..<p + d + length payload}) \<inter> {p + n..} \<subseteq> window_positions (p + n) w'"
    if ex: "\<not> overshoots w d (length payload)"
  proof
    fix k assume k: "k \<in> (window_positions p w \<union> {p + d..<p + d + length payload}) \<inter> {p + n..}"
    then have "n + (k - (p + n)) = k - p" "p + n \<le> k" by auto
    with k n(2) [OF ex, of "k - (p + n)"] show "k \<in> window_positions (p + n) w'" by (auto simp: window_positions_def)
  qed
  ultimately show ?thesis by (simp add: only_adds_def n(1))
next
  case False
  then have "r = Err (IoError Other ''window is full'') \<and> w' = w" using window_append_full [OF d _ len, of w] run by simp
  then show ?thesis by (simp add: only_adds_nothing)
qed

lemma segment_adds:
  assumes holds: "window_holds st p w" and exp: "w_sequence w = seq_adv s0 p" and seg: "segment_ok st s0 p q payload"
    and run: "window_append w (seq_adv s0 q) payload = Some (r, w')"
  shows "\<exists>S. only_adds p w (length (delivered r)) w' S (\<not> overshoots w (q - p) (length payload)) \<and>
    S \<inter> {p..} = (if isl r then {} else {q..<q + length payload}) \<inter> {p..} \<and> S \<subseteq> {q..<q + length payload}"
proof -
  let ?n = "length payload"
  have ne: "payload \<noteq> []" and pay: "payload = map st [q..<q + ?n]" and old: "p \<le> q + ?n"
    and nowrap: "q < p \<Longrightarrow> unat s0 + q + ?n \<le> 4294967295"
    and far: "q + ?n \<le> p + MAX_U32_WINDOW_SIZE" and low: "p + MAX_U32_WINDOW_SIZE < 4294967295"
    using seg by (auto simp: segment_ok_def)
  have shape: "window_shape w" using holds by (simp add: window_holds_def window_data_def)
  have behind: "\<not> overshoots w 0 k" for k
    using covered_bounds [of "w_edges w"] shape unfolding overshoots_def window_shape_def by fastforce
  consider "p \<le> q" | "q < p" "p < q + ?n" | "p = q + ?n" "q < p" using old by linarith
  then show ?thesis
  proof cases
    case 1
    define d where "d = q - p"
    have d: "q = p + d" "d \<le> MAX_U32_WINDOW_SIZE" "d + ?n \<le> USIZE_MAX"
      using 1 far low by (auto simp: d_def MAX_U32_WINDOW_SIZE_def USIZE_MAX_def)
    have "seq_adv (w_sequence w) d = seq_adv s0 q" unfolding exp d(1) using d(2) low by (intro seq.adv_adv) simp
    with run have "window_append w (seq_adv (w_sequence w) d) payload = Some (r, w')" by simp
    from window_append_adds [OF holds ne d(2,3) _ this] pay
    have "only_adds p w (length (delivered r)) w' (if isl r then {} else {q..<q + ?n}) (\<not> overshoots w (q - p) ?n)"
      unfolding d(1) by simp
    then show ?thesis by (intro exI [of _ "if isl r then {} else {q..<q + ?n}"]) simp
  next
    case 2
    define e where "e = p - q"
    let ?tail = "drop e payload"
    have e: "0 < e" "e < ?n" "unat (seq_adv s0 q) + e = unat (w_sequence w)"
        "unat (seq_adv s0 q) + ?n \<le> 4294967295" "e < 4294967295 - MAX_U32_WINDOW_SIZE"
      using 2 nowrap low unfolding exp by (auto simp: e_def seq_simps)
    have tail: "?tail = map st [p + 0..<p + 0 + length ?tail]" using 2 by (subst pay) (simp add: e_def drop_map ac_simps)
    have len: "?tail \<noteq> []" "0 + length ?tail \<le> USIZE_MAX" "p + length ?tail = q + ?n"
      using 2 e far by (auto simp: e_def USIZE_MAX_def MAX_U32_WINDOW_SIZE_def)
    have "window_append w (seq_adv (w_sequence w) 0) ?tail = Some (r, w')"
      using run window_append_behind [OF e] by simp
    from window_append_adds [OF holds len(1) _ len(2) tail this]
    have "only_adds p w (length (delivered r)) w' (if isl r then {} else {p..<q + ?n}) (\<not> overshoots w (q - p) ?n)"
      using 2 behind unfolding add_0_right len(3) by simp
    then show ?thesis using 2 by (intro exI [of _ "if isl r then {} else {p..<q + ?n}"]) auto
  next
    case 3
    then have "r = Ok None \<and> w' = w"
      using wr.append_repeated [of payload "seq_adv s0 q" w] nowrap low ne run by (auto simp: exp seq_simps)
    with 3 show ?thesis by (intro exI [of _ "{}"]) (auto simp: only_adds_nothing)
  qed
qed

text \<open>
  A run of the receiver with the positions of the segments it has accepted. The last argument tells whether no
  segment began inside a range the window had and ended before the end of that range.
\<close>

inductive arrived :: "(nat \<Rightarrow> u8) \<Rightarrow> u32 \<Rightarrow> usize \<Rightarrow> window \<Rightarrow> u8 list \<Rightarrow> nat set \<Rightarrow> bool \<Rightarrow> bool" for st s0 cap where
  arrived_init: "arrived st s0 cap (window_with_capacity cap s0) [] {} True"
| arrived_segment: "\<lbrakk>arrived st s0 cap w out A exact; segment_ok st s0 (length out) q payload;
    window_append w (seq_adv s0 q) payload = Some (r, w')\<rbrakk> \<Longrightarrow>
    arrived st s0 cap w' (out @ delivered r) (if isl r then A else A \<union> {q..<q + length payload})
      (exact \<and> \<not> overshoots w (q - length out) (length payload))"

lemma arrived_received: "arrived st s0 cap w out A exact \<Longrightarrow> received st s0 cap w out"
  by (induction rule: arrived.induct) (auto intro: received.intros)

lemma arrived_positions:
  assumes "arrived st s0 cap w out A exact" and cap: "cap \<le> MAX_U32_WINDOW_SIZE"
  shows "window_positions (length out) w \<subseteq> A \<and> {0..<length out} \<subseteq> A \<and>
    (exact \<longrightarrow> A \<inter> {length out..} \<subseteq> window_positions (length out) w)"
  using assms(1)
proof (induction rule: arrived.induct)
  case arrived_init
  then show ?case by (simp add: window_positions_def window_has_def window_with_capacity_def)
next
  case (arrived_segment w out A exact q payload r w')
  define T where "T = (if isl r then {} else {q..<q + length payload})"
  define p m where "p = length out" and "m = length (delivered r)"
  note inv = received_inv [OF arrived_received [OF arrived_segment.hyps(1)] cap]
  obtain S where S: "only_adds p w m w' S (\<not> overshoots w (q - p) (length payload))" "S \<inter> {p..} = T \<inter> {p..}"
    using segment_adds [OF conjunct1 [OF inv] _ arrived_segment.hyps(2,3)] inv unfolding T_def p_def m_def by blast
  have adds: "window_positions (p + m) w' \<subseteq> window_positions p w \<union> S" "{p..<p + m} \<subseteq> window_positions p w \<union> S"
      "\<not> overshoots w (q - p) (length payload) \<Longrightarrow> (window_positions p w \<union> S) \<inter> {p + m..} \<subseteq> window_positions (p + m) w'"
    using S(1) unfolding only_adds_def by (elim conjE, assumption | blast)+
  have IH: "window_positions p w \<subseteq> A" "{0..<p} \<subseteq> A" "exact \<Longrightarrow> A \<inter> {p..} \<subseteq> window_positions p w"
    using arrived_segment.IH unfolding p_def by blast+
  have T: "k \<in> S \<longleftrightarrow> k \<in> T" if "p \<le> k" for k using S(2) that by (auto simp: set_eq_iff)
  have "window_positions (p + m) w' \<subseteq> A \<union> T"
  proof
    fix k assume k: "k \<in> window_positions (p + m) w'"
    then have "p \<le> k" by (simp add: window_positions_def)
    with k adds(1) IH(1) T show "k \<in> A \<union> T" by auto
  qed
  moreover have "{0..<p + m} \<subseteq> A \<union> T"
  proof
    fix k assume k: "k \<in> {0..<p + m}"
    show "k \<in> A \<union> T"
    proof (cases "k < p")
      case True
      with IH(2) show ?thesis by auto
    next
      case False
      with k have "k \<in> {p..<p + m}" by simp
      then have "k \<in> window_positions p w \<union> S" using adds(2) by blast
      with False IH(1) T show ?thesis by auto
    qed
  qed
  moreover have "(A \<union> T) \<inter> {p + m..} \<subseteq> window_positions (p + m) w'"
    if "exact" "\<not> overshoots w (q - p) (length payload)"
  proof
    fix k assume k: "k \<in> (A \<union> T) \<inter> {p + m..}"
    then have "p \<le> k" "k \<in> A \<or> k \<in> S" using T by auto
    then have "k \<in> window_positions p w \<union> S" using IH(3) [OF that(1)] by auto
    with k adds(3) [OF that(2)] show "k \<in> window_positions (p + m) w'" by auto
  qed
  moreover have "(if isl r then A else A \<union> {q..<q + length payload}) = A \<union> T" by (simp add: T_def)
  moreover have "length (out @ delivered r) = p + m" by (simp add: p_def m_def)
  ultimately show ?case by (simp only: p_def [symmetric]) blast
qed

text \<open>A small receiver for the witnesses: two segments that arrive in the wrong order.\<close>

definition sample_stream :: "nat \<Rightarrow> u8" where
  "sample_stream i = of_nat (i + 1)"

lemmas window_eval = window_append_def window_trim_def window_store_def window_room_def
  window_grow_def window_pop_def window_next_head_def window_tail_def window_recv_next_def
  window_with_capacity_def edge_key_def edges_insert_def merge_loop.simps prev_key_def bt_range_def
  bt_remove_def seq_dist_eq seq_adv_def seq_add_def checked_add_u32_def uadd_def usub_def umul_def
  umod_def ring_extend_def ring_write_def ring_read_def ring_pos_def checked_add_usize_def
  checked_sub_nat_def subslice_def write_slice_def copy_within_def resize_def Let_def
  MAX_U32_WINDOW_SIZE_def USIZE_MAX_def

definition sample_window :: window where
  "sample_window = \<lparr>w_buffer = [0, 0, 0, 4, 5], w_capacity = 16, w_sequence = 7, w_head = 0, w_size = 5,
     w_edges = [(10, 2)]\<rparr>"

lemma sample_window_append:
  "window_append (window_with_capacity 16 7) 10 [4, 5] = Some (Ok None, sample_window)"
  by (simp add: window_eval sample_window_def) (simp add: numeral_eq_Suc)

lemma sample_window_received: "received sample_stream 7 16 sample_window []"
proof -
  have "segment_ok sample_stream 7 (length ([] :: u8 list)) 3 [4, 5]"
    by (simp add: segment_ok_def sample_stream_def MAX_U32_WINDOW_SIZE_def upt_rec)
  from received_segment [OF received_init this, of 16 "Ok None" sample_window]
  show ?thesis using sample_window_append by (simp add: seq_adv_def seq_add_def checked_add_u32_def)
qed

lemma sample_window_holds: "window_holds sample_stream 0 sample_window"
  using received_inv [OF sample_window_received] by (simp add: MAX_U32_WINDOW_SIZE_def)

section \<open>Properties\<close>

text \<open>
  C8. In-order, gap-free delivery: whatever segments of a stream arrive, in whatever order and with
  repetitions and overlaps, as long as none ends before the byte then expected (such a stale segment panics,
  see below), the bytes the window has handed on are exactly the prefix of the stream up to the
  sequence number it expects, and the window takes the next such segment without a panic; it accepts
  it without an error if it fits, and one that reaches back to the expected byte delivers all of
  its bytes.
\<close>

theorem window_reassembly:
  assumes "received st s0 cap w out" and "cap \<le> MAX_U32_WINDOW_SIZE"
    and "segment_ok st s0 (length out) q payload"
  shows "out = map st [0..<length out] \<and> w_sequence w = seq_adv s0 (length out) \<and>
    (\<exists>n r w'. window_append w (seq_adv s0 q) payload = Some (r, w') \<and>
      out @ delivered r = map st [0..<n] \<and> w_sequence w' = seq_adv s0 n \<and>
      (q + length payload \<le> length out + cap \<longrightarrow> \<not> isl r \<and>
        (q \<le> length out \<longrightarrow> q + length payload \<le> n)))"
proof -
  note inv = received_inv [OF assms(1,2)]
  obtain n r w' where run: "window_append w (seq_adv s0 q) payload = Some (r, w')"
      "w_sequence w' = seq_adv s0 (length out + n)"
      "q + length payload \<le> length out + w_capacity w \<Longrightarrow> isl r = False"
      "q \<le> length out \<Longrightarrow> q + length payload \<le> length out + w_capacity w \<Longrightarrow>
        q + length payload \<le> length out + n"
      "delivered r = map st [length out..<length out + n]"
    using wr.segment_step [OF conjunct1 [OF inv] _ assms(3)] inv by metis
  have "out @ delivered r = map st [0..<length out + n]"
    using received_inv [OF received_segment [OF assms(1,3) run(1)] assms(2)] by (simp add: run(5))
  with run inv show ?thesis by (intro conjI exI [of _ "length out + n"] exI [of _ r] exI [of _ w']) auto
qed

theorem window_reassembly_witness:
  "\<exists>n r w'. window_append sample_window (seq_adv 7 0) [1, 2, 3] = Some (r, w') \<and>
    delivered r = map sample_stream [0..<n] \<and> \<not> isl r \<and> 3 \<le> n"
proof -
  have "segment_ok sample_stream 7 (length ([] :: u8 list)) 0 [1, 2, 3]"
    by (simp add: segment_ok_def sample_stream_def MAX_U32_WINDOW_SIZE_def upt_rec)
  from window_reassembly [OF sample_window_received _ this] show ?thesis
    by (force simp: MAX_U32_WINDOW_SIZE_def)
qed

text \<open>
  The ranges of \<open>filled\<close>, while no number wraps: they are the bytes the window has, each range is non-empty and lies
  strictly ahead of the expected number and inside the window.
\<close>

lemma window_filled_has:
  assumes "window_holds st p w" and "unat (w_sequence w) + w_size w < 4294967295"
  shows "(window_has w i \<longleftrightarrow> (\<exists>(a, b)\<in>set (window_filled w).
        unat a \<le> unat (w_sequence w) + i \<and> unat (w_sequence w) + i < unat b)) \<and>
    (\<forall>(a, b)\<in>set (window_filled w). unat (w_sequence w) < unat a \<and> unat a < unat b \<and>
      unat b \<le> unat (window_recv_next w))"
proof -
  let ?b = "unat (w_sequence w)"
  have shape: "window_shape w" and not0: "\<not> window_has w 0"
    using assms(1) by (auto simp: window_holds_def window_data_def)
  have ok: "edges_ok (w_edges w)" and cov: "covered (w_edges w) \<subseteq> {?b..<?b + w_size w}"
    using shape by (auto simp: window_shape_def)
  have edge: "?b < k \<and> 0 < n \<and> k + n \<le> ?b + w_size w" if "(k, n) \<in> set (w_edges w)" for k n
  proof -
    have "?b \<le> k" "k + n \<le> ?b + w_size w" "0 < n"
      using covered_bounds [OF ok cov that] ok that by (auto simp: edges_ok_def)
    moreover have "k \<noteq> ?b" using not0 that \<open>0 < n\<close> by (force simp: window_has_def covered_def)
    ultimately show ?thesis by simp
  qed
  have rep: "unat (of_nat k :: u32) = k \<and> unat (seq_adv (of_nat k) n) = k + n \<and>
      unwrap_or (checked_sub_nat k 4294967295) k = k"
    if "(k, n) \<in> set (w_edges w)" for k n
    using edge [OF that] assms(2) by (auto simp: seq_simps checked_sub_nat_def)
  have fill: "window_filled w = map (\<lambda>(k, n). (of_nat k, seq_adv (of_nat k) n)) (w_edges w)"
    using rep by (auto simp: window_filled_def Let_def)
  have "unat (window_recv_next w) = ?b + w_size w"
    using assms(2) by (simp add: window_recv_next_def seq_simps)
  then have "\<forall>(a, b)\<in>set (window_filled w). ?b < unat a \<and> unat a < unat b \<and>
      unat b \<le> unat (window_recv_next w)"
    using edge rep by (fastforce simp: fill)
  moreover have "window_has w i \<longleftrightarrow> (\<exists>(a, b)\<in>set (window_filled w).
        unat a \<le> ?b + i \<and> ?b + i < unat b)"
  proof -
    have rep': "unat (of_nat (fst e) :: u32) = fst e \<and> unat (seq_adv (of_nat (fst e)) (snd e)) = fst e + snd e"
      if "e \<in> set (w_edges w)" for e using rep [of "fst e" "snd e"] that by simp
    show ?thesis
      by (simp add: fill window_has_def covered_def case_prod_beta rep' cong: bex_cong)
  qed
  ultimately show ?thesis by blast
qed

text \<open>
  C22. The selective acknowledgements (\<open>filled\<close>) against the history of the connection, while no number wraps. After any run
  of segments: every byte that was handed on was in an accepted segment; every reported range is non-empty and ahead of the
  expected number, and each of its bytes was in an accepted segment. If besides no segment of the run began inside a
  range that had arrived and ended before the end of that range (such a segment makes the window forget bytes, see below),
  then conversely every byte of an accepted segment that has not been handed on is reported.
\<close>

theorem window_filled_arrived:
  assumes "arrived st s0 cap w out A exact" and "cap \<le> MAX_U32_WINDOW_SIZE"
    and "unat s0 + length out + w_size w < 4294967295"
  shows "{0..<length out} \<subseteq> A \<and>
    (\<forall>(a, b)\<in>set (window_filled w). unat s0 + length out < unat a \<and> unat a < unat b \<and>
      (\<forall>k. unat a \<le> unat s0 + k \<and> unat s0 + k < unat b \<longrightarrow> k \<in> A)) \<and>
    (exact \<longrightarrow> (\<forall>k\<in>A. length out \<le> k \<longrightarrow>
      (\<exists>(a, b)\<in>set (window_filled w). unat a \<le> unat s0 + k \<and> unat s0 + k < unat b)))"
proof -
  let ?b = "unat s0 + length out"
  note pos = arrived_positions [OF assms(1,2)]
  have holds: "window_holds st (length out) w" and "w_sequence w = seq_adv s0 (length out)"
    using received_inv [OF arrived_received [OF assms(1)] assms(2)] by simp_all
  then have b: "unat (w_sequence w) = ?b" using assms(3) by (simp add: seq_simps)
  then have nowrap: "unat (w_sequence w) + w_size w < 4294967295" using assms(3) by simp
  note filled = window_filled_has [OF holds nowrap, unfolded b]
  have "k \<in> A" if ab: "(a, b) \<in> set (window_filled w)" and k: "unat a \<le> unat s0 + k" "unat s0 + k < unat b" for a b k
  proof -
    have "?b < unat a" using filled ab by blast
    then have i: "?b + (k - length out) = unat s0 + k" "length out \<le> k" using k(1) by simp_all
    have "window_has w (k - length out)" using filled [of "k - length out"] ab k unfolding i(1) by blast
    with pos i(2) show ?thesis by (auto simp: window_positions_def)
  qed
  moreover have "\<exists>(a, b)\<in>set (window_filled w). unat a \<le> unat s0 + k \<and> unat s0 + k < unat b"
    if "exact" "k \<in> A" "length out \<le> k" for k
  proof -
    have "window_has w (k - length out)" using pos that by (auto simp: window_positions_def)
    moreover have "?b + (k - length out) = unat s0 + k" using that(3) by simp
    ultimately show ?thesis using filled [of "k - length out"] by simp
  qed
  ultimately show ?thesis using pos filled by blast
qed

theorem window_filled_arrived_witness:
  "window_filled sample_window = [(10, 12)] \<and> (\<exists>A. arrived sample_stream 7 16 sample_window [] A True \<and> A = {3..<5})"
proof -
  have "segment_ok sample_stream 7 (length ([] :: u8 list)) 3 [4, 5]"
    by (simp add: segment_ok_def sample_stream_def MAX_U32_WINDOW_SIZE_def upt_rec)
  from arrived_segment [OF arrived_init this, of 16 "Ok None" sample_window] sample_window_append
  have run: "arrived sample_stream 7 16 sample_window [] {3..<5} True"
    by (simp add: overshoots_def window_with_capacity_def seq_adv_def seq_add_def checked_add_u32_def)
  have "window_filled sample_window = [(10, 12)]"
    by (simp add: window_filled_def sample_window_def checked_sub_nat_def seq_adv_def seq_add_def
        checked_add_u32_def)
  with window_filled_arrived [OF run] run show ?thesis
    by (auto simp: sample_window_def MAX_U32_WINDOW_SIZE_def)
qed

text \<open>
  C28. A segment that repeats old data and ends before the expected byte panics: the distance is
  computed with the wrong operand (\<open>sequence\<close> instead of \<open>recv_next\<close>), so the segment is taken to
  reach into the window and the slice of its payload is out of range. A delayed duplicate of any
  segment but the last one is such a segment.
\<close>

theorem window_stale_panics:
  assumes "length payload < e" and "unat s + e = unat (w_sequence w)"
    and "e < 4294967295 - MAX_U32_WINDOW_SIZE"
  shows "window_append w s payload = None"
proof -
  have "unat s + length payload \<le> 4294967295"
    using assms unat_u32_le [of "w_sequence w"] by linarith
  with window_trim_behind [OF _ assms(2) this assms(3)] assms(1) show ?thesis
    by (simp add: window_append_def)
qed

theorem window_stale_panics_witness: "window_append sample_window 2 [9, 9] = None"
  by (rule window_stale_panics [of _ 5]) (simp_all add: sample_window_def MAX_U32_WINDOW_SIZE_def)

text \<open>
  A segment that lies inside a range that arrived before makes the window forget the rest of
  that range: the merged range ends where the new segment ends. The bytes have been reported in a
  selective acknowledgement, and the window takes them for missing from then on.
\<close>

theorem window_forgets_range:
  assumes "window_holds st p w" and "(k, n) \<in> set (w_edges w)"
    and "k < unat (w_sequence w) + d" and "unat (w_sequence w) + d + length payload \<le> k + n"
    and "payload = map st [p + d..<p + d + length payload]" and "payload \<noteq> []"
  shows "\<exists>w'. window_append w (seq_adv (w_sequence w) d) payload = Some (Ok None, w') \<and>
    (\<forall>i. window_has w' i \<longleftrightarrow> window_has w i \<and>
      \<not> (unat (w_sequence w) + d + length payload \<le> unat (w_sequence w) + i \<and>
         unat (w_sequence w) + i < k + n))"
proof -
  let ?b = "unat (w_sequence w)"
  have shape: "window_shape w" and not0: "\<not> window_has w 0"
    using assms(1) by (auto simp: window_holds_def window_data_def)
  have ok: "edges_ok (w_edges w)" and cov: "covered (w_edges w) \<subseteq> {?b..<?b + w_size w}"
    using shape by (auto simp: window_shape_def)
  have k: "?b \<le> k" "k + n \<le> ?b + w_size w" using covered_bounds [OF ok cov assms(2)] by auto
  have d: "0 < d" "d + length payload \<le> w_capacity w"
    using k assms(3,4) window_shape_sizes [OF shape] by auto
  obtain w' where run: "window_append w (seq_adv (w_sequence w) d) payload = Some (Ok None, w')"
      "w_sequence w' = seq_adv (w_sequence w) 0"
      "edges_insert (?b + d) (length payload) (w_edges w) = Some (w_edges w')"
    by (rule window_append_ahead [OF assms(1,6) d(2) assms(5)]) (use d(1) in auto)
  have "covered (w_edges w') = covered (w_edges w) - {?b + d + length payload..<k + n}"
    by (rule edges_insert_inside [OF ok _ assms(2-4) run(3)]) (use assms(6) in simp)
  with run show ?thesis by (auto simp: window_has_def)
qed

definition sample_window_2 :: window where
  "sample_window_2 = \<lparr>w_buffer = [0, 2, 3, 4, 5], w_capacity = 16, w_sequence = 7, w_head = 0,
     w_size = 5, w_edges = [(8, 4)]\<rparr>"

lemma sample_window_2_holds: "window_holds sample_stream 0 sample_window_2"
proof -
  have "window_at sample_window_2 i = sample_stream i" if "1 \<le> i" "i < 5" for i
  proof -
    from that have "i = 1 \<or> i = 2 \<or> i = 3 \<or> i = 4" by linarith
    then show ?thesis by (auto simp: window_at_def sample_window_2_def sample_stream_def)
  qed
  then show ?thesis
    by (auto simp: window_holds_def window_data_def window_shape_def window_has_def sample_window_2_def
        edges_ok_def apart_def MAX_U32_WINDOW_SIZE_def)
qed

theorem window_forgets_range_witness:
  "\<exists>w'. window_append sample_window_2 (seq_adv 7 2) [3] = Some (Ok None, w') \<and>
     window_has sample_window_2 4 \<and> \<not> window_has w' 4"
proof -
  have "window_has sample_window_2 4" by (simp add: window_has_def sample_window_2_def)
  then show ?thesis
    using window_forgets_range [OF sample_window_2_holds, of 8 4 2 "[3]"]
    by (auto simp: sample_window_2_def sample_stream_def)
qed

text \<open>The next segment of a window with nothing out of order is delivered at once.\<close>

lemma window_append_next:
  assumes shape: "window_shape w" and empty: "w_size w = 0" and payload: "payload \<noteq> []" "length payload \<le> w_capacity w"
  obtains w' where "window_append w (w_sequence w) payload = Some (Ok (Some payload), w')" and "window_shape w'" and "w_size w' = 0"
    and "w_capacity w' = w_capacity w" and "w_sequence w' = seq_adv (w_sequence w) (length payload)"
proof -
  define st where "st = (\<lambda>i. payload ! i)"
  have seg: "payload = map st [0 + 0..<0 + 0 + length payload]" by (simp add: st_def map_nth)
  have holds: "window_holds st 0 w"
    using shape empty by (simp add: window_holds_def window_data_def window_shape_def window_has_def)
  have fit: "0 + length payload \<le> w_capacity w" using payload(2) by simp
  obtain n w' where
      w': "window_append w (seq_adv (w_sequence w) 0) payload = Some (Ok (if n = 0 then None else Some (map st [0..<0 + n])), w')"
      "window_holds st (0 + n) w'" "w_sequence w' = seq_adv (w_sequence w) n" "w_capacity w' = w_capacity w"
      "length payload \<le> n" "n + w_size w' = length payload"
    by (rule window_append_ahead [OF holds payload(1) fit seg]) (rule that; (assumption | simp add: empty))
  then have "n = length payload" "w_size w' = 0" by simp_all
  with w' seg payload(1) show ?thesis
    by (intro that [of w']) (simp_all add: window_holds_def window_data_def)
qed

text \<open>
  C29. At the end of the number space the window is one off its peer: in any window with nothing out of order, a segment
  whose numbers reach \<open>0xFFFFFFFF\<close> is delivered, but the number the window then expects is one more than that of the next byte
  (TCP counts modulo \<open>2\<^sup>3\<^sup>2\<close>), so that the segment with that number is delivered without its first byte.
\<close>

theorem window_wrap_skips:
  assumes "window_shape w" and "w_size w = 0" and "payload \<noteq> []" and "length payload \<le> w_capacity w"
    and "4294967295 < unat (w_sequence w) + length payload" and "rest \<noteq> []" and "length rest \<le> w_capacity w"
  shows "\<exists>w' w''. window_append w (w_sequence w) payload = Some (Ok (Some payload), w') \<and>
    w_sequence w' = w_sequence w + of_nat (length payload) + 1 \<and>
    window_append w' (w_sequence w + of_nat (length payload)) (b # rest) = Some (Ok (Some rest), w'')"
proof -
  let ?n = "length payload" and ?s = "w_sequence w + of_nat (length payload)"
  note cap = window_shape_sizes(4) [OF assms(1)]
  obtain w' where w': "window_append w (w_sequence w) payload = Some (Ok (Some payload), w')" "window_shape w'" "w_size w' = 0"
      "w_capacity w' = w_capacity w" "w_sequence w' = seq_adv (w_sequence w) ?n"
    by (rule window_append_next [OF assms(1-4)])
  have n: "?n \<le> 16777216" "length rest \<le> 16777216" using assms(4,7) cap by simp_all
  have s: "unat ?s = unat (w_sequence w) + ?n - 4294967296"
    using assms(5) n(1) unat_u32_le [of "w_sequence w"]
    by (simp add: unat_word_ariths unat_of_nat le_mod_geq)
  have adv: "unat (w_sequence w') = unat ?s + 1"
    using assms(5) n(1) unat_u32_le [of "w_sequence w"] unfolding s w'(5) by (simp add: seq_simps)
  moreover have "unat (?s + 1) = unat ?s + 1"
    using n(1) s unat_u32_le [of "w_sequence w"] by (simp add: unat_word_ariths(1) del: unat_of_nat)
  ultimately have seq: "w_sequence w' = ?s + 1" by (metis unsigned_word_eqI)
  have "unat ?s + 1 = unat (w_sequence w')" using adv by simp
  then have "window_append w' ?s (b # rest) = window_append w' (w_sequence w') (drop 1 (b # rest))"
    using assms(6) n s unat_u32_le [of "w_sequence w"]
    by (intro window_append_behind) (simp_all add: MAX_U32_WINDOW_SIZE_def)
  moreover obtain w'' where "window_append w' (w_sequence w') rest = Some (Ok (Some rest), w'')"
    using window_append_next [OF w'(2,3) assms(6)] assms(7) w'(4) by auto
  ultimately show ?thesis using w'(1) seq by auto
qed

theorem window_wrap_skips_witness:
  "\<exists>w' w''. window_append (window_with_capacity 16 4294967294) 4294967294 [5, 6] = Some (Ok (Some [5, 6]), w') \<and>
    w_sequence w' = 1 \<and> window_append w' 0 [7, 8] = Some (Ok (Some [8]), w'')"
proof -
  let ?w = "window_with_capacity 16 4294967294"
  have "window_shape ?w" by (simp add: window_with_capacity_def window_shape_def edges_ok_def apart_def covered_def MAX_U32_WINDOW_SIZE_def)
  moreover have num: "w_sequence ?w + of_nat (length [5 :: u8, 6]) = 0" by (simp add: window_with_capacity_def)
  ultimately have "\<exists>w' w''. window_append ?w (w_sequence ?w) [5, 6] = Some (Ok (Some [5, 6]), w') \<and> w_sequence w' = 0 + 1 \<and>
      window_append w' 0 (7 # [8]) = Some (Ok (Some [8]), w'')"
    unfolding num [symmetric] by (intro window_wrap_skips) (simp_all add: window_with_capacity_def)
  then show ?thesis by (simp add: window_with_capacity_def)
qed

end
