(* ===== verification/Addr.thy ===== *)
theory Addr
  imports Prelude
begin

text \<open>
  Addresses. An \<open>Ipv4Addr\<close> is its 32 bits, most significant octet first; a \<open>SocketAddrV4\<close> is an
  address with a port. \<open>instantiation\<close>s of \<open>linorder\<close> give the key order of the program's maps.
\<close>

type_synonym ipv4_addr = u32

datatype socket_addr_v4 = SocketAddrV4 (ip: ipv4_addr) (port: u16)

type_synonym hardware_addr = "u8 list"

definition UNSPECIFIED :: ipv4_addr where
  "UNSPECIFIED = 0"

section \<open>Network byte order\<close>

text \<open>\<open>to_be_bytes\<close> and \<open>from_be_bytes\<close> of an unsigned integer of \<open>k\<close> bytes.\<close>

primrec be_bytes :: "nat \<Rightarrow> nat \<Rightarrow> u8 list" where
  "be_bytes 0 n = []"
| "be_bytes (Suc k) n = be_bytes k (n div 256) @ [of_nat n]"

definition be_value :: "u8 list \<Rightarrow> nat" where
  "be_value bs = foldl (\<lambda>v b. v * 256 + unat b) 0 bs"

lemma unat_u8_less: "unat (a :: u8) < 256"
proof -
  have "unat a < 2 ^ LENGTH(8)" by (rule unsigned_less)
  then show ?thesis by simp
qed

lemma unat_u16_less: "unat (a :: u16) < 65536"
proof -
  have "unat a < 2 ^ LENGTH(16)" by (rule unsigned_less)
  then show ?thesis by simp
qed

lemma unat_u32_less: "unat (a :: u32) < 4294967296"
proof -
  have "unat a < 2 ^ LENGTH(32)" by (rule unsigned_less)
  then show ?thesis by simp
qed

lemma be_value_simps [simp]:
  "be_value [] = 0" "be_value (bs @ [b]) = be_value bs * 256 + unat b"
  by (simp_all add: be_value_def)

lemma length_be_bytes [simp]: "length (be_bytes k n) = k"
  by (induction k arbitrary: n) simp_all

lemma be_value_bytes: "be_value (be_bytes k n) = n mod 256 ^ k"
proof (induction k arbitrary: n)
  case (Suc k)
  have "unat (of_nat n :: u8) = n mod 256" by (subst unat_of_nat) simp
  then show ?case
    using mod_mult2_eq [of n 256 "256 ^ k"] by (simp add: Suc)
qed simp

lemma be_bytes_value: "be_bytes (length bs) (be_value bs) = bs"
proof (induction bs rule: rev_induct)
  case (snoc b bs)
  have "(be_value bs * 256 + unat b) div 256 = be_value bs"
    using unat_u8_less [of b] by simp
  moreover have "of_nat (be_value bs * 256 + unat b) = b"
    using unat_u8_less [of b] by (subst word_unat_eq_iff, subst unat_of_nat) simp
  ultimately show ?case using snoc by (simp only: length_append_singleton be_value_simps be_bytes.simps)
qed simp

lemma be_value_less: "be_value bs < 256 ^ length bs"
proof -
  have "be_value bs mod 256 ^ length bs = be_value bs"
    using be_value_bytes [of "length bs" "be_value bs"] by (simp add: be_bytes_value)
  then show ?thesis by (metis mod_less_divisor zero_less_numeral zero_less_power)
qed

definition octets :: "ipv4_addr \<Rightarrow> u8 list" where
  "octets a = be_bytes 4 (unat a)"

definition from_octets :: "u8 list \<Rightarrow> ipv4_addr" where
  "from_octets bs = of_nat (be_value bs)"

lemma length_octets [simp]: "length (octets a) = 4"
  by (simp add: octets_def)

lemma from_octets_octets [simp]: "from_octets (octets a) = a"
  using unat_u32_less [of a] by (simp add: octets_def from_octets_def be_value_bytes)

lemma octets_from_octets: "length bs = 4 \<Longrightarrow> octets (from_octets bs) = bs"
  using be_value_less [of bs] be_bytes_value [of bs]
  by (simp add: octets_def from_octets_def unat_of_nat)

definition port_bytes :: "u16 \<Rightarrow> u8 list" where
  "port_bytes p = be_bytes 2 (unat p)"

definition from_port_bytes :: "u8 list \<Rightarrow> u16" where
  "from_port_bytes bs = of_nat (be_value bs)"

lemma length_port_bytes [simp]: "length (port_bytes p) = 2"
  by (simp add: port_bytes_def)

lemma from_port_bytes_bytes [simp]: "from_port_bytes (port_bytes p) = p"
  using unat_u16_less [of p] by (simp add: port_bytes_def from_port_bytes_def be_value_bytes)

lemma port_bytes_from: "length bs = 2 \<Longrightarrow> port_bytes (from_port_bytes bs) = bs"
  using be_value_less [of bs] be_bytes_value [of bs]
  by (simp add: port_bytes_def from_port_bytes_def unat_of_nat)

section \<open>Order\<close>

text \<open>Socket addresses are ordered by address, then by port.\<close>

instantiation socket_addr_v4 :: linorder
begin

definition less_eq_socket_addr_v4 :: "socket_addr_v4 \<Rightarrow> socket_addr_v4 \<Rightarrow> bool" where
  "less_eq_socket_addr_v4 a b \<longleftrightarrow> ip a < ip b \<or> ip a = ip b \<and> port a \<le> port b"

definition less_socket_addr_v4 :: "socket_addr_v4 \<Rightarrow> socket_addr_v4 \<Rightarrow> bool" where
  "less_socket_addr_v4 a b \<longleftrightarrow> ip a < ip b \<or> ip a = ip b \<and> port a < port b"

instance
proof
  fix a b c :: socket_addr_v4
  show "a < b \<longleftrightarrow> a \<le> b \<and> \<not> b \<le> a" and "a \<le> a" and "a \<le> b \<or> b \<le> a"
    by (auto simp: less_eq_socket_addr_v4_def less_socket_addr_v4_def)
  show "a \<le> b \<Longrightarrow> b \<le> c \<Longrightarrow> a \<le> c"
    by (auto simp: less_eq_socket_addr_v4_def)
  show "a \<le> b \<Longrightarrow> b \<le> a \<Longrightarrow> a = b"
    by (cases a; cases b) (auto simp: less_eq_socket_addr_v4_def)
qed

end

end
