(* ===== verification/TcpTx.thy ===== *)
theory TcpTx
  imports Addr Queue
begin

text \<open>
  The sending half of a TCP connection, \<open>TcpTxState\<close> of \<open>lib.rs\<close>: the backlog (\<open>queue\<close>), the send
  cache, the numbers and windows put into segments, and the retransmission timeout. The client of
  the contract \<open>send_cache\<close>.
\<close>

section \<open>Constants\<close>

definition RECV_WINDOW :: u16 where
  "RECV_WINDOW = 65535"

definition ENABLE_RTO_COMPUTE :: bool where
  "ENABLE_RTO_COMPUTE = True"

definition INITIAL_RTO :: u64 where
  "INITIAL_RTO = 1000"

definition MIN_RTO :: u64 where
  "MIN_RTO = 1000"

definition MAX_RTO :: u64 where
  "MAX_RTO = 60000"

text \<open>\<open>a << n\<close> on \<open>usize\<close>: bits shifted out are lost, and a shift by 64 or more panics.\<close>

definition ushl :: "usize \<Rightarrow> nat \<Rightarrow> usize option" where
  "ushl a n = (if n < 64 then Some (a * 2 ^ n mod (USIZE_MAX + 1)) else None)"

section \<open>State\<close>

record tcp_tx_state =
  tx_src :: socket_addr_v4
  tx_dst :: socket_addr_v4
  tx_send_window :: usize
  tx_send_wscale :: "u8 option"
  tx_sack_perm :: bool
  tx_sequence :: u32
  tx_acknowledgement :: u32
  tx_window :: u16
  tx_sacks :: "(u32 \<times> u32) list option"
  tx_cache :: queue
  tx_cache_syn :: "instant option"
  tx_cache_fin :: "timer option"
  tx_cache_fin_retrans :: bool
  tx_queue :: "u8 list"
  tx_queue_fin :: bool
  tx_rto :: u64
  tx_srtt :: "u64 option"
  tx_rttvar :: "u64 option"

definition tcp_tx_new :: "socket_addr_v4 \<Rightarrow> socket_addr_v4 \<Rightarrow> u32 \<Rightarrow> u32 \<Rightarrow> u16 \<Rightarrow> u8 option \<Rightarrow> bool
    \<Rightarrow> u8 option \<Rightarrow> tcp_tx_state option" where
  "tcp_tx_new src dst sequence acknowledgement send_window send_wscale sack_perm wscale = do {
     window \<leftarrow> ushl (unat send_window) (unat (unwrap_or send_wscale 0));
     capacity \<leftarrow> ushl (unat RECV_WINDOW) (unat (unwrap_or wscale 0));
     cache \<leftarrow> queue_with_capacity capacity sequence;
     Some \<lparr>tx_src = src, tx_dst = dst, tx_send_window = window, tx_send_wscale = send_wscale,
       tx_sack_perm = sack_perm, tx_sequence = sequence, tx_acknowledgement = acknowledgement,
       tx_window = RECV_WINDOW, tx_sacks = None, tx_cache = cache, tx_cache_syn = None,
       tx_cache_fin = None, tx_cache_fin_retrans = True, tx_queue = [], tx_queue_fin = False,
       tx_rto = INITIAL_RTO, tx_srtt = None, tx_rttvar = None\<rparr>
   }"

section \<open>Operations\<close>

definition set_send_window :: "tcp_tx_state \<Rightarrow> usize \<Rightarrow> tcp_tx_state" where
  "set_send_window x window = x\<lparr>tx_send_window := window\<rparr>"

definition add_sequence :: "tcp_tx_state \<Rightarrow> u32 \<Rightarrow> tcp_tx_state" where
  "add_sequence x n = x\<lparr>tx_sequence := seq_add (tx_sequence x) n\<rparr>"

definition add_acknowledgement :: "tcp_tx_state \<Rightarrow> u32 \<Rightarrow> tcp_tx_state" where
  "add_acknowledgement x n = x\<lparr>tx_acknowledgement := seq_add (tx_acknowledgement x) n\<rparr>"

definition set_window :: "tcp_tx_state \<Rightarrow> u16 \<Rightarrow> tcp_tx_state" where
  "set_window x window = x\<lparr>tx_window := window\<rparr>"

definition set_sacks :: "tcp_tx_state \<Rightarrow> (u32 \<times> u32) list \<Rightarrow> tcp_tx_state" where
  "set_sacks x sacks =
     (if sacks = [] then x\<lparr>tx_sacks := None\<rparr>
      else x\<lparr>tx_sacks := Some (take (min 4 (length sacks)) sacks)\<rparr>)"

definition set_rto :: "tcp_tx_state \<Rightarrow> u64 \<Rightarrow> tcp_tx_state" where
  "set_rto x rto =
     (if ENABLE_RTO_COMPUTE then x\<lparr>tx_rto := min MAX_RTO (max MIN_RTO rto)\<rparr> else x)"

definition double_rto :: "tcp_tx_state \<Rightarrow> tcp_tx_state" where
  "double_rto x = set_rto x (unwrap_or (checked_mul_u64 (tx_rto x) 2) U64_MAX)"

text \<open>The smoothed round-trip time and its variation after a sample of \<open>rtt\<close> milliseconds.\<close>

definition rtt_estimate :: "u64 option \<Rightarrow> u64 option \<Rightarrow> u64 \<Rightarrow> (u64 \<times> u64) option" where
  "rtt_estimate prev_srtt prev_rttvar rtt =
     (case prev_srtt of
        Some prev_srtt \<Rightarrow> do {
          prev_rttvar \<leftarrow> prev_rttvar;
          let rttvar = unwrap_or (checked_add_u64 (prev_rttvar div 8 * 7)
            ((case checked_sub_nat prev_srtt rtt of Some d \<Rightarrow> d | None \<Rightarrow> rtt - prev_srtt) div 4)) U64_MAX;
          let srtt = unwrap_or (checked_add_u64 (prev_rttvar div 8 * 7) (rtt div 8)) U64_MAX;
          Some (srtt, rttvar)
        }
      | None \<Rightarrow> Some (rtt, rtt div 2))"

definition update_rto :: "tcp_tx_state \<Rightarrow> duration \<Rightarrow> tcp_tx_state option" where
  "update_rto x rtt = do {
     let rtt = (if as_millis rtt > U64_MAX then U64_MAX else as_millis rtt);
     (srtt, rttvar) \<leftarrow> rtt_estimate (tx_srtt x) (tx_rttvar x) rtt;
     let x = x\<lparr>tx_srtt := Some srtt, tx_rttvar := Some rttvar\<rparr>;
     let rto = unwrap_or
       (checked_add_u64 srtt (max 1 (unwrap_or (checked_mul_u64 rttvar 4) U64_MAX))) U64_MAX;
     Some (set_rto x rto)
   }"

definition update_syn_timer :: "tcp_tx_state \<Rightarrow> instant \<Rightarrow> tcp_tx_state" where
  "update_syn_timer x now = x\<lparr>tx_cache_syn := Some now\<rparr>"

definition update_fin_timer :: "tcp_tx_state \<Rightarrow> instant \<Rightarrow> tcp_tx_state" where
  "update_fin_timer x now =
     (let x = (if tx_cache_fin x \<noteq> None then x\<lparr>tx_cache_fin_retrans := True\<rparr> else x)
      in x\<lparr>tx_cache_fin := Some (timer_new now (tx_rto x))\<rparr>)"

text \<open>The parts of \<open>acknowledge\<close> for the SYN and for the FIN.\<close>

definition acknowledge_syn :: "tcp_tx_state \<Rightarrow> u32 \<Rightarrow> instant \<Rightarrow> duration option \<times> tcp_tx_state" where
  "acknowledge_syn x sequence now =
     (case tx_cache_syn x of
        Some at \<Rightarrow>
          if seq_dist sequence (tx_sequence x) \<le> MAX_U32_WINDOW_SIZE
          then (Some (now - at), add_sequence (x\<lparr>tx_cache_syn := None\<rparr>) 1)
          else (None, x)
      | None \<Rightarrow> (None, x))"

definition acknowledge_fin :: "tcp_tx_state \<Rightarrow> u32 \<Rightarrow> instant \<Rightarrow> duration option
    \<Rightarrow> duration option \<times> tcp_tx_state" where
  "acknowledge_fin x sequence now rtt =
     (if seq_dist sequence (queue_recv_next (tx_cache x)) \<le> MAX_U32_WINDOW_SIZE then
        (case tx_cache_fin x of
           Some timer \<Rightarrow>
             (if rtt = None \<and> \<not> tx_cache_fin_retrans x \<and> \<not> timer_is_timedout now timer
              then Some (timer_elapsed now timer) else rtt,
              add_sequence (x\<lparr>tx_cache_fin := None, tx_cache_fin_retrans := False\<rparr>) 1)
         | None \<Rightarrow> (rtt, x))
      else (rtt, x))"

definition acknowledge :: "tcp_tx_state \<Rightarrow> u32 \<Rightarrow> instant \<Rightarrow> tcp_tx_state option" where
  "acknowledge x sequence now = do {
     let (rtt, x) = acknowledge_syn x sequence now;
     (cache_rtt, cache) \<leftarrow> queue_invalidate_to (tx_cache x) sequence now;
     let x = x\<lparr>tx_cache := cache\<rparr>;
     let rtt = (if rtt = None then cache_rtt else rtt);
     let (rtt, x) = acknowledge_fin x sequence now rtt;
     (case rtt of Some rtt \<Rightarrow> update_rto x rtt | None \<Rightarrow> Some x)
   }"

definition append_cache :: "tcp_tx_state \<Rightarrow> usize \<Rightarrow> instant \<Rightarrow> (u8 list, tcp_tx_state) outcome" where
  "append_cache x n now =
     (if n \<le> length (tx_queue x) then do {
        let payload = take n (tx_queue x);
        let x = x\<lparr>tx_queue := drop n (tx_queue x)\<rparr>;
        (r, cache) \<leftarrow> queue_append (tx_cache x) payload (tx_rto x) now;
        let x = x\<lparr>tx_cache := cache\<rparr>;
        (case r of Inl e \<Rightarrow> Some (Err e, x) | Inr _ \<Rightarrow> Some (Ok payload, x))
      } else None)"

definition append_cache_fin :: "tcp_tx_state \<Rightarrow> instant \<Rightarrow> tcp_tx_state" where
  "append_cache_fin x now = update_fin_timer (x\<lparr>tx_queue_fin := False\<rparr>) now"

definition append_queue :: "tcp_tx_state \<Rightarrow> u8 list \<Rightarrow> tcp_tx_state" where
  "append_queue x payload = x\<lparr>tx_queue := tx_queue x @ payload\<rparr>"

definition append_queue_fin :: "tcp_tx_state \<Rightarrow> tcp_tx_state" where
  "append_queue_fin x = x\<lparr>tx_queue_fin := True\<rparr>"

text \<open>\<open>cache_mut().get_timed_out_and_update(rto)\<close>\<close>

definition take_timed_out :: "tcp_tx_state \<Rightarrow> u64 \<Rightarrow> instant \<Rightarrow> (u8 list \<times> tcp_tx_state) option" where
  "take_timed_out x rto now = do {
     (payload, cache) \<leftarrow> queue_get_timed_out_and_update (tx_cache x) rto now;
     Some (payload, x\<lparr>tx_cache := cache\<rparr>)
   }"

section \<open>Invariant\<close>

definition rto_ok :: "tcp_tx_state \<Rightarrow> bool" where
  "rto_ok x \<longleftrightarrow> MIN_RTO \<le> tx_rto x \<and> tx_rto x \<le> MAX_RTO \<and>
     (tx_srtt x = None \<longleftrightarrow> tx_rttvar x = None)"

definition tx_ok :: "tcp_tx_state \<Rightarrow> bool" where
  "tx_ok x \<longleftrightarrow> queue_inv (tx_cache x) \<and> rto_ok x \<and>
     (\<forall>sacks. tx_sacks x = Some sacks \<longrightarrow> 0 < length sacks \<and> length sacks \<le> 4)"

text \<open>The bytes of the connection that are not acknowledged yet, oldest first.\<close>

definition tx_bytes :: "tcp_tx_state \<Rightarrow> u8 list" where
  "tx_bytes x = queue_bytes (tx_cache x) @ tx_queue x"

text \<open>How many bytes an acknowledgement of \<open>sequence\<close> removes.\<close>

definition acked :: "tcp_tx_state \<Rightarrow> u32 \<Rightarrow> nat" where
  "acked x sequence = (let d = seq_dist sequence (q_sequence (tx_cache x))
     in if d \<le> MAX_U32_WINDOW_SIZE then min d (q_size (tx_cache x)) else 0)"

lemma set_rto_eq:
  "set_rto x rto = x\<lparr>tx_rto := min MAX_RTO (max MIN_RTO rto)\<rparr>"
  by (simp add: set_rto_def ENABLE_RTO_COMPUTE_def)

lemma rto_clamped [simp]: "MIN_RTO \<le> MAX_RTO"
  by (simp_all add: MIN_RTO_def MAX_RTO_def)

lemma tx_ok_double_rto: "tx_ok x \<Longrightarrow> tx_ok (double_rto x)"
  by (simp add: tx_ok_def rto_ok_def double_rto_def set_rto_eq)

lemma tx_ok_simple:
  assumes "tx_ok x"
  shows "tx_ok (set_send_window x w)" "tx_ok (add_sequence x n)" "tx_ok (add_acknowledgement x n)"
    "tx_ok (set_window x v)" "tx_ok (set_sacks x sacks)" "tx_ok (update_syn_timer x now)"
    "tx_ok (update_fin_timer x now)" "tx_ok (append_cache_fin x now)" "tx_ok (append_queue x p)"
    "tx_ok (append_queue_fin x)" "tx_ok (double_rto x)"
  using assms tx_ok_double_rto [OF assms]
  by (auto simp: tx_ok_def rto_ok_def set_send_window_def add_sequence_def add_acknowledgement_def
      set_window_def set_sacks_def update_syn_timer_def update_fin_timer_def append_cache_fin_def
      append_queue_def append_queue_fin_def Let_def)

lemma tx_cache_simple [simp]:
  "tx_cache (set_send_window x w) = tx_cache x" "tx_cache (add_sequence x n) = tx_cache x"
  "tx_cache (add_acknowledgement x n) = tx_cache x" "tx_cache (set_window x v) = tx_cache x"
  "tx_cache (set_sacks x sacks) = tx_cache x" "tx_cache (update_syn_timer x now) = tx_cache x"
  "tx_cache (update_fin_timer x now) = tx_cache x" "tx_cache (append_cache_fin x now) = tx_cache x"
  "tx_cache (append_queue_fin x) = tx_cache x" "tx_cache (double_rto x) = tx_cache x"
  "tx_cache (append_queue x p) = tx_cache x"
  by (auto simp: set_send_window_def add_sequence_def add_acknowledgement_def
      set_window_def set_sacks_def update_syn_timer_def update_fin_timer_def append_cache_fin_def
      append_queue_def append_queue_fin_def double_rto_def set_rto_eq Let_def)

lemma tx_bytes_simple [simp]:
  "tx_bytes (set_send_window x w) = tx_bytes x" "tx_bytes (add_sequence x n) = tx_bytes x"
  "tx_bytes (add_acknowledgement x n) = tx_bytes x" "tx_bytes (set_window x v) = tx_bytes x"
  "tx_bytes (set_sacks x sacks) = tx_bytes x" "tx_bytes (update_syn_timer x now) = tx_bytes x"
  "tx_bytes (update_fin_timer x now) = tx_bytes x" "tx_bytes (append_cache_fin x now) = tx_bytes x"
  "tx_bytes (append_queue_fin x) = tx_bytes x" "tx_bytes (double_rto x) = tx_bytes x"
  "tx_bytes (append_queue x p) = tx_bytes x @ p"
  by (auto simp: tx_bytes_def set_send_window_def add_sequence_def add_acknowledgement_def
      set_window_def set_sacks_def update_syn_timer_def update_fin_timer_def append_cache_fin_def
      append_queue_def append_queue_fin_def double_rto_def set_rto_eq Let_def)

lemma update_rto_ok:
  assumes "rto_ok x"
  obtains rto srtt rttvar where
    "update_rto x rtt = Some (x\<lparr>tx_rto := rto, tx_srtt := Some srtt, tx_rttvar := Some rttvar\<rparr>)"
    and "MIN_RTO \<le> rto" and "rto \<le> MAX_RTO"
proof -
  define ms where "ms = (if as_millis rtt > U64_MAX then U64_MAX else as_millis rtt)"
  obtain srtt rttvar where est: "rtt_estimate (tx_srtt x) (tx_rttvar x) ms = Some (srtt, rttvar)"
    using assms by (cases "tx_srtt x"; cases "tx_rttvar x") (auto simp: rto_ok_def rtt_estimate_def Let_def)
  show ?thesis
    by (rule that [of rttvar srtt "min MAX_RTO (max MIN_RTO (unwrap_or
          (checked_add_u64 srtt (max 1 (unwrap_or (checked_mul_u64 rttvar 4) U64_MAX))) U64_MAX))"])
      (simp_all add: update_rto_def est set_rto_eq Let_def flip: ms_def)
qed

lemma acknowledge_syn_fields:
  assumes "acknowledge_syn x s now = (rtt, x')"
  shows "tx_ok x' = tx_ok x" and "tx_cache x' = tx_cache x" and "tx_queue x' = tx_queue x"
    and "tx_cache_fin x' = tx_cache_fin x" and "tx_queue_fin x' = tx_queue_fin x"
    and "tx_send_window x' = tx_send_window x"
  using assms
  by (auto simp: acknowledge_syn_def add_sequence_def tx_ok_def rto_ok_def split: option.splits if_splits)

lemma acknowledge_fin_fields:
  assumes "acknowledge_fin x s now rtt = (rtt', x')"
  shows "tx_ok x' = tx_ok x" and "tx_cache x' = tx_cache x" and "tx_queue x' = tx_queue x"
    and "tx_queue_fin x' = tx_queue_fin x" and "tx_send_window x' = tx_send_window x"
    and "tx_cache_fin x' = (if seq_dist s (queue_recv_next (tx_cache x)) \<le> MAX_U32_WINDOW_SIZE
      then None else tx_cache_fin x)"
  using assms
  by (auto simp: acknowledge_fin_def add_sequence_def tx_ok_def rto_ok_def split: option.splits if_splits)

lemma acknowledge_ok:
  assumes ok: "tx_ok x"
  obtains x' where "acknowledge x s now = Some x'" and "tx_ok x'"
    and "queue_bytes (tx_cache x') = drop (acked x s) (queue_bytes (tx_cache x))"
    and "tx_queue x' = tx_queue x" and "q_capacity (tx_cache x') = q_capacity (tx_cache x)"
    and "tx_queue_fin x' = tx_queue_fin x"
    and "tx_cache_fin x' = (if seq_dist s (queue_recv_next (tx_cache x')) \<le> MAX_U32_WINDOW_SIZE
      then None else tx_cache_fin x)"
    and "q_sequence (tx_cache x') = (if seq_dist s (q_sequence (tx_cache x)) \<le> MAX_U32_WINDOW_SIZE
      then s else q_sequence (tx_cache x))"
proof -
  obtain rtt1 x1 where syn: "acknowledge_syn x s now = (rtt1, x1)" by force
  note f1 = acknowledge_syn_fields [OF syn]
  have inv: "queue_inv (tx_cache x)" using ok by (simp add: tx_ok_def)
  obtain crtt cache where inval: "queue_invalidate_to (tx_cache x) s now = Some (crtt, cache)"
      "queue_inv cache" "q_capacity cache = q_capacity (tx_cache x)"
      "if seq_dist s (q_sequence (tx_cache x)) \<le> MAX_U32_WINDOW_SIZE
       then q_sequence cache = s \<and> queue_bytes cache =
         drop (seq_dist s (q_sequence (tx_cache x))) (queue_bytes (tx_cache x))
       else q_sequence cache = q_sequence (tx_cache x) \<and> queue_bytes cache = queue_bytes (tx_cache x)"
    using sq.invalidate [OF inv, of s now] by blast
  have bytes: "queue_bytes cache = drop (acked x s) (queue_bytes (tx_cache x))"
    using inval(4) by (auto simp: acked_def Let_def min_def split: if_splits)
  define x2 where "x2 = x1\<lparr>tx_cache := cache\<rparr>"
  have ok2: "tx_ok x2" using ok f1(1) inval(2) by (auto simp: x2_def tx_ok_def rto_ok_def)
  obtain rtt3 x3 where fin: "acknowledge_fin x2 s now (if rtt1 = None then crtt else rtt1) = (rtt3, x3)"
    by force
  note f3 = acknowledge_fin_fields [OF fin]
  have ok3: "tx_ok x3" using ok2 f3 by simp
  have run: "acknowledge x s now = (case rtt3 of Some rtt \<Rightarrow> update_rto x3 rtt | None \<Rightarrow> Some x3)"
    using syn inval(1) fin f1(2) by (simp add: acknowledge_def x2_def)
  obtain x' where x': "acknowledge x s now = Some x'" "tx_ok x'" "tx_cache x' = tx_cache x3"
      "tx_queue x' = tx_queue x3" "tx_queue_fin x' = tx_queue_fin x3" "tx_cache_fin x' = tx_cache_fin x3"
  proof (cases rtt3)
    case None
    with run ok3 show ?thesis by (intro that) auto
  next
    case (Some d)
    from ok3 have "rto_ok x3" by (simp add: tx_ok_def)
    then obtain rto srtt rttvar where
      "update_rto x3 d = Some (x3\<lparr>tx_rto := rto, tx_srtt := Some srtt, tx_rttvar := Some rttvar\<rparr>)"
      "MIN_RTO \<le> rto" "rto \<le> MAX_RTO" by (rule update_rto_ok)
    with run Some ok3 show ?thesis
      by (intro that [of "x3\<lparr>tx_rto := rto, tx_srtt := Some srtt, tx_rttvar := Some rttvar\<rparr>"])
        (auto simp: tx_ok_def rto_ok_def)
  qed
  show ?thesis
    by (rule that [OF x'(1,2)])
      (use x' f3 f1 inval bytes in \<open>auto simp: x2_def split: if_splits\<close>)
qed

lemma append_cache_ok:
  assumes ok: "tx_ok x" and n: "n \<le> length (tx_queue x)"
    and fit: "q_size (tx_cache x) + n \<le> q_capacity (tx_cache x)"
  obtains cache where "append_cache x n now = Some (Ok (take n (tx_queue x)),
      x\<lparr>tx_queue := drop n (tx_queue x), tx_cache := cache\<rparr>)"
    and "queue_inv cache" and "queue_bytes cache = queue_bytes (tx_cache x) @ take n (tx_queue x)"
    and "q_sequence cache = q_sequence (tx_cache x)" and "q_capacity cache = q_capacity (tx_cache x)"
proof -
  have inv: "queue_inv (tx_cache x)" using ok by (simp add: tx_ok_def)
  have "length (queue_bytes (tx_cache x)) + length (take n (tx_queue x)) \<le> q_capacity (tx_cache x)"
    using n fit by simp
  from sq.append_room [OF inv this, of "tx_rto x" now] obtain cache where
    "queue_append (tx_cache x) (take n (tx_queue x)) (tx_rto x) now = Some (Ok (), cache)"
    "queue_inv cache" "queue_bytes cache = queue_bytes (tx_cache x) @ take n (tx_queue x)"
    "q_sequence cache = q_sequence (tx_cache x)" "q_capacity cache = q_capacity (tx_cache x)"
    by blast
  with n show ?thesis by (intro that [of cache]) (simp_all add: append_cache_def Let_def)
qed

section \<open>Runs\<close>

text \<open>
  The operations on a connection with the bytes each takes over from the relay (\<open>acc\<close>) and those
  it gives up as acknowledged (\<open>rel\<close>). A payload moves into the cache only when it fits, which
  \<open>send_tcp_ack\<close> ensures by the send window.
\<close>

inductive tx_step :: "tcp_tx_state \<Rightarrow> u8 list \<Rightarrow> u8 list \<Rightarrow> tcp_tx_state \<Rightarrow> bool" where
  tx_append_queue: "tx_step x p [] (append_queue x p)"
| tx_acknowledge: "acknowledge x s now = Some x' \<Longrightarrow>
    tx_step x [] (take (acked x s) (queue_bytes (tx_cache x))) x'"
| tx_append_cache: "append_cache x n now = Some (r, x') \<Longrightarrow>
    q_size (tx_cache x) + n \<le> q_capacity (tx_cache x) \<Longrightarrow> tx_step x [] [] x'"
| tx_timed_out: "take_timed_out x rto now = Some (p, x') \<Longrightarrow> tx_step x [] [] x'"
| tx_add_sequence: "tx_step x [] [] (add_sequence x n)"
| tx_add_acknowledgement: "tx_step x [] [] (add_acknowledgement x n)"
| tx_set_send_window: "tx_step x [] [] (set_send_window x w)"
| tx_set_window: "tx_step x [] [] (set_window x v)"
| tx_set_sacks: "tx_step x [] [] (set_sacks x sacks)"
| tx_double_rto: "tx_step x [] [] (double_rto x)"
| tx_update_syn_timer: "tx_step x [] [] (update_syn_timer x now)"
| tx_update_fin_timer: "tx_step x [] [] (update_fin_timer x now)"
| tx_append_cache_fin: "tx_step x [] [] (append_cache_fin x now)"
| tx_append_queue_fin: "tx_step x [] [] (append_queue_fin x)"

inductive tx_run :: "tcp_tx_state \<Rightarrow> u8 list \<Rightarrow> u8 list \<Rightarrow> tcp_tx_state \<Rightarrow> bool" where
  tx_run_start: "tx_run x [] [] x"
| tx_run_step: "tx_run x acc rel y \<Longrightarrow> tx_step y acc' rel' z \<Longrightarrow> tx_run x (acc @ acc') (rel @ rel') z"

lemma take_timed_out_ok:
  assumes "tx_ok x"
  obtains k cache where "take_timed_out x rto now =
      Some (take k (queue_bytes (tx_cache x)), x\<lparr>tx_cache := cache\<rparr>)"
    and "queue_inv cache" and "queue_bytes cache = queue_bytes (tx_cache x)"
    and "q_sequence cache = q_sequence (tx_cache x)" and "q_capacity cache = q_capacity (tx_cache x)"
  using assms sq.timed_out_prefix [of "tx_cache x" rto now]
  by (auto simp: tx_ok_def take_timed_out_def)

lemma tx_step_ok:
  assumes "tx_step x acc rel x'" and ok: "tx_ok x"
  shows "tx_ok x' \<and> tx_bytes x @ acc = rel @ tx_bytes x' \<and>
    q_capacity (tx_cache x') = q_capacity (tx_cache x)"
  using assms(1)
proof cases
  case (tx_acknowledge s now)
  obtain "tx_ok x'" "queue_bytes (tx_cache x') = drop (acked x s) (queue_bytes (tx_cache x))"
    "tx_queue x' = tx_queue x" "q_capacity (tx_cache x') = q_capacity (tx_cache x)"
    by (rule acknowledge_ok [OF ok, of s now]) (use tx_acknowledge(3) in simp)
  then show ?thesis
    unfolding tx_acknowledge(1,2) tx_bytes_def by (simp flip: append_assoc)
next
  case (tx_append_cache n now r)
  then have n: "n \<le> length (tx_queue x)" by (auto simp: append_cache_def split: if_splits)
  obtain cache where "x' = x\<lparr>tx_queue := drop n (tx_queue x), tx_cache := cache\<rparr>"
    "queue_inv cache" "queue_bytes cache = queue_bytes (tx_cache x) @ take n (tx_queue x)"
    "q_capacity cache = q_capacity (tx_cache x)"
    using append_cache_ok [OF ok n tx_append_cache(4), of now] tx_append_cache(3) by auto
  with ok tx_append_cache(1,2) show ?thesis by (auto simp: tx_ok_def rto_ok_def tx_bytes_def)
next
  case (tx_timed_out rto now p)
  obtain cache where "x' = x\<lparr>tx_cache := cache\<rparr>" "queue_inv cache"
    "queue_bytes cache = queue_bytes (tx_cache x)" "q_capacity cache = q_capacity (tx_cache x)"
    by (rule take_timed_out_ok [OF ok, of rto now]) (use tx_timed_out(3) in simp)
  with ok tx_timed_out(1,2) show ?thesis by (auto simp: tx_ok_def rto_ok_def tx_bytes_def)
qed (simp_all add: tx_ok_simple [OF ok])

lemma tx_run_ok:
  assumes "tx_run x acc rel y" and "tx_ok x"
  shows "tx_ok y \<and> tx_bytes x @ acc = rel @ tx_bytes y"
  using assms
proof (induction rule: tx_run.induct)
  case (tx_run_step x acc rel y acc' rel' z)
  then have y: "tx_ok y" "tx_bytes x @ acc = rel @ tx_bytes y" by auto
  from tx_step_ok [OF tx_run_step.hyps(2) y(1)] y show ?case by (metis append_assoc)
qed simp

lemma ushl_small: "a * 2 ^ n \<le> USIZE_MAX \<Longrightarrow> n < 64 \<Longrightarrow> ushl a n = Some (a * 2 ^ n)"
  by (simp add: ushl_def)

lemma RECV_WINDOW_shift:
  assumes "k \<le> 14"
  shows "ushl (unat RECV_WINDOW) k = Some (65535 * 2 ^ k)" and "65535 * 2 ^ k \<le> (1073725440 :: nat)"
proof -
  have "(2 :: nat) ^ k \<le> 2 ^ 14" using assms by (rule power_increasing) simp
  then show le: "65535 * 2 ^ k \<le> (1073725440 :: nat)" by simp
  show "ushl (unat RECV_WINDOW) k = Some (65535 * 2 ^ k)"
    using le assms by (subst ushl_small) (auto simp: RECV_WINDOW_def USIZE_MAX_def)
qed

text \<open>A new connection, with window scales a peer may offer (RFC 7323 allows 0 to 14).\<close>

lemma tcp_tx_new_ok:
  assumes "unat (unwrap_or send_wscale 0) \<le> 14" and "unat (unwrap_or wscale 0) \<le> 14"
  obtains x where "tcp_tx_new src dst s a w send_wscale sack_perm wscale = Some x" and "tx_ok x"
    and "tx_bytes x = []" and "q_capacity (tx_cache x) = 65535 * 2 ^ unat (unwrap_or wscale 0)"
    and "tx_send_window x = unat w * 2 ^ unat (unwrap_or send_wscale 0)"
    and "tx_sequence x = s" and "q_sequence (tx_cache x) = s"
proof -
  have "(2 :: nat) ^ unat (unwrap_or send_wscale 0) \<le> 2 ^ 14"
    using assms(1) by (rule power_increasing) simp
  with unat_u16_less [of w] have "unat w * 2 ^ unat (unwrap_or send_wscale 0) \<le> 65536 * 2 ^ 14"
    by (intro mult_le_mono) simp_all
  then have win: "ushl (unat w) (unat (unwrap_or send_wscale 0)) =
      Some (unat w * 2 ^ unat (unwrap_or send_wscale 0))"
    using assms(1) by (intro ushl_small) (simp_all add: USIZE_MAX_def)
  note cap = RECV_WINDOW_shift [OF assms(2)]
  obtain q where "queue_with_capacity (65535 * 2 ^ unat (unwrap_or wscale 0)) s = Some q"
      "queue_inv q" "queue_bytes q = []" "q_sequence q = s"
      "q_capacity q = 65535 * 2 ^ unat (unwrap_or wscale 0)"
    using queue_inv_with_capacity [of "65535 * 2 ^ unat (unwrap_or wscale 0)" s] cap
    by (auto simp: MAX_U32_WINDOW_SIZE_def)
  then show ?thesis
    using win cap
    by (intro that [of "\<lparr>tx_src = src, tx_dst = dst,
       tx_send_window = unat w * 2 ^ unat (unwrap_or send_wscale 0), tx_send_wscale = send_wscale,
       tx_sack_perm = sack_perm, tx_sequence = s, tx_acknowledgement = a,
       tx_window = RECV_WINDOW, tx_sacks = None, tx_cache = q, tx_cache_syn = None,
       tx_cache_fin = None, tx_cache_fin_retrans = True, tx_queue = [], tx_queue_fin = False,
       tx_rto = INITIAL_RTO, tx_srtt = None, tx_rttvar = None\<rparr>"])
      (simp_all add: tcp_tx_new_def tx_ok_def rto_ok_def tx_bytes_def INITIAL_RTO_def
        MIN_RTO_def MAX_RTO_def)
qed

section \<open>Properties\<close>

text \<open>A connection used by the witnesses, with two cached and three queued bytes.\<close>

definition sample_tx :: tcp_tx_state where
  "sample_tx = \<lparr>tx_src = SocketAddrV4 1 80, tx_dst = SocketAddrV4 2 443, tx_send_window = 100,
     tx_send_wscale = None, tx_sack_perm = False, tx_sequence = 9, tx_acknowledgement = 5,
     tx_window = RECV_WINDOW, tx_sacks = None, tx_cache = sample_queue_1, tx_cache_syn = None,
     tx_cache_fin = Some \<lparr>t_instant = 3, t_timeout = 1000000000\<rparr>, tx_cache_fin_retrans = False,
     tx_queue = [3, 4, 5], tx_queue_fin = False, tx_rto = 1000, tx_srtt = Some 800,
     tx_rttvar = Some 400\<rparr>"

lemma sample_tx_ok: "tx_ok sample_tx"
proof -
  have "queue_inv sample_queue_1"
    by (rule queue_reachable_inv [OF sample_queue_1_reachable]) (simp add: MAX_U32_WINDOW_SIZE_def)
  then show ?thesis
    by (simp add: tx_ok_def rto_ok_def sample_tx_def MIN_RTO_def MAX_RTO_def)
qed

text \<open>
  C9. A connection loses, repeats and reorders no byte: after any sequence of operations on it,
  what the relay handed over is what has been acknowledged, then what is in the send cache, then
  what waits in the queue; the cache and its clocks stay well-formed, and the retransmission
  timeout stays between one second and one minute.
\<close>

theorem tx_stream_conserved:
  assumes "tcp_tx_new src dst s a w send_wscale sack_perm wscale = Some x"
    and "unat (unwrap_or send_wscale 0) \<le> 14" and "unat (unwrap_or wscale 0) \<le> 14"
    and "tx_run x acc rel y"
  shows "acc = rel @ queue_bytes (tx_cache y) @ tx_queue y \<and> queue_inv (tx_cache y) \<and>
    1000 \<le> tx_rto y \<and> tx_rto y \<le> 60000"
proof -
  obtain "tx_ok x" "tx_bytes x = []"
    by (rule tcp_tx_new_ok [OF assms(2,3), of src dst s a w sack_perm]) (use assms(1) in simp)
  with tx_run_ok [OF assms(4)] have "tx_ok y \<and> acc = rel @ tx_bytes y" by simp
  then show ?thesis
    by (simp add: tx_bytes_def tx_ok_def rto_ok_def MIN_RTO_def MAX_RTO_def)
qed

theorem tx_stream_conserved_witness:
  "\<exists>x y. tcp_tx_new (SocketAddrV4 1 80) (SocketAddrV4 2 443) 7 5 100 None False (Some 2) = Some x \<and>
    tx_run x [1, 2] [] y \<and> queue_bytes (tx_cache y) @ tx_queue y = [1, 2] \<and> tx_rto y \<le> 60000"
proof -
  have scales: "unat (unwrap_or (None :: u8 option) 0) \<le> 14" "unat (unwrap_or (Some (2 :: u8)) 0) \<le> 14"
    by simp_all
  obtain x where x: "tcp_tx_new (SocketAddrV4 1 80) (SocketAddrV4 2 443) 7 5 100 None False (Some 2) = Some x"
    by (rule tcp_tx_new_ok [OF scales])
  have run: "tx_run x [1, 2] [] (append_queue x [1, 2])"
    using tx_run_step [OF tx_run_start tx_append_queue [of x "[1, 2]"]] by simp
  from tx_stream_conserved [OF x scales run] have
    "queue_bytes (tx_cache (append_queue x [1, 2])) @ tx_queue (append_queue x [1, 2]) = [1, 2] \<and>
      tx_rto (append_queue x [1, 2]) \<le> 60000" by (metis append_Nil)
  with x run show ?thesis by blast
qed

text \<open>
  On a connection in a valid state no operation panics: every acknowledgement number, every
  amount up to the queue length and every clock reading gives a new valid state, and moving a part
  of the queue that fits the cache returns exactly its first bytes.
\<close>

theorem tx_operations_total:
  assumes "tx_ok x"
  shows "(\<exists>x'. acknowledge x s now = Some x' \<and> tx_ok x' \<and>
      tx_bytes x' = drop (acked x s) (tx_bytes x)) \<and>
    (\<exists>p x'. take_timed_out x rto now = Some (p, x') \<and> tx_ok x' \<and> tx_bytes x' = tx_bytes x) \<and>
    (n \<le> length (tx_queue x) \<longrightarrow> q_size (tx_cache x) + n \<le> q_capacity (tx_cache x) \<longrightarrow>
      (\<exists>x'. append_cache x n now = Some (Ok (take n (tx_queue x)), x') \<and> tx_ok x' \<and>
        tx_bytes x' = tx_bytes x \<and> queue_bytes (tx_cache x') = queue_bytes (tx_cache x) @ take n (tx_queue x)))"
proof -
  have "\<exists>x'. acknowledge x s now = Some x' \<and> tx_ok x' \<and> tx_bytes x' = drop (acked x s) (tx_bytes x)"
  proof -
    obtain x' where x': "acknowledge x s now = Some x'" "tx_ok x'"
        "queue_bytes (tx_cache x') = drop (acked x s) (queue_bytes (tx_cache x))" "tx_queue x' = tx_queue x"
      by (rule acknowledge_ok [OF assms, of s now])
    have "acked x s \<le> length (queue_bytes (tx_cache x))" by (simp add: acked_def Let_def)
    with x' show ?thesis by (auto simp: tx_bytes_def)
  qed
  moreover have "\<exists>p x'. take_timed_out x rto now = Some (p, x') \<and> tx_ok x' \<and> tx_bytes x' = tx_bytes x"
  proof -
    obtain k cache where "take_timed_out x rto now =
        Some (take k (queue_bytes (tx_cache x)), x\<lparr>tx_cache := cache\<rparr>)"
        "queue_inv cache" "queue_bytes cache = queue_bytes (tx_cache x)"
      by (rule take_timed_out_ok [OF assms, of rto now])
    then show ?thesis using assms by (simp add: tx_ok_def rto_ok_def tx_bytes_def)
  qed
  moreover have "\<exists>x'. append_cache x n now = Some (Ok (take n (tx_queue x)), x') \<and> tx_ok x' \<and>
        tx_bytes x' = tx_bytes x \<and> queue_bytes (tx_cache x') = queue_bytes (tx_cache x) @ take n (tx_queue x)"
    if fit: "n \<le> length (tx_queue x)" "q_size (tx_cache x) + n \<le> q_capacity (tx_cache x)"
  proof -
    obtain cache where "append_cache x n now = Some (Ok (take n (tx_queue x)),
        x\<lparr>tx_queue := drop n (tx_queue x), tx_cache := cache\<rparr>)"
        "queue_inv cache" "queue_bytes cache = queue_bytes (tx_cache x) @ take n (tx_queue x)"
      by (rule append_cache_ok [OF assms fit, of now])
    then show ?thesis using assms by (simp add: tx_ok_def rto_ok_def tx_bytes_def)
  qed
  ultimately show ?thesis by blast
qed

theorem tx_operations_total_witness:
  "tx_ok sample_tx \<and> (\<exists>x'. append_cache sample_tx 2 4 = Some (Ok [3, 4], x') \<and> tx_bytes x' = [1, 2, 3, 4, 5])"
proof -
  have "tx_bytes sample_tx = [1, 2, 3, 4, 5]" "tx_queue sample_tx = [3, 4, 5]"
    "q_size (tx_cache sample_tx) + 2 \<le> q_capacity (tx_cache sample_tx)"
    by (simp_all add: tx_bytes_def sample_tx_def sample_queue_1_def queue_bytes_def ring_list_def upt_rec)
  with tx_operations_total [OF sample_tx_ok, where n = 2 and now = 4] sample_tx_ok show ?thesis by auto
qed

text \<open>
  The smoothed round-trip time has no memory of its own: from the second sample on, the new
  SRTT does not depend on the previous SRTT, because the code uses the previous RTTVAR in its
  place (RFC 6298: SRTT := 7/8 SRTT + 1/8 R).
\<close>

theorem srtt_ignores_srtt:
  assumes "tx_srtt x = Some a" and "tx_rttvar x = Some v"
  shows "map_option tx_srtt (update_rto x rtt) =
    map_option tx_srtt (update_rto (x\<lparr>tx_srtt := Some b\<rparr>) rtt)"
  using assms by (simp add: update_rto_def rtt_estimate_def set_rto_eq Let_def)

theorem srtt_ignores_srtt_witness:
  "map_option tx_srtt (update_rto sample_tx 800000000) =
    map_option tx_srtt (update_rto (sample_tx\<lparr>tx_srtt := Some 5\<rparr>) 800000000)"
  by (rule srtt_ignores_srtt [of _ 800 400]) (simp_all add: sample_tx_def)



end
