(* ===== verification/Ranges.thy ===== *)
theory Ranges
  imports Seq
begin

text \<open>
  Ranges of sequence numbers for selective retransmission: \<open>disjoint_u32_range\<close> of \<open>lib.rs\<close>, which
  removes one range from another, and the loop of \<open>retransmit_tcp_ack_without\<close> that removes every
  selectively acknowledged range from the cached one. Both are related to set difference on the
  distances from a common base.
\<close>

type_synonym seq_range = "u32 \<times> u32"

definition disjoint_u32_range :: "seq_range \<Rightarrow> seq_range \<Rightarrow> seq_range list" where
  "disjoint_u32_range main sub =
     (let size_main = seq_dist (snd main) (fst main);
          diff_first = seq_dist (fst sub) (fst main);
          diff_second = seq_dist (snd sub) (snd main)
      in if diff_first \<le> MAX_U32_WINDOW_SIZE then
           if diff_second > MAX_U32_WINDOW_SIZE then [(fst main, fst sub), (snd sub, snd main)]
           else if diff_first \<ge> size_main then [(fst main, snd main)]
           else [(fst main, fst sub)]
         else if diff_second > MAX_U32_WINDOW_SIZE then
           (let diff = seq_dist (snd sub) (fst main)
            in if diff > MAX_U32_WINDOW_SIZE then [(fst main, snd main)]
               else [(snd sub, snd main)])
         else [])"

text \<open>The ranges left after every range of \<open>sacks\<close> has been removed.\<close>

definition remove_sacks :: "seq_range list \<Rightarrow> seq_range list \<Rightarrow> seq_range list" where
  "remove_sacks ranges sacks =
     fold (\<lambda>sack ranges. concat (map (\<lambda>range. disjoint_u32_range range sack) ranges)) sacks ranges"

section \<open>Offsets\<close>

text \<open>A range given by the distances of its ends from the base \<open>s\<close>.\<close>

definition at_offsets :: "u32 \<Rightarrow> nat \<times> nat \<Rightarrow> seq_range" where
  "at_offsets s r = (seq_adv s (fst r), seq_adv s (snd r))"

definition offsets_ok :: "nat \<times> nat \<Rightarrow> bool" where
  "offsets_ok r \<longleftrightarrow> fst r \<le> snd r \<and> snd r \<le> MAX_U32_WINDOW_SIZE"

definition offset_set :: "(nat \<times> nat) list \<Rightarrow> nat set" where
  "offset_set rs = (\<Union>r\<in>set rs. {fst r..<snd r})"

lemma offset_set_simps [simp]:
  "offset_set [] = {}" "offset_set (r # rs) = {fst r..<snd r} \<union> offset_set rs"
  "offset_set (rs @ rs') = offset_set rs \<union> offset_set rs'"
  by (auto simp: offset_set_def)

lemma seq_dist_offsets:
  assumes "i \<le> MAX_U32_WINDOW_SIZE" and "j \<le> MAX_U32_WINDOW_SIZE"
  shows "seq_dist (seq_adv s i) (seq_adv s j) \<le> MAX_U32_WINDOW_SIZE \<longleftrightarrow> j \<le> i"
    and "j \<le> i \<Longrightarrow> seq_dist (seq_adv s i) (seq_adv s j) = i - j"
  using assms by (auto simp: seq.dist_adv_adv MAX_U32_WINDOW_SIZE_def)

text \<open>Ranges in ascending order that do not overlap, and ranges inside another.\<close>

definition ascending :: "(nat \<times> nat) list \<Rightarrow> bool" where
  "ascending rs \<longleftrightarrow> list_all offsets_ok rs \<and> sorted_wrt (\<lambda>r r'. snd r \<le> fst r') rs"

definition inside :: "nat \<times> nat \<Rightarrow> nat \<times> nat \<Rightarrow> bool" where
  "inside m r \<longleftrightarrow> fst m \<le> fst r \<and> snd r \<le> snd m"

lemma disjoint_offsets:
  assumes "offsets_ok m" and "offsets_ok r"
  obtains rs where "disjoint_u32_range (at_offsets s m) (at_offsets s r) = map (at_offsets s) rs"
    and "ascending rs" and "offset_set rs = {fst m..<snd m} - {fst r..<snd r}" and "list_all (inside m) rs"
proof -
  obtain a b where m: "m = (a, b)" by force
  obtain c d where r: "r = (c, d)" by force
  have le: "a \<le> b" "c \<le> d" and small: "a \<le> MAX_U32_WINDOW_SIZE" "b \<le> MAX_U32_WINDOW_SIZE"
    "c \<le> MAX_U32_WINDOW_SIZE" "d \<le> MAX_U32_WINDOW_SIZE"
    using assms by (auto simp: m r offsets_ok_def)
  define rs where "rs = (if a \<le> c then if d < b then [(a, c), (d, b)] else if b \<le> c then [(a, b)] else [(a, c)]
     else if d < b then if d < a then [(a, b)] else [(d, b)] else [])"
  have "disjoint_u32_range (at_offsets s m) (at_offsets s r) = map (at_offsets s) rs"
    using le small seq_dist_offsets [of c a s] seq_dist_offsets [of d b s] seq_dist_offsets [of d a s]
      seq_dist_offsets [of b a s]
    by (auto simp: disjoint_u32_range_def at_offsets_def m r rs_def not_le Let_def)
  moreover have "ascending rs" "list_all (inside m) rs"
    using le small by (auto simp: rs_def m offsets_ok_def ascending_def inside_def)
  moreover have "offset_set rs = {fst m..<snd m} - {fst r..<snd r}"
    using le by (auto simp: rs_def m r)
  ultimately show ?thesis by (intro that)
qed

text \<open>Each piece lies inside one of the ranges it comes from, so that the order is kept.\<close>

definition refine_ranges :: "(nat \<times> nat) list \<Rightarrow> (nat \<times> nat) list \<Rightarrow> bool" where
  "refine_ranges ms rs \<longleftrightarrow> ascending rs \<and> (\<forall>r\<in>set rs. \<exists>m\<in>set ms. inside m r)"

lemma refine_ranges_Cons:
  assumes "ascending (m # ms)" and "ascending rs" and "list_all (inside m) rs" and "refine_ranges ms rs'"
  shows "refine_ranges (m # ms) (rs @ rs')"
  using assms
  by (fastforce simp: refine_ranges_def ascending_def inside_def sorted_wrt_append list_all_iff)

lemma refine_ranges_trans:
  "refine_ranges ms ms' \<Longrightarrow> refine_ranges ms' rs \<Longrightarrow> refine_ranges ms rs"
  unfolding refine_ranges_def inside_def by (meson order.trans)

lemma remove_one_offsets:
  assumes "ascending ms" and "offsets_ok r"
  obtains rs where "concat (map (\<lambda>m. disjoint_u32_range m (at_offsets s r)) (map (at_offsets s) ms)) =
      map (at_offsets s) rs"
    and "refine_ranges ms rs" and "offset_set rs = offset_set ms - {fst r..<snd r}"
  using assms(1)
proof (induction ms arbitrary: thesis)
  case Nil
  then show ?case by (intro Nil.prems(1) [of "[]"]) (simp_all add: refine_ranges_def)
next
  case (Cons m ms)
  obtain rs where rs: "concat (map (\<lambda>m. disjoint_u32_range m (at_offsets s r)) (map (at_offsets s) ms)) =
      map (at_offsets s) rs" "refine_ranges ms rs" "offset_set rs = offset_set ms - {fst r..<snd r}"
    by (rule Cons.IH) (use Cons.prems(2) in \<open>simp_all add: ascending_def\<close>)
  have m: "offsets_ok m" using Cons.prems(2) by (simp add: ascending_def)
  obtain rs' where "disjoint_u32_range (at_offsets s m) (at_offsets s r) = map (at_offsets s) rs'"
      "ascending rs'" "offset_set rs' = {fst m..<snd m} - {fst r..<snd r}" "list_all (inside m) rs'"
    by (rule disjoint_offsets [OF m assms(2)])
  with rs refine_ranges_Cons [OF Cons.prems(2), of rs' rs] show ?case
    by (intro Cons.prems(1) [of "rs' @ rs"]) auto
qed

lemma remove_sacks_offsets:
  assumes "ascending ms" and "list_all offsets_ok sacks"
  obtains rs where "remove_sacks (map (at_offsets s) ms) (map (at_offsets s) sacks) = map (at_offsets s) rs"
    and "refine_ranges ms rs" and "offset_set rs = offset_set ms - offset_set sacks"
  using assms
proof (induction sacks arbitrary: ms thesis)
  case Nil
  then show ?case
    by (intro Nil.prems(1) [of ms]) (auto simp: remove_sacks_def refine_ranges_def inside_def)
next
  case (Cons r sacks)
  have r: "offsets_ok r" "list_all offsets_ok sacks" using Cons.prems(3) by simp_all
  obtain ms' where ms': "concat (map (\<lambda>m. disjoint_u32_range m (at_offsets s r)) (map (at_offsets s) ms)) =
      map (at_offsets s) ms'" "refine_ranges ms ms'" "offset_set ms' = offset_set ms - {fst r..<snd r}"
    by (rule remove_one_offsets [OF Cons.prems(2) r(1)])
  have asc: "ascending ms'" using ms'(2) by (simp add: refine_ranges_def)
  obtain rs where "remove_sacks (map (at_offsets s) ms') (map (at_offsets s) sacks) = map (at_offsets s) rs"
      "refine_ranges ms' rs" "offset_set rs = offset_set ms' - offset_set sacks"
    by (rule Cons.IH [OF _ asc r(2)])
  with ms' show ?case
    by (intro Cons.prems(1) [of rs]) (auto simp: remove_sacks_def dest: refine_ranges_trans)
qed

section \<open>The bytes of a list of ranges\<close>

lemma nths_before:
  assumes "\<And>a b. a \<in> A \<Longrightarrow> b \<in> B \<Longrightarrow> a < (b :: nat)"
  shows "nths xs (A \<union> B) = nths xs A @ nths xs B"
  using assms
proof (induction xs arbitrary: A B)
  case (Cons x xs)
  have "nths xs ({j. Suc j \<in> A} \<union> {j. Suc j \<in> B}) = nths xs {j. Suc j \<in> A} @ nths xs {j. Suc j \<in> B}"
    by (rule Cons.IH) (use Cons.prems in force)
  moreover have "A = {}" if "0 \<in> B" using Cons.prems that by force
  ultimately show ?case by (auto simp: nths_Cons Collect_disj_eq)
qed simp

lemma nths_interval: "nths xs {a..<b} = take (b - a) (drop a xs)"
proof (induction xs arbitrary: a b)
  case (Cons x xs)
  have "{j. Suc j \<in> {a..<b}} = {a - 1..<b - 1}" by auto
  with Cons show ?case by (cases a; cases b) (auto simp: nths_Cons)
qed simp

lemma ranges_bytes:
  assumes "ascending rs"
  shows "concat (map (\<lambda>r. take (snd r - fst r) (drop (fst r) xs)) rs) = nths xs (offset_set rs)"
  using assms
proof (induction rs)
  case (Cons r rs)
  have "nths xs ({fst r..<snd r} \<union> offset_set rs) = nths xs {fst r..<snd r} @ nths xs (offset_set rs)"
    by (rule nths_before) (use Cons.prems in \<open>fastforce simp: ascending_def offset_set_def\<close>)
  with Cons show ?case by (simp add: ascending_def nths_interval)
qed simp

section \<open>Properties\<close>

text \<open>
  C23. Removing one range of sequence numbers from another is set difference: for ranges whose ends
  lie within 16 MiB after a common base, in every relative position and also across the end of the
  number space, the result covers exactly the numbers of the first range that are not in the second.
\<close>

theorem disjoint_u32_range_difference:
  assumes "offsets_ok (a, b)" and "offsets_ok (c, d)"
  shows "\<exists>rs. disjoint_u32_range (seq_adv s a, seq_adv s b) (seq_adv s c, seq_adv s d) =
      map (\<lambda>r. (seq_adv s (fst r), seq_adv s (snd r))) rs \<and>
    (\<forall>r\<in>set rs. fst r \<le> snd r) \<and> (\<Union>r\<in>set rs. {fst r..<snd r}) = {a..<b} - {c..<d}"
proof -
  obtain rs where "disjoint_u32_range (at_offsets s (a, b)) (at_offsets s (c, d)) = map (at_offsets s) rs"
      "ascending rs" "offset_set rs = {a..<b} - {c..<d}"
    using disjoint_offsets [OF assms, of s] by auto
  then show ?thesis
    by (intro exI [of _ rs]) (auto simp: at_offsets_def offset_set_def offsets_ok_def ascending_def list_all_iff)
qed

theorem disjoint_u32_range_difference_witness:
  "disjoint_u32_range (seq_adv 4294967290 0, seq_adv 4294967290 20)
     (seq_adv 4294967290 4, seq_adv 4294967290 9) \<noteq> []"
proof -
  have ok: "offsets_ok (0, 20)" "offsets_ok (4, 9)" by (simp_all add: offsets_ok_def MAX_U32_WINDOW_SIZE_def)
  have "{0..<20} - {4..<9} \<noteq> ({} :: nat set)"
  proof
    assume "{0..<20} - {4..<9} = ({} :: nat set)"
    moreover have "(0 :: nat) \<in> {0..<20} - {4..<9}" by simp
    ultimately show False by blast
  qed
  with disjoint_u32_range_difference [OF ok, of 4294967290] show ?thesis by auto
qed

end
