(* ===== verification/Layers.thy ===== *)
theory Layers
  imports Addr
begin

text \<open>
  The packet layers of \<open>packet/layer\<close>: one record per layer with the fields the source fills in,
  the constructors of the source, its accessors, and the serialisation of a layer into a buffer.

  The bytes themselves are the work of the packet library \<open>pnet\<close>, which is not part of the
  sources: its packet views, setters and checksums are the fields of the record \<open>pnet\<close>, a
  parameter of every definition that uses them. The numbers of protocols, flags and ICMP types are
  those the Internet standards assign.
\<close>

unbundle bit_operations_syntax

section \<open>Layer kinds\<close>

datatype layer_kind = LayerKind u8

definition Ethernet_kind :: layer_kind where "Ethernet_kind = LayerKind 0"
definition Arp_kind :: layer_kind where "Arp_kind = LayerKind 1"
definition Ipv4_kind :: layer_kind where "Ipv4_kind = LayerKind 2"
definition Icmpv4_kind :: layer_kind where "Icmpv4_kind = LayerKind 3"
definition Tcp_kind :: layer_kind where "Tcp_kind = LayerKind 4"
definition Udp_kind :: layer_kind where "Udp_kind = LayerKind 5"

lemmas layer_kind_defs = Ethernet_kind_def Arp_kind_def Ipv4_kind_def Icmpv4_kind_def Tcp_kind_def
  Udp_kind_def

section \<open>Assigned numbers\<close>

definition EtherTypes_Arp :: u16 where "EtherTypes_Arp = 0x0806"
definition EtherTypes_Ipv4 :: u16 where "EtherTypes_Ipv4 = 0x0800"
definition Protocols_Icmp :: u8 where "Protocols_Icmp = 1"
definition Protocols_Tcp :: u8 where "Protocols_Tcp = 6"
definition Protocols_Udp :: u8 where "Protocols_Udp = 17"
definition MoreFragments :: u8 where "MoreFragments = 1"
definition TcpFlags_FIN :: u16 where "TcpFlags_FIN = 1"
definition TcpFlags_SYN :: u16 where "TcpFlags_SYN = 2"
definition TcpFlags_RST :: u16 where "TcpFlags_RST = 4"
definition TcpFlags_ACK :: u16 where "TcpFlags_ACK = 16"
definition ArpOperations_Request :: u16 where "ArpOperations_Request = 1"
definition ArpOperations_Reply :: u16 where "ArpOperations_Reply = 2"
definition ArpHardwareTypes_Ethernet :: u16 where "ArpHardwareTypes_Ethernet = 1"
definition IcmpTypes_EchoReply :: u8 where "IcmpTypes_EchoReply = 0"
definition IcmpTypes_DestinationUnreachable :: u8 where "IcmpTypes_DestinationUnreachable = 3"
definition IcmpTypes_EchoRequest :: u8 where "IcmpTypes_EchoRequest = 8"
definition IcmpCodes_NoCode :: u8 where "IcmpCodes_NoCode = 0"
definition IcmpCodes_PortUnreachable :: u8 where "IcmpCodes_PortUnreachable = 3"
definition IcmpCodes_FragmentationRequired :: u8 where "IcmpCodes_FragmentationRequired = 4"
definition TcpOptionNumbers_MSS :: u8 where "TcpOptionNumbers_MSS = 2"
definition TcpOptionNumbers_WSCALE :: u8 where "TcpOptionNumbers_WSCALE = 3"
definition TcpOptionNumbers_SACK_PERMITTED :: u8 where "TcpOptionNumbers_SACK_PERMITTED = 4"
definition TcpOptionNumbers_SACK :: u8 where "TcpOptionNumbers_SACK = 5"
definition TcpOptionNumbers_TIMESTAMPS :: u8 where "TcpOptionNumbers_TIMESTAMPS = 8"

lemmas tcp_flag_defs = TcpFlags_FIN_def TcpFlags_SYN_def TcpFlags_RST_def TcpFlags_ACK_def

section \<open>Fields\<close>

text \<open>The payload field of every layer but ICMP stays empty and is left out.\<close>

record ethernet =
  eth_destination :: hardware_addr
  eth_source :: hardware_addr
  eth_ethertype :: u16

record arp =
  arp_hardware_type :: u16
  arp_protocol_type :: u16
  arp_hw_addr_len :: u8
  arp_proto_addr_len :: u8
  arp_operation :: u16
  arp_sender_hw_addr :: hardware_addr
  arp_sender_proto_addr :: ipv4_addr
  arp_target_hw_addr :: hardware_addr
  arp_target_proto_addr :: ipv4_addr

datatype ipv4_option = Ipv4Option "u8 list"

record ipv4 =
  ip_version :: u8
  ip_header_length :: u8
  ip_dscp :: u8
  ip_ecn :: u8
  ip_total_length :: u16
  ip_identification :: u16
  ip_flags :: u8
  ip_fragment_offset :: u16
  ip_ttl :: u8
  ip_next_level_protocol :: u8
  ip_checksum :: u16
  ip_source :: ipv4_addr
  ip_destination :: ipv4_addr
  ip_options :: "ipv4_option list"

record icmpv4 =
  icmp_type :: u8
  icmp_code :: u8
  icmp_checksum :: u16
  icmp_payload :: "u8 list"

text \<open>A TCP option, by the constructor of \<open>TcpOption\<close> that makes it.\<close>

datatype tcp_option = OptNop | OptMss u16 | OptWscale u8 | OptSackPerm | OptSelectiveAck "u32 list"
  | OptTimestamp u32 u32 | OptOther "u8 list"

record tcp_fields =
  tcp_source :: u16
  tcp_destination :: u16
  tcp_sequence :: u32
  tcp_acknowledgement :: u32
  tcp_data_offset :: u8
  tcp_reserved :: u8
  tcp_flags :: u16
  tcp_window :: u16
  tcp_checksum :: u16
  tcp_urgent_ptr :: u16
  tcp_options :: "tcp_option list"

record tcp =
  tcp_layer :: tcp_fields
  tcp_src_ip :: ipv4_addr
  tcp_dst_ip :: ipv4_addr

record udp_fields =
  udp_source :: u16
  udp_destination :: u16
  udp_length :: u16
  udp_checksum :: u16

record udp =
  udp_layer :: udp_fields
  udp_src_ip :: ipv4_addr
  udp_dst_ip :: ipv4_addr

datatype layers = LEthernet ethernet | LArp arp | LIpv4 ipv4 | LIcmpv4 icmpv4 | LTcp tcp | LUdp udp

section \<open>The packet library\<close>

text \<open>
  \<open>pn_get_x\<close> is \<open>XPacket::new\<close> with the getters (and \<open>payload()\<close> where it is used), \<open>pn_x_size\<close> is
  \<open>XPacket::packet_size\<close>, \<open>pn_put_x\<close> is \<open>MutableXPacket::new\<close> with \<open>populate\<close>; the others are the
  setter or checksum of their name, and \<open>pn_mac_string\<close> is \<open>Display\<close> of \<open>MacAddr\<close>. \<open>None\<close> is a buffer that is
  too small.
\<close>

record pnet =
  pn_get_ethernet :: "u8 list \<Rightarrow> (ethernet \<times> u8 list) option"
  pn_get_arp :: "u8 list \<Rightarrow> arp option"
  pn_get_ipv4 :: "u8 list \<Rightarrow> (ipv4 \<times> u8 list) option"
  pn_get_icmp :: "u8 list \<Rightarrow> icmpv4 option"
  pn_get_tcp :: "u8 list \<Rightarrow> tcp_fields option"
  pn_get_udp :: "u8 list \<Rightarrow> udp_fields option"
  pn_ethernet_size :: "ethernet \<Rightarrow> usize"
  pn_arp_size :: "arp \<Rightarrow> usize"
  pn_ipv4_size :: "ipv4 \<Rightarrow> usize"
  pn_ipv4_option_size :: "ipv4_option \<Rightarrow> usize"
  pn_icmp_size :: "icmpv4 \<Rightarrow> usize"
  pn_tcp_size :: "tcp_fields \<Rightarrow> usize"
  pn_tcp_option_size :: "tcp_option \<Rightarrow> usize"
  pn_udp_size :: "udp_fields \<Rightarrow> usize"
  pn_put_ethernet :: "ethernet \<Rightarrow> u8 list \<Rightarrow> u8 list option"
  pn_put_arp :: "arp \<Rightarrow> u8 list \<Rightarrow> u8 list option"
  pn_put_ipv4 :: "ipv4 \<Rightarrow> u8 list \<Rightarrow> u8 list option"
  pn_put_icmp :: "icmpv4 \<Rightarrow> u8 list \<Rightarrow> u8 list option"
  pn_put_tcp :: "tcp_fields \<Rightarrow> u8 list \<Rightarrow> u8 list option"
  pn_put_udp :: "udp_fields \<Rightarrow> u8 list \<Rightarrow> u8 list option"
  pn_ipv4_set_header_length :: "u8 \<Rightarrow> u8 list \<Rightarrow> u8 list"
  pn_ipv4_set_total_length :: "u16 \<Rightarrow> u8 list \<Rightarrow> u8 list"
  pn_ipv4_set_payload :: "u8 list \<Rightarrow> u8 list \<Rightarrow> u8 list option"
  pn_ipv4_checksum :: "u8 list \<Rightarrow> u16"
  pn_ipv4_set_checksum :: "u16 \<Rightarrow> u8 list \<Rightarrow> u8 list"
  pn_icmp_checksum :: "u8 list \<Rightarrow> u16"
  pn_icmp_set_checksum :: "u16 \<Rightarrow> u8 list \<Rightarrow> u8 list"
  pn_tcp_set_payload :: "u8 list \<Rightarrow> u8 list \<Rightarrow> u8 list option"
  pn_tcp_set_data_offset :: "u8 \<Rightarrow> u8 list \<Rightarrow> u8 list"
  pn_tcp_checksum :: "u8 list \<Rightarrow> ipv4_addr \<Rightarrow> ipv4_addr \<Rightarrow> u16"
  pn_tcp_set_checksum :: "u16 \<Rightarrow> u8 list \<Rightarrow> u8 list"
  pn_udp_set_payload :: "u8 list \<Rightarrow> u8 list \<Rightarrow> u8 list option"
  pn_udp_set_length :: "u16 \<Rightarrow> u8 list \<Rightarrow> u8 list"
  pn_udp_checksum :: "u8 list \<Rightarrow> ipv4_addr \<Rightarrow> ipv4_addr \<Rightarrow> u16"
  pn_udp_set_checksum :: "u16 \<Rightarrow> u8 list \<Rightarrow> u8 list"
  pn_put_tcp_option :: "tcp_option \<Rightarrow> u8 list \<Rightarrow> u8 list"
  pn_tcp_option_number :: "u8 list \<Rightarrow> u8"
  pn_mac_string :: "hardware_addr \<Rightarrow> string"

section \<open>Ethernet and ARP\<close>

definition ethernet_new :: "layer_kind \<Rightarrow> hardware_addr \<Rightarrow> hardware_addr \<Rightarrow> ethernet option" where
  "ethernet_new t src dst =
     (if t = Arp_kind then
        Some \<lparr>eth_destination = dst, eth_source = src, eth_ethertype = EtherTypes_Arp\<rparr>
      else if t = Ipv4_kind then
        Some \<lparr>eth_destination = dst, eth_source = src, eth_ethertype = EtherTypes_Ipv4\<rparr>
      else None)"

definition arp_new_reply :: "hardware_addr \<Rightarrow> ipv4_addr \<Rightarrow> hardware_addr \<Rightarrow> ipv4_addr \<Rightarrow> arp" where
  "arp_new_reply src_hardware_addr src_ip_addr dst_hardware_addr dst_ip_addr =
     \<lparr>arp_hardware_type = ArpHardwareTypes_Ethernet, arp_protocol_type = EtherTypes_Ipv4,
      arp_hw_addr_len = 6, arp_proto_addr_len = 4, arp_operation = ArpOperations_Reply,
      arp_sender_hw_addr = src_hardware_addr, arp_sender_proto_addr = src_ip_addr,
      arp_target_hw_addr = dst_hardware_addr, arp_target_proto_addr = dst_ip_addr\<rparr>"

definition arp_reply :: "arp \<Rightarrow> hardware_addr \<Rightarrow> arp" where
  "arp_reply layer hardware_addr =
     layer\<lparr>arp_operation := ArpOperations_Reply, arp_sender_hw_addr := hardware_addr,
       arp_sender_proto_addr := arp_target_proto_addr layer,
       arp_target_hw_addr := arp_sender_hw_addr layer,
       arp_target_proto_addr := arp_sender_proto_addr layer\<rparr>"

definition arp_is_request :: "arp \<Rightarrow> bool" where
  "arp_is_request a \<longleftrightarrow> arp_operation a = ArpOperations_Request"

definition arp_is_reply :: "arp \<Rightarrow> bool" where
  "arp_is_reply a \<longleftrightarrow> arp_operation a = ArpOperations_Reply"

definition arp_is_request_of :: "arp \<Rightarrow> ipv4_addr \<Rightarrow> ipv4_addr \<Rightarrow> bool" where
  "arp_is_request_of a src dst \<longleftrightarrow> arp_operation a = ArpOperations_Request \<and>
     arp_sender_proto_addr a = src \<and> arp_target_proto_addr a = dst"

section \<open>IPv4\<close>

definition TTL :: u8 where
  "TTL = 128"

definition kind_protocol :: "layer_kind \<Rightarrow> u8 option" where
  "kind_protocol t =
     (if t = Icmpv4_kind then Some Protocols_Icmp
      else if t = Tcp_kind then Some Protocols_Tcp
      else if t = Udp_kind then Some Protocols_Udp
      else None)"

definition ipv4_new :: "u16 \<Rightarrow> layer_kind \<Rightarrow> ipv4_addr \<Rightarrow> ipv4_addr \<Rightarrow> ipv4 option" where
  "ipv4_new identification t src dst = do {
     next_level_protocol \<leftarrow> kind_protocol t;
     Some \<lparr>ip_version = 4, ip_header_length = 5, ip_dscp = 0, ip_ecn = 0, ip_total_length = 0,
       ip_identification = identification, ip_flags = 0, ip_fragment_offset = 0, ip_ttl = TTL,
       ip_next_level_protocol = next_level_protocol, ip_checksum = 0, ip_source = src,
       ip_destination = dst, ip_options = []\<rparr>
   }"

definition ipv4_new_more_fragment ::
    "u16 \<Rightarrow> layer_kind \<Rightarrow> u16 \<Rightarrow> ipv4_addr \<Rightarrow> ipv4_addr \<Rightarrow> ipv4 option" where
  "ipv4_new_more_fragment identification t fragment_offset src dst = do {
     ipv4 \<leftarrow> ipv4_new identification t src dst;
     Some (ipv4\<lparr>ip_flags := MoreFragments, ip_fragment_offset := fragment_offset\<rparr>)
   }"

definition ipv4_new_last_fragment ::
    "u16 \<Rightarrow> layer_kind \<Rightarrow> u16 \<Rightarrow> ipv4_addr \<Rightarrow> ipv4_addr \<Rightarrow> ipv4 option" where
  "ipv4_new_last_fragment identification t fragment_offset src dst = do {
     ipv4 \<leftarrow> ipv4_new identification t src dst;
     Some (ipv4\<lparr>ip_fragment_offset := fragment_offset\<rparr>)
   }"

definition ipv4_minimum_len :: usize where
  "ipv4_minimum_len = 20"

definition ipv4_is_more_fragment :: "ipv4 \<Rightarrow> bool" where
  "ipv4_is_more_fragment i \<longleftrightarrow> ip_flags i AND MoreFragments \<noteq> 0"

definition ipv4_is_fragment :: "ipv4 \<Rightarrow> bool" where
  "ipv4_is_fragment i \<longleftrightarrow> ipv4_is_more_fragment i \<or> ip_fragment_offset i > 0"

definition ipv4_next_level_layer_kind :: "ipv4 \<Rightarrow> layer_kind option" where
  "ipv4_next_level_layer_kind i =
     (if ip_next_level_protocol i = Protocols_Icmp then Some Icmpv4_kind
      else if ip_next_level_protocol i = Protocols_Tcp then Some Tcp_kind
      else if ip_next_level_protocol i = Protocols_Udp then Some Udp_kind
      else None)"

text \<open>A variable-length field counts one byte per element in \<open>packet_size\<close>; \<open>len\<close> corrects that.\<close>

fun options_len :: "('o \<Rightarrow> usize) \<Rightarrow> 'o list \<Rightarrow> usize \<Rightarrow> usize \<Rightarrow> usize option" where
  "options_len option_size [] n options_size = Some (n + options_size)"
| "options_len option_size (x # xs) n options_size = do {
     n \<leftarrow> usub n 1;
     options_len option_size xs n (options_size + option_size x)
   }"

definition ipv4_len :: "pnet \<Rightarrow> ipv4 \<Rightarrow> usize option" where
  "ipv4_len pn i = options_len (pn_ipv4_option_size pn) (ip_options i) (pn_ipv4_size pn i) 0"

section \<open>ICMPv4\<close>

text \<open>\<open>to_ne_bytes\<close> and \<open>from_ne_bytes\<close>, on a little-endian machine.\<close>

definition ne_bytes :: "u16 \<Rightarrow> u8 list" where
  "ne_bytes n = rev (be_bytes 2 (unat n))"

definition from_ne_bytes :: "u8 list \<Rightarrow> u16" where
  "from_ne_bytes bs = of_nat (be_value (rev bs))"

definition icmpv4_new_echo_reply :: "u16 \<Rightarrow> u16 \<Rightarrow> icmpv4" where
  "icmpv4_new_echo_reply identifier sequence_number =
     \<lparr>icmp_type = IcmpTypes_EchoReply, icmp_code = IcmpCodes_NoCode, icmp_checksum = 0,
      icmp_payload = ne_bytes identifier @ ne_bytes sequence_number\<rparr>"

definition icmpv4_new_destination_port_unreachable :: "u8 list \<Rightarrow> icmpv4" where
  "icmpv4_new_destination_port_unreachable payload =
     \<lparr>icmp_type = IcmpTypes_EchoReply, icmp_code = IcmpCodes_NoCode, icmp_checksum = 0,
      icmp_payload = replicate 4 0 @ payload\<rparr>"

definition icmpv4_is_echo_reply :: "icmpv4 \<Rightarrow> bool" where
  "icmpv4_is_echo_reply i \<longleftrightarrow> icmp_type i = IcmpTypes_EchoReply \<and> icmp_code i = IcmpCodes_NoCode"

definition icmpv4_is_destination_port_unreachable :: "icmpv4 \<Rightarrow> bool" where
  "icmpv4_is_destination_port_unreachable i \<longleftrightarrow>
     icmp_type i = IcmpTypes_DestinationUnreachable \<and> icmp_code i = IcmpCodes_PortUnreachable"

definition icmpv4_is_fragmentation_required :: "icmpv4 \<Rightarrow> bool" where
  "icmpv4_is_fragmentation_required i \<longleftrightarrow>
     icmp_type i = IcmpTypes_DestinationUnreachable \<and> icmp_code i = IcmpCodes_FragmentationRequired"

definition icmpv4_is_echo_request :: "icmpv4 \<Rightarrow> bool" where
  "icmpv4_is_echo_request i \<longleftrightarrow> icmp_type i = IcmpTypes_EchoRequest \<and> icmp_code i = IcmpCodes_NoCode"

text \<open>The outer \<open>None\<close> is the panic of an index out of range in a payload shorter than four bytes.\<close>

definition icmpv4_identifier :: "icmpv4 \<Rightarrow> u16 option option" where
  "icmpv4_identifier i =
     (if icmpv4_is_echo_reply i \<or> icmpv4_is_echo_request i then do {
        bs \<leftarrow> subslice (icmp_payload i) 0 2;
        Some (Some (from_ne_bytes bs))
      } else Some None)"

definition icmpv4_sequence_number :: "icmpv4 \<Rightarrow> u16 option option" where
  "icmpv4_sequence_number i =
     (if icmpv4_is_echo_reply i \<or> icmpv4_is_echo_request i then do {
        bs \<leftarrow> subslice (icmp_payload i) 2 4;
        Some (Some (from_ne_bytes bs))
      } else Some None)"

definition icmpv4_next_hop_mtu :: "icmpv4 \<Rightarrow> u16 option option" where
  "icmpv4_next_hop_mtu i =
     (if icmpv4_is_fragmentation_required i then do {
        bs \<leftarrow> subslice (icmp_payload i) 2 4;
        Some (Some (from_port_bytes bs))
      } else Some None)"

section \<open>UDP\<close>

definition udp_from :: "udp_fields \<Rightarrow> udp" where
  "udp_from u = \<lparr>udp_layer = u, udp_src_ip = UNSPECIFIED, udp_dst_ip = UNSPECIFIED\<rparr>"

definition udp_new :: "u16 \<Rightarrow> u16 \<Rightarrow> udp" where
  "udp_new src dst =
     udp_from \<lparr>udp_source = src, udp_destination = dst, udp_length = 0, udp_checksum = 0\<rparr>"

definition udp_minimum_len :: usize where
  "udp_minimum_len = 8"

definition udp_set_ipv4_layer :: "udp \<Rightarrow> ipv4 \<Rightarrow> udp" where
  "udp_set_ipv4_layer u i = u\<lparr>udp_src_ip := ip_source i, udp_dst_ip := ip_destination i\<rparr>"

text \<open>\<open>Udp::parse\<close> on the fields of a packet view.\<close>

definition udp_parse :: "udp_fields \<Rightarrow> ipv4 \<Rightarrow> udp" where
  "udp_parse u i = udp_set_ipv4_layer (udp_from u) i"

section \<open>TCP\<close>

definition tcp_from :: "tcp_fields \<Rightarrow> tcp" where
  "tcp_from t = \<lparr>tcp_layer = t, tcp_src_ip = UNSPECIFIED, tcp_dst_ip = UNSPECIFIED\<rparr>"

text \<open>The edges of the first \<open>n\<close> selective acknowledgements, flattened.\<close>

definition sack_edges :: "usize \<Rightarrow> (u32 \<times> u32) list \<Rightarrow> u32 list" where
  "sack_edges n sacks = concat (map (\<lambda>s. [fst s, snd s]) (take (min n (length sacks)) sacks))"

definition tcp_new_ack :: "u16 \<Rightarrow> u16 \<Rightarrow> u32 \<Rightarrow> u32 \<Rightarrow> u16 \<Rightarrow> (u32 \<times> u32) list option
    \<Rightarrow> (u32 \<times> u32) option \<Rightarrow> tcp" where
  "tcp_new_ack src dst sequence acknowledgement window sacks ts =
     (let d_tcp = \<lparr>tcp_source = src, tcp_destination = dst, tcp_sequence = sequence,
            tcp_acknowledgement = acknowledgement, tcp_data_offset = 5, tcp_reserved = 0,
            tcp_flags = TcpFlags_ACK, tcp_window = window, tcp_checksum = 0, tcp_urgent_ptr = 0,
            tcp_options = []\<rparr>;
          is_sacks = (case sacks of Some sacks \<Rightarrow> length sacks > 0 | None \<Rightarrow> False)
      in tcp_from
        (case ts of
           Some (t, ecr) \<Rightarrow>
             if is_sacks then
               (let vector = sack_edges 3 (the sacks)
                in d_tcp\<lparr>tcp_data_offset := tcp_data_offset d_tcp + (3 + of_nat (length vector)),
                     tcp_options := [OptTimestamp t ecr, OptSelectiveAck vector]\<rparr>)
             else d_tcp\<lparr>tcp_data_offset := tcp_data_offset d_tcp + 3,
                    tcp_options := [OptNop, OptNop, OptTimestamp t ecr]\<rparr>
         | None \<Rightarrow>
             if is_sacks then
               (let vector = sack_edges 4 (the sacks)
                in d_tcp\<lparr>tcp_data_offset := tcp_data_offset d_tcp + (1 + of_nat (length vector)),
                     tcp_options := [OptNop, OptNop, OptSelectiveAck vector]\<rparr>)
             else d_tcp))"

definition tcp_push_options :: "tcp \<Rightarrow> u8 \<Rightarrow> tcp_option list \<Rightarrow> tcp" where
  "tcp_push_options t words os = t\<lparr>tcp_layer := (tcp_layer t)
     \<lparr>tcp_data_offset := tcp_data_offset (tcp_layer t) + words,
      tcp_options := tcp_options (tcp_layer t) @ os\<rparr>\<rparr>"

definition tcp_set_flags :: "tcp \<Rightarrow> u16 \<Rightarrow> tcp" where
  "tcp_set_flags t flags = t\<lparr>tcp_layer := (tcp_layer t)\<lparr>tcp_flags := flags\<rparr>\<rparr>"

definition tcp_new_ack_syn :: "u16 \<Rightarrow> u16 \<Rightarrow> u32 \<Rightarrow> u32 \<Rightarrow> u16 \<Rightarrow> u16 option \<Rightarrow> u8 option \<Rightarrow> bool
    \<Rightarrow> (u32 \<times> u32) option \<Rightarrow> tcp" where
  "tcp_new_ack_syn src dst sequence acknowledgement window mss wscale sack_perm ts =
     (let tcp = tcp_new_ack src dst sequence acknowledgement window None None;
          tcp = tcp_set_flags tcp (tcp_flags (tcp_layer tcp) OR TcpFlags_SYN);
          tcp = (case mss of Some mss \<Rightarrow> tcp_push_options tcp 1 [OptMss mss] | None \<Rightarrow> tcp);
          tcp = (case wscale of Some wscale \<Rightarrow> tcp_push_options tcp 1 [OptNop, OptWscale wscale]
            | None \<Rightarrow> tcp)
      in case ts of
           Some (t, ecr) \<Rightarrow>
             if sack_perm then tcp_push_options tcp 3 [OptSackPerm, OptTimestamp t ecr]
             else tcp_push_options tcp 3 [OptNop, OptNop, OptTimestamp t ecr]
         | None \<Rightarrow>
             if sack_perm then tcp_push_options tcp 1 [OptNop, OptNop, OptSackPerm] else tcp)"

definition tcp_new_rst :: "u16 \<Rightarrow> u16 \<Rightarrow> u32 \<Rightarrow> u32 \<Rightarrow> u16 \<Rightarrow> (u32 \<times> u32) option \<Rightarrow> tcp" where
  "tcp_new_rst src dst sequence acknowledgement window ts =
     tcp_set_flags (tcp_new_ack src dst sequence acknowledgement window None ts) TcpFlags_RST"

definition tcp_new_ack_rst :: "u16 \<Rightarrow> u16 \<Rightarrow> u32 \<Rightarrow> u32 \<Rightarrow> u16 \<Rightarrow> (u32 \<times> u32) option \<Rightarrow> tcp" where
  "tcp_new_ack_rst src dst sequence acknowledgement window ts =
     (let tcp = tcp_new_rst src dst sequence acknowledgement window ts
      in tcp_set_flags tcp (tcp_flags (tcp_layer tcp) OR TcpFlags_ACK))"

definition tcp_new_ack_fin :: "u16 \<Rightarrow> u16 \<Rightarrow> u32 \<Rightarrow> u32 \<Rightarrow> u16 \<Rightarrow> (u32 \<times> u32) option \<Rightarrow> tcp" where
  "tcp_new_ack_fin src dst sequence acknowledgement window ts =
     (let tcp = tcp_new_ack src dst sequence acknowledgement window None ts
      in tcp_set_flags tcp (tcp_flags (tcp_layer tcp) OR TcpFlags_FIN))"

definition tcp_new_fin :: "u16 \<Rightarrow> u16 \<Rightarrow> u32 \<Rightarrow> u32 \<Rightarrow> u16 \<Rightarrow> (u32 \<times> u32) option \<Rightarrow> tcp" where
  "tcp_new_fin src dst sequence acknowledgement window ts =
     tcp_set_flags (tcp_new_ack src dst sequence acknowledgement window None ts) TcpFlags_FIN"

definition tcp_minimum_len :: usize where
  "tcp_minimum_len = 20"

definition tcp_set_ipv4_layer :: "tcp \<Rightarrow> ipv4 \<Rightarrow> tcp" where
  "tcp_set_ipv4_layer t i = t\<lparr>tcp_src_ip := ip_source i, tcp_dst_ip := ip_destination i\<rparr>"

text \<open>\<open>Tcp::parse\<close> on the fields of a packet view.\<close>

definition tcp_parse :: "tcp_fields \<Rightarrow> ipv4 \<Rightarrow> tcp" where
  "tcp_parse t i = tcp_set_ipv4_layer (tcp_from t) i"

definition tcp_is_ack :: "tcp \<Rightarrow> bool" where
  "tcp_is_ack t \<longleftrightarrow> tcp_flags (tcp_layer t) AND TcpFlags_ACK \<noteq> 0"

definition tcp_is_rst :: "tcp \<Rightarrow> bool" where
  "tcp_is_rst t \<longleftrightarrow> tcp_flags (tcp_layer t) AND TcpFlags_RST \<noteq> 0"

definition tcp_is_syn :: "tcp \<Rightarrow> bool" where
  "tcp_is_syn t \<longleftrightarrow> tcp_flags (tcp_layer t) AND TcpFlags_SYN \<noteq> 0"

definition tcp_is_fin :: "tcp \<Rightarrow> bool" where
  "tcp_is_fin t \<longleftrightarrow> tcp_flags (tcp_layer t) AND TcpFlags_FIN \<noteq> 0"

definition tcp_is_ack_fin :: "tcp \<Rightarrow> bool" where
  "tcp_is_ack_fin t \<longleftrightarrow> tcp_is_ack t \<and> tcp_is_fin t"

definition tcp_is_rst_or_fin :: "tcp \<Rightarrow> bool" where
  "tcp_is_rst_or_fin t \<longleftrightarrow> tcp_is_rst t \<or> tcp_is_fin t"

definition tcp_is_zero_window :: "tcp \<Rightarrow> bool" where
  "tcp_is_zero_window t \<longleftrightarrow> tcp_window (tcp_layer t) = 0"

text \<open>
  The option accessors write each option in turn into one buffer of 40 bytes until its number is
  the wanted one, and read the value from the buffer.
\<close>

fun find_option :: "pnet \<Rightarrow> u8 \<Rightarrow> u8 list \<Rightarrow> tcp_option list \<Rightarrow> u8 list option" where
  "find_option pn number buffer [] = None"
| "find_option pn number buffer (x # xs) =
     (let buffer = pn_put_tcp_option pn x buffer
      in if pn_tcp_option_number pn buffer = number then Some buffer
         else find_option pn number buffer xs)"

definition tcp_option_buffer :: "pnet \<Rightarrow> u8 \<Rightarrow> tcp \<Rightarrow> u8 list option" where
  "tcp_option_buffer pn number t = find_option pn number (replicate 40 0) (tcp_options (tcp_layer t))"

text \<open>\<open>bytes_to_u16\<close> and \<open>bytes_to_u32\<close>\<close>

definition bytes_to_u16 :: "u8 list \<Rightarrow> u16" where
  "bytes_to_u16 bytes = fold (\<lambda>b result. result * 256 + of_nat (unat b)) (take (min 2 (length bytes)) bytes) 0"

definition bytes_to_u32 :: "u8 list \<Rightarrow> u32" where
  "bytes_to_u32 bytes = fold (\<lambda>b result. result * 256 + of_nat (unat b)) (take (min 4 (length bytes)) bytes) 0"

text \<open>The outer \<open>None\<close> is a panic, the inner one an absent option.\<close>

definition tcp_mss :: "pnet \<Rightarrow> tcp \<Rightarrow> u16 option option" where
  "tcp_mss pn t =
     (case tcp_option_buffer pn TcpOptionNumbers_MSS t of
        Some buffer \<Rightarrow> do { bs \<leftarrow> subslice buffer 2 4; Some (Some (bytes_to_u16 bs)) }
      | None \<Rightarrow> Some None)"

definition tcp_wscale :: "pnet \<Rightarrow> tcp \<Rightarrow> u8 option option" where
  "tcp_wscale pn t =
     (case tcp_option_buffer pn TcpOptionNumbers_WSCALE t of
        Some buffer \<Rightarrow> if 2 < length buffer then Some (Some (buffer ! 2)) else None
      | None \<Rightarrow> Some None)"

fun sack_pairs :: "u8 list \<Rightarrow> nat list \<Rightarrow> (u32 \<times> u32) list option" where
  "sack_pairs buffer [] = Some []"
| "sack_pairs buffer (i # is) = do {
     left \<leftarrow> subslice buffer (2 + 8 * i) (2 + 8 * i + 4);
     right \<leftarrow> subslice buffer (2 + 8 * i + 4) (2 + 8 * i + 8);
     rest \<leftarrow> sack_pairs buffer is;
     Some ((bytes_to_u32 left, bytes_to_u32 right) # rest)
   }"

definition tcp_sack :: "pnet \<Rightarrow> tcp \<Rightarrow> (u32 \<times> u32) list option option" where
  "tcp_sack pn t =
     (case tcp_option_buffer pn TcpOptionNumbers_SACK t of
        Some buffer \<Rightarrow>
          if 1 < length buffer then do {
            n \<leftarrow> usub (unat (buffer ! 1)) 2;
            pairs \<leftarrow> sack_pairs buffer [0..<n div 8];
            Some (Some pairs)
          } else None
      | None \<Rightarrow> Some None)"

definition tcp_ts :: "pnet \<Rightarrow> tcp \<Rightarrow> u32 option option" where
  "tcp_ts pn t =
     (case tcp_option_buffer pn TcpOptionNumbers_TIMESTAMPS t of
        Some buffer \<Rightarrow> do { bs \<leftarrow> subslice buffer 2 6; Some (Some (bytes_to_u32 bs)) }
      | None \<Rightarrow> Some None)"

definition tcp_ts_ecr :: "pnet \<Rightarrow> tcp \<Rightarrow> u32 option option" where
  "tcp_ts_ecr pn t =
     (case tcp_option_buffer pn TcpOptionNumbers_TIMESTAMPS t of
        Some buffer \<Rightarrow> do { bs \<leftarrow> subslice buffer 6 10; Some (Some (bytes_to_u32 bs)) }
      | None \<Rightarrow> Some None)"

definition get_number_from_option :: "pnet \<Rightarrow> tcp_option \<Rightarrow> u8" where
  "get_number_from_option pn x = pn_tcp_option_number pn (pn_put_tcp_option pn x (replicate 40 0))"

definition tcp_is_sack_perm :: "pnet \<Rightarrow> tcp \<Rightarrow> bool" where
  "tcp_is_sack_perm pn t \<longleftrightarrow> list_ex
     (\<lambda>x. get_number_from_option pn x = TcpOptionNumbers_SACK_PERMITTED) (tcp_options (tcp_layer t))"

definition tcp_len :: "pnet \<Rightarrow> tcp \<Rightarrow> usize option" where
  "tcp_len pn t = options_len (pn_tcp_option_size pn) (tcp_options (tcp_layer t))
     (pn_tcp_size pn (tcp_layer t)) 0"

section \<open>The \<open>Layer\<close> trait\<close>

fun layers_kind :: "layers \<Rightarrow> layer_kind" where
  "layers_kind (LEthernet _) = Ethernet_kind"
| "layers_kind (LArp _) = Arp_kind"
| "layers_kind (LIpv4 _) = Ipv4_kind"
| "layers_kind (LIcmpv4 _) = Icmpv4_kind"
| "layers_kind (LTcp _) = Tcp_kind"
| "layers_kind (LUdp _) = Udp_kind"

fun layers_len :: "pnet \<Rightarrow> layers \<Rightarrow> usize option" where
  "layers_len pn (LEthernet e) = Some (pn_ethernet_size pn e)"
| "layers_len pn (LArp a) = Some (pn_arp_size pn a)"
| "layers_len pn (LIpv4 i) = ipv4_len pn i"
| "layers_len pn (LIcmpv4 i) = Some (pn_icmp_size pn i)"
| "layers_len pn (LTcp t) = tcp_len pn t"
| "layers_len pn (LUdp u) = Some (pn_udp_size pn (udp_layer u))"

definition too_small :: io_error where
  "too_small = IoError WriteZero ''buffer too small''"

text \<open>The setters that take an optional payload: \<open>serialize\<close> has none, \<open>serialize_with_payload\<close> one.\<close>

definition put_payload :: "(u8 list \<Rightarrow> u8 list \<Rightarrow> u8 list option) \<Rightarrow> u8 list option \<Rightarrow> u8 list
    \<Rightarrow> u8 list option" where
  "put_payload set_payload payload buf =
     (case payload of Some p \<Rightarrow> set_payload p buf | None \<Rightarrow> Some buf)"

definition ethernet_serialize :: "pnet \<Rightarrow> ethernet \<Rightarrow> u8 list \<Rightarrow> (usize, u8 list) outcome" where
  "ethernet_serialize pn e buf =
     (case pn_put_ethernet pn e buf of
        None \<Rightarrow> Some (Err too_small, buf)
      | Some buf \<Rightarrow> Some (Ok (pn_ethernet_size pn e), buf))"

definition arp_serialize :: "pnet \<Rightarrow> arp \<Rightarrow> u8 list \<Rightarrow> (usize, u8 list) outcome" where
  "arp_serialize pn a buf =
     (case pn_put_arp pn a buf of
        None \<Rightarrow> Some (Err too_small, buf)
      | Some buf \<Rightarrow> Some (Ok (pn_arp_size pn a), buf))"

definition ipv4_serialize :: "pnet \<Rightarrow> ipv4 \<Rightarrow> u8 list option \<Rightarrow> u8 list \<Rightarrow> usize
    \<Rightarrow> (usize, u8 list) outcome" where
  "ipv4_serialize pn i payload buf n =
     (case pn_put_ipv4 pn i buf of
        None \<Rightarrow> Some (Err too_small, buf)
      | Some buf \<Rightarrow> do {
          header_length \<leftarrow> ipv4_len pn i;
          if header_length div 4 > 255 then Some (Err (IoError Other ''IPv4 too big''), buf)
          else do {
            let buf = pn_ipv4_set_header_length pn (of_nat (header_length div 4)) buf;
            if n > 65535 then Some (Err (IoError InvalidInput ''length too big''), buf)
            else do {
              let buf = pn_ipv4_set_total_length pn (of_nat n) buf;
              buf \<leftarrow> put_payload (pn_ipv4_set_payload pn) payload buf;
              let buf = pn_ipv4_set_checksum pn (pn_ipv4_checksum pn buf) buf;
              Some (Ok header_length, buf)
            }
          }
        })"

definition icmpv4_serialize :: "pnet \<Rightarrow> icmpv4 \<Rightarrow> u8 list \<Rightarrow> (usize, u8 list) outcome" where
  "icmpv4_serialize pn i buf =
     (case pn_put_icmp pn i buf of
        None \<Rightarrow> Some (Err too_small, buf)
      | Some buf \<Rightarrow>
          Some (Ok (pn_icmp_size pn i), pn_icmp_set_checksum pn (pn_icmp_checksum pn buf) buf))"

definition tcp_serialize :: "pnet \<Rightarrow> tcp \<Rightarrow> u8 list option \<Rightarrow> u8 list \<Rightarrow> usize
    \<Rightarrow> (usize, u8 list) outcome" where
  "tcp_serialize pn t payload buf n =
     (case pn_put_tcp pn (tcp_layer t) buf of
        None \<Rightarrow> Some (Err too_small, buf)
      | Some buf \<Rightarrow> do {
          buf \<leftarrow> put_payload (pn_tcp_set_payload pn) payload buf;
          header_length \<leftarrow> tcp_len pn t;
          if header_length div 4 > 255 then Some (Err (IoError Other ''TCP too big''), buf)
          else do {
            let buf = pn_tcp_set_data_offset pn (of_nat (header_length div 4)) buf;
            let buf = pn_tcp_set_checksum pn (pn_tcp_checksum pn buf (tcp_src_ip t) (tcp_dst_ip t)) buf;
            Some (Ok (case payload of None \<Rightarrow> header_length | Some _ \<Rightarrow> header_length + n), buf)
          }
        })"

definition udp_serialize :: "pnet \<Rightarrow> udp \<Rightarrow> u8 list option \<Rightarrow> u8 list \<Rightarrow> usize
    \<Rightarrow> (usize, u8 list) outcome" where
  "udp_serialize pn u payload buf n =
     (case pn_put_udp pn (udp_layer u) buf of
        None \<Rightarrow> Some (Err too_small, buf)
      | Some buf \<Rightarrow> do {
          buf \<leftarrow> put_payload (pn_udp_set_payload pn) payload buf;
          if n > 65535 then Some (Err (IoError InvalidInput ''length too big''), buf)
          else do {
            let buf = pn_udp_set_length pn (of_nat n) buf;
            let buf = pn_udp_set_checksum pn (pn_udp_checksum pn buf (udp_src_ip u) (udp_dst_ip u)) buf;
            let len = pn_udp_size pn (udp_layer u);
            Some (Ok (case payload of None \<Rightarrow> len | Some _ \<Rightarrow> len + n), buf)
          }
        })"

fun layers_serialize :: "pnet \<Rightarrow> layers \<Rightarrow> u8 list option \<Rightarrow> u8 list \<Rightarrow> usize
    \<Rightarrow> (usize, u8 list) outcome" where
  "layers_serialize pn (LEthernet e) payload buf n = ethernet_serialize pn e buf"
| "layers_serialize pn (LArp a) payload buf n = arp_serialize pn a buf"
| "layers_serialize pn (LIpv4 i) payload buf n = ipv4_serialize pn i payload buf n"
| "layers_serialize pn (LIcmpv4 i) payload buf n = icmpv4_serialize pn i buf"
| "layers_serialize pn (LTcp t) payload buf n = tcp_serialize pn t payload buf n"
| "layers_serialize pn (LUdp u) payload buf n = udp_serialize pn u payload buf n"

section \<open>Facts\<close>

lemma ne_bytes_roundtrip: "from_ne_bytes (ne_bytes n) = n"
  using unat_u16_less [of n] by (simp add: from_ne_bytes_def ne_bytes_def be_value_bytes)

lemma tcp_flag_bits:
  "TcpFlags_ACK AND TcpFlags_ACK \<noteq> 0" "TcpFlags_ACK AND TcpFlags_FIN = 0"
  "TcpFlags_ACK AND TcpFlags_SYN = 0" "TcpFlags_ACK AND TcpFlags_RST = 0"
  by (simp_all add: tcp_flag_defs)

lemma tcp_new_ack_fields [simp]:
  "tcp_flags (tcp_layer (tcp_new_ack src dst s a w sacks ts)) = TcpFlags_ACK"
  "tcp_sequence (tcp_layer (tcp_new_ack src dst s a w sacks ts)) = s"
  "tcp_acknowledgement (tcp_layer (tcp_new_ack src dst s a w sacks ts)) = a"
  "tcp_window (tcp_layer (tcp_new_ack src dst s a w sacks ts)) = w"
  "tcp_source (tcp_layer (tcp_new_ack src dst s a w sacks ts)) = src"
  "tcp_destination (tcp_layer (tcp_new_ack src dst s a w sacks ts)) = dst"
  by (auto simp: tcp_new_ack_def tcp_from_def Let_def split: option.split)

lemma tcp_set_flags_fields [simp]:
  "tcp_flags (tcp_layer (tcp_set_flags t f)) = f"
  "tcp_sequence (tcp_layer (tcp_set_flags t f)) = tcp_sequence (tcp_layer t)"
  "tcp_acknowledgement (tcp_layer (tcp_set_flags t f)) = tcp_acknowledgement (tcp_layer t)"
  "tcp_window (tcp_layer (tcp_set_flags t f)) = tcp_window (tcp_layer t)"
  "tcp_source (tcp_layer (tcp_set_flags t f)) = tcp_source (tcp_layer t)"
  "tcp_destination (tcp_layer (tcp_set_flags t f)) = tcp_destination (tcp_layer t)"
  "tcp_options (tcp_layer (tcp_set_flags t f)) = tcp_options (tcp_layer t)"
  "tcp_data_offset (tcp_layer (tcp_set_flags t f)) = tcp_data_offset (tcp_layer t)"
  by (simp_all add: tcp_set_flags_def)

lemma tcp_new_ack_fin_is_fin: "tcp_is_fin (tcp_new_ack_fin src dst s a w ts)"
  by (simp add: tcp_is_fin_def tcp_new_ack_fin_def Let_def tcp_flag_defs)

lemma tcp_new_ack_not_fin: "\<not> tcp_is_fin (tcp_new_ack src dst s a w sacks ts)"
  by (simp add: tcp_is_fin_def tcp_flag_defs)

lemma ipv4_fragment_flags:
  "ipv4_new identification t src dst = Some i \<Longrightarrow> \<not> ipv4_is_fragment i"
  "ipv4_new_more_fragment identification t off src dst = Some i \<Longrightarrow>
     ipv4_is_more_fragment i \<and> ip_fragment_offset i = off"
  "ipv4_new_last_fragment identification t off src dst = Some i \<Longrightarrow>
     \<not> ipv4_is_more_fragment i \<and> ip_fragment_offset i = off"
  by (auto simp: ipv4_new_def ipv4_new_more_fragment_def ipv4_new_last_fragment_def
      ipv4_is_fragment_def ipv4_is_more_fragment_def MoreFragments_def split: bind_splits)

section \<open>Properties\<close>

text \<open>
  The documented sizes of \<open>pnet\<close>: a TCP header is 20 bytes and one byte per option in
  \<open>packet_size\<close>, and each option has the size its standard gives it.
\<close>

definition tcp_sizes_ok :: "pnet \<Rightarrow> bool" where
  "tcp_sizes_ok pn \<longleftrightarrow> (\<forall>t. pn_tcp_size pn t = 20 + length (tcp_options t)) \<and>
     pn_tcp_option_size pn OptNop = 1 \<and> (\<forall>m. pn_tcp_option_size pn (OptMss m) = 4) \<and>
     (\<forall>w. pn_tcp_option_size pn (OptWscale w) = 3) \<and> pn_tcp_option_size pn OptSackPerm = 2 \<and>
     (\<forall>v. pn_tcp_option_size pn (OptSelectiveAck v) = 2 + 4 * length v) \<and>
     (\<forall>t e. pn_tcp_option_size pn (OptTimestamp t e) = 10)"

lemma options_len_eq:
  "length xs \<le> n \<Longrightarrow>
     options_len size_of xs n m = Some (n - length xs + m + sum_list (map size_of xs))"
  by (induction size_of xs n m rule: options_len.induct) (auto simp: usub_def)

lemma tcp_len_eq:
  "tcp_sizes_ok pn \<Longrightarrow>
     tcp_len pn t = Some (20 + sum_list (map (pn_tcp_option_size pn) (tcp_options (tcp_layer t))))"
  by (simp add: tcp_len_def options_len_eq tcp_sizes_ok_def)

lemma length_sack_edges: "length (sack_edges n sacks) = 2 * min n (length sacks)"
proof -
  have "length (concat (map (\<lambda>s. [fst s, snd s]) xs)) = 2 * length xs" for xs :: "(u32 \<times> u32) list"
    by (induction xs) auto
  then show ?thesis by (simp add: sack_edges_def)
qed

lemma tcp_header_ok:
  assumes "tcp_sizes_ok pn"
    and "t = tcp_new_ack src dst s a w sacks ts \<or> t = tcp_new_ack_syn src dst s a w mss wscale sack_perm ts"
  shows "tcp_len pn t = Some (4 * unat (tcp_data_offset (tcp_layer t))) \<and>
    unat (tcp_data_offset (tcp_layer t)) \<le> 15"
proof -
  have opt: "pn_tcp_option_size pn OptNop = 1" "\<And>m. pn_tcp_option_size pn (OptMss m) = 4"
    "\<And>w. pn_tcp_option_size pn (OptWscale w) = 3" "pn_tcp_option_size pn OptSackPerm = 2"
    "\<And>v. pn_tcp_option_size pn (OptSelectiveAck v) = 2 + 4 * length v"
    "\<And>t e. pn_tcp_option_size pn (OptTimestamp t e) = 10"
    using assms(1) by (auto simp: tcp_sizes_ok_def)
  have edges: "sacks' \<noteq> [] \<Longrightarrow> k = 3 \<or> k = 4 \<Longrightarrow>
      length (sack_edges k sacks') \<in> {2, 4, 6, 8} \<and> length (sack_edges k sacks') \<le> 2 * k" for k sacks'
    by (cases sacks'; cases "tl sacks'"; cases "tl (tl sacks')"; cases "tl (tl (tl sacks'))")
      (auto simp: length_sack_edges)
  from assms(2) show ?thesis
  proof
    assume t: "t = tcp_new_ack src dst s a w sacks ts"
    show ?thesis
    proof (cases "\<exists>x. sacks = Some x \<and> x \<noteq> []")
      case True
      then obtain x where x: "sacks = Some x" "x \<noteq> []" by blast
      show ?thesis
        using edges [OF x(2), of 3] edges [OF x(2), of 4] x
        by (cases ts) (auto simp: t tcp_len_eq [OF assms(1)] tcp_new_ack_def tcp_from_def Let_def opt)
    next
      case False
      then show ?thesis
        by (cases ts; cases sacks)
          (auto simp: t tcp_len_eq [OF assms(1)] tcp_new_ack_def tcp_from_def Let_def opt)
    qed
  next
    assume t: "t = tcp_new_ack_syn src dst s a w mss wscale sack_perm ts"
    show ?thesis
      by (cases mss; cases wscale; cases ts; cases sack_perm)
        (auto simp: t tcp_len_eq [OF assms(1)] tcp_new_ack_syn_def tcp_new_ack_def tcp_from_def
          tcp_push_options_def tcp_set_flags_def Let_def opt)
  qed
qed

lemma tcp_set_flags_len: "tcp_sizes_ok pn \<Longrightarrow> tcp_len pn (tcp_set_flags t flags) = tcp_len pn t"
  by (simp add: tcp_len_eq)

text \<open>
  C25. The header length of every TCP segment the program builds (ACK with any selective acknowledgements, SYN/ACK with
  any combination of MSS, window scale and SACK-permitted, RST, ACK/RST, FIN and ACK/FIN, each with or without a timestamp) is
  a multiple of four bytes that equals the data offset put into the header and fits the four bits of that field (at least 20 and
  at most 60 bytes), given the sizes the standard gives to the header and the options.
\<close>

theorem tcp_header_aligned:
  assumes "tcp_sizes_ok pn"
    and "t \<in> {tcp_new_ack src dst s a w sacks ts, tcp_new_ack_syn src dst s a w mss wscale sack_perm ts,
      tcp_new_rst src dst s a w ts, tcp_new_ack_rst src dst s a w ts, tcp_new_fin src dst s a w ts, tcp_new_ack_fin src dst s a w ts}"
  shows "tcp_len pn t = Some (4 * unat (tcp_data_offset (tcp_layer t))) \<and>
    5 \<le> unat (tcp_data_offset (tcp_layer t)) \<and> unat (tcp_data_offset (tcp_layer t)) \<le> 15"
proof -
  have ack: "tcp_len pn x = Some (4 * unat (tcp_data_offset (tcp_layer x))) \<and> unat (tcp_data_offset (tcp_layer x)) \<le> 15"
    if "x = tcp_new_ack src dst s a w z ts \<or> x = tcp_new_ack_syn src dst s a w mss wscale sack_perm ts" for x z
    using tcp_header_ok [OF assms(1) that] .
  have "tcp_len pn t = Some (4 * unat (tcp_data_offset (tcp_layer t))) \<and> unat (tcp_data_offset (tcp_layer t)) \<le> 15"
    using assms(2) ack [of _ sacks] ack [of "tcp_new_ack src dst s a w None ts" None]
    by (auto simp: tcp_new_rst_def tcp_new_ack_rst_def tcp_new_fin_def tcp_new_ack_fin_def tcp_set_flags_len [OF assms(1)])
  moreover from this have "20 \<le> 4 * unat (tcp_data_offset (tcp_layer t))" by (simp add: tcp_len_eq [OF assms(1)])
  ultimately show ?thesis by simp
qed

text \<open>
  A small packet library for the witnesses: the sizes of the standards, headers of zero bytes, and
  views that read the ports of a UDP header.
\<close>

fun sample_option_size :: "tcp_option \<Rightarrow> usize" where
  "sample_option_size OptNop = 1"
| "sample_option_size (OptMss _) = 4"
| "sample_option_size (OptWscale _) = 3"
| "sample_option_size OptSackPerm = 2"
| "sample_option_size (OptSelectiveAck v) = 2 + 4 * length v"
| "sample_option_size (OptTimestamp _ _) = 10"
| "sample_option_size (OptOther bs) = length bs"

definition sample_put :: "usize \<Rightarrow> u8 list \<Rightarrow> u8 list option" where
  "sample_put n buf = (if n \<le> length buf then Some buf else None)"

definition sample_pnet :: pnet where
  "sample_pnet = \<lparr>pn_get_ethernet = \<lambda>_. None, pn_get_arp = \<lambda>_. None, pn_get_ipv4 = \<lambda>_. None,
     pn_get_icmp = \<lambda>_. None, pn_get_tcp = \<lambda>_. None,
     pn_get_udp = \<lambda>bs. if 8 \<le> length bs then Some \<lparr>udp_source = from_port_bytes (take 2 bs),
       udp_destination = from_port_bytes (take 2 (drop 2 bs)), udp_length = 0, udp_checksum = 0\<rparr>
       else None,
     pn_ethernet_size = \<lambda>_. 14, pn_arp_size = \<lambda>_. 28, pn_ipv4_size = \<lambda>i. 20 + length (ip_options i),
     pn_ipv4_option_size = \<lambda>_. 4, pn_icmp_size = \<lambda>i. 4 + length (icmp_payload i),
     pn_tcp_size = \<lambda>t. 20 + length (tcp_options t), pn_tcp_option_size = sample_option_size,
     pn_udp_size = \<lambda>_. 8, pn_put_ethernet = \<lambda>_. sample_put 14, pn_put_arp = \<lambda>_. sample_put 28,
     pn_put_ipv4 = \<lambda>_. sample_put 20, pn_put_icmp = \<lambda>_. sample_put 8, pn_put_tcp = \<lambda>_. sample_put 20,
     pn_put_udp = \<lambda>_. sample_put 8, pn_ipv4_set_header_length = \<lambda>_ b. b,
     pn_ipv4_set_total_length = \<lambda>_ b. b, pn_ipv4_set_payload = \<lambda>_. Some, pn_ipv4_checksum = \<lambda>_. 0,
     pn_ipv4_set_checksum = \<lambda>_ b. b, pn_icmp_checksum = \<lambda>_. 0, pn_icmp_set_checksum = \<lambda>_ b. b,
     pn_tcp_set_payload = \<lambda>_. Some, pn_tcp_set_data_offset = \<lambda>_ b. b, pn_tcp_checksum = \<lambda>_ _ _. 0,
     pn_tcp_set_checksum = \<lambda>_ b. b, pn_udp_set_payload = \<lambda>p b. Some (take 8 b @ p),
     pn_udp_set_length = \<lambda>_ b. b, pn_udp_checksum = \<lambda>_ _ _. 0, pn_udp_set_checksum = \<lambda>_ b. b,
     pn_put_tcp_option = \<lambda>_ b. b, pn_tcp_option_number = \<lambda>_. 0, pn_mac_string = \<lambda>_. []\<rparr>"

lemma sample_tcp_sizes_ok: "tcp_sizes_ok sample_pnet"
  by (simp add: tcp_sizes_ok_def sample_pnet_def)

theorem tcp_header_aligned_witness:
  "tcp_len sample_pnet (tcp_new_ack 80 443 7 9 100 (Some [(10, 12)]) None) = Some 32 \<and>
    tcp_len sample_pnet (tcp_new_ack_fin 80 443 7 9 100 (Some (1, 2))) = Some 32"
  using tcp_header_aligned [OF sample_tcp_sizes_ok,
      of "tcp_new_ack 80 443 7 9 100 (Some [(10, 12)]) None" 80 443 7 9 100 "Some [(10, 12)]" None]
    tcp_header_aligned [OF sample_tcp_sizes_ok,
      of "tcp_new_ack_fin 80 443 7 9 100 (Some (1, 2))" 80 443 7 9 100 None "Some (1, 2)"]
  by (simp add: tcp_new_ack_def tcp_new_ack_fin_def tcp_set_flags_def tcp_from_def sack_edges_def Let_def)

end
