(* ===== verification/Packet.thy ===== *)
theory Packet
  imports Layers Timer
begin

text \<open>
  Frames and IPv4 fragments, \<open>packet/mod.rs\<close>: an \<open>Indicator\<close> holds the layers of a frame, a
  \<open>Fragmentation\<close> collects the fragments of one datagram, and the \<open>Defraggler\<close> keeps one per key.
  The datagram is recovered from its fragments in every order of arrival.
\<close>

section \<open>Indicators\<close>

record indicator =
  ind_link :: layers
  ind_network :: "layers option"
  ind_transport :: "layers option"

definition indicator_new :: "layers \<Rightarrow> layers option \<Rightarrow> layers option \<Rightarrow> indicator" where
  "indicator_new l n t = \<lparr>ind_link = l, ind_network = n, ind_transport = t\<rparr>"

text \<open>The transport layer of a datagram that is not a fragment.\<close>

definition parse_transport :: "pnet \<Rightarrow> ipv4 \<Rightarrow> u8 list \<Rightarrow> layers option" where
  "parse_transport pn ipv4 bytes =
     (if ip_next_level_protocol ipv4 = Protocols_Icmp then map_option LIcmpv4 (pn_get_icmp pn bytes)
      else if ip_next_level_protocol ipv4 = Protocols_Tcp then
        map_option (\<lambda>t. LTcp (tcp_parse t ipv4)) (pn_get_tcp pn bytes)
      else if ip_next_level_protocol ipv4 = Protocols_Udp then
        map_option (\<lambda>u. LUdp (udp_parse u ipv4)) (pn_get_udp pn bytes)
      else None)"

definition indicator_parse :: "pnet \<Rightarrow> ethernet \<Rightarrow> u8 list \<Rightarrow> indicator" where
  "indicator_parse pn e payload =
     (if eth_ethertype e = EtherTypes_Arp then
        indicator_new (LEthernet e) (map_option LArp (pn_get_arp pn payload)) None
      else if eth_ethertype e = EtherTypes_Ipv4 then
        (case pn_get_ipv4 pn payload of
           Some (ipv4, ipv4_payload) \<Rightarrow>
             indicator_new (LEthernet e) (Some (LIpv4 ipv4))
               (if \<not> ipv4_is_fragment ipv4 then parse_transport pn ipv4 ipv4_payload else None)
         | None \<Rightarrow> indicator_new (LEthernet e) None None)
      else indicator_new (LEthernet e) None None)"

definition indicator_from :: "pnet \<Rightarrow> u8 list \<Rightarrow> indicator option" where
  "indicator_from pn frame =
     (case pn_get_ethernet pn frame of
        Some (e, payload) \<Rightarrow> Some (indicator_parse pn e payload)
      | None \<Rightarrow> None)"

fun opt_layers_len :: "pnet \<Rightarrow> layers option \<Rightarrow> usize option" where
  "opt_layers_len pn None = Some 0"
| "opt_layers_len pn (Some l) = layers_len pn l"

definition indicator_len :: "pnet \<Rightarrow> indicator \<Rightarrow> usize option" where
  "indicator_len pn ind = do {
     l \<leftarrow> layers_len pn (ind_link ind);
     n \<leftarrow> opt_layers_len pn (ind_network ind);
     t \<leftarrow> opt_layers_len pn (ind_transport ind);
     Some (l + n + t)
   }"

definition indicator_content_len :: "pnet \<Rightarrow> indicator \<Rightarrow> usize option" where
  "indicator_content_len pn ind =
     (case ind_link ind of
        LEthernet e \<Rightarrow>
          (case ind_network ind of
             Some (LArp a) \<Rightarrow> Some (pn_ethernet_size pn e + pn_arp_size pn a)
           | Some (LIpv4 i) \<Rightarrow> Some (pn_ethernet_size pn e + unat (ip_total_length i))
           | Some _ \<Rightarrow> None
           | None \<Rightarrow> Some (pn_ethernet_size pn e))
      | _ \<Rightarrow> None)"

text \<open>One step of the serialisation: a layer into the rest of the buffer.\<close>

definition serialize_step :: "pnet \<Rightarrow> u8 list option \<Rightarrow> layers option \<Rightarrow> usize \<Rightarrow> usize \<Rightarrow> u8 list
    \<Rightarrow> (usize, u8 list) outcome" where
  "serialize_step pn payload layer start n buf =
     (case layer of
        None \<Rightarrow> Some (Ok 0, buf)
      | Some l \<Rightarrow> do {
          rest \<leftarrow> subslice buf start (length buf);
          (r, rest) \<leftarrow> layers_serialize pn l payload rest n;
          Some (r, take start buf @ rest)
        })"

definition indicator_serialize :: "pnet \<Rightarrow> indicator \<Rightarrow> u8 list option \<Rightarrow> u8 list
    \<Rightarrow> (usize, u8 list) outcome" where
  "indicator_serialize pn ind payload buf = do {
     len \<leftarrow> indicator_len pn ind;
     let total = len + (case payload of Some p \<Rightarrow> length p | None \<Rightarrow> 0);
     (r, buf) \<leftarrow> serialize_step pn payload (Some (ind_link ind)) 0 total buf;
     (case r of Inl e \<Rightarrow> Some (Err e, buf) | Inr m1 \<Rightarrow> do {
       total \<leftarrow> usub total m1;
       (r, buf) \<leftarrow> serialize_step pn payload (ind_network ind) m1 total buf;
       (case r of Inl e \<Rightarrow> Some (Err e, buf) | Inr m2 \<Rightarrow> do {
         total \<leftarrow> usub total m2;
         (r, buf) \<leftarrow> serialize_step pn payload (ind_transport ind) (m1 + m2) total buf;
         (case r of Inl e \<Rightarrow> Some (Err e, buf) | Inr m3 \<Rightarrow> Some (Ok (m1 + m2 + m3), buf))
       })
     })
   }"

definition indicator_ethernet :: "indicator \<Rightarrow> ethernet option" where
  "indicator_ethernet ind = (case ind_link ind of LEthernet e \<Rightarrow> Some e | _ \<Rightarrow> None)"

definition indicator_network_kind :: "indicator \<Rightarrow> layer_kind option" where
  "indicator_network_kind ind = map_option layers_kind (ind_network ind)"

definition indicator_transport_kind :: "indicator \<Rightarrow> layer_kind option" where
  "indicator_transport_kind ind = map_option layers_kind (ind_transport ind)"

definition indicator_arp :: "indicator \<Rightarrow> arp option" where
  "indicator_arp ind = (case ind_network ind of Some (LArp a) \<Rightarrow> Some a | _ \<Rightarrow> None)"

definition indicator_ipv4 :: "indicator \<Rightarrow> ipv4 option" where
  "indicator_ipv4 ind = (case ind_network ind of Some (LIpv4 i) \<Rightarrow> Some i | _ \<Rightarrow> None)"

definition indicator_icmpv4 :: "indicator \<Rightarrow> icmpv4 option" where
  "indicator_icmpv4 ind = (case ind_transport ind of Some (LIcmpv4 i) \<Rightarrow> Some i | _ \<Rightarrow> None)"

definition indicator_tcp :: "indicator \<Rightarrow> tcp option" where
  "indicator_tcp ind = (case ind_transport ind of Some (LTcp t) \<Rightarrow> Some t | _ \<Rightarrow> None)"

definition indicator_udp :: "indicator \<Rightarrow> udp option" where
  "indicator_udp ind = (case ind_transport ind of Some (LUdp u) \<Rightarrow> Some u | _ \<Rightarrow> None)"

section \<open>The datagram inside an ICMP error\<close>

definition icmpv4_parse_payload :: "pnet \<Rightarrow> icmpv4 \<Rightarrow> (ipv4 \<times> layers option) option" where
  "icmpv4_parse_payload pn i =
     (if length (icmp_payload i) < 4 then None
      else case pn_get_ipv4 pn (drop 4 (icmp_payload i)) of
             Some (ipv4, payload) \<Rightarrow>
               Some (ipv4, if \<not> ipv4_is_fragment ipv4 then parse_transport pn ipv4 payload else None)
           | None \<Rightarrow> None)"

text \<open>The outer \<open>None\<close> is the \<open>unwrap\<close> of a payload that cannot be parsed.\<close>

definition icmpv4_next_level_protocol :: "pnet \<Rightarrow> icmpv4 \<Rightarrow> u8 option option" where
  "icmpv4_next_level_protocol pn i =
     (if icmpv4_is_destination_port_unreachable i \<or> icmpv4_is_fragmentation_required i then do {
        (ipv4, _) \<leftarrow> icmpv4_parse_payload pn i;
        Some (Some (ip_next_level_protocol ipv4))
      } else Some None)"

definition icmpv4_next_level_layer_kind :: "pnet \<Rightarrow> icmpv4 \<Rightarrow> layer_kind option option" where
  "icmpv4_next_level_layer_kind pn i =
     (if icmpv4_is_destination_port_unreachable i \<or> icmpv4_is_fragmentation_required i then do {
        (ipv4, _) \<leftarrow> icmpv4_parse_payload pn i;
        Some (ipv4_next_level_layer_kind ipv4)
      } else Some None)"

definition icmpv4_src_ip_addr :: "pnet \<Rightarrow> icmpv4 \<Rightarrow> ipv4_addr option option" where
  "icmpv4_src_ip_addr pn i =
     (if icmpv4_is_destination_port_unreachable i \<or> icmpv4_is_fragmentation_required i then do {
        (ipv4, _) \<leftarrow> icmpv4_parse_payload pn i;
        Some (Some (ip_source ipv4))
      } else Some None)"

definition icmpv4_dst_ip_addr :: "pnet \<Rightarrow> icmpv4 \<Rightarrow> ipv4_addr option option" where
  "icmpv4_dst_ip_addr pn i =
     (if icmpv4_is_destination_port_unreachable i \<or> icmpv4_is_fragmentation_required i then do {
        (ipv4, _) \<leftarrow> icmpv4_parse_payload pn i;
        Some (Some (ip_destination ipv4))
      } else Some None)"

definition icmpv4_src :: "pnet \<Rightarrow> icmpv4 \<Rightarrow> socket_addr_v4 option option" where
  "icmpv4_src pn i =
     (if icmpv4_is_destination_port_unreachable i \<or> icmpv4_is_fragmentation_required i then do {
        (_, transport) \<leftarrow> icmpv4_parse_payload pn i;
        Some (case transport of
            Some (LTcp t) \<Rightarrow> Some (SocketAddrV4 (tcp_src_ip t) (tcp_source (tcp_layer t)))
          | Some (LUdp u) \<Rightarrow> Some (SocketAddrV4 (udp_src_ip u) (udp_source (udp_layer u)))
          | _ \<Rightarrow> None)
      } else Some None)"

definition icmpv4_dst :: "pnet \<Rightarrow> icmpv4 \<Rightarrow> socket_addr_v4 option option" where
  "icmpv4_dst pn i =
     (if icmpv4_is_destination_port_unreachable i \<or> icmpv4_is_fragmentation_required i then do {
        (_, transport) \<leftarrow> icmpv4_parse_payload pn i;
        Some (case transport of
            Some (LTcp t) \<Rightarrow> Some (SocketAddrV4 (tcp_dst_ip t) (tcp_destination (tcp_layer t)))
          | Some (LUdp u) \<Rightarrow> Some (SocketAddrV4 (udp_dst_ip u) (udp_destination (udp_layer u)))
          | _ \<Rightarrow> None)
      } else Some None)"

section \<open>Fragments of one datagram\<close>

definition EXPIRE_TIME :: nat where
  "EXPIRE_TIME = 10000"

record fragmentation =
  frag_ethernet :: ethernet
  frag_ipv4 :: ipv4
  frag_buffer :: "u8 list"
  frag_length :: usize
  frag_total_length :: "usize option"
  frag_last_seen :: instant

definition fragmentation_new :: "indicator \<Rightarrow> instant \<Rightarrow> fragmentation option" where
  "fragmentation_new ind now =
     (case indicator_ethernet ind of
        None \<Rightarrow> None
      | Some e \<Rightarrow>
          (case indicator_ipv4 ind of
             None \<Rightarrow> None
           | Some i \<Rightarrow> Some \<lparr>frag_ethernet = e, frag_ipv4 = i, frag_buffer = replicate 65535 0,
               frag_length = 0, frag_total_length = None, frag_last_seen = now\<rparr>))"

text \<open>\<open>None\<close> is the panic of a fragment that reaches past the buffer.\<close>

definition fragmentation_add :: "fragmentation \<Rightarrow> indicator \<Rightarrow> u8 list \<Rightarrow> fragmentation option" where
  "fragmentation_add f ind payload =
     (case indicator_ipv4 ind of
        None \<Rightarrow> Some f
      | Some i \<Rightarrow> do {
          let offset = unat (ip_fragment_offset i) * 8;
          let f = (if \<not> ipv4_is_more_fragment i
            then f\<lparr>frag_total_length := Some (offset + length payload)\<rparr> else f);
          buf \<leftarrow> write_slice (frag_buffer f) offset (offset + length payload) payload;
          n \<leftarrow> uadd (frag_length f) (length payload);
          Some (f\<lparr>frag_buffer := buf, frag_length := n\<rparr>)
        })"

definition fragmentation_is_completed :: "fragmentation \<Rightarrow> bool" where
  "fragmentation_is_completed f =
     (case frag_total_length f of Some n \<Rightarrow> frag_length f = n | None \<Rightarrow> False)"

definition fragmentation_is_expired :: "fragmentation \<Rightarrow> instant \<Rightarrow> bool" where
  "fragmentation_is_expired f now \<longleftrightarrow> as_millis (now - frag_last_seen f) > EXPIRE_TIME"

definition fragmentation_concatenate :: "pnet \<Rightarrow> fragmentation \<Rightarrow> (layers option \<times> u8 list) option" where
  "fragmentation_concatenate pn f = do {
     bytes \<leftarrow> subslice (frag_buffer f) 0 (frag_length f);
     let transport = parse_transport pn (frag_ipv4 f) bytes;
     header_size \<leftarrow> opt_layers_len pn transport;
     payload \<leftarrow> subslice (frag_buffer f) header_size (frag_length f);
     Some (transport, payload)
   }"

section \<open>The defragmentation machine\<close>

type_synonym frag_key = "ipv4_addr \<times> ipv4_addr \<times> layer_kind \<times> u16"

record defraggler =
  frags :: "frag_key \<rightharpoonup> fragmentation"

definition defraggler_new :: defraggler where
  "defraggler_new = \<lparr>frags = Map.empty\<rparr>"

definition frag_key_of :: "ipv4 \<Rightarrow> frag_key" where
  "frag_key_of i = (ip_source i, ip_destination i, layers_kind (LIpv4 i), ip_identification i)"

text \<open>
  \<open>Defraggler::add\<close>: the entry of the key is created when there is none or the old one has
  expired, the fragment added to it, and a completed entry removed and returned.
\<close>

definition defraggler_entry :: "defraggler \<Rightarrow> frag_key \<Rightarrow> indicator \<Rightarrow> instant \<Rightarrow> fragmentation option" where
  "defraggler_entry d key ind now =
     (case frags d key of
        Some f \<Rightarrow> if fragmentation_is_expired f now then fragmentation_new ind now else Some f
      | None \<Rightarrow> fragmentation_new ind now)"

definition defraggler_add :: "pnet \<Rightarrow> defraggler \<Rightarrow> indicator \<Rightarrow> u8 list \<Rightarrow> instant
    \<Rightarrow> (fragmentation option \<times> defraggler) option" where
  "defraggler_add pn d ind frame now =
     (case indicator_ipv4 ind of
        None \<Rightarrow> Some (None, d)
      | Some i \<Rightarrow>
          (let key = frag_key_of i
           in case defraggler_entry d key ind now of
                None \<Rightarrow> Some (None, d)
              | Some f \<Rightarrow> do {
                  e \<leftarrow> indicator_ethernet ind;
                  ip_len \<leftarrow> ipv4_len pn i;
                  payload \<leftarrow> subslice frame (pn_ethernet_size pn e + ip_len) (length frame);
                  f \<leftarrow> fragmentation_add f ind payload;
                  if fragmentation_is_completed f
                  then Some (Some f, d\<lparr>frags := (frags d)(key := None)\<rparr>)
                  else Some (None, d\<lparr>frags := (frags d)(key \<mapsto> f)\<rparr>)
                }))"

section \<open>Fragments of a datagram\<close>

text \<open>The offset of a fragment in bytes, and the positions it fills.\<close>

definition frag_offset :: "indicator \<Rightarrow> nat" where
  "frag_offset ind = (case indicator_ipv4 ind of Some i \<Rightarrow> unat (ip_fragment_offset i) * 8 | None \<Rightarrow> 0)"

definition frag_positions :: "indicator \<times> u8 list \<Rightarrow> nat set" where
  "frag_positions p = {frag_offset (fst p)..<frag_offset (fst p) + length (snd p)}"

text \<open>A fragment of the datagram payload \<open>P\<close>; the flag is off exactly on the part that ends it.\<close>

definition is_fragment_of :: "u8 list \<Rightarrow> indicator \<times> u8 list \<Rightarrow> bool" where
  "is_fragment_of P p \<longleftrightarrow> (\<exists>i. indicator_ipv4 (fst p) = Some i \<and>
     (\<not> ipv4_is_more_fragment i \<longleftrightarrow> frag_offset (fst p) + length (snd p) = length P)) \<and>
     snd p \<noteq> [] \<and> frag_offset (fst p) + length (snd p) \<le> length P \<and>
     snd p = take (length (snd p)) (drop (frag_offset (fst p)) P)"

definition parts_length :: "(indicator \<times> u8 list) list \<Rightarrow> nat" where
  "parts_length ps = sum_list (map (\<lambda>p. length (snd p)) ps)"

definition parts_positions :: "(indicator \<times> u8 list) list \<Rightarrow> nat set" where
  "parts_positions ps = (\<Union>p\<in>set ps. frag_positions p)"

lemma parts_simps [simp]:
  "parts_length [] = 0" "parts_length (p # ps) = length (snd p) + parts_length ps"
  "parts_length (ps @ qs) = parts_length ps + parts_length qs"
  "parts_positions [] = {}" "parts_positions (p # ps) = frag_positions p \<union> parts_positions ps"
  "parts_positions (ps @ qs) = parts_positions ps \<union> parts_positions qs"
  by (auto simp: parts_length_def parts_positions_def)

text \<open>All the fragments of \<open>P\<close>, each once, in any order.\<close>

definition fragments_of :: "u8 list \<Rightarrow> (indicator \<times> u8 list) list \<Rightarrow> bool" where
  "fragments_of P ps \<longleftrightarrow> list_all (is_fragment_of P) ps \<and> parts_positions ps = {..<length P} \<and>
     parts_length ps = length P"

text \<open>A collection that has received the parts \<open>ps\<close> of \<open>P\<close>.\<close>

definition frag_inv :: "u8 list \<Rightarrow> (indicator \<times> u8 list) list \<Rightarrow> fragmentation \<Rightarrow> bool" where
  "frag_inv P ps f \<longleftrightarrow> length (frag_buffer f) = 65535 \<and> parts_positions ps \<subseteq> {..<length P} \<and>
     (\<forall>i\<in>parts_positions ps. frag_buffer f ! i = P ! i) \<and> frag_length f = parts_length ps \<and>
     frag_total_length f = (if length P - 1 \<in> parts_positions ps then Some (length P) else None)"

lemma fragment_last_position:
  assumes "is_fragment_of P p"
  shows "length P - 1 \<in> frag_positions p \<longleftrightarrow> frag_offset (fst p) + length (snd p) = length P"
proof -
  have "0 < length (snd p)" "frag_offset (fst p) + length (snd p) \<le> length P"
    using assms by (auto simp: is_fragment_of_def)
  then show ?thesis unfolding frag_positions_def atLeastLessThan_iff by linarith
qed

lemma fragmentation_add_ok:
  assumes inv: "frag_inv P ps f" and frag: "is_fragment_of P p" and P: "length P \<le> 65535"
    and len: "parts_length ps + length (snd p) \<le> USIZE_MAX"
  obtains f' where "fragmentation_add f (fst p) (snd p) = Some f'" and "frag_inv P (ps @ [p]) f'"
    and "frag_ipv4 f' = frag_ipv4 f" and "frag_last_seen f' = frag_last_seen f"
proof -
  let ?o = "frag_offset (fst p)" and ?n = "length (snd p)"
  obtain i where i: "indicator_ipv4 (fst p) = Some i"
      "\<not> ipv4_is_more_fragment i \<longleftrightarrow> ?o + ?n = length P"
    using frag by (auto simp: is_fragment_of_def)
  have o: "unat (ip_fragment_offset i) * 8 = ?o" using i by (simp add: frag_offset_def)
  have fit: "?o + ?n \<le> length P" and bytes: "snd p = take ?n (drop ?o P)"
    using frag by (auto simp: is_fragment_of_def)
  have buf: "length (frag_buffer f) = 65535" and flen: "frag_length f = parts_length ps"
    and tot: "frag_total_length f = (if length P - 1 \<in> parts_positions ps then Some (length P) else None)"
    and old: "\<And>k. k \<in> parts_positions ps \<Longrightarrow> frag_buffer f ! k = P ! k"
    using inv by (auto simp: frag_inv_def)
  define b where "b = take ?o (frag_buffer f) @ snd p @ drop (?o + ?n) (frag_buffer f)"
  define f' where "f' = (if \<not> ipv4_is_more_fragment i then f\<lparr>frag_total_length := Some (?o + ?n)\<rparr> else f)
    \<lparr>frag_buffer := b, frag_length := parts_length ps + ?n\<rparr>"
  have "write_slice (frag_buffer f) ?o (?o + ?n) (snd p) = Some b"
    using fit P buf by (simp add: write_slice_def b_def)
  then have run: "fragmentation_add f (fst p) (snd p) = Some f'"
    using len by (simp add: fragmentation_add_def i(1) o f'_def uadd_def flen Let_def)
  have nth: "b ! k = (if ?o \<le> k \<and> k < ?o + ?n then snd p ! (k - ?o) else frag_buffer f ! k)"
    if "k < 65535" for k
    unfolding b_def by (rule nth_splice) (use fit P buf that in auto)
  have part: "snd p ! (k - ?o) = P ! k" if "?o \<le> k" "k < ?o + ?n" for k
    using that fit by (subst bytes) simp
  have pos: "parts_positions ps \<subseteq> {..<length P}" "frag_positions p \<subseteq> {..<length P}"
    using inv fit by (auto simp: frag_inv_def frag_positions_def)
  have "b ! k = P ! k" if "k \<in> parts_positions (ps @ [p])" for k
  proof (cases "k \<in> frag_positions p")
    case True
    then have "k < 65535" "?o \<le> k" "k < ?o + ?n" using fit P by (auto simp: frag_positions_def)
    then show ?thesis using nth [of k] part [of k] by simp
  next
    case False
    then have "k \<in> parts_positions ps" using that by simp
    moreover have "k < 65535" using that pos P by (auto simp: subset_eq)
    ultimately show ?thesis using nth [of k] old False by (auto simp: frag_positions_def)
  qed
  moreover have "length b = 65535" using fit P buf by (simp add: b_def)
  moreover have "frag_total_length f' =
      (if length P - 1 \<in> parts_positions (ps @ [p]) then Some (length P) else None)"
    using tot i(2) fragment_last_position [OF frag] by (auto simp: f'_def)
  ultimately have "frag_inv P (ps @ [p]) f'"
    using pos by (simp add: frag_inv_def f'_def)
  then show ?thesis by (intro that [OF run]) (auto simp: f'_def)
qed

text \<open>The collection is complete exactly when every part has arrived.\<close>

lemma frag_inv_completed:
  assumes "frag_inv P ps f" and "parts_length ps \<le> length P" and "parts_length ps = length P \<longrightarrow> parts_positions ps = {..<length P}"
    and "P \<noteq> []"
  shows "fragmentation_is_completed f \<longleftrightarrow> parts_length ps = length P"
  using assms by (auto simp: fragmentation_is_completed_def frag_inv_def split: option.splits if_splits)

lemma frag_inv_bytes:
  assumes "frag_inv P ps f" and "parts_positions ps = {..<length P}" and "length P \<le> 65535"
  shows "take (length P) (frag_buffer f) = P"
  using assms by (auto intro!: nth_equalityI simp: frag_inv_def)

lemma frag_inv_new:
  assumes "indicator_ethernet ind = Some e" and "indicator_ipv4 ind = Some i"
  obtains f where "fragmentation_new ind now = Some f" and "frag_inv P [] f"
    and "frag_ipv4 f = i" and "frag_last_seen f = now"
  using assms by (simp add: fragmentation_new_def frag_inv_def)

section \<open>A datagram through the machine\<close>

text \<open>A run of the machine over frames with their arrival times, with what each step returns.\<close>

fun defrag_run :: "pnet \<Rightarrow> defraggler \<Rightarrow> (indicator \<times> u8 list \<times> instant) list
    \<Rightarrow> (fragmentation option list \<times> defraggler) option" where
  "defrag_run pn d [] = Some ([], d)"
| "defrag_run pn d ((ind, frame, now) # fs) = do {
     (r, d) \<leftarrow> defraggler_add pn d ind frame now;
     (rs, d) \<leftarrow> defrag_run pn d fs;
     Some (r # rs, d)
   }"

text \<open>A frame that carries the fragment \<open>p\<close> of the datagram with key \<open>key\<close>, arriving in time.\<close>

definition carries :: "pnet \<Rightarrow> frag_key \<Rightarrow> instant \<Rightarrow> indicator \<times> u8 list \<Rightarrow> indicator \<times> u8 list \<times> instant
    \<Rightarrow> bool" where
  "carries pn key start p fr \<longleftrightarrow> fst fr = fst p \<and>
     (\<exists>e i n. indicator_ethernet (fst p) = Some e \<and> indicator_ipv4 (fst p) = Some i \<and>
       frag_key_of i = key \<and> ipv4_len pn i = Some n \<and>
       drop (pn_ethernet_size pn e + n) (fst (snd fr)) = snd p \<and>
       pn_ethernet_size pn e + n \<le> length (fst (snd fr))) \<and>
     start \<le> snd (snd fr) \<and> as_millis (snd (snd fr) - start) \<le> EXPIRE_TIME"

lemma defraggler_add_ok:
  assumes car: "carries pn key start p (ind, frame, now)" and frag: "is_fragment_of P p"
    and P: "length P \<le> 65535" and len: "parts_length ps + length (snd p) \<le> length P"
    and entry: "defraggler_entry d key ind now = Some f" and inv: "frag_inv P ps f"
    and seen: "frag_last_seen f = start"
  obtains f' where "frag_inv P (ps @ [p]) f'" and "frag_last_seen f' = start"
    and "defraggler_add pn d ind frame now = (if fragmentation_is_completed f'
      then Some (Some f', d\<lparr>frags := (frags d)(key := None)\<rparr>)
      else Some (None, d\<lparr>frags := (frags d)(key \<mapsto> f')\<rparr>))"
proof -
  obtain e i n where c: "ind = fst p" "indicator_ethernet (fst p) = Some e" "indicator_ipv4 (fst p) = Some i"
      "frag_key_of i = key" "ipv4_len pn i = Some n" "drop (pn_ethernet_size pn e + n) frame = snd p"
      "pn_ethernet_size pn e + n \<le> length frame"
    using car by (auto simp: carries_def)
  have "parts_length ps + length (snd p) \<le> USIZE_MAX" using len P by (simp add: USIZE_MAX_def)
  then obtain f' where f': "fragmentation_add f (fst p) (snd p) = Some f'" "frag_inv P (ps @ [p]) f'"
      "frag_last_seen f' = frag_last_seen f"
    by (rule fragmentation_add_ok [OF inv frag P])
  have "subslice frame (pn_ethernet_size pn e + n) (length frame) = Some (snd p)"
    using c(6,7) by (simp add: subslice_def flip: c(6))
  with c f' entry show ?thesis
    by (intro that [OF f'(2)]) (simp_all add: defraggler_add_def seen Let_def)
qed

lemma defrag_run_rest:
  assumes "list_all2 (carries pn key start) qs frs" and "qs \<noteq> []"
    and "list_all (is_fragment_of P) qs" and "parts_positions (ps @ qs) = {..<length P}"
    and "parts_length (ps @ qs) = length P" and P: "length P \<le> 65535"
    and "frags d key = Some f" and "frag_inv P ps f" and "frag_last_seen f = start"
  obtains f' where "frag_inv P (ps @ qs) f'"
    and "defrag_run pn d frs = Some (replicate (length qs - 1) None @ [Some f'],
      d\<lparr>frags := (frags d)(key := None)\<rparr>)"
  using assms(1-5,7-)
proof (induction qs arbitrary: ps frs d f thesis)
  case (Cons q qs)
  from Cons.prems(2) obtain fr frs' where frs: "frs = fr # frs'" "carries pn key start q fr"
      "list_all2 (carries pn key start) qs frs'"
    by (auto simp: list_all2_Cons1)
  obtain ind frame now where fr: "fr = (ind, frame, now)" by (cases fr)
  have frag: "is_fragment_of P q" and qs: "list_all (is_fragment_of P) qs"
    using Cons.prems(4) by simp_all
  have P_ne: "P \<noteq> []" using frag by (auto simp: is_fragment_of_def)
  have "\<not> fragmentation_is_expired f now"
    using frs(2) Cons.prems(9) by (simp add: fr carries_def fragmentation_is_expired_def)
  then have entry: "defraggler_entry d key ind now = Some f"
    using Cons.prems(7) by (simp add: defraggler_entry_def)
  have len: "parts_length ps + length (snd q) \<le> length P" using Cons.prems(6) by simp
  obtain f1 where f1: "frag_inv P (ps @ [q]) f1" "frag_last_seen f1 = start"
      "defraggler_add pn d ind frame now = (if fragmentation_is_completed f1
        then Some (Some f1, d\<lparr>frags := (frags d)(key := None)\<rparr>)
        else Some (None, d\<lparr>frags := (frags d)(key \<mapsto> f1)\<rparr>))"
    by (rule defraggler_add_ok [OF frs(2) [unfolded fr] frag P len entry Cons.prems(8,9)])
  show ?case
  proof (cases "qs = []")
    case True
    then have "fragmentation_is_completed f1"
      using frag_inv_completed [OF f1(1)] Cons.prems(5,6) P_ne by simp
    with True f1 frs fr show ?thesis
      by (intro Cons.prems(1) [of f1]) (simp_all add: fun_upd_def)
  next
    case False
    have "0 < parts_length qs"
      using False qs by (cases qs) (auto simp: is_fragment_of_def)
    then have lt: "parts_length (ps @ [q]) < length P" using Cons.prems(6) by simp
    then have "\<not> fragmentation_is_completed f1"
      using frag_inv_completed [OF f1(1)] P_ne by simp
    define d1 where "d1 = d\<lparr>frags := (frags d)(key \<mapsto> f1)\<rparr>"
    obtain f' where f': "frag_inv P ((ps @ [q]) @ qs) f'"
        "defrag_run pn d1 frs' = Some (replicate (length qs - 1) None @ [Some f'],
          d1\<lparr>frags := (frags d1)(key := None)\<rparr>)"
    proof (rule Cons.IH [where ps = "ps @ [q]" and frs = frs' and d = d1 and f = f1])
      show "frags d1 key = Some f1" by (simp add: d1_def)
      show "parts_positions ((ps @ [q]) @ qs) = {..<length P}" "parts_length ((ps @ [q]) @ qs) = length P"
        using Cons.prems(5,6) by simp_all
    qed (use frs False qs f1 in \<open>simp_all add: fun_upd_def\<close>)
    have "d1\<lparr>frags := (frags d1)(key := None)\<rparr> = d\<lparr>frags := (frags d)(key := None)\<rparr>"
      by (simp add: d1_def)
    moreover have "replicate (length (q # qs) - 1) None = None # replicate (length qs - 1) (None :: fragmentation option)"
      using False by (cases qs) simp_all
    ultimately show ?thesis
      using f' f1(3) frs fr \<open>\<not> fragmentation_is_completed f1\<close>
      by (intro Cons.prems(1) [of f']) (simp_all add: d1_def fun_upd_def)
  qed
qed simp

lemma defrag_run_fragments:
  assumes "fragments_of P ps" and "ps \<noteq> []" and "length P \<le> 65535"
    and "list_all2 (carries pn key start) ps frs" and "snd (snd (hd frs)) = start"
    and "frags d key = None"
  shows "\<exists>f d'. defrag_run pn d frs = Some (replicate (length ps - 1) None @ [Some f], d') \<and>
    take (frag_length f) (frag_buffer f) = P \<and> frag_length f = length P \<and> frags d' = frags d"
proof -
  from assms(2,4) obtain p ps' fr frs' where ps: "ps = p # ps'" and frs: "frs = fr # frs'"
      and car: "carries pn key start p fr"
    by (cases ps; cases frs) auto
  obtain ind frame now where fr: "fr = (ind, frame, now)" by (cases fr)
  have now: "now = start" using assms(5) by (simp add: frs fr)
  have all: "list_all (is_fragment_of P) ps" "parts_positions ([] @ ps) = {..<length P}"
    "parts_length ([] @ ps) = length P"
    using assms(1) by (auto simp: fragments_of_def)
  obtain e i where ind: "indicator_ethernet ind = Some e" "indicator_ipv4 ind = Some i" "frag_key_of i = key"
    using car by (auto simp: carries_def fr)
  obtain f0 where f0: "fragmentation_new ind now = Some f0" "frag_inv P [] f0" "frag_last_seen f0 = start"
    by (rule frag_inv_new [OF ind(1,2), where P = P and now = now]) (simp add: now)
  define d0 where "d0 = d\<lparr>frags := (frags d)(key \<mapsto> f0)\<rparr>"
  have e0: "defraggler_entry d key ind now = Some f0" "defraggler_entry d0 key ind now = Some f0"
    using f0 assms(6) by (simp_all add: defraggler_entry_def d0_def fragmentation_is_expired_def now
        as_millis_def)
  have "d0\<lparr>frags := (frags d0)(key := x)\<rparr> = d\<lparr>frags := (frags d)(key := x)\<rparr>" for x
    by (simp add: d0_def)
  then have "defraggler_add pn d ind frame now = defraggler_add pn d0 ind frame now"
    by (simp add: defraggler_add_def ind e0 cong: if_cong)
  then have same: "defrag_run pn d frs = defrag_run pn d0 frs" by (simp add: frs fr)
  have d0: "frags d0 key = Some f0" by (simp add: d0_def)
  obtain f' where f': "frag_inv P ([] @ ps) f'"
      "defrag_run pn d0 frs = Some (replicate (length ps - 1) None @ [Some f'],
        d0\<lparr>frags := (frags d0)(key := None)\<rparr>)"
    by (rule defrag_run_rest [OF assms(4,2) all assms(3) d0 f0(2,3)])
  have "(frags d0)(key := None) = frags d" using assms(6) by (auto simp: d0_def)
  moreover have "frag_length f' = length P" using f'(1) all(3) by (simp add: frag_inv_def)
  moreover have "take (length P) (frag_buffer f') = P"
    by (rule frag_inv_bytes [OF f'(1) all(2) assms(3)])
  ultimately show ?thesis
    using f'(2) same by (intro exI [of _ f'] exI [of _ "d0\<lparr>frags := (frags d0)(key := None)\<rparr>"]) simp
qed

section \<open>Properties\<close>

text \<open>
  Reassembly of a fragmented datagram: when all the fragments of a payload arrive, each once,
  in any order, within ten seconds of the first and with no other fragment of the same key, the
  machine returns nothing until the last of them and then the whole payload, byte for byte, and
  keeps no entry for it.
\<close>

theorem defraggler_reassembles:
  assumes "fragments_of P ps" and "ps \<noteq> []" and "length P \<le> 65535"
    and "list_all2 (carries pn key start) ps frs" and "snd (snd (hd frs)) = start"
    and "frags d key = None"
  shows "\<exists>f d'. defrag_run pn d frs = Some (replicate (length ps - 1) None @ [Some f], d') \<and>
    take (frag_length f) (frag_buffer f) = P \<and> frag_length f = length P \<and> frags d' = frags d"
  by (rule defrag_run_fragments [OF assms])

text \<open>A datagram of sixteen bytes in two fragments, arriving in the wrong order.\<close>

definition sample_ipv4 :: "u8 \<Rightarrow> u16 \<Rightarrow> ipv4" where
  "sample_ipv4 flags offset = \<lparr>ip_version = 4, ip_header_length = 5, ip_dscp = 0, ip_ecn = 0,
     ip_total_length = 28, ip_identification = 9, ip_flags = flags, ip_fragment_offset = offset,
     ip_ttl = TTL, ip_next_level_protocol = Protocols_Udp, ip_checksum = 0, ip_source = 1,
     ip_destination = 2, ip_options = []\<rparr>"

definition sample_fragment :: "u8 \<Rightarrow> u16 \<Rightarrow> indicator" where
  "sample_fragment flags offset = indicator_new
     (LEthernet \<lparr>eth_destination = [], eth_source = [], eth_ethertype = EtherTypes_Ipv4\<rparr>)
     (Some (LIpv4 (sample_ipv4 flags offset))) None"

definition sample_parts :: "(indicator \<times> u8 list) list" where
  "sample_parts = [(sample_fragment 0 1, [9, 10, 11, 12, 13, 14, 15, 16]),
     (sample_fragment MoreFragments 0, [1, 2, 3, 4, 5, 6, 7, 8])]"

lemma sample_fragment_sel [simp]:
  "indicator_ipv4 (sample_fragment fl off) = Some (sample_ipv4 fl off)"
  "indicator_ethernet (sample_fragment fl off) =
     Some \<lparr>eth_destination = [], eth_source = [], eth_ethertype = EtherTypes_Ipv4\<rparr>"
  "frag_offset (sample_fragment fl off) = unat off * 8"
  "ipv4_is_more_fragment (sample_ipv4 fl off) \<longleftrightarrow> fl AND 1 \<noteq> 0"
  "frag_key_of (sample_ipv4 fl off) = (1, 2, Ipv4_kind, 9)"
  "ipv4_len sample_pnet (sample_ipv4 fl off) = Some 20"
  by (simp_all add: sample_fragment_def indicator_ipv4_def indicator_ethernet_def indicator_new_def
      frag_offset_def ipv4_is_more_fragment_def sample_ipv4_def MoreFragments_def frag_key_of_def
      ipv4_len_def sample_pnet_def)

theorem defraggler_reassembles_witness:
  "\<exists>f d'. defrag_run sample_pnet defraggler_new
      (map (\<lambda>p. (fst p, replicate 34 0 @ snd p, 5)) sample_parts) = Some ([None, Some f], d') \<and>
    take (frag_length f) (frag_buffer f) = [1, 2, 3, 4, 5, 6, 7, 8, 9, 10, 11, 12, 13, 14, 15, 16]"
proof -
  let ?P = "[1, 2, 3, 4, 5, 6, 7, 8, 9, 10, 11, 12, 13, 14, 15, 16] :: u8 list"
  have 1: "fragments_of ?P sample_parts"
    by (auto simp: fragments_of_def sample_parts_def is_fragment_of_def frag_positions_def MoreFragments_def)
  have 2: "list_all2 (carries sample_pnet (1, 2, Ipv4_kind, 9) 5) sample_parts
      (map (\<lambda>p. (fst p, replicate 34 0 @ snd p, 5)) sample_parts)"
    by (simp add: sample_parts_def carries_def as_millis_def EXPIRE_TIME_def) (simp add: sample_pnet_def)
  have 3: "frags defraggler_new (1, 2, Ipv4_kind, 9) = None" by (simp add: defraggler_new_def)
  from defraggler_reassembles [OF 1 _ _ 2 _ 3] show ?thesis
    by (force simp: sample_parts_def)
qed

text \<open>
  C33. A repeated fragment is counted twice: a datagram whose middle third is lost is declared
  complete when its first third arrives a second time before the last one. What is returned is the
  datagram with the missing part left as zero bytes.
\<close>

theorem fragmentation_counts_duplicates:
  assumes "indicator_ipv4 ind1 = Some i1" and "ipv4_is_more_fragment i1" and "ip_fragment_offset i1 = 0"
    and "indicator_ipv4 ind2 = Some i2" and "\<not> ipv4_is_more_fragment i2"
    and "unat (ip_fragment_offset i2) * 8 = 2 * length a" and "length a + length a + length c \<le> 65535"
    and "fragmentation_new ind1 now = Some f"
  shows "\<exists>f1 f2 f3. fragmentation_add f ind1 a = Some f1 \<and> fragmentation_add f1 ind1 a = Some f2 \<and>
    fragmentation_add f2 ind2 c = Some f3 \<and> fragmentation_is_completed f3 \<and>
    take (frag_length f3) (frag_buffer f3) = a @ replicate (length a) 0 @ c"
proof -
  let ?Z = "\<lambda>n. replicate n (0 :: u8)"
  let ?n = "length a"
  have f: "frag_buffer f = ?Z 65535" "frag_length f = 0" "frag_total_length f = None"
    using assms(8) by (auto simp: fragmentation_new_def split: option.splits)
  define f1 where "f1 = f\<lparr>frag_buffer := a @ ?Z (65535 - ?n), frag_length := ?n\<rparr>"
  define f2 where "f2 = f\<lparr>frag_buffer := a @ ?Z (65535 - ?n), frag_length := ?n + ?n\<rparr>"
  define f3 where "f3 = f\<lparr>frag_buffer := a @ ?Z ?n @ c @ ?Z (65535 - (?n + ?n + length c)),
    frag_length := ?n + ?n + length c, frag_total_length := Some (?n + ?n + length c)\<rparr>"
  have 1: "fragmentation_add f ind1 a = Some f1"
    using assms by (simp add: fragmentation_add_def f f1_def write_slice_def uadd_def USIZE_MAX_def)
  have 2: "fragmentation_add f1 ind1 a = Some f2"
    using assms by (simp add: fragmentation_add_def f1_def f2_def write_slice_def uadd_def USIZE_MAX_def)
  have off: "unat (ip_fragment_offset i2) * 8 = ?n + ?n" using assms(6) by simp
  have 3: "fragmentation_add f2 ind2 c = Some f3"
    using assms(4,5,7) by (simp add: fragmentation_add_def f2_def f3_def off Let_def ac_simps write_slice_def uadd_def USIZE_MAX_def)
  have "fragmentation_is_completed f3" by (simp add: f3_def fragmentation_is_completed_def)
  moreover have "take (frag_length f3) (frag_buffer f3) = a @ ?Z ?n @ c" by (simp add: f3_def)
  ultimately show ?thesis using 1 2 3 by blast
qed

theorem fragmentation_counts_duplicates_witness:
  "\<exists>f f1 f2 f3. fragmentation_new (sample_fragment MoreFragments 0) 5 = Some f \<and>
    fragmentation_add f (sample_fragment MoreFragments 0) [1, 2, 3, 4, 5, 6, 7, 8] = Some f1 \<and>
    fragmentation_add f1 (sample_fragment MoreFragments 0) [1, 2, 3, 4, 5, 6, 7, 8] = Some f2 \<and>
    fragmentation_add f2 (sample_fragment 0 2) [9] = Some f3 \<and> fragmentation_is_completed f3"
proof -
  obtain f where f: "fragmentation_new (sample_fragment MoreFragments 0) 5 = Some f"
    by (simp add: fragmentation_new_def)
  have "ipv4_is_more_fragment (sample_ipv4 MoreFragments 0)" "ip_fragment_offset (sample_ipv4 MoreFragments 0) = 0"
    "\<not> ipv4_is_more_fragment (sample_ipv4 0 2)" "unat (ip_fragment_offset (sample_ipv4 0 2)) * 8 = 16"
    by (simp_all add: MoreFragments_def) (simp_all add: sample_ipv4_def)
  with fragmentation_counts_duplicates [of "sample_fragment MoreFragments 0" "sample_ipv4 MoreFragments 0"
      "sample_fragment 0 2" "sample_ipv4 0 2" "[1, 2, 3, 4, 5, 6, 7, 8]" "[9]" 5 f] f
  show ?thesis by auto
qed

end
