(* ===== verification/Socks.thy ===== *)
theory Socks
  imports Addr
begin

text \<open>
  The SOCKS5 client of \<open>socks/socks/mod.rs\<close>: connecting to a target, binding a UDP relay and the choice
  of its address, the header of relayed datagrams; and the packing of a socket address into a \<open>u64\<close> of
  \<open>socks/mod.rs\<close>. What the crates tokio and async_socks5 return is an argument (\<open>socks_calls\<close>), as is what
  a socket delivers to the operation that reads it.
\<close>

section \<open>Options\<close>

record socks_auth =
  sa_username :: string
  sa_password :: string

record socks_option =
  so_force_associate_remote :: bool
  so_force_associate_bind_addr :: bool
  so_auth :: "socks_auth option"

definition socks_option_new :: "bool \<Rightarrow> bool \<Rightarrow> socks_auth option \<Rightarrow> socks_option" where
  "socks_option_new force_associate_remote force_associate_bind_addr auth =
     \<lparr>so_force_associate_remote = force_associate_remote,
      so_force_associate_bind_addr = force_associate_bind_addr, so_auth = auth\<rparr>"

section \<open>Connecting\<close>

text \<open>The errors of async_socks5: one wraps an \<open>io::Error\<close>, the others have only a text here.\<close>

datatype socks_error = SocksIo io_error | SocksOther string

text \<open>The address a SOCKS server answers an ASSOCIATE request with.\<close>

datatype proxy_addr = ProxyV4 socket_addr_v4 | ProxyV6 u16 | ProxyDomain string u16

text \<open>
  What the calls of tokio and async_socks5 return: \<open>Auth::new\<close>, \<open>TcpStream::connect\<close>, \<open>connect\<close> of a
  target, \<open>UdpSocket::bind\<close>, the port of \<open>local_addr\<close>, \<open>associate\<close> with the address of the relay, and
  \<open>UdpSocket::connect\<close>.
\<close>

record 'a socks_calls =
  sc_auth :: "string \<Rightarrow> string \<Rightarrow> 'a"
  sc_tcp_connect :: "socket_addr_v4 \<Rightarrow> unit io_result"
  sc_socks_connect :: "socket_addr_v4 \<Rightarrow> 'a option \<Rightarrow> socks_error + unit"
  sc_udp_bind :: "socket_addr_v4 \<Rightarrow> unit io_result"
  sc_local_port :: "u16 io_result"
  sc_associate :: "'a option \<Rightarrow> socks_error + proxy_addr"
  sc_udp_connect :: "socket_addr_v4 \<Rightarrow> unit io_result"

definition socks_option_auth :: "'a socks_calls \<Rightarrow> socks_option \<Rightarrow> 'a option" where
  "socks_option_auth calls options =
     (case so_auth options of
        Some auth \<Rightarrow> Some (sc_auth calls (sa_username auth) (sa_password auth))
      | None \<Rightarrow> None)"

definition from_socks_error :: "socks_error \<Rightarrow> io_error" where
  "from_socks_error e = (case e of SocksIo e \<Rightarrow> e | SocksOther text \<Rightarrow> IoError Other text)"

definition socks_connect :: "'a socks_calls \<Rightarrow> socket_addr_v4 \<Rightarrow> socket_addr_v4 \<Rightarrow> socks_option \<Rightarrow> unit io_result" where
  "socks_connect calls remote dst options =
     (case sc_tcp_connect calls remote of
        Inl e \<Rightarrow> Err e
      | Inr _ \<Rightarrow> (case sc_socks_connect calls dst (socks_option_auth calls options) of
          Inl e \<Rightarrow> Err (from_socks_error e)
        | Inr _ \<Rightarrow> Ok ()))"

section \<open>The relay address\<close>

text \<open>\<open>Ipv4Addr::is_private\<close>\<close>

definition is_private :: "ipv4_addr \<Rightarrow> bool" where
  "is_private a =
     (let o1 = octets a ! 0; o2 = octets a ! 1
      in o1 = 10 \<or> o1 = 172 \<and> 16 \<le> o2 \<and> o2 \<le> 31 \<or> o1 = 192 \<and> o2 = 168)"

text \<open>
  Whether \<open>bind\<close> replaces the address of the relay; the outer \<open>None\<close> is a panic (a domain name is
  \<open>unimplemented!\<close>, and an IPv6 relay with a forced bind address is refused).
\<close>

definition is_rewrite :: "socks_option \<Rightarrow> proxy_addr \<Rightarrow> bool option" where
  "is_rewrite options proxy_addr =
     (case proxy_addr of
        ProxyDomain _ _ \<Rightarrow> None
      | ProxyV4 a \<Rightarrow> Some (so_force_associate_remote options \<or>
          (if so_force_associate_bind_addr options then False else is_private (ip a)))
      | ProxyV6 _ \<Rightarrow> if so_force_associate_remote options then Some True
          else if so_force_associate_bind_addr options then None else Some True)"

text \<open>The address the UDP socket is connected to when the relay address is rewritten.\<close>

definition rewritten_proxy_addr :: "socket_addr_v4 \<Rightarrow> proxy_addr \<Rightarrow> socket_addr_v4" where
  "rewritten_proxy_addr remote proxy_addr =
     SocketAddrV4 (ip remote) (case proxy_addr of ProxyV4 a \<Rightarrow> port a | ProxyV6 p \<Rightarrow> p | ProxyDomain _ p \<Rightarrow> p)"

section \<open>Binding\<close>

text \<open>
  The two halves of a bound UDP socket. \<open>us_peer\<close> is the address \<open>bind\<close> itself has connected the socket
  to; with \<open>None\<close> it is left as \<open>associate\<close> returned it. Both halves keep the TCP stream to the server open.
\<close>

record udp_socket =
  us_local_port :: u16
  us_peer :: "socket_addr_v4 option"

record socks_send_half =
  sh_stream :: socket_addr_v4
  sh_socket :: udp_socket

record socks_recv_half =
  rh_stream :: socket_addr_v4
  rh_socket :: udp_socket
  rh_buffer :: "u8 list"

definition socks_send_half_new :: "socket_addr_v4 \<Rightarrow> udp_socket \<Rightarrow> socks_send_half" where
  "socks_send_half_new stream socket = \<lparr>sh_stream = stream, sh_socket = socket\<rparr>"

definition socks_recv_half_new :: "socket_addr_v4 \<Rightarrow> udp_socket \<Rightarrow> socks_recv_half" where
  "socks_recv_half_new stream socket = \<lparr>rh_stream = stream, rh_socket = socket, rh_buffer = replicate 65535 0\<rparr>"

definition socks_bind :: "'a socks_calls \<Rightarrow> socket_addr_v4 \<Rightarrow> socks_option
    \<Rightarrow> (socks_recv_half \<times> socks_send_half \<times> u16) io_result option" where
  "socks_bind calls remote options =
     (case sc_tcp_connect calls remote of
        Inl e \<Rightarrow> Some (Err e)
      | Inr _ \<Rightarrow> (case sc_udp_bind calls (SocketAddrV4 0 0) of
          Inl e \<Rightarrow> Some (Err e)
        | Inr _ \<Rightarrow> (case sc_local_port calls of
            Inl _ \<Rightarrow> None
          | Inr local_port \<Rightarrow> (case sc_associate calls (socks_option_auth calls options) of
              Inl e \<Rightarrow> Some (Err (from_socks_error e))
            | Inr proxy_addr \<Rightarrow> do {
                rewrite \<leftarrow> is_rewrite options proxy_addr;
                let next_proxy_addr = rewritten_proxy_addr remote proxy_addr;
                let halves = (\<lambda>peer. let socket = \<lparr>us_local_port = local_port, us_peer = peer\<rparr>
                  in (socks_recv_half_new remote socket, socks_send_half_new remote socket, local_port));
                if rewrite then
                  (case sc_udp_connect calls next_proxy_addr of
                     Inl e \<Rightarrow> Some (Err e)
                   | Inr _ \<Rightarrow> Some (Ok (halves (Some next_proxy_addr))))
                else Some (Ok (halves None))
              }))))"

section \<open>Relayed datagrams\<close>

definition RSV_SIZE :: usize where "RSV_SIZE = 2"
definition FRAG_SIZE :: usize where "FRAG_SIZE = 1"
definition ATYP_SIZE :: usize where "ATYP_SIZE = 1"
definition DST_ADDR_SIZE :: usize where "DST_ADDR_SIZE = 4"
definition DST_PORT_SIZE :: usize where "DST_PORT_SIZE = 2"

definition HEADER_SIZE :: usize where
  "HEADER_SIZE = RSV_SIZE + FRAG_SIZE + ATYP_SIZE + DST_ADDR_SIZE + DST_PORT_SIZE"

definition ATYP_IPV4 :: u8 where "ATYP_IPV4 = 1"

lemma HEADER_SIZE_eq [simp]: "HEADER_SIZE = 10"
  by (simp add: HEADER_SIZE_def RSV_SIZE_def FRAG_SIZE_def ATYP_SIZE_def DST_ADDR_SIZE_def DST_PORT_SIZE_def)

text \<open>\<open>xs[i]\<close> and \<open>xs[i] = v\<close>\<close>

definition index_at :: "'a list \<Rightarrow> usize \<Rightarrow> 'a option" where
  "index_at xs i = (if i < length xs then Some (xs ! i) else None)"

definition index_set :: "'a list \<Rightarrow> usize \<Rightarrow> 'a \<Rightarrow> 'a list option" where
  "index_set xs i v = (if i < length xs then Some (xs[i := v]) else None)"

text \<open>The bytes \<open>SocksSendHalf::send_to\<close> hands to the socket.\<close>

definition socks_datagram :: "u8 list \<Rightarrow> socket_addr_v4 \<Rightarrow> u8 list option" where
  "socks_datagram payload dst = do {
     let buf = replicate (HEADER_SIZE + length payload) 0;
     buf \<leftarrow> index_set buf 3 ATYP_IPV4;
     buf \<leftarrow> write_slice buf 4 8 (octets (ip dst));
     buf \<leftarrow> index_set buf 8 (of_nat (unat (port dst) div 256));
     buf \<leftarrow> index_set buf 9 (of_nat (unat (port dst) mod 256));
     write_slice buf 10 (length buf) payload
   }"

text \<open>
  \<open>SocksRecvHalf::recv_from\<close>: \<open>r\<close> is what the socket delivers, written over the start of the
  receive buffer \<open>self_buffer\<close>, which keeps what earlier datagrams left behind it. A datagram
  longer than the buffer is cut by the socket.
\<close>

definition recv_from :: "u8 list \<Rightarrow> u8 list io_result \<Rightarrow> u8 list
    \<Rightarrow> (usize \<times> socket_addr_v4, u8 list \<times> u8 list) outcome" where
  "recv_from self_buffer r buffer =
     (case r of
        Inl e \<Rightarrow> Some (Err e, (self_buffer, buffer))
      | Inr d \<Rightarrow> do {
          let n = min (length d) (length self_buffer);
          let self_buffer = take n d @ drop n self_buffer;
          atyp \<leftarrow> index_at self_buffer 3;
          if atyp = ATYP_IPV4 then do {
            b4 \<leftarrow> index_at self_buffer 4;
            b5 \<leftarrow> index_at self_buffer 5;
            b6 \<leftarrow> index_at self_buffer 6;
            b7 \<leftarrow> index_at self_buffer 7;
            b8 \<leftarrow> index_at self_buffer 8;
            b9 \<leftarrow> index_at self_buffer 9;
            let addr = SocketAddrV4 (from_octets [b4, b5, b6, b7]) (of_nat (unat b8 * 256 + unat b9));
            len \<leftarrow> usub n HEADER_SIZE;
            payload \<leftarrow> subslice self_buffer HEADER_SIZE n;
            buffer \<leftarrow> write_slice buffer 0 len payload;
            Some (Ok (len, addr), (self_buffer, buffer))
          } else None
        })"

section \<open>A socket address in a \<open>u64\<close>\<close>

definition socket_addr_v4_to_u64 :: "socket_addr_v4 \<Rightarrow> u64" where
  "socket_addr_v4_to_u64 addr = unat (ip addr) * 2 ^ 16 + unat (port addr)"

definition u64_to_socket_addr_v4 :: "u64 \<Rightarrow> socket_addr_v4" where
  "u64_to_socket_addr_v4 v = SocketAddrV4 (of_nat (v div 2 ^ 16)) (of_nat v)"

section \<open>Properties\<close>

lemma list_of_two: "length xs = 2 \<Longrightarrow> (\<And>a b. xs = [a, b] \<Longrightarrow> P) \<Longrightarrow> P"
  by (auto simp: numeral_eq_Suc length_Suc_conv)

lemma list_of_four: "length xs = 4 \<Longrightarrow> (\<And>a b c d. xs = [a, b, c, d] \<Longrightarrow> P) \<Longrightarrow> P"
  by (auto simp: numeral_eq_Suc length_Suc_conv)

lemma socks_datagram_eq:
  "socks_datagram payload dst = Some ([0, 0, 0, 1] @ octets (ip dst) @ port_bytes (port dst) @ payload)"
proof -
  obtain o0 o1 o2 o3 where o: "octets (ip dst) = [o0, o1, o2, o3]"
    by (rule list_of_four [OF length_octets])
  have pb: "port_bytes (port dst) = [of_nat (unat (port dst) div 256), of_nat (unat (port dst) mod 256)]"
  proof -
    have "(of_nat (unat (port dst) mod 256) :: u8) = of_nat (unat (port dst))"
      by (subst word_unat_eq_iff, subst (1 2) unat_of_nat) simp
    then show ?thesis by (simp add: port_bytes_def numeral_2_eq_2)
  qed
  have rep: "replicate (10 + length payload) (0 :: u8) = [0, 0, 0, 0, 0, 0, 0, 0, 0, 0] @ replicate (length payload) 0"
    by (simp add: numeral_eq_Suc)
  show ?thesis
    by (simp add: o socks_datagram_def rep index_set_def write_slice_def pb ATYP_IPV4_def)
qed

text \<open>The datagram of \<open>send_to\<close> as \<open>recv_from\<close> takes it apart.\<close>

lemma recv_from_datagram:
  assumes "length self_buffer = 65535" and "length buffer = 65535" and "length payload \<le> 65525" and "socks_datagram payload dst = Some d"
  shows "recv_from self_buffer (Ok d) buffer =
    Some (Ok (length payload, dst), (d @ drop (10 + length payload) self_buffer, payload @ drop (length payload) buffer))"
    and "length d = 10 + length payload"
proof -
  have d: "d = [0, 0, 0, 1] @ octets (ip dst) @ port_bytes (port dst) @ payload" using assms(4) by (simp add: socks_datagram_eq)
  obtain o0 o1 o2 o3 where o: "octets (ip dst) = [o0, o1, o2, o3]"
    by (rule list_of_four [OF length_octets])
  obtain p0 p1 where p: "port_bytes (port dst) = [p0, p1]"
    by (rule list_of_two [OF length_port_bytes])
  have "from_octets [o0, o1, o2, o3] = ip dst" by (simp flip: o)
  moreover have "of_nat (unat p0 * 256 + unat p1) = port dst"
    using from_port_bytes_bytes [of "port dst"] by (simp add: p from_port_bytes_def be_value_def)
  moreover have "length self_buffer - (10 + length payload) = 65525 - length payload" using assms by simp
  moreover have ten: "Suc (Suc (Suc (Suc (Suc (Suc (Suc (Suc (Suc (Suc n))))))))) = 10 + n" for n by simp
  ultimately show "recv_from self_buffer (Ok d) buffer =
    Some (Ok (length payload, dst), (d @ drop (10 + length payload) self_buffer, payload @ drop (length payload) buffer))"
    using assms(1-3) unfolding d by (simp add: recv_from_def o p index_at_def ATYP_IPV4_def usub_def subslice_def write_slice_def
        min_absorb1 Let_def ten)
  show "length d = 10 + length payload" by (simp add: d)
qed

text \<open>
  The SOCKS header round trip: a datagram built by \<open>send_to\<close> and received by \<open>recv_from\<close>, whatever
  earlier datagrams have left in the receive buffer, yields the address and the payload that were
  sent, for every payload that fits the buffers.
\<close>

theorem socks_udp_roundtrip:
  assumes "length self_buffer = 65535" and "length buffer = 65535" and "length payload \<le> 65525"
  shows "\<exists>d b out. socks_datagram payload dst = Some d \<and>
    recv_from self_buffer (Ok d) buffer = Some (Ok (length payload, dst), (b, out)) \<and>
    take (length payload) out = payload \<and> length b = 65535 \<and> length out = 65535"
proof -
  obtain d where d: "socks_datagram payload dst = Some d" using socks_datagram_eq by blast
  note r = recv_from_datagram [OF assms d]
  with d assms show ?thesis by (simp add: r)
qed

theorem socks_udp_roundtrip_witness:
  "\<exists>d b out. socks_datagram [1, 2, 3] (SocketAddrV4 16909060 53) = Some d \<and>
    recv_from (replicate 65535 9) (Ok d) (replicate 65535 0) =
      Some (Ok (length [1 :: u8, 2, 3], SocketAddrV4 16909060 53), (b, out)) \<and>
    take (length [1 :: u8, 2, 3]) out = [1, 2, 3]"
  using socks_udp_roundtrip [of "replicate 65535 9" "replicate 65535 0" "[1, 2, 3]" "SocketAddrV4 16909060 53"]
  by (simp only: length_replicate) auto

text \<open>
  The packing of a socket address into 64 bits is a bijection onto the numbers below 2 to the 48:
  both directions give back what was put in.
\<close>

theorem socket_addr_u64_roundtrip:
  "u64_to_socket_addr_v4 (socket_addr_v4_to_u64 a) = a \<and>
    (v < 2 ^ 48 \<longrightarrow> socket_addr_v4_to_u64 (u64_to_socket_addr_v4 v) = v) \<and>
    socket_addr_v4_to_u64 a < 2 ^ 48"
proof -
  have p: "unat (port a) < 65536" and i: "unat (ip a) < 4294967296"
    by (rule unat_u16_less, rule unat_u32_less)
  have "(of_nat (unat (ip a) * 65536 + unat (port a)) :: u16) = port a"
    using p by (subst word_unat_eq_iff, subst unat_of_nat) simp
  moreover have "(unat (ip a) * 65536 + unat (port a)) div 65536 = unat (ip a)" using p by simp
  ultimately have 1: "u64_to_socket_addr_v4 (socket_addr_v4_to_u64 a) = a"
    by (simp add: u64_to_socket_addr_v4_def socket_addr_v4_to_u64_def)
  have 2: "socket_addr_v4_to_u64 (u64_to_socket_addr_v4 v) = v" if "v < 2 ^ 48"
  proof -
    have "v div 65536 < 4294967296" using that by (simp add: less_mult_imp_div_less)
    then show ?thesis
      by (simp add: u64_to_socket_addr_v4_def socket_addr_v4_to_u64_def unat_of_nat)
  qed
  have "socket_addr_v4_to_u64 a < 2 ^ 48" using p i by (simp add: socket_addr_v4_to_u64_def)
  with 1 2 show ?thesis by blast
qed

theorem socket_addr_u64_roundtrip_witness:
  "socket_addr_v4_to_u64 (u64_to_socket_addr_v4 16909060053) = 16909060053"
  using socket_addr_u64_roundtrip [of "SocketAddrV4 0 0" 16909060053] by simp

text \<open>
  A reply of the relay that is shorter than the SOCKS header panics, whatever is left in the
  receive buffer, and so does one with an IPv6 address: the task that receives it ends.
\<close>

theorem socks_bad_reply_panics:
  assumes "length d < 10 \<or> 3 < length self_buffer \<and> d ! 3 \<noteq> 1"
  shows "recv_from self_buffer (Ok d) buffer = None"
proof (cases "length d < 10")
  case True
  then have "usub (min (length d) (length self_buffer)) 10 = None" by (simp add: usub_def)
  then show ?thesis by (simp add: recv_from_def index_at_def Let_def)
next
  case False
  with assms have "3 < length self_buffer" "d ! 3 \<noteq> 1" "3 < min (length d) (length self_buffer)" by auto
  then have "(take (min (length d) (length self_buffer)) d @ drop (min (length d) (length self_buffer)) self_buffer) ! 3 \<noteq> 1"
    by (simp add: nth_append)
  then show ?thesis by (simp add: recv_from_def index_at_def ATYP_IPV4_def Let_def)
qed

theorem socks_bad_reply_panics_witness:
  "recv_from (replicate 65535 1) (Ok [0, 0, 0, 4]) (replicate 65535 0) = None"
  by (rule socks_bad_reply_panics) simp

text \<open>The private networks 10/8, 172.16/12 and 192.168/16.\<close>

lemma octets_eq:
  "octets a = [of_nat (unat a div 256 div 256 div 256), of_nat (unat a div 256 div 256), of_nat (unat a div 256), of_nat (unat a)]"
  by (simp only: octets_def be_bytes.simps numeral_eq_Suc pred_numeral_simps BitM.simps arith_simps append.simps)

lemma drop_bit_u32_iff: "drop_bit k a = b \<longleftrightarrow> unat a div 2 ^ k = unat b" for a b :: u32
  by (simp add: word_unat_eq_iff unat_drop_bit_eq drop_bit_eq_div [where ?'a = nat])

lemma in_172_16: "m div 256 = 172 \<and> 16 \<le> m mod 256 \<and> m mod 256 \<le> 31 \<longleftrightarrow> m div 16 = 2753" for m :: nat
proof -
  have "m div 256 = 172 \<and> 16 \<le> m mod 256 \<and> m mod 256 \<le> 31 \<longleftrightarrow> 44048 \<le> m \<and> m < 44064"
  proof
    assume "44048 \<le> m \<and> m < 44064"
    moreover from this have "m div 256 = 172" by (intro div_nat_eqI) auto
    ultimately show "m div 256 = 172 \<and> 16 \<le> m mod 256 \<and> m mod 256 \<le> 31" using div_mult_mod_eq [of m 256] by linarith
  qed (use div_mult_mod_eq [of m 256] in linarith)
  also have "\<dots> \<longleftrightarrow> m div 16 = 2753" using div_mult_mod_eq [of m 16] mod_less_divisor [of 16 m] by (auto intro: div_nat_eqI)
  finally show ?thesis .
qed

lemma is_private_prefixes:
  "is_private a \<longleftrightarrow> drop_bit 24 a = 10 \<or> drop_bit 20 a = 0xAC1 \<or> drop_bit 16 a = 0xC0A8"
proof -
  define m where "m = unat a div 256 div 256"
  have m: "unat a div 65536 = m" unfolding m_def by (simp only: div_mult2_eq [symmetric]) simp
  have div: "unat a div 16777216 = m div 256" "unat a div 1048576 = m div 16"
    unfolding m_def by (simp_all only: div_mult2_eq [symmetric]) simp_all
  have less: "m < 65536" using unat_u32_less [of a] unfolding m [symmetric] by (simp add: less_mult_imp_div_less)
  have 0: "unat (octets a ! 0) = m div 256" and 1: "unat (octets a ! 1) = m mod 256"
    using less by (simp_all add: octets_eq unat_of_nat flip: m_def)
  have "is_private a \<longleftrightarrow> m div 256 = 10 \<or> m div 256 = 172 \<and> 16 \<le> m mod 256 \<and> m mod 256 \<le> 31 \<or> m div 256 = 192 \<and> m mod 256 = 168"
    by (simp add: is_private_def Let_def word_unat_eq_iff word_le_nat_alt 0 1 [simplified])
  also have "\<dots> \<longleftrightarrow> m div 256 = 10 \<or> m div 16 = 2753 \<or> m = 49320"
  proof -
    have "m div 256 = 192 \<and> m mod 256 = 168 \<longleftrightarrow> m = 49320" by (rule iffI) (use div_mult_mod_eq [of m 256] in linarith, simp)
    with in_172_16 [of m] show ?thesis by simp
  qed
  also have "\<dots> \<longleftrightarrow> drop_bit 24 a = 10 \<or> drop_bit 20 a = 0xAC1 \<or> drop_bit 16 a = 0xC0A8"
    by (simp add: drop_bit_u32_iff m div)
  finally show ?thesis .
qed

text \<open>
  A server whose relay \<open>bind\<close> can handle: the relay is not given by a name, it is of IPv6 only if no bind address is forced or
  the server is, and the bound socket has a port.
\<close>

definition relay_ok :: "'a socks_calls \<Rightarrow> socks_option \<Rightarrow> bool" where
  "relay_ok calls options \<longleftrightarrow> \<not> isl (sc_local_port calls) \<and>
     (case sc_associate calls (socks_option_auth calls options) of
        Inl _ \<Rightarrow> True
      | Inr proxy \<Rightarrow> (case proxy of
          ProxyV4 _ \<Rightarrow> True
        | ProxyV6 _ \<Rightarrow> so_force_associate_bind_addr options \<longrightarrow> so_force_associate_remote options
        | ProxyDomain _ _ \<Rightarrow> False))"

lemma socks_bind_returns: "relay_ok calls options \<Longrightarrow> socks_bind calls remote options \<noteq> None"
  by (auto simp: relay_ok_def socks_bind_def is_rewrite_def Let_def split: sum.splits proxy_addr.splits)

lemma socks_bind_bound:
  assumes "socks_bind calls remote options = Some (Ok (rx, tx, p))"
  shows "relay_ok calls options" and "rh_buffer rx = replicate 65535 0"
  using assms by (auto simp: relay_ok_def socks_bind_def is_rewrite_def socks_recv_half_new_def Let_def
      split: sum.splits proxy_addr.splits bind_splits if_splits)

text \<open>
  C17. The UDP relay that \<open>bind\<close> sets up once the server has accepted: the datagrams go to the server itself at
  the port of the relay exactly if the relay has an address of IPv6 or, unless its address is forced, of a private
  network, or if this is forced, and otherwise to the relay; both halves share the socket whose port is returned,
  with a receive buffer for the largest datagram. A relay given by a name, and one of IPv6 whose address
  is forced, are the only ones that panic, and an error can only come from connecting to the new address.
\<close>

theorem socks_bind_relay:
  assumes "sc_tcp_connect calls remote = Ok ()" and "sc_udp_bind calls (SocketAddrV4 0 0) = Ok ()"
    and "sc_local_port calls = Ok p" and "sc_associate calls (socks_option_auth calls options) = Inr proxy"
  shows "(socks_bind calls remote options = None \<longleftrightarrow> (\<exists>n q. proxy = ProxyDomain n q) \<or>
      (\<exists>q. proxy = ProxyV6 q) \<and> so_force_associate_bind_addr options \<and> \<not> so_force_associate_remote options) \<and>
    (\<forall>e. socks_bind calls remote options = Some (Err e) \<longrightarrow> (\<exists>q. sc_udp_connect calls (SocketAddrV4 (ip remote) q) = Err e)) \<and>
    (\<forall>rx tx q. socks_bind calls remote options = Some (Ok (rx, tx, q)) \<longrightarrow>
      q = p \<and> rh_socket rx = sh_socket tx \<and> us_local_port (sh_socket tx) = p \<and> length (rh_buffer rx) = 65535 \<and>
      (us_peer (sh_socket tx) = None \<longleftrightarrow> \<not> so_force_associate_remote options \<and>
        (\<exists>a. proxy = ProxyV4 a \<and> (so_force_associate_bind_addr options \<or>
          drop_bit 24 (ip a) \<noteq> 10 \<and> drop_bit 20 (ip a) \<noteq> 0xAC1 \<and> drop_bit 16 (ip a) \<noteq> 0xC0A8))) \<and>
      (\<forall>a. us_peer (sh_socket tx) = Some a \<longrightarrow> ip a = ip remote \<and> sc_udp_connect calls a = Ok () \<and>
        (proxy = ProxyV6 (port a) \<or> (\<exists>i. proxy = ProxyV4 (SocketAddrV4 i (port a))))))"
proof (cases proxy)
  case (ProxyV4 a)
  then show ?thesis using assms
    by (cases a; cases "sc_udp_connect calls (rewritten_proxy_addr remote proxy)")
      (auto simp: socks_bind_def is_rewrite_def rewritten_proxy_addr_def socks_recv_half_new_def socks_send_half_new_def
        Let_def is_private_prefixes)
next
  case (ProxyV6 q)
  then show ?thesis using assms
    by (cases "sc_udp_connect calls (rewritten_proxy_addr remote proxy)")
      (auto simp: socks_bind_def is_rewrite_def rewritten_proxy_addr_def socks_recv_half_new_def socks_send_half_new_def
        Let_def)
next
  case (ProxyDomain n q)
  then show ?thesis using assms by (simp add: socks_bind_def is_rewrite_def)
qed

text \<open>A server at 198.51.100.7 whose relay is at 10.0.0.1, port 4000.\<close>

definition sample_calls :: "(string \<times> string) socks_calls" where
  "sample_calls = \<lparr>sc_auth = Pair, sc_tcp_connect = \<lambda>_. Ok (), sc_socks_connect = \<lambda>_ _. Inr (), sc_udp_bind = \<lambda>_. Ok (),
     sc_local_port = Ok 5000, sc_associate = \<lambda>_. Inr (ProxyV4 (SocketAddrV4 0x0A000001 4000)), sc_udp_connect = \<lambda>_. Ok ()\<rparr>"

lemma sample_calls_connect [simp]: "socks_connect sample_calls remote dst options = Ok ()"
  by (simp add: sample_calls_def socks_connect_def)

lemma sample_calls_bind: "\<exists>rx tx. socks_bind sample_calls remote (socks_option_new b False auth) = Some (Ok (rx, tx, 5000))"
  by (simp add: sample_calls_def socks_bind_def is_rewrite_def socks_option_new_def is_private_prefixes Let_def)

theorem socks_bind_relay_witness:
  "\<exists>rx tx. socks_bind sample_calls (SocketAddrV4 0xC6336407 1080) (socks_option_new False False None) = Some (Ok (rx, tx, 5000)) \<and>
    us_peer (sh_socket tx) = Some (SocketAddrV4 0xC6336407 4000) \<and> length (rh_buffer rx) = 65535"
  using socks_bind_relay [of sample_calls "SocketAddrV4 0xC6336407 1080" 5000 "socks_option_new False False None"
      "ProxyV4 (SocketAddrV4 0x0A000001 4000)"]
  by (simp add: sample_calls_def socks_bind_def is_rewrite_def rewritten_proxy_addr_def socks_option_new_def
      socks_recv_half_new_def socks_send_half_new_def is_private_prefixes Let_def) 

end
