(* ===== verification/Workers.thy ===== *)
theory Workers
  imports Timer Socks
begin

text \<open>
  The workers of \<open>socks/mod.rs\<close>: a \<open>StreamWorker\<close> for each TCP connection with its two tasks (the
  reader and the ticker), and a \<open>DatagramWorker\<close> for each local UDP port with its receiver task.

  A step of a task is one iteration of its loop; what the socket delivers in it is an argument. The
  record of a worker holds the flags it shares with its tasks and the local state of the tasks.
  The workers hand what they receive to a \<open>dyn ForwardStream\<close> or \<open>dyn ForwardDatagram\<close>: the traits are
  records of operations, and their contracts the locales \<open>forward_stream\<close> and \<open>forward_datagram\<close>, in
  which the steps of the tasks are shown to return.
  \<open>sw_written\<close> and \<open>dw_sent\<close> record what has been handed to the sockets.
\<close>

section \<open>The traits\<close>

text \<open>
  \<open>ForwardStream\<close> and \<open>ForwardDatagram\<close>, for an implementation with the state \<open>'f\<close>. The arguments of an
  operation are the state, the destination and the source; those of a stream also take the time.
\<close>

record 'f forward_stream_ops =
  fs_open :: "'f \<Rightarrow> socket_addr_v4 \<Rightarrow> socket_addr_v4 \<Rightarrow> instant \<Rightarrow> (unit, 'f) outcome"
  fs_forward :: "'f \<Rightarrow> socket_addr_v4 \<Rightarrow> socket_addr_v4 \<Rightarrow> u8 list \<Rightarrow> instant \<Rightarrow> (unit, 'f) outcome"
  fs_tick :: "'f \<Rightarrow> socket_addr_v4 \<Rightarrow> socket_addr_v4 \<Rightarrow> instant \<Rightarrow> (unit, 'f) outcome"
  fs_close :: "'f \<Rightarrow> socket_addr_v4 \<Rightarrow> socket_addr_v4 \<Rightarrow> instant \<Rightarrow> (unit, 'f) outcome"

record 'f forward_datagram_ops =
  fd_forward :: "'f \<Rightarrow> socket_addr_v4 \<Rightarrow> socket_addr_v4 \<Rightarrow> u8 list \<Rightarrow> (unit, 'f) outcome"

definition MAX_RECV_ZERO :: usize where "MAX_RECV_ZERO = 3"

section \<open>Streams\<close>

record stream_worker =
  sw_src :: socket_addr_v4
  sw_dst :: socket_addr_v4
  sw_stream_tx :: bool
  sw_is_write_closed :: bool
  sw_is_read_closed :: bool
  sw_reader :: bool
  sw_recv_zero :: usize
  sw_ticker :: bool
  sw_written :: "u8 list"

definition stream_connect :: "'f forward_stream_ops \<Rightarrow> 'f \<Rightarrow> 'a socks_calls \<Rightarrow> socket_addr_v4 \<Rightarrow> socket_addr_v4 \<Rightarrow> socket_addr_v4
    \<Rightarrow> socks_option \<Rightarrow> instant \<Rightarrow> (stream_worker, 'f) outcome" where
  "stream_connect tx f calls src dst remote options now =
     (case socks_connect calls remote dst options of
        Inl e \<Rightarrow> Some (Err e, f)
      | Inr _ \<Rightarrow> and_then (fs_open tx f dst src now)
          (\<lambda>_ f. Some (Ok \<lparr>sw_src = src, sw_dst = dst, sw_stream_tx = True, sw_is_write_closed = False,
             sw_is_read_closed = False, sw_reader = True, sw_recv_zero = 0, sw_ticker = True,
             sw_written = []\<rparr>, f)))"

text \<open>What the socket delivers to the reader.\<close>

datatype read_event = Read_ok "u8 list" | Read_err io_error

definition error_kind :: "io_error \<Rightarrow> io_kind" where
  "error_kind e = (case e of IoError k _ \<Rightarrow> k)"

text \<open>One iteration of the reader. An error of the forwarder is only logged.\<close>

definition reader_step :: "'f forward_stream_ops \<Rightarrow> 'f \<Rightarrow> stream_worker \<Rightarrow> read_event \<Rightarrow> instant
    \<Rightarrow> (stream_worker \<times> 'f) option" where
  "reader_step tx f w ev now =
     (if \<not> sw_reader w then Some (w, f)
      else if sw_is_read_closed w then Some (w\<lparr>sw_reader := False\<rparr>, f)
      else case ev of
          Read_ok bytes \<Rightarrow>
            if length bytes = 0 then
              (let w = w\<lparr>sw_recv_zero := sw_recv_zero w + 1\<rparr>
               in if sw_recv_zero w > MAX_RECV_ZERO then do {
                    (r, f) \<leftarrow> fs_close tx f (sw_dst w) (sw_src w) now;
                    Some (w\<lparr>sw_is_read_closed := True, sw_reader := False\<rparr>, f)
                  } else Some (w, f))
            else do {
              (r, f) \<leftarrow> fs_forward tx f (sw_dst w) (sw_src w) bytes now;
              Some (w\<lparr>sw_recv_zero := 0\<rparr>, f)
            }
        | Read_err e \<Rightarrow>
            if error_kind e = TimedOut then Some (w, f)
            else Some (w\<lparr>sw_is_read_closed := True, sw_is_write_closed := True, sw_reader := False\<rparr>, f))"

text \<open>One iteration of the ticker.\<close>

definition ticker_step :: "'f forward_stream_ops \<Rightarrow> 'f \<Rightarrow> stream_worker \<Rightarrow> instant \<Rightarrow> (stream_worker \<times> 'f) option" where
  "ticker_step tx f w now =
     (if \<not> sw_ticker w then Some (w, f)
      else if sw_is_read_closed w then Some (w\<lparr>sw_ticker := False\<rparr>, f)
      else do {
        (r, f) \<leftarrow> fs_tick tx f (sw_dst w) (sw_src w) now;
        Some (w, f)
      })"

text \<open>
  \<open>send\<close>; \<open>fault\<close> is \<open>None\<close> when \<open>write_all\<close> succeeds, otherwise the error and the number of bytes
  that were written before it.
\<close>

definition stream_send :: "stream_worker \<Rightarrow> u8 list \<Rightarrow> (nat \<times> io_error) option \<Rightarrow> unit io_result \<times> stream_worker" where
  "stream_send w payload fault =
     (if sw_stream_tx w then
        (case fault of
           None \<Rightarrow> (Ok (), w\<lparr>sw_written := sw_written w @ payload\<rparr>)
         | Some (k, e) \<Rightarrow> (Err e, w\<lparr>sw_written := sw_written w @ take k payload\<rparr>))
      else (Err (IoError NotConnected []), w))"

text \<open>\<open>shutdown(Shutdown::Write)\<close>; \<open>None\<close> is the \<open>unwrap\<close> of a write half that is gone.\<close>

definition stream_shutdown_write :: "stream_worker \<Rightarrow> stream_worker option" where
  "stream_shutdown_write w =
     (if \<not> sw_is_write_closed w then
        if sw_stream_tx w then Some (w\<lparr>sw_is_write_closed := True, sw_stream_tx := False\<rparr>) else None
      else Some w)"

text \<open>\<open>close\<close>, which \<open>drop\<close> calls.\<close>

definition stream_close :: "stream_worker \<Rightarrow> stream_worker option" where
  "stream_close w = do {
     w \<leftarrow> stream_shutdown_write w;
     Some (w\<lparr>sw_is_read_closed := True\<rparr>)
   }"

section \<open>Datagrams\<close>

record datagram_worker =
  dw_src :: u64
  dw_local_port :: u16
  dw_is_closed :: bool
  dw_receiver :: bool
  dw_recv_buffer :: "u8 list"
  dw_buffer :: "u8 list"
  dw_sent :: "u8 list list"

text \<open>
  \<open>bind\<close>, with the panics of \<open>socks::bind\<close>. The receiver owns the receive half; of the send half only
  what is handed to its socket is kept (\<open>dw_sent\<close>).
\<close>

definition datagram_bind :: "'a socks_calls \<Rightarrow> socket_addr_v4 \<Rightarrow> socket_addr_v4 \<Rightarrow> socks_option
    \<Rightarrow> (datagram_worker \<times> u16) io_result option" where
  "datagram_bind calls src remote options = do {
     bound \<leftarrow> socks_bind calls remote options;
     (case bound of
        Inl e \<Rightarrow> Some (Err e)
      | Inr (socks_rx, socks_tx, local_port) \<Rightarrow>
          Some (Ok (\<lparr>dw_src = socket_addr_v4_to_u64 src, dw_local_port = local_port,
            dw_is_closed = False, dw_receiver = True, dw_recv_buffer = rh_buffer socks_rx,
            dw_buffer = replicate 65535 0, dw_sent = []\<rparr>, local_port)))
   }"

text \<open>One iteration of the receiver.\<close>

definition receiver_step :: "'f forward_datagram_ops \<Rightarrow> 'f \<Rightarrow> datagram_worker \<Rightarrow> u8 list io_result
    \<Rightarrow> (datagram_worker \<times> 'f) option" where
  "receiver_step tx f w r =
     (if \<not> dw_receiver w then Some (w, f)
      else if dw_is_closed w then Some (w\<lparr>dw_receiver := False\<rparr>, f)
      else do {
        (r, (recv_buffer, buffer)) \<leftarrow> recv_from (dw_recv_buffer w) r (dw_buffer w);
        let w = w\<lparr>dw_recv_buffer := recv_buffer, dw_buffer := buffer\<rparr>;
        (case r of
           Inr (n, addr) \<Rightarrow> do {
             payload \<leftarrow> subslice buffer 0 n;
             (r, f) \<leftarrow> fd_forward tx f addr (u64_to_socket_addr_v4 (dw_src w)) payload;
             Some (w, f)
           }
         | Inl e \<Rightarrow>
             if error_kind e = TimedOut then Some (w, f)
             else Some (w\<lparr>dw_is_closed := True, dw_receiver := False\<rparr>, f))
      })"

text \<open>\<open>sent\<close> is the result of the socket.\<close>

definition datagram_send_to :: "datagram_worker \<Rightarrow> u8 list \<Rightarrow> socket_addr_v4 \<Rightarrow> usize io_result
    \<Rightarrow> (usize, datagram_worker) outcome" where
  "datagram_send_to w payload dst sent = do {
     d \<leftarrow> socks_datagram payload dst;
     Some (sent, w\<lparr>dw_sent := dw_sent w @ [d]\<rparr>)
   }"

definition datagram_set_src :: "datagram_worker \<Rightarrow> socket_addr_v4 \<Rightarrow> datagram_worker" where
  "datagram_set_src w src = w\<lparr>dw_src := socket_addr_v4_to_u64 src\<rparr>"

definition datagram_src :: "datagram_worker \<Rightarrow> socket_addr_v4" where
  "datagram_src w = u64_to_socket_addr_v4 (dw_src w)"


section \<open>What a step leaves alone\<close>

definition stream_keeps :: "stream_worker \<Rightarrow> stream_worker \<Rightarrow> bool" where
  "stream_keeps w w' \<longleftrightarrow> sw_src w' = sw_src w \<and> sw_dst w' = sw_dst w \<and> sw_stream_tx w' = sw_stream_tx w \<and>
     sw_written w' = sw_written w \<and> (sw_is_write_closed w \<longrightarrow> sw_is_write_closed w') \<and>
     (sw_is_read_closed w \<longrightarrow> sw_is_read_closed w') \<and>
     (sw_is_write_closed w' \<and> \<not> sw_is_write_closed w \<longrightarrow> sw_is_read_closed w')"

definition datagram_keeps :: "datagram_worker \<Rightarrow> datagram_worker \<Rightarrow> bool" where
  "datagram_keeps w w' \<longleftrightarrow> dw_src w' = dw_src w \<and> dw_local_port w' = dw_local_port w \<and> dw_sent w' = dw_sent w"

lemma keeps_refl [simp]: "stream_keeps w w" "datagram_keeps d d"
  by (simp_all add: stream_keeps_def datagram_keeps_def)

lemma keeps_trans:
  "stream_keeps u v \<Longrightarrow> stream_keeps v w \<Longrightarrow> stream_keeps u w"
  "datagram_keeps a b \<Longrightarrow> datagram_keeps b c \<Longrightarrow> datagram_keeps a c"
  by (auto simp: stream_keeps_def datagram_keeps_def)

definition datagram_ok :: "datagram_worker \<Rightarrow> bool" where
  "datagram_ok w \<longleftrightarrow> length (dw_recv_buffer w) = 65535 \<and> length (dw_buffer w) = 65535"

text \<open>
  What a socket may deliver to the receiver of a port: an error, or a datagram with an IPv4 header of
  the SOCKS protocol.
\<close>

definition reply_ok :: "u8 list io_result \<Rightarrow> bool" where
  "reply_ok r \<longleftrightarrow> (case r of Inr d \<Rightarrow> 10 \<le> length d \<and> length d \<le> 65535 \<and> d ! 3 = ATYP_IPV4 | Inl _ \<Rightarrow> True)"

lemma recv_from_total:
  assumes "length b1 = 65535" and "length b2 = 65535" and "10 \<le> length d" and "length d \<le> 65535" and "d ! 3 = ATYP_IPV4"
  obtains a c1 c2 where "recv_from b1 (Ok d) b2 = Some (Ok (length d - 10, a), (c1, c2))"
    and "length c1 = 65535" and "length c2 = 65535"
proof -
  have nth: "(d @ drop (length d) b1) ! i = d ! i" if "i < 10" for i using that assms(3) by (simp add: nth_append)
  have "\<exists>a c1 c2. recv_from b1 (Ok d) b2 = Some (Ok (length d - 10, a), (c1, c2)) \<and> length c1 = 65535 \<and> length c2 = 65535"
    using assms by (simp add: recv_from_def index_at_def usub_def subslice_def write_slice_def Let_def min_absorb1 nth)
  then show ?thesis using that by blast
qed

section \<open>The contracts of the traits\<close>

text \<open>
  An implementation of \<open>ForwardStream\<close>: on a connection it knows (\<open>conn\<close>) every operation returns, keeps
  the invariant and changes that connection only (\<open>keeps\<close>). Only \<open>forward\<close> may fail.
\<close>

locale forward_stream =
  fixes tx :: "'f forward_stream_ops"
    and inv :: "'f \<Rightarrow> bool"
    and conn :: "'f \<Rightarrow> socket_addr_v4 \<Rightarrow> socket_addr_v4 \<Rightarrow> bool"
    and keeps :: "socket_addr_v4 \<Rightarrow> socket_addr_v4 \<Rightarrow> 'f \<Rightarrow> 'f \<Rightarrow> bool"
  assumes forward_ok: "inv f \<Longrightarrow> conn f dst src \<Longrightarrow>
      \<exists>r f'. fs_forward tx f dst src payload now = Some (r, f') \<and> inv f' \<and> keeps dst src f f'"
    and open_ok: "inv f \<Longrightarrow> conn f dst src \<Longrightarrow>
      \<exists>f'. fs_open tx f dst src now = Some (Ok (), f') \<and> inv f' \<and> keeps dst src f f'"
    and tick_ok: "inv f \<Longrightarrow> conn f dst src \<Longrightarrow>
      \<exists>f'. fs_tick tx f dst src now = Some (Ok (), f') \<and> inv f' \<and> keeps dst src f f'"
    and close_ok: "inv f \<Longrightarrow> conn f dst src \<Longrightarrow>
      \<exists>f'. fs_close tx f dst src now = Some (Ok (), f') \<and> inv f' \<and> keeps dst src f f'"
    and keeps_refl: "keeps dst src f f"
begin

lemma reader_step_ok:
  assumes "inv f" and "conn f (sw_dst w) (sw_src w)"
  shows "\<exists>w' f'. reader_step tx f w ev now = Some (w', f') \<and> inv f' \<and> keeps (sw_dst w) (sw_src w) f f' \<and> stream_keeps w w'"
proof -
  define bytes where "bytes = (case ev of Read_ok b \<Rightarrow> b | _ \<Rightarrow> [])"
  obtain r1 f1 where fwd: "fs_forward tx f (sw_dst w) (sw_src w) bytes now = Some (r1, f1)" "inv f1"
      "keeps (sw_dst w) (sw_src w) f f1"
    using forward_ok [OF assms] by blast
  obtain f2 where cls: "fs_close tx f (sw_dst w) (sw_src w) now = Some (Ok (), f2)" "inv f2"
      "keeps (sw_dst w) (sw_src w) f f2"
    using close_ok [OF assms] by blast
  show ?thesis
    using assms(1) fwd cls keeps_refl by (cases ev) (auto simp: reader_step_def stream_keeps_def bytes_def Let_def)
qed

lemma ticker_step_ok:
  assumes "inv f" and "conn f (sw_dst w) (sw_src w)"
  shows "\<exists>w' f'. ticker_step tx f w now = Some (w', f') \<and> inv f' \<and> keeps (sw_dst w) (sw_src w) f f' \<and> stream_keeps w w'"
  using assms(1) tick_ok [OF assms, of now] keeps_refl by (auto simp: ticker_step_def stream_keeps_def)

lemma stream_connect_ok:
  assumes "inv f" and "conn f dst src"
  shows "\<exists>r f'. stream_connect tx f calls src dst remote options now = Some (r, f') \<and> inv f' \<and> keeps dst src f f'"
  using assms(1) open_ok [OF assms, of now] keeps_refl
  by (cases "socks_connect calls remote dst options") (auto simp: stream_connect_def)

end

text \<open>An implementation of \<open>ForwardDatagram\<close>, which takes every datagram that fits into IPv4.\<close>

locale forward_datagram =
  fixes tx :: "'f forward_datagram_ops"
    and inv :: "'f \<Rightarrow> bool"
    and quiet :: "'f \<Rightarrow> 'f \<Rightarrow> bool"
  assumes datagram_forward_ok: "inv f \<Longrightarrow> 8 + length payload \<le> 65535 \<Longrightarrow>
      \<exists>r f'. fd_forward tx f dst src payload = Some (r, f') \<and> inv f' \<and> quiet f f'"
    and quiet_refl: "quiet f f"
begin

lemma receiver_step_ok:
  assumes inv: "inv f" and ok: "datagram_ok w" and r: "reply_ok r"
  shows "\<exists>w' f'. receiver_step tx f w r = Some (w', f') \<and> inv f' \<and> quiet f f' \<and> datagram_keeps w w' \<and> datagram_ok w'"
proof (cases r)
  case (Inl e)
  with inv ok quiet_refl show ?thesis
    by (auto simp: receiver_step_def recv_from_def datagram_keeps_def datagram_ok_def)
next
  case (Inr d)
  have d: "10 \<le> length d" "length d \<le> 65535" "d ! 3 = ATYP_IPV4" using r Inr by (auto simp: reply_ok_def)
  have bufs: "length (dw_recv_buffer w) = 65535" "length (dw_buffer w) = 65535"
    using ok by (simp_all add: datagram_ok_def)
  obtain a c1 c2 where rf: "recv_from (dw_recv_buffer w) (Ok d) (dw_buffer w) = Some (Ok (length d - 10, a), (c1, c2))"
      "length c1 = 65535" "length c2 = 65535"
    by (rule recv_from_total [OF bufs d])
  define payload where "payload = take (length d - 10) c2"
  have sub: "subslice c2 0 (length d - 10) = Some payload" and len: "8 + length payload \<le> 65535"
    using d rf by (auto simp: subslice_def payload_def)
  obtain s f' where f': "fd_forward tx f a (u64_to_socket_addr_v4 (dw_src w)) payload = Some (s, f')" "inv f'" "quiet f f'"
    using datagram_forward_ok [OF inv len] by blast
  then have "receiver_step tx f w (Ok d) =
      (if \<not> dw_receiver w then Some (w, f) else if dw_is_closed w then Some (w\<lparr>dw_receiver := False\<rparr>, f)
       else Some (w\<lparr>dw_recv_buffer := c1, dw_buffer := c2\<rparr>, f'))"
    using rf sub by (simp add: receiver_step_def Let_def)
  with Inr inv ok rf(2,3) f'(2,3) quiet_refl show ?thesis
    by (cases "dw_receiver w"; cases "dw_is_closed w") (simp_all add: datagram_keeps_def datagram_ok_def)
qed

end

end
