(* ===== verification/Forwarder.thy ===== *)
theory Forwarder
  imports TcpTx Ranges Packet Workers
begin

text \<open>
  The \<open>Forwarder\<close> of \<open>lib.rs\<close>, which sends traffic to the source: TCP segments cut to the path MTU,
  retransmissions, UDP datagrams with IPv4 fragmentation, and ARP replies.

  The device is a parameter: \<open>lk_send\<close> gives the result of \<open>DataLinkSender::send_to\<close> from the frames
  handed to it so far. \<open>fw_sent\<close> records what has been handed to the device: the layers of a frame,
  its payload and its bytes. \<open>None\<close> as the result of an operation means that the call does not
  return: it panics, or its loop runs forever (the loops have fuel that is enough for every
  iteration that makes progress).
\<close>

record link =
  lk_pnet :: pnet
  lk_send :: "u8 list list \<Rightarrow> u8 list \<Rightarrow> unit io_result option"

type_synonym sent = "indicator \<times> u8 list \<times> u8 list"
type_synonym conn_key = "socket_addr_v4 \<times> socket_addr_v4"

record forwarder =
  fw_src_mtu :: "ipv4_addr \<rightharpoonup> usize"
  fw_local_mtu :: usize
  fw_src_hardware_addr :: "ipv4_addr \<rightharpoonup> hardware_addr"
  fw_local_hardware_addr :: hardware_addr
  fw_local_ip_addr :: ipv4_addr
  fw_ipv4_identification_map :: "ipv4_addr \<times> ipv4_addr \<rightharpoonup> u16"
  fw_states :: "conn_key \<rightharpoonup> tcp_tx_state"
  fw_sent :: "sent list"

section \<open>Constants\<close>

definition ENABLE_RECV_SWS_AVOID :: bool where "ENABLE_RECV_SWS_AVOID = True"
definition ENABLE_SEND_SWS_AVOID :: bool where "ENABLE_SEND_SWS_AVOID = True"
definition ENABLE_MSS :: bool where "ENABLE_MSS = True"
definition MINIMUM_FRAME_SIZE :: usize where "MINIMUM_FRAME_SIZE = 60"
definition HARDWARE_ADDR_UNSPECIFIED :: hardware_addr where "HARDWARE_ADDR_UNSPECIFIED = [0, 0, 0, 0, 0, 0]"

section \<open>Addresses and states\<close>

definition forwarder_new :: "usize \<Rightarrow> hardware_addr \<Rightarrow> ipv4_addr \<Rightarrow> forwarder" where
  "forwarder_new mtu local_hardware_addr local_ip_addr =
     \<lparr>fw_src_mtu = Map.empty, fw_local_mtu = mtu, fw_src_hardware_addr = Map.empty,
      fw_local_hardware_addr = local_hardware_addr, fw_local_ip_addr = local_ip_addr,
      fw_ipv4_identification_map = Map.empty, fw_states = Map.empty, fw_sent = []\<rparr>"

text \<open>\<open>*self.src_mtu.get(ip).unwrap_or(&self.local_mtu)\<close>\<close>

definition src_mtu_of :: "forwarder \<Rightarrow> ipv4_addr \<Rightarrow> usize" where
  "src_mtu_of f ip_addr = unwrap_or (fw_src_mtu f ip_addr) (fw_local_mtu f)"

definition set_src_mtu :: "forwarder \<Rightarrow> ipv4_addr \<Rightarrow> usize \<Rightarrow> bool \<times> forwarder" where
  "set_src_mtu f src_ip_addr mtu =
     (let prev_mtu = src_mtu_of f src_ip_addr;
          f = f\<lparr>fw_src_mtu := (fw_src_mtu f)(src_ip_addr \<mapsto> min (fw_local_mtu f) mtu)\<rparr>
      in (src_mtu_of f src_ip_addr \<noteq> prev_mtu, f))"

definition set_src_hardware_addr :: "forwarder \<Rightarrow> ipv4_addr \<Rightarrow> hardware_addr \<Rightarrow> forwarder" where
  "set_src_hardware_addr f src_ip_addr hardware_addr =
     f\<lparr>fw_src_hardware_addr := (fw_src_hardware_addr f)(src_ip_addr \<mapsto> hardware_addr)\<rparr>"

definition set_local_ip_addr :: "forwarder \<Rightarrow> ipv4_addr \<Rightarrow> forwarder" where
  "set_local_ip_addr f ip_addr = f\<lparr>fw_local_ip_addr := ip_addr\<rparr>"

definition src_hardware_addr_of :: "forwarder \<Rightarrow> ipv4_addr \<Rightarrow> hardware_addr" where
  "src_hardware_addr_of f ip_addr = unwrap_or (fw_src_hardware_addr f ip_addr) HARDWARE_ADDR_UNSPECIFIED"

definition ipv4_identification_of :: "forwarder \<Rightarrow> ipv4_addr \<Rightarrow> ipv4_addr \<Rightarrow> u16" where
  "ipv4_identification_of f dst_ip_addr src_ip_addr =
     unwrap_or (fw_ipv4_identification_map f (src_ip_addr, dst_ip_addr)) 0"

definition increase_ipv4_identification :: "forwarder \<Rightarrow> ipv4_addr \<Rightarrow> ipv4_addr \<Rightarrow> forwarder" where
  "increase_ipv4_identification f dst_ip_addr src_ip_addr =
     (let entry = ipv4_identification_of f dst_ip_addr src_ip_addr
      in f\<lparr>fw_ipv4_identification_map := (fw_ipv4_identification_map f)
           ((src_ip_addr, dst_ip_addr) \<mapsto> (if unat entry + 1 \<le> 65535 then entry + 1 else 0))\<rparr>)"

definition set_state :: "forwarder \<Rightarrow> socket_addr_v4 \<Rightarrow> socket_addr_v4 \<Rightarrow> tcp_tx_state \<Rightarrow> forwarder" where
  "set_state f dst src state = f\<lparr>fw_states := (fw_states f)((src, dst) \<mapsto> state)\<rparr>"

definition get_state :: "forwarder \<Rightarrow> socket_addr_v4 \<Rightarrow> socket_addr_v4 \<Rightarrow> tcp_tx_state option" where
  "get_state f dst src = fw_states f (src, dst)"

definition get_tcp_window :: "forwarder \<Rightarrow> socket_addr_v4 \<Rightarrow> socket_addr_v4 \<Rightarrow> u16 option" where
  "get_tcp_window f dst src = do {
     state \<leftarrow> get_state f dst src;
     Some (if ENABLE_RECV_SWS_AVOID then
         (let thresh = min (unat RECV_WINDOW div 2) (fw_local_mtu f)
          in if unat (tx_window state) < thresh then 0 else tx_window state)
       else tx_window state)
   }"

definition fw_clean_up :: "forwarder \<Rightarrow> socket_addr_v4 \<Rightarrow> socket_addr_v4 \<Rightarrow> forwarder" where
  "fw_clean_up f dst src = f\<lparr>fw_states := (fw_states f)((src, dst) := None)\<rparr>"

definition get_cache_size :: "forwarder \<Rightarrow> socket_addr_v4 \<Rightarrow> socket_addr_v4 \<Rightarrow> usize option" where
  "get_cache_size f dst src = do {
     state \<leftarrow> get_state f dst src;
     Some (q_size (tx_cache state) + length (tx_queue state))
   }"

section \<open>Frames\<close>

text \<open>\<open>send\<close> and \<open>send_with_payload\<close>: serialise into a buffer of at least the minimum frame size.\<close>

definition fw_send_frame :: "link \<Rightarrow> forwarder \<Rightarrow> indicator \<Rightarrow> u8 list option \<Rightarrow> (unit, forwarder) outcome" where
  "fw_send_frame lk f ind payload = do {
     len \<leftarrow> indicator_len (lk_pnet lk) ind;
     let n = len + length (unwrap_or payload []);
     let buffer = replicate (max n MINIMUM_FRAME_SIZE) 0;
     (r, part) \<leftarrow> indicator_serialize (lk_pnet lk) ind payload (take n buffer);
     (case r of
        Inl e \<Rightarrow> Some (Err e, f)
      | Inr _ \<Rightarrow>
          (let frame = part @ drop n buffer;
               r = unwrap_or (lk_send lk (map (\<lambda>s. snd (snd s)) (fw_sent f)) frame) (Ok ())
           in Some (r, f\<lparr>fw_sent := fw_sent f @ [(ind, unwrap_or payload [], frame)]\<rparr>)))
   }"

definition fw_send :: "link \<Rightarrow> forwarder \<Rightarrow> indicator \<Rightarrow> (unit, forwarder) outcome" where
  "fw_send lk f ind = fw_send_frame lk f ind None"

definition fw_send_with_payload :: "link \<Rightarrow> forwarder \<Rightarrow> indicator \<Rightarrow> u8 list \<Rightarrow> (unit, forwarder) outcome" where
  "fw_send_with_payload lk f ind payload = fw_send_frame lk f ind (Some payload)"

definition send_ethernet :: "link \<Rightarrow> forwarder \<Rightarrow> hardware_addr \<Rightarrow> layers \<Rightarrow> layers option
    \<Rightarrow> u8 list option \<Rightarrow> (unit, forwarder) outcome" where
  "send_ethernet lk f src_hardware_addr network transport payload = do {
     ethernet \<leftarrow> ethernet_new (layers_kind network) (fw_local_hardware_addr f) src_hardware_addr;
     let ind = indicator_new (LEthernet ethernet) (Some network) transport;
     (case payload of
        Some payload \<Rightarrow> fw_send_with_payload lk f ind payload
      | None \<Rightarrow> fw_send lk f ind)
   }"

definition set_ipv4_layer :: "layers \<Rightarrow> ipv4 \<Rightarrow> layers" where
  "set_ipv4_layer transport ipv4 =
     (case transport of
        LTcp tcp \<Rightarrow> LTcp (tcp_set_ipv4_layer tcp ipv4)
      | LUdp udp \<Rightarrow> LUdp (udp_set_ipv4_layer udp ipv4)
      | _ \<Rightarrow> transport)"

definition send_ipv4_with_transport :: "link \<Rightarrow> forwarder \<Rightarrow> ipv4_addr \<Rightarrow> ipv4_addr \<Rightarrow> layers
    \<Rightarrow> u8 list option \<Rightarrow> (unit, forwarder) outcome" where
  "send_ipv4_with_transport lk f dst_ip_addr src_ip_addr transport payload = do {
     ipv4 \<leftarrow> ipv4_new (ipv4_identification_of f dst_ip_addr src_ip_addr) (layers_kind transport)
       dst_ip_addr src_ip_addr;
     let transport = set_ipv4_layer transport ipv4;
     and_then (send_ethernet lk f (src_hardware_addr_of f src_ip_addr) (LIpv4 ipv4) (Some transport) payload)
       (\<lambda>_ f. Some (Ok (), increase_ipv4_identification f dst_ip_addr src_ip_addr))
   }"

definition send_ipv4_with_fragment :: "link \<Rightarrow> forwarder \<Rightarrow> ipv4_addr \<Rightarrow> ipv4_addr \<Rightarrow> layer_kind \<Rightarrow> u16
    \<Rightarrow> u8 list \<Rightarrow> (unit, forwarder) outcome" where
  "send_ipv4_with_fragment lk f dst_ip_addr src_ip_addr t fragment_offset payload = do {
     ipv4 \<leftarrow> ipv4_new_more_fragment (ipv4_identification_of f dst_ip_addr src_ip_addr) t
       fragment_offset dst_ip_addr src_ip_addr;
     send_ethernet lk f (src_hardware_addr_of f src_ip_addr) (LIpv4 ipv4) None (Some payload)
   }"

definition send_ipv4_with_last_fragment :: "link \<Rightarrow> forwarder \<Rightarrow> ipv4_addr \<Rightarrow> ipv4_addr \<Rightarrow> layer_kind \<Rightarrow> u16
    \<Rightarrow> u8 list \<Rightarrow> (unit, forwarder) outcome" where
  "send_ipv4_with_last_fragment lk f dst_ip_addr src_ip_addr t fragment_offset payload = do {
     ipv4 \<leftarrow> ipv4_new_last_fragment (ipv4_identification_of f dst_ip_addr src_ip_addr) t
       fragment_offset dst_ip_addr src_ip_addr;
     and_then (send_ethernet lk f (src_hardware_addr_of f src_ip_addr) (LIpv4 ipv4) None (Some payload))
       (\<lambda>_ f. Some (Ok (), increase_ipv4_identification f dst_ip_addr src_ip_addr))
   }"

definition send_arp_reply :: "link \<Rightarrow> forwarder \<Rightarrow> ipv4_addr \<Rightarrow> (unit, forwarder) outcome" where
  "send_arp_reply lk f src_ip_addr = do {
     let arp = arp_new_reply (fw_local_hardware_addr f) (fw_local_ip_addr f)
       (src_hardware_addr_of f src_ip_addr) src_ip_addr;
     ethernet \<leftarrow> ethernet_new (layers_kind (LArp arp)) (arp_sender_hw_addr arp) (arp_target_hw_addr arp);
     fw_send lk f (indicator_new (LEthernet ethernet) (Some (LArp arp)) None)
   }"

section \<open>TCP segments\<close>

definition send_tcp_ack_0 :: "link \<Rightarrow> forwarder \<Rightarrow> socket_addr_v4 \<Rightarrow> socket_addr_v4 \<Rightarrow> (unit, forwarder) outcome" where
  "send_tcp_ack_0 lk f dst src = do {
     state \<leftarrow> get_state f dst src;
     window \<leftarrow> get_tcp_window f dst src;
     send_ipv4_with_transport lk f (ip dst) (ip src)
       (LTcp (tcp_new_ack (port dst) (port src) (tx_sequence state) (tx_acknowledgement state) window
         (tx_sacks state) None)) None
   }"

definition send_tcp_ack_syn :: "link \<Rightarrow> forwarder \<Rightarrow> socket_addr_v4 \<Rightarrow> socket_addr_v4 \<Rightarrow> (unit, forwarder) outcome" where
  "send_tcp_ack_syn lk f dst src = do {
     mss \<leftarrow> (if ENABLE_MSS then do {
         mss \<leftarrow> usub (fw_local_mtu f) (ipv4_minimum_len + tcp_minimum_len);
         Some (Some (if mss > 65535 then 65535 else of_nat mss))
       } else Some None);
     state \<leftarrow> get_state f dst src;
     window \<leftarrow> get_tcp_window f dst src;
     and_then (send_ipv4_with_transport lk f (ip dst) (ip src)
       (LTcp (tcp_new_ack_syn (port dst) (port src) (tx_sequence state) (tx_acknowledgement state) window
         mss (tx_send_wscale state) (tx_sack_perm state) None)) None)
       (\<lambda>_ f. Some (Ok (), f))
   }"

definition send_tcp_ack_rst :: "link \<Rightarrow> forwarder \<Rightarrow> socket_addr_v4 \<Rightarrow> socket_addr_v4 \<Rightarrow> (unit, forwarder) outcome" where
  "send_tcp_ack_rst lk f dst src = do {
     state \<leftarrow> get_state f dst src;
     window \<leftarrow> get_tcp_window f dst src;
     send_ipv4_with_transport lk f (ip dst) (ip src)
       (LTcp (tcp_new_ack_rst (port dst) (port src) (tx_sequence state) (tx_acknowledgement state) window
         None)) None
   }"

definition send_tcp_rst :: "link \<Rightarrow> forwarder \<Rightarrow> socket_addr_v4 \<Rightarrow> socket_addr_v4 \<Rightarrow> (unit, forwarder) outcome" where
  "send_tcp_rst lk f dst src =
     send_ipv4_with_transport lk f (ip dst) (ip src)
       (LTcp (tcp_new_rst (port dst) (port src) 0 0 0 None)) None"

definition send_tcp_fin :: "link \<Rightarrow> forwarder \<Rightarrow> socket_addr_v4 \<Rightarrow> socket_addr_v4 \<Rightarrow> (unit, forwarder) outcome" where
  "send_tcp_fin lk f dst src = do {
     state \<leftarrow> get_state f dst src;
     window \<leftarrow> get_tcp_window f dst src;
     send_ipv4_with_transport lk f (ip dst) (ip src)
       (LTcp (tcp_new_fin (port dst) (port src) (tx_sequence state) (tx_acknowledgement state) window
         None)) None
   }"

text \<open>
  The segment of one iteration and the sequence number after it. \<open>len\<close> is the length of the
  inner \<open>payload\<close>, the part this iteration sends, which shadows the whole payload in the test for
  the last segment.
\<close>

definition ack_raw_segment :: "forwarder \<Rightarrow> socket_addr_v4 \<Rightarrow> socket_addr_v4 \<Rightarrow> u32 \<Rightarrow> usize \<Rightarrow> usize \<Rightarrow> bool
    \<Rightarrow> usize \<Rightarrow> (tcp \<times> u32) option" where
  "ack_raw_segment f dst src sequence mss i is_fin len = do {
     state \<leftarrow> get_state f dst src;
     window \<leftarrow> get_tcp_window f dst src;
     let sequence = seq_adv sequence (i * mss);
     let recv_next = seq_adv sequence len;
     Some (if is_fin \<and> mss * (i + 1) \<ge> len
       then (tcp_new_ack_fin (port dst) (port src) sequence (tx_acknowledgement state) window None,
             unwrap_or (checked_add_u32 recv_next 1) 0)
       else (tcp_new_ack (port dst) (port src) sequence (tx_acknowledgement state) window None None,
             recv_next))
   }"

text \<open>The update of the sequence number after a segment.\<close>

definition advance_sequence :: "forwarder \<Rightarrow> socket_addr_v4 \<Rightarrow> socket_addr_v4 \<Rightarrow> u32 \<Rightarrow> forwarder option" where
  "advance_sequence f dst src recv_next = do {
     state \<leftarrow> get_state f dst src;
     let sub_sequence = seq_sub recv_next (tx_sequence state);
     Some (if unat sub_sequence \<le> MAX_U32_WINDOW_SIZE
       then set_state f dst src (add_sequence state sub_sequence) else f)
   }"

text \<open>The body of the loop: one segment; \<open>None\<close> is a panic.\<close>

definition ack_raw_iteration :: "link \<Rightarrow> socket_addr_v4 \<Rightarrow> socket_addr_v4 \<Rightarrow> u32 \<Rightarrow> u8 list \<Rightarrow> bool \<Rightarrow> usize \<Rightarrow> usize
    \<Rightarrow> forwarder \<Rightarrow> (unit, forwarder) outcome" where
  "ack_raw_iteration lk dst src sequence payload is_fin mss i f = do {
     let len = min mss (length payload - i * mss);
     part \<leftarrow> subslice payload (i * mss) (i * mss + len);
     (tcp, recv_next) \<leftarrow> ack_raw_segment f dst src sequence mss i is_fin len;
     and_then (send_ipv4_with_transport lk f (ip dst) (ip src) (LTcp tcp) (Some part))
       (\<lambda>_ f. do {
         f \<leftarrow> advance_sequence f dst src recv_next;
         Some (Ok (), f)
       })
   }"

text \<open>
  The loop over the segments. With a segment size of zero it never ends, which \<open>Delivery\<close> states of its
  iterations; otherwise an iteration takes at least one byte, so that fuel of the payload length is enough and
  more fuel changes nothing.
\<close>

fun ack_raw_loop :: "link \<Rightarrow> socket_addr_v4 \<Rightarrow> socket_addr_v4 \<Rightarrow> u32 \<Rightarrow> u8 list \<Rightarrow> bool \<Rightarrow> usize \<Rightarrow> nat
    \<Rightarrow> usize \<Rightarrow> forwarder \<Rightarrow> (unit, forwarder) outcome" where
  "ack_raw_loop lk dst src sequence payload is_fin mss fuel i f =
     (if mss * i < length payload then
        (case fuel of
           0 \<Rightarrow> None
         | Suc fuel \<Rightarrow> and_then (ack_raw_iteration lk dst src sequence payload is_fin mss i f)
             (\<lambda>_ f. ack_raw_loop lk dst src sequence payload is_fin mss fuel (i + 1) f))
      else Some (Ok (), f))"

declare ack_raw_loop.simps [simp del]

definition send_tcp_ack_raw :: "link \<Rightarrow> forwarder \<Rightarrow> socket_addr_v4 \<Rightarrow> socket_addr_v4 \<Rightarrow> u32 \<Rightarrow> u8 list
    \<Rightarrow> bool \<Rightarrow> (unit, forwarder) outcome" where
  "send_tcp_ack_raw lk f dst src sequence payload is_fin = do {
     mss \<leftarrow> usub (src_mtu_of f (ip src)) (ipv4_minimum_len + tcp_minimum_len);
     ack_raw_loop lk dst src sequence payload is_fin mss (length payload) 0 f
   }"

text \<open>How much of the queue \<open>send_tcp_ack\<close> sends.\<close>

definition send_size :: "forwarder \<Rightarrow> socket_addr_v4 \<Rightarrow> tcp_tx_state \<Rightarrow> usize option" where
  "send_size f src state =
     (let remain_size = unwrap_or (checked_sub_nat (tx_send_window state) (q_size (tx_cache state))) 0;
          remain_size = min remain_size 65535;
          n = min remain_size (length (tx_queue state))
      in if ENABLE_SEND_SWS_AVOID then do {
           mss \<leftarrow> usub (src_mtu_of f (ip src)) (ipv4_minimum_len + tcp_minimum_len);
           Some (if n < mss \<and> \<not> queue_is_empty (tx_cache state) then 0 else n)
         } else Some n)"

text \<open>The part of \<open>send_tcp_ack\<close> that moves data into the cache and sends it.\<close>

definition send_queued :: "link \<Rightarrow> forwarder \<Rightarrow> socket_addr_v4 \<Rightarrow> socket_addr_v4 \<Rightarrow> usize \<Rightarrow> instant
    \<Rightarrow> (unit, forwarder) outcome" where
  "send_queued lk f dst src n now = do {
     state \<leftarrow> get_state f dst src;
     (r, state) \<leftarrow> append_cache state n now;
     let f = set_state f dst src state;
     (case r of
        Inl e \<Rightarrow> Some (Err e, f)
      | Inr payload \<Rightarrow>
          if tx_queue state = [] \<and> tx_queue_fin state then do {
            let state = append_cache_fin state now;
            send_tcp_ack_raw lk (set_state f dst src state) dst src (tx_sequence state) payload True
          } else send_tcp_ack_raw lk f dst src (tx_sequence state) payload False)
   }"

definition send_queued_fin :: "link \<Rightarrow> forwarder \<Rightarrow> socket_addr_v4 \<Rightarrow> socket_addr_v4 \<Rightarrow> instant
    \<Rightarrow> (unit, forwarder) outcome" where
  "send_queued_fin lk f dst src now = do {
     state \<leftarrow> get_state f dst src;
     if tx_queue_fin state \<and> queue_is_empty (tx_cache state)
     then and_then (send_tcp_fin lk (set_state f dst src (append_cache_fin state now)) dst src)
       (\<lambda>_ f. Some (Ok (), f))
     else Some (Ok (), f)
   }"

definition send_tcp_ack :: "link \<Rightarrow> forwarder \<Rightarrow> socket_addr_v4 \<Rightarrow> socket_addr_v4 \<Rightarrow> instant
    \<Rightarrow> (unit, forwarder) outcome" where
  "send_tcp_ack lk f dst src now = do {
     state \<leftarrow> get_state f dst src;
     if tx_cache_syn state \<noteq> None then send_tcp_ack_syn lk f dst src
     else
       and_then
         (if tx_send_window state > 0 then do {
            n \<leftarrow> send_size f src state;
            if n > 0 then send_queued lk f dst src n now else Some (Ok (), f)
          } else Some (Ok (), f))
         (\<lambda>_ f. send_queued_fin lk f dst src now)
   }"

definition append_to_queue :: "link \<Rightarrow> forwarder \<Rightarrow> socket_addr_v4 \<Rightarrow> socket_addr_v4 \<Rightarrow> u8 list \<Rightarrow> instant
    \<Rightarrow> (unit, forwarder) outcome" where
  "append_to_queue lk f dst src payload now = do {
     state \<leftarrow> get_state f dst src;
     send_tcp_ack lk (set_state f dst src (append_queue state payload)) dst src now
   }"

section \<open>Retransmission\<close>

definition retransmit_tcp_ack :: "link \<Rightarrow> forwarder \<Rightarrow> socket_addr_v4 \<Rightarrow> socket_addr_v4 \<Rightarrow> (unit, forwarder) outcome" where
  "retransmit_tcp_ack lk f dst src = do {
     state \<leftarrow> get_state f dst src;
     payload \<leftarrow> queue_get_all (tx_cache state);
     let sequence = q_sequence (tx_cache state);
     if length payload > 0 then
       and_then (send_tcp_ack_raw lk f dst src sequence payload
           (q_size (tx_cache state) = length payload \<and> tx_cache_fin state \<noteq> None))
         (\<lambda>_ f. Some (Ok (), f))
     else Some (Ok (), f)
   }"

fun retransmit_ranges :: "link \<Rightarrow> socket_addr_v4 \<Rightarrow> socket_addr_v4 \<Rightarrow> u32 \<Rightarrow> seq_range list \<Rightarrow> forwarder
    \<Rightarrow> (unit, forwarder) outcome" where
  "retransmit_ranges lk dst src recv_next [] f = Some (Ok (), f)"
| "retransmit_ranges lk dst src recv_next (rng # ranges) f = do {
     let n = seq_dist (snd rng) (fst rng);
     state \<leftarrow> get_state f dst src;
     r \<leftarrow> queue_get (tx_cache state) (fst rng) n;
     (case r of
        Inl e \<Rightarrow> Some (Err e, f)
      | Inr payload \<Rightarrow>
          and_then
            (if length payload > 0
             then send_tcp_ack_raw lk f dst src (fst rng) payload
               (snd rng = recv_next \<and> tx_cache_fin state \<noteq> None)
             else Some (Ok (), f))
            (\<lambda>_ f. retransmit_ranges lk dst src recv_next ranges f))
   }"

definition retransmit_tcp_ack_without :: "link \<Rightarrow> forwarder \<Rightarrow> socket_addr_v4 \<Rightarrow> socket_addr_v4
    \<Rightarrow> seq_range list \<Rightarrow> (unit, forwarder) outcome" where
  "retransmit_tcp_ack_without lk f dst src sacks = do {
     state \<leftarrow> get_state f dst src;
     let sequence = q_sequence (tx_cache state);
     let recv_next = queue_recv_next (tx_cache state);
     let ranges = remove_sacks [(sequence, recv_next)] sacks;
     and_then (retransmit_ranges lk dst src recv_next ranges f)
       (\<lambda>_ f. do {
         state \<leftarrow> get_state f dst src;
         if length ranges = 0 \<and> tx_cache_fin state \<noteq> None
         then and_then (send_tcp_fin lk f dst src) (\<lambda>_ f. Some (Ok (), f))
         else Some (Ok (), f)
       })
   }"

definition retransmit_tcp_ack_timedout :: "link \<Rightarrow> forwarder \<Rightarrow> socket_addr_v4 \<Rightarrow> socket_addr_v4 \<Rightarrow> instant
    \<Rightarrow> (unit, forwarder) outcome" where
  "retransmit_tcp_ack_timedout lk f dst src now = do {
     state \<leftarrow> get_state f dst src;
     let next_rto = unwrap_or (checked_mul_u64 (tx_rto state) 2) U64_MAX;
     (payload, state) \<leftarrow> take_timed_out state (max MAX_RTO (min MIN_RTO next_rto)) now;
     let f = set_state f dst src state;
     let sequence = q_sequence (tx_cache state);
     if q_size (tx_cache state) > 0 then do {
       let state = double_rto state;
       if q_size (tx_cache state) = length payload \<and> tx_cache_fin state \<noteq> None
       then send_tcp_ack_raw lk (set_state f dst src (update_fin_timer state now)) dst src sequence payload True
       else send_tcp_ack_raw lk (set_state f dst src state) dst src sequence payload False
     } else
       (case tx_cache_fin state of
          Some timer \<Rightarrow>
            if timer_is_timedout now timer
            then send_tcp_fin lk (set_state f dst src (update_fin_timer (double_rto state) now)) dst src
            else Some (Ok (), f)
        | None \<Rightarrow> Some (Ok (), f))
   }"

section \<open>The \<open>ForwardStream\<close> interface\<close>

definition forward_open :: "link \<Rightarrow> forwarder \<Rightarrow> socket_addr_v4 \<Rightarrow> socket_addr_v4 \<Rightarrow> instant
    \<Rightarrow> (unit, forwarder) outcome" where
  "forward_open lk f dst src now =
     and_then (send_tcp_ack_syn lk f dst src)
       (\<lambda>_ f. do {
         state \<leftarrow> get_state f dst src;
         Some (Ok (), set_state f dst src (update_syn_timer state now))
       })"

definition forward_stream :: "link \<Rightarrow> forwarder \<Rightarrow> socket_addr_v4 \<Rightarrow> socket_addr_v4 \<Rightarrow> u8 list \<Rightarrow> instant
    \<Rightarrow> (unit, forwarder) outcome" where
  "forward_stream lk f dst src payload now = do {
     state \<leftarrow> get_state f dst src;
     if tx_cache_fin state \<noteq> None \<or> tx_queue_fin state
     then Some (Err (IoError InvalidData []), f)
     else append_to_queue lk f dst src payload now
   }"

definition forward_tick :: "link \<Rightarrow> forwarder \<Rightarrow> socket_addr_v4 \<Rightarrow> socket_addr_v4 \<Rightarrow> instant
    \<Rightarrow> (unit, forwarder) outcome" where
  "forward_tick lk f dst src now = retransmit_tcp_ack_timedout lk f dst src now"

definition forward_close :: "link \<Rightarrow> forwarder \<Rightarrow> socket_addr_v4 \<Rightarrow> socket_addr_v4 \<Rightarrow> instant
    \<Rightarrow> (unit, forwarder) outcome" where
  "forward_close lk f dst src now = do {
     state \<leftarrow> get_state f dst src;
     send_tcp_ack lk (set_state f dst src (append_queue_fin state)) dst src now
   }"

section \<open>UDP datagrams\<close>

definition send_udp_raw :: "link \<Rightarrow> forwarder \<Rightarrow> socket_addr_v4 \<Rightarrow> socket_addr_v4 \<Rightarrow> u8 list
    \<Rightarrow> (unit, forwarder) outcome" where
  "send_udp_raw lk f dst src payload =
     send_ipv4_with_transport lk f (ip dst) (ip src) (LUdp (udp_new (port dst) (port src))) (Some payload)"

text \<open>
  The length of the fragment at \<open>n\<close> of a datagram of \<open>total\<close> bytes, and what the code takes to
  remain after it (it is not corrected when the last eight bytes are left to the last fragment).
\<close>

definition fragment_length :: "usize \<Rightarrow> usize \<Rightarrow> usize \<Rightarrow> (usize \<times> usize) option" where
  "fragment_length total_len mss n = do {
     let len = min (total_len - n) mss;
     let remain = total_len - n - len;
     let (len, remain) =
       (if remain > 0 then (len div 8 * 8, total_len - n - len div 8 * 8) else (len, remain));
     len \<leftarrow> (if remain > 0 \<and> remain < 8 then usub len 8 else Some len);
     Some (len, remain)
   }"

text \<open>
  The loop over the fragments. An iteration with an empty fragment makes no progress and repeats
  forever; every other one takes at least one byte, so that fuel of the datagram length is enough.
\<close>

fun fragment_loop :: "link \<Rightarrow> socket_addr_v4 \<Rightarrow> socket_addr_v4 \<Rightarrow> layer_kind \<Rightarrow> u8 list \<Rightarrow> usize \<Rightarrow> usize \<Rightarrow> nat
    \<Rightarrow> usize \<Rightarrow> forwarder \<Rightarrow> (unit, forwarder) outcome" where
  "fragment_loop lk dst src kind buffer total_len mss fuel n f =
     (if n < total_len then
        (case fuel of
           0 \<Rightarrow> None
         | Suc fuel \<Rightarrow> do {
             (len, remain) \<leftarrow> fragment_length total_len mss n;
             part \<leftarrow> subslice buffer n (n + len);
             and_then
               (if remain > 0
                then send_ipv4_with_fragment lk f (ip dst) (ip src) kind (of_nat (n div 8)) part
                else send_ipv4_with_last_fragment lk f (ip dst) (ip src) kind (of_nat (n div 8)) part)
               (\<lambda>_ f. fragment_loop lk dst src kind buffer total_len mss fuel (n + len) f)
           })
      else Some (Ok (), f))"

declare fragment_loop.simps [simp del]

definition send_udp :: "link \<Rightarrow> forwarder \<Rightarrow> socket_addr_v4 \<Rightarrow> socket_addr_v4 \<Rightarrow> u8 list
    \<Rightarrow> (unit, forwarder) outcome" where
  "send_udp lk f dst src payload = do {
     let total_len = udp_minimum_len + length payload;
     mss \<leftarrow> usub (src_mtu_of f (ip src)) ipv4_minimum_len;
     if total_len \<le> mss then and_then (send_udp_raw lk f dst src payload) (\<lambda>_ f. Some (Ok (), f))
     else do {
       let udp = udp_new (port dst) (port src);
       ipv4 \<leftarrow> ipv4_new 0 (layers_kind (LUdp udp)) (ip dst) (ip src);
       let udp = udp_set_ipv4_layer udp ipv4;
       let n = pn_udp_size (lk_pnet lk) (udp_layer udp) + length payload;
       (r, buffer) \<leftarrow> udp_serialize (lk_pnet lk) udp (Some payload) (replicate n 0) n;
       (case r of
          Inl e \<Rightarrow> Some (Err e, f)
        | Inr _ \<Rightarrow> fragment_loop lk dst src (layers_kind (LUdp udp)) buffer total_len mss total_len 0 f)
     }
   }"

definition forward_datagram :: "link \<Rightarrow> forwarder \<Rightarrow> socket_addr_v4 \<Rightarrow> socket_addr_v4 \<Rightarrow> u8 list
    \<Rightarrow> (unit, forwarder) outcome" where
  "forward_datagram lk f dst src payload = send_udp lk f dst src payload"

text \<open>The \<open>Forwarder\<close> as the object the workers call.\<close>

definition forwarder_stream :: "link \<Rightarrow> forwarder forward_stream_ops" where
  "forwarder_stream lk = \<lparr>fs_open = forward_open lk, fs_forward = forward_stream lk, fs_tick = forward_tick lk,
     fs_close = forward_close lk\<rparr>"

definition forwarder_datagram :: "link \<Rightarrow> forwarder forward_datagram_ops" where
  "forwarder_datagram lk = \<lparr>fd_forward = forward_datagram lk\<rparr>"

end
