(* ===== verification/Delivery.thy ===== *)
theory Delivery
  imports Forwarder
begin

text \<open>
  What the \<open>Forwarder\<close> puts on the wire. With a packet library that behaves as documented
  (\<open>pnet_ok\<close>) and a device that takes frames (\<open>link_ok\<close>), every segment is sent, the payloads of the
  segments are the payload in order, and fragments put together again are the datagram.
\<close>

section \<open>The packet library and the device\<close>

text \<open>
  The behaviour of \<open>pnet\<close> the proofs rely on: sizes of headers, and that writing a layer into a
  buffer it fits in succeeds and keeps the length of the buffer.
\<close>

definition keeps :: "u8 list option \<Rightarrow> u8 list \<Rightarrow> bool" where
  "keeps r buf \<longleftrightarrow> (\<exists>b. r = Some b \<and> length b = length buf)"

definition pnet_sizes :: "pnet \<Rightarrow> bool" where
  "pnet_sizes pn \<longleftrightarrow> (\<forall>e. pn_ethernet_size pn e = 14) \<and> (\<forall>a. pn_arp_size pn a = 28) \<and>
     (\<forall>i. pn_ipv4_size pn i = 20 + length (ip_options i)) \<and> (\<forall>u. pn_udp_size pn u = 8) \<and>
     tcp_sizes_ok pn"

definition pnet_puts :: "pnet \<Rightarrow> bool" where
  "pnet_puts pn \<longleftrightarrow>
     (\<forall>e buf. 14 \<le> length buf \<longrightarrow> keeps (pn_put_ethernet pn e buf) buf) \<and>
     (\<forall>a buf. 28 \<le> length buf \<longrightarrow> keeps (pn_put_arp pn a buf) buf) \<and>
     (\<forall>i buf. 20 \<le> length buf \<longrightarrow> ip_options i = [] \<longrightarrow> keeps (pn_put_ipv4 pn i buf) buf) \<and>
     (\<forall>t buf. 4 * unat (tcp_data_offset t) \<le> length buf \<longrightarrow> 5 \<le> unat (tcp_data_offset t) \<longrightarrow>
       keeps (pn_put_tcp pn t buf) buf) \<and>
     (\<forall>u buf. 8 \<le> length buf \<longrightarrow> keeps (pn_put_udp pn u buf) buf)"

definition pnet_setters :: "pnet \<Rightarrow> bool" where
  "pnet_setters pn \<longleftrightarrow>
     (\<forall>x b. length (pn_ipv4_set_header_length pn x b) = length b) \<and>
     (\<forall>x b. length (pn_ipv4_set_total_length pn x b) = length b) \<and>
     (\<forall>x b. length (pn_ipv4_set_checksum pn x b) = length b) \<and>
     (\<forall>x b. length (pn_tcp_set_data_offset pn x b) = length b) \<and>
     (\<forall>x b. length (pn_tcp_set_checksum pn x b) = length b) \<and>
     (\<forall>x b. length (pn_udp_set_length pn x b) = length b) \<and>
     (\<forall>x b. length (pn_udp_set_checksum pn x b) = length b)"

definition pnet_payloads :: "pnet \<Rightarrow> bool" where
  "pnet_payloads pn \<longleftrightarrow>
     (\<forall>i buf b n p. pn_put_ipv4 pn i buf = Some b \<longrightarrow> 20 + length p \<le> n \<longrightarrow> n \<le> length buf \<longrightarrow> n \<le> 65535 \<longrightarrow>
       keeps (pn_ipv4_set_payload pn p (pn_ipv4_set_total_length pn (of_nat n)
         (pn_ipv4_set_header_length pn 5 b))) buf) \<and>
     (\<forall>t buf b p. pn_put_tcp pn t buf = Some b \<longrightarrow> 4 * unat (tcp_data_offset t) + length p \<le> length buf \<longrightarrow>
       keeps (pn_tcp_set_payload pn p b) buf) \<and>
     (\<forall>u buf b p. pn_put_udp pn u buf = Some b \<longrightarrow> 8 + length p \<le> length buf \<longrightarrow>
       keeps (pn_udp_set_payload pn p b) buf)"

definition pnet_ok :: "pnet \<Rightarrow> bool" where
  "pnet_ok pn \<longleftrightarrow> pnet_sizes pn \<and> pnet_puts pn \<and> pnet_setters pn \<and> pnet_payloads pn"

definition link_ok :: "link \<Rightarrow> bool" where
  "link_ok lk \<longleftrightarrow> pnet_ok (lk_pnet lk) \<and>
     (\<forall>h frame. lk_send lk h frame = None \<or> lk_send lk h frame = Some (Ok ()))"

lemma pnet_setters_simps:
  assumes "pnet_ok pn"
  shows "length (pn_ipv4_set_header_length pn x b) = length b"
    "length (pn_ipv4_set_total_length pn y b) = length b" "length (pn_ipv4_set_checksum pn y b) = length b"
    "length (pn_tcp_set_data_offset pn x b) = length b" "length (pn_tcp_set_checksum pn y b) = length b"
    "length (pn_udp_set_length pn y b) = length b" "length (pn_udp_set_checksum pn y b) = length b"
  using assms by (auto simp: pnet_ok_def pnet_setters_def)

section \<open>Serialising\<close>

lemma ethernet_serialize_ok:
  assumes "pnet_ok pn" and "14 \<le> length buf"
  obtains b where "ethernet_serialize pn e buf = Some (Ok 14, b)" and "length b = length buf"
proof -
  have "keeps (pn_put_ethernet pn e buf) buf" "pn_ethernet_size pn e = 14"
    using assms by (simp_all add: pnet_ok_def pnet_puts_def pnet_sizes_def)
  then show ?thesis by (auto simp: keeps_def ethernet_serialize_def intro: that)
qed

lemma ipv4_serialize_ok:
  assumes pn: "pnet_ok pn" and i: "ip_options i = []"
    and fit: "20 + length (unwrap_or payload []) \<le> n" "n \<le> length buf" "n \<le> 65535"
  obtains b where "ipv4_serialize pn i payload buf n = Some (Ok 20, b)" and "length b = length buf"
proof -
  have len: "ipv4_len pn i = Some 20"
    using pn i by (simp add: ipv4_len_def pnet_ok_def pnet_sizes_def)
  have "keeps (pn_put_ipv4 pn i buf) buf"
    using pn i fit by (simp add: pnet_ok_def pnet_puts_def)
  then obtain b0 where b0: "pn_put_ipv4 pn i buf = Some b0" "length b0 = length buf"
    by (auto simp: keeps_def)
  define b1 where "b1 = pn_ipv4_set_total_length pn (of_nat n) (pn_ipv4_set_header_length pn 5 b0)"
  obtain b2 where b2: "put_payload (pn_ipv4_set_payload pn) payload b1 = Some b2" "length b2 = length buf"
  proof (cases payload)
    case None
    then show ?thesis
      using b0 by (intro that [of b1]) (simp_all add: put_payload_def b1_def pnet_setters_simps [OF pn])
  next
    case (Some p)
    have "keeps (pn_ipv4_set_payload pn p b1) buf"
      using pn b0(1) fit Some unfolding b1_def pnet_ok_def pnet_payloads_def by auto
    with Some show ?thesis by (auto simp: keeps_def put_payload_def intro: that)
  qed
  show ?thesis
    by (rule that [of "pn_ipv4_set_checksum pn (pn_ipv4_checksum pn b2) b2"])
      (use b0 b2 fit in \<open>simp_all add: ipv4_serialize_def len b1_def pnet_setters_simps [OF pn]\<close>)
qed

lemma tcp_serialize_ok:
  assumes pn: "pnet_ok pn" and off: "tcp_len pn t = Some (4 * unat (tcp_data_offset (tcp_layer t)))"
      "5 \<le> unat (tcp_data_offset (tcp_layer t))" "unat (tcp_data_offset (tcp_layer t)) \<le> 15"
    and fit: "4 * unat (tcp_data_offset (tcp_layer t)) + length (unwrap_or payload []) \<le> length buf"
  obtains m b where "tcp_serialize pn t payload buf n = Some (Ok m, b)" and "length b = length buf"
proof -
  have "keeps (pn_put_tcp pn (tcp_layer t) buf) buf"
    using pn off fit by (simp add: pnet_ok_def pnet_puts_def)
  then obtain b0 where b0: "pn_put_tcp pn (tcp_layer t) buf = Some b0" "length b0 = length buf"
    by (auto simp: keeps_def)
  obtain b1 where b1: "put_payload (pn_tcp_set_payload pn) payload b0 = Some b1" "length b1 = length buf"
  proof (cases payload)
    case None
    then show ?thesis using b0 by (intro that [of b0]) (simp_all add: put_payload_def)
  next
    case (Some p)
    have "keeps (pn_tcp_set_payload pn p b0) buf"
      using pn b0(1) fit Some unfolding pnet_ok_def pnet_payloads_def by auto
    with Some show ?thesis by (auto simp: keeps_def put_payload_def intro: that)
  qed
  define b2 where "b2 = pn_tcp_set_data_offset pn (tcp_data_offset (tcp_layer t)) b1"
  define b3 where "b3 = pn_tcp_set_checksum pn (pn_tcp_checksum pn b2 (tcp_src_ip t) (tcp_dst_ip t)) b2"
  have "\<exists>m. tcp_serialize pn t payload buf n = Some (Ok m, b3)"
    using b0 b1 off by (simp add: tcp_serialize_def b3_def b2_def Let_def)
  moreover have "length b3 = length buf"
    using b1 by (simp add: b3_def b2_def pnet_setters_simps [OF pn])
  ultimately show ?thesis using that by blast
qed

lemma udp_serialize_ok:
  assumes pn: "pnet_ok pn" and fit: "8 + length (unwrap_or payload []) \<le> length buf" "n \<le> 65535"
  obtains m b where "udp_serialize pn u payload buf n = Some (Ok m, b)" and "length b = length buf"
proof -
  have "keeps (pn_put_udp pn (udp_layer u) buf) buf"
    using pn fit by (simp add: pnet_ok_def pnet_puts_def)
  then obtain b0 where b0: "pn_put_udp pn (udp_layer u) buf = Some b0" "length b0 = length buf"
    by (auto simp: keeps_def)
  obtain b1 where b1: "put_payload (pn_udp_set_payload pn) payload b0 = Some b1" "length b1 = length buf"
  proof (cases payload)
    case None
    then show ?thesis using b0 by (intro that [of b0]) (simp_all add: put_payload_def)
  next
    case (Some p)
    have "keeps (pn_udp_set_payload pn p b0) buf"
      using pn b0(1) fit Some unfolding pnet_ok_def pnet_payloads_def by auto
    with Some show ?thesis by (auto simp: keeps_def put_payload_def intro: that)
  qed
  define b2 where "b2 = pn_udp_set_length pn (of_nat n) b1"
  define b3 where "b3 = pn_udp_set_checksum pn (pn_udp_checksum pn b2 (udp_src_ip u) (udp_dst_ip u)) b2"
  have "\<exists>m. udp_serialize pn u payload buf n = Some (Ok m, b3)"
    using b0 b1 fit by (simp add: udp_serialize_def b3_def b2_def Let_def)
  moreover have "length b3 = length buf"
    using b1 by (simp add: b3_def b2_def pnet_setters_simps [OF pn])
  ultimately show ?thesis using that by blast
qed

text \<open>A transport layer that fits a datagram with a payload of \<open>n\<close> bytes.\<close>

definition transport_fits :: "pnet \<Rightarrow> layers option \<Rightarrow> usize \<Rightarrow> usize \<Rightarrow> bool" where
  "transport_fits pn transport hdr n \<longleftrightarrow> 20 + hdr + n \<le> 65535 \<and>
     (case transport of
        None \<Rightarrow> hdr = 0
      | Some (LTcp t) \<Rightarrow> tcp_len pn t = Some hdr \<and> hdr = 4 * unat (tcp_data_offset (tcp_layer t)) \<and>
          5 \<le> unat (tcp_data_offset (tcp_layer t)) \<and> unat (tcp_data_offset (tcp_layer t)) \<le> 15
      | Some (LUdp u) \<Rightarrow> hdr = 8
      | _ \<Rightarrow> False)"

lemma transport_serialize_ok:
  assumes pn: "pnet_ok pn" and fits: "transport_fits pn transport hdr (length (unwrap_or payload []))"
    and buf: "length buf = start + hdr + length (unwrap_or payload [])"
    and n: "n = hdr + length (unwrap_or payload [])"
  obtains m b where "serialize_step pn payload transport start n buf = Some (Ok m, b)"
    and "length b = length buf"
proof (cases transport)
  case None
  then show ?thesis by (intro that [of 0 buf]) (simp_all add: serialize_step_def)
next
  case (Some l)
  have sub: "subslice buf start (length buf) = Some (drop start buf)"
    using buf by (simp add: subslice_def)
  have len: "length (drop start buf) = hdr + length (unwrap_or payload [])" using buf by simp
  obtain m b where "layers_serialize pn l payload (drop start buf) n = Some (Ok m, b)"
      "length b = length (drop start buf)"
  proof (cases l)
    case (LTcp t)
    have t: "tcp_len pn t = Some (4 * unat (tcp_data_offset (tcp_layer t)))"
        "5 \<le> unat (tcp_data_offset (tcp_layer t))" "unat (tcp_data_offset (tcp_layer t)) \<le> 15"
        "4 * unat (tcp_data_offset (tcp_layer t)) + length (unwrap_or payload []) \<le> length (drop start buf)"
      using fits len by (auto simp: transport_fits_def Some LTcp)
    obtain m b where "tcp_serialize pn t payload (drop start buf) n = Some (Ok m, b)"
        "length b = length (drop start buf)"
      by (rule tcp_serialize_ok [OF pn t])
    then show ?thesis by (intro that) (simp_all add: LTcp)
  next
    case (LUdp u)
    have u: "8 + length (unwrap_or payload []) \<le> length (drop start buf)" "n \<le> 65535"
      using fits len n by (auto simp: transport_fits_def Some LUdp)
    obtain m b where "udp_serialize pn u payload (drop start buf) n = Some (Ok m, b)"
        "length b = length (drop start buf)"
      by (rule udp_serialize_ok [OF pn u])
    then show ?thesis by (intro that) (simp_all add: LUdp)
  qed (use fits in \<open>auto simp: transport_fits_def Some\<close>)
  then have "serialize_step pn payload transport start n buf = Some (Ok m, take start buf @ b)"
    "length (take start buf @ b) = length buf"
    using sub buf by (simp_all only: serialize_step_def Some) (simp_all add: min_def)
  then show ?thesis by (rule that)
qed

lemma datagram_send:
  assumes lk: "link_ok lk" and opts: "ip_options ipv4 = []"
    and fits: "transport_fits (lk_pnet lk) transport hdr (length (unwrap_or payload []))"
    and ind: "ind = indicator_new (LEthernet e) (Some (LIpv4 ipv4)) transport"
  obtains frame where "fw_send_frame lk f ind payload =
      Some (Ok (), f\<lparr>fw_sent := fw_sent f @ [(ind, unwrap_or payload [], frame)]\<rparr>)"
    and "length frame = max (34 + hdr + length (unwrap_or payload [])) 60"
proof -
  let ?pn = "lk_pnet lk" and ?p = "length (unwrap_or payload [])"
  have pn: "pnet_ok ?pn" using lk by (simp add: link_ok_def)
  have sizes: "pn_ethernet_size ?pn e = 14" "ipv4_len ?pn ipv4 = Some 20"
    using pn opts by (simp_all add: pnet_ok_def pnet_sizes_def ipv4_len_def)
  have tlen: "opt_layers_len ?pn transport = Some hdr" and small: "20 + hdr + ?p \<le> 65535"
    using fits pn by (auto simp: transport_fits_def pnet_ok_def pnet_sizes_def
        split: option.splits layers.splits)
  have len: "indicator_len ?pn ind = Some (34 + hdr)"
    by (simp add: indicator_len_def ind indicator_new_def sizes tlen)
  define n where "n = 34 + hdr + ?p"
  define buf where "buf = replicate n (0 :: u8)"
  have buf: "length buf = n" by (simp add: buf_def)
  obtain b1 where b1: "ethernet_serialize ?pn e buf = Some (Ok 14, b1)" "length b1 = n"
    by (rule ethernet_serialize_ok [OF pn, of buf e]) (use buf in \<open>simp_all add: n_def\<close>)
  have ip: "20 + ?p \<le> n - 14" "n - 14 \<le> length (drop 14 b1)" "n - 14 \<le> 65535"
    using b1 small by (auto simp: n_def)
  obtain b2 where b2: "ipv4_serialize ?pn ipv4 payload (drop 14 b1) (n - 14) = Some (Ok 20, b2)"
      "length b2 = length (drop 14 b1)"
    by (rule ipv4_serialize_ok [OF pn opts ip])
  define b12 where "b12 = take 14 b1 @ b2"
  have b12: "length b12 = 34 + hdr + ?p" using b1 b2 by (simp add: b12_def n_def)
  obtain m b3 where b3: "serialize_step ?pn payload transport 34 (hdr + ?p) b12 = Some (Ok m, b3)"
      "length b3 = length b12"
    by (rule transport_serialize_ok [OF pn fits b12 refl])
  have step1: "serialize_step ?pn payload (Some (LEthernet e)) 0 n buf = Some (Ok 14, b1)"
    using b1 buf by (simp add: serialize_step_def subslice_def)
  have step2: "serialize_step ?pn payload (Some (LIpv4 ipv4)) 14 (n - 14) b1 = Some (Ok 20, b12)"
    using b1 b2 by (simp add: serialize_step_def subslice_def b12_def n_def)
  have tot: "34 + hdr + (case payload of None \<Rightarrow> 0 | Some p \<Rightarrow> length p) = n"
    by (cases payload) (simp_all add: n_def)
  have ser: "indicator_serialize ?pn ind payload buf = Some (Ok (34 + m), b3)"
  proof -
    have "usub n 14 = Some (n - 14)" "usub (n - 14) 20 = Some (hdr + ?p)"
      by (simp_all add: usub_def n_def)
    moreover have "ind_link ind = LEthernet e" "ind_network ind = Some (LIpv4 ipv4)"
      "ind_transport ind = transport" by (simp_all add: ind indicator_new_def)
    ultimately show ?thesis
      using step1 step2 b3(1) by (simp add: indicator_serialize_def len tot Let_def)
  qed
  define frame where "frame = b3 @ replicate (max n MINIMUM_FRAME_SIZE - n) 0"
  have "unwrap_or (lk_send lk h frame) (Ok ()) = Ok ()" for h
    using lk by (metis link_ok_def unwrap_or_simps)
  then have "fw_send_frame lk f ind payload =
      Some (Ok (), f\<lparr>fw_sent := fw_sent f @ [(ind, unwrap_or payload [], frame)]\<rparr>)"
    using ser by (simp add: fw_send_frame_def len Let_def flip: n_def) (simp add: frame_def Let_def flip: buf_def n_def)
  moreover have "length frame = max n 60"
    using b3 b12 by (simp add: frame_def n_def MINIMUM_FRAME_SIZE_def)
  ultimately show ?thesis by (intro that) (simp_all add: n_def)
qed

section \<open>Datagrams\<close>

text \<open>What is observed of a frame on the wire.\<close>

definition sent_tcp :: "sent \<Rightarrow> tcp option" where
  "sent_tcp s = indicator_tcp (fst s)"

definition sent_ipv4 :: "sent \<Rightarrow> ipv4 option" where
  "sent_ipv4 s = indicator_ipv4 (fst s)"

definition sent_payload :: "sent \<Rightarrow> u8 list" where
  "sent_payload s = fst (snd s)"

text \<open>The Forwarder after one datagram: the frame is recorded and the identification counted up.\<close>

definition after_send :: "forwarder \<Rightarrow> ipv4_addr \<Rightarrow> ipv4_addr \<Rightarrow> sent \<Rightarrow> forwarder" where
  "after_send f dst src s =
     increase_ipv4_identification (f\<lparr>fw_sent := fw_sent f @ [s]\<rparr>) dst src"

lemma after_send_sel [simp]:
  "fw_sent (after_send f dst src s) = fw_sent f @ [s]"
  "fw_states (after_send f dst src s) = fw_states f"
  "fw_src_mtu (after_send f dst src s) = fw_src_mtu f"
  "fw_local_mtu (after_send f dst src s) = fw_local_mtu f"
  by (simp_all add: after_send_def increase_ipv4_identification_def Let_def)

lemma after_send_get [simp]:
  "get_state (after_send f dst src s) d' s' = get_state f d' s'"
  "get_tcp_window (after_send f dst src s) d' s' = get_tcp_window f d' s'"
  "src_mtu_of (after_send f dst src s) a = src_mtu_of f a"
  by (simp_all add: get_state_def get_tcp_window_def src_mtu_of_def ENABLE_RECV_SWS_AVOID_def Let_def)

lemma kind_protocol_simps [simp]:
  "kind_protocol Tcp_kind = Some Protocols_Tcp" "kind_protocol Udp_kind = Some Protocols_Udp"
  by (simp_all add: kind_protocol_def layer_kind_defs)

lemma transport_fits_ipv4 [simp]:
  "transport_fits pn (Some (set_ipv4_layer l i)) hdr n = transport_fits pn (Some l) hdr n"
  by (cases l) (simp_all add: transport_fits_def set_ipv4_layer_def tcp_len_def tcp_set_ipv4_layer_def)

lemma send_ipv4_with_transport_ok:
  assumes lk: "link_ok lk" and fits: "transport_fits (lk_pnet lk) (Some l) hdr (length (unwrap_or payload []))"
  obtains s i where "send_ipv4_with_transport lk f dst src l payload = Some (Ok (), after_send f dst src s)"
    and "sent_payload s = unwrap_or payload []" and "sent_ipv4 s = Some i"
    and "ind_transport (fst s) = Some (set_ipv4_layer l i)"
    and "ip_source i = dst" and "ip_destination i = src"
    and "ip_identification i = ipv4_identification_of f dst src"
    and "length (snd (snd s)) = max (34 + hdr + length (unwrap_or payload [])) 60"
proof -
  have kind: "layers_kind l = Tcp_kind \<or> layers_kind l = Udp_kind"
    using fits by (auto simp: transport_fits_def split: layers.splits)
  then obtain i where i: "ipv4_new (ipv4_identification_of f dst src) (layers_kind l) dst src = Some i"
      "ip_options i = []" "ip_source i = dst" "ip_destination i = src"
      "ip_identification i = ipv4_identification_of f dst src"
    by (auto simp: ipv4_new_def)
  define e where "e = \<lparr>eth_destination = src_hardware_addr_of f src,
    eth_source = fw_local_hardware_addr f, eth_ethertype = EtherTypes_Ipv4\<rparr>"
  define ind where "ind = indicator_new (LEthernet e) (Some (LIpv4 i)) (Some (set_ipv4_layer l i))"
  have eth: "ethernet_new Ipv4_kind (fw_local_hardware_addr f) (src_hardware_addr_of f src) = Some e"
    by (simp add: ethernet_new_def e_def layer_kind_defs)
  have fits': "transport_fits (lk_pnet lk) (Some (set_ipv4_layer l i)) hdr (length (unwrap_or payload []))"
    using fits by simp
  obtain frame where fr: "fw_send_frame lk f ind payload =
        Some (Ok (), f\<lparr>fw_sent := fw_sent f @ [(ind, unwrap_or payload [], frame)]\<rparr>)"
      "length frame = max (34 + hdr + length (unwrap_or payload [])) 60"
    by (rule datagram_send [OF lk i(2) fits' ind_def])
  have "send_ethernet lk f (src_hardware_addr_of f src) (LIpv4 i) (Some (set_ipv4_layer l i)) payload =
      fw_send_frame lk f ind payload"
    by (cases payload) (simp_all add: send_ethernet_def eth ind_def fw_send_def fw_send_with_payload_def)
  then have "send_ipv4_with_transport lk f dst src l payload =
      Some (Ok (), after_send f dst src (ind, unwrap_or payload [], frame))"
    using i(1) fr(1) by (simp add: send_ipv4_with_transport_def after_send_def Let_def)
  then show ?thesis
    by (rule that) (use i fr in \<open>simp_all add: sent_payload_def sent_ipv4_def ind_def indicator_new_def
        indicator_ipv4_def\<close>)
qed

section \<open>Segmentation\<close>

text \<open>A list cut into pieces of \<open>n\<close> elements, the last one possibly shorter.\<close>

function chunks :: "nat \<Rightarrow> 'a list \<Rightarrow> 'a list list" where
  "chunks n xs = (if n = 0 \<or> xs = [] then [] else take n xs # chunks n (drop n xs))"
  by pat_completeness auto
termination
  by (relation "measure (\<lambda>(n, xs). length xs)") auto

declare chunks.simps [simp del]

lemma chunks_Nil [simp]: "chunks n [] = []"
  by (simp add: chunks.simps)

lemma chunks_step: "0 < n \<Longrightarrow> xs \<noteq> [] \<Longrightarrow> chunks n xs = take n xs # chunks n (drop n xs)"
  by (subst chunks.simps) simp

lemma concat_chunks: "0 < n \<Longrightarrow> concat (chunks n xs) = xs"
proof (induction n xs rule: chunks.induct)
  case (1 n xs)
  then show ?case by (cases "xs = []") (simp_all add: chunks_step)
qed

lemma chunks_bounded: "c \<in> set (chunks n xs) \<Longrightarrow> 0 < length c \<and> length c \<le> n"
proof (induction n xs rule: chunks.induct)
  case (1 n xs)
  then have *: "n \<noteq> 0" "xs \<noteq> []" by (auto simp: chunks.simps split: if_splits)
  with 1 show ?case by (auto simp: chunks_step)
qed

text \<open>Two Forwarders that differ only in what was sent, the identifications and one sequence number.\<close>

definition same_but_sequence :: "forwarder \<Rightarrow> socket_addr_v4 \<Rightarrow> socket_addr_v4 \<Rightarrow> forwarder \<Rightarrow> bool" where
  "same_but_sequence f dst src f' \<longleftrightarrow>
     (\<exists>x s. get_state f dst src = Some x \<and>
       fw_states f' = (fw_states f)((src, dst) \<mapsto> x\<lparr>tx_sequence := s\<rparr>)) \<and>
     fw_src_mtu f' = fw_src_mtu f \<and> fw_local_mtu f' = fw_local_mtu f"

lemma same_but_sequence_refl:
  "get_state f dst src = Some x \<Longrightarrow> same_but_sequence f dst src f"
  unfolding same_but_sequence_def get_state_def
  by (intro conjI exI [of _ x] exI [of _ "tx_sequence x"]) (auto simp: fun_upd_triv fun_upd_idem)

lemma same_but_sequence_trans:
  "same_but_sequence f dst src f' \<Longrightarrow> same_but_sequence f' dst src f'' \<Longrightarrow> same_but_sequence f dst src f''"
  by (auto simp: same_but_sequence_def get_state_def) blast

text \<open>The sequence number of a connection at \<open>s\<close> after a segment that ends at \<open>r\<close>.\<close>

definition advanced :: "u32 \<Rightarrow> u32 \<Rightarrow> u32" where
  "advanced s r = (if seq_dist r s \<le> MAX_U32_WINDOW_SIZE then seq_adv s (seq_dist r s) else s)"

lemma advanced_adv: "n \<le> MAX_U32_WINDOW_SIZE \<Longrightarrow> advanced s (seq_adv s n) = seq_adv s n"
  by (simp add: advanced_def seq.dist_adv MAX_U32_WINDOW_SIZE_def)

text \<open>A segment that ends before the sequence number is a retransmission and does not move it.\<close>

lemma advanced_behind:
  assumes "r \<le> e" and "e \<le> r + MAX_U32_WINDOW_SIZE" and "e + MAX_U32_WINDOW_SIZE < 4294967295"
  shows "advanced (seq_adv s e) (seq_adv s r) = seq_adv s e"
proof (cases "r = e")
  case False
  have "r + MAX_U32_WINDOW_SIZE < 4294967295" using assms by linarith
  with False assms show ?thesis by (simp add: advanced_def seq_within_iff)
qed (simp add: advanced_def)

lemma advance_sequence_ok:
  assumes "get_state f dst src = Some x"
  obtains f' where "advance_sequence f dst src r = Some f'" and "same_but_sequence f dst src f'"
    and "fw_sent f' = fw_sent f" and "get_state f' dst src = Some (x\<lparr>tx_sequence := advanced (tx_sequence x) r\<rparr>)"
proof (cases "seq_dist r (tx_sequence x) \<le> MAX_U32_WINDOW_SIZE")
  case True
  let ?s = "seq_add (tx_sequence x) (seq_sub r (tx_sequence x))"
  have "?s = advanced (tx_sequence x) r" using True by (simp add: advanced_def seq_adv_def seq_dist_def)
  with True assms show ?thesis
    by (intro that [of "set_state f dst src (x\<lparr>tx_sequence := ?s\<rparr>)"])
      (auto simp: advance_sequence_def seq_dist_def add_sequence_def set_state_def get_state_def
        same_but_sequence_def)
next
  case False
  with assms show ?thesis
    by (intro that [of f])
      (auto simp: advance_sequence_def advanced_def seq_dist_def Let_def intro: same_but_sequence_refl)
qed

text \<open>The header of a segment of the loop.\<close>

definition segment_header :: "socket_addr_v4 \<Rightarrow> socket_addr_v4 \<Rightarrow> u32 \<Rightarrow> bool \<Rightarrow> u32 \<Rightarrow> sent \<Rightarrow> bool" where
  "segment_header dst src ack is_fin sequence s \<longleftrightarrow> (\<exists>t. sent_tcp s = Some t \<and>
     tcp_sequence (tcp_layer t) = sequence \<and> tcp_acknowledgement (tcp_layer t) = ack \<and>
     (tcp_is_fin t \<longleftrightarrow> is_fin) \<and> tcp_source (tcp_layer t) = port dst \<and>
     tcp_destination (tcp_layer t) = port src \<and> tcp_src_ip t = ip dst \<and> tcp_dst_ip t = ip src)"

lemma plain_segment_fits:
  assumes "pnet_ok pn" and "40 + n \<le> 65535"
    and "t = tcp_new_ack a b c d e None None \<or> t = tcp_new_ack_fin a b c d e None"
  shows "transport_fits pn (Some (LTcp t)) 20 n"
proof -
  have "tcp_options (tcp_layer t) = []" "tcp_data_offset (tcp_layer t) = 5"
    using assms(3) by (auto simp: tcp_new_ack_fin_def Let_def) (simp_all add: tcp_new_ack_def tcp_from_def)
  with assms(1,2) show ?thesis
    by (simp add: transport_fits_def tcp_len_eq pnet_ok_def pnet_sizes_def)
qed

lemma segment_send_ok:
  assumes lk: "link_ok lk" and x: "get_state f dst src = Some x" and len: "len \<le> mss"
    and fit: "40 + length part \<le> 65535"
  obtains t r s where "ack_raw_segment f dst src sequence mss i is_fin len = Some (t, r)"
    and "send_ipv4_with_transport lk f (ip dst) (ip src) (LTcp t) (Some part) =
      Some (Ok (), after_send f (ip dst) (ip src) s)"
    and "sent_payload s = part"
    and "segment_header dst src (tx_acknowledgement x) is_fin (seq_adv sequence (i * mss)) s"
    and "\<not> is_fin \<Longrightarrow> r = seq_adv (seq_adv sequence (i * mss)) len"
proof -
  obtain w where w: "get_tcp_window f dst src = Some w" by (simp add: get_tcp_window_def x)
  define t where "t = (if is_fin
    then tcp_new_ack_fin (port dst) (port src) (seq_adv sequence (i * mss)) (tx_acknowledgement x) w None
    else tcp_new_ack (port dst) (port src) (seq_adv sequence (i * mss)) (tx_acknowledgement x) w None None)"
  define r where "r = (let n = seq_adv (seq_adv sequence (i * mss)) len
    in if is_fin then unwrap_or (checked_add_u32 n 1) 0 else n)"
  have seg: "ack_raw_segment f dst src sequence mss i is_fin len = Some (t, r)"
    using len by (simp add: ack_raw_segment_def x w t_def r_def Let_def trans_le_add1)
  have "pnet_ok (lk_pnet lk)" using lk by (simp add: link_ok_def)
  then have fits: "transport_fits (lk_pnet lk) (Some (LTcp t)) 20 (length (unwrap_or (Some part) []))"
    by (rule plain_segment_fits) (use fit in \<open>auto simp: t_def\<close>)
  obtain s j where s: "send_ipv4_with_transport lk f (ip dst) (ip src) (LTcp t) (Some part) =
        Some (Ok (), after_send f (ip dst) (ip src) s)"
      "sent_payload s = part" "ind_transport (fst s) = Some (set_ipv4_layer (LTcp t) j)"
      "ip_source j = ip dst" "ip_destination j = ip src"
    by (rule send_ipv4_with_transport_ok [OF lk fits, of f "ip dst" "ip src"]) auto
  have "segment_header dst src (tx_acknowledgement x) is_fin (seq_adv sequence (i * mss)) s"
    using s(3-5) unfolding segment_header_def sent_tcp_def indicator_tcp_def
    by (auto simp: set_ipv4_layer_def tcp_set_ipv4_layer_def t_def tcp_is_fin_def tcp_new_ack_fin_def
        Let_def tcp_flag_defs)
  with seg s show ?thesis by (intro that [of t r s]) (simp_all add: r_def)
qed

text \<open>The segments of a payload: their payloads, and the header of each.\<close>

definition segments :: "socket_addr_v4 \<Rightarrow> socket_addr_v4 \<Rightarrow> u32 \<Rightarrow> bool \<Rightarrow> u32 \<Rightarrow> usize \<Rightarrow> usize \<Rightarrow> u8 list
    \<Rightarrow> sent list \<Rightarrow> bool" where
  "segments dst src ack is_fin sequence mss i payload ss \<longleftrightarrow>
     map sent_payload ss = chunks mss payload \<and>
     (\<forall>k<length ss. segment_header dst src ack is_fin (seq_adv sequence ((i + k) * mss)) (ss ! k))"

lemma segments_Cons:
  assumes "sent_payload s = take mss p" and "0 < mss" and "p \<noteq> []"
    and "segment_header dst src ack is_fin (seq_adv sequence (i * mss)) s"
    and "segments dst src ack is_fin sequence mss (i + 1) (drop mss p) ss"
  shows "segments dst src ack is_fin sequence mss i p (s # ss)"
  using assms by (auto simp: segments_def chunks_step nth_Cons split: nat.split)

text \<open>The number behind the \<open>i\<close>-th segment.\<close>

definition segment_end :: "u32 \<Rightarrow> u8 list \<Rightarrow> usize \<Rightarrow> usize \<Rightarrow> u32" where
  "segment_end sequence payload mss i = seq_adv (seq_adv sequence (i * mss)) (min mss (length payload - i * mss))"

lemma segment_end_eq:
  assumes more: "mss * i < length payload" and less: "p + length payload < 4294967295"
  shows "segment_end (seq_adv s p) payload mss i = seq_adv s (p + min (mss * (i + 1)) (length payload))"
proof -
  have "i * mss + min mss (length payload - i * mss) = min (mss * (i + 1)) (length payload)"
    using more by (auto simp: algebra_simps min_def)
  moreover have "seq_adv (seq_adv s p) (i * mss) = seq_adv s (p + i * mss)"
    using more less by (intro seq.adv_adv) (simp add: ac_simps)
  moreover have "seq_adv (seq_adv s (p + i * mss)) (min mss (length payload - i * mss)) =
      seq_adv s (p + i * mss + min mss (length payload - i * mss))"
    using more less by (intro seq.adv_adv) (simp add: ac_simps)
  ultimately show ?thesis by (simp add: segment_end_def add.assoc)
qed

lemma ack_raw_iteration_ok:
  assumes lk: "link_ok lk" and mss: "40 + mss \<le> 65535"
    and x: "get_state f dst src = Some x" and more: "mss * i < length payload"
  obtains f' s n where
    "ack_raw_iteration lk dst src sequence payload is_fin mss i f = Some (Ok (), f')"
    and "fw_sent f' = fw_sent f @ [s]" and "sent_payload s = take mss (drop (mss * i) payload)"
    and "segment_header dst src (tx_acknowledgement x) is_fin (seq_adv sequence (i * mss)) s"
    and "same_but_sequence f dst src f'" and "get_state f' dst src = Some (x\<lparr>tx_sequence := n\<rparr>)"
    and "\<not> is_fin \<Longrightarrow> n = advanced (tx_sequence x) (segment_end sequence payload mss i)"
proof -
  define len where "len = min mss (length payload - i * mss)"
  define part where "part = take mss (drop (mss * i) payload)"
  have part: "length part = len" by (simp add: part_def len_def ac_simps)
  have len: "len \<le> mss" "i * mss + len \<le> length payload" using more by (auto simp: len_def ac_simps)
  have sub: "subslice payload (i * mss) (i * mss + len) = Some part"
    using len(2) by (simp add: subslice_def part_def len_def ac_simps min_def)
  have fit: "40 + length part \<le> 65535" using part len mss by simp
  obtain t r s where seg: "ack_raw_segment f dst src sequence mss i is_fin len = Some (t, r)"
      "send_ipv4_with_transport lk f (ip dst) (ip src) (LTcp t) (Some part) = Some (Ok (), after_send f (ip dst) (ip src) s)"
      "sent_payload s = part" "segment_header dst src (tx_acknowledgement x) is_fin (seq_adv sequence (i * mss)) s"
      "\<not> is_fin \<Longrightarrow> r = seq_adv (seq_adv sequence (i * mss)) len"
    by (rule segment_send_ok [OF lk x len(1) fit, of sequence i is_fin]) (rule that; simp)
  let ?f1 = "after_send f (ip dst) (ip src) s"
  have x1: "get_state ?f1 dst src = Some x" using x by simp
  obtain f' where adv: "advance_sequence ?f1 dst src r = Some f'" "same_but_sequence ?f1 dst src f'"
      "fw_sent f' = fw_sent ?f1" "get_state f' dst src = Some (x\<lparr>tx_sequence := advanced (tx_sequence x) r\<rparr>)"
    by (rule advance_sequence_ok [OF x1])
  have "same_but_sequence f dst src ?f1" using same_but_sequence_refl [OF x] by (simp add: same_but_sequence_def)
  then have same: "same_but_sequence f dst src f'" using adv(2) same_but_sequence_trans by blast
  have "ack_raw_iteration lk dst src sequence payload is_fin mss i f = Some (Ok (), f')"
    using sub seg(1,2) adv(1) by (simp add: ack_raw_iteration_def Let_def flip: len_def)
  then show ?thesis
    by (rule that [of f' s "advanced (tx_sequence x) r"])
      (use seg adv same in \<open>simp_all add: part_def segment_end_def flip: len_def\<close>)
qed

text \<open>
  The loop. The sequence number moves by \<open>advanced\<close> at each segment, so that whatever this keeps (\<open>I\<close>)
  holds of the last one.
\<close>

lemma ack_raw_loop_ok:
  assumes lk: "link_ok lk" and mss: "0 < mss" "40 + mss \<le> 65535"
    and "get_state f dst src = Some x" and "length payload - mss * i \<le> fuel"
    and "is_fin \<or> I i (tx_sequence x)"
    and step: "\<And>i n. mss * i < length payload \<Longrightarrow> I i n \<Longrightarrow> I (i + 1) (advanced n (segment_end sequence payload mss i))"
  shows "\<exists>f' ss n. ack_raw_loop lk dst src sequence payload is_fin mss fuel i f = Some (Ok (), f') \<and>
    fw_sent f' = fw_sent f @ ss \<and>
    segments dst src (tx_acknowledgement x) is_fin sequence mss i (drop (mss * i) payload) ss \<and>
    same_but_sequence f dst src f' \<and> get_state f' dst src = Some (x\<lparr>tx_sequence := n\<rparr>) \<and>
    (is_fin \<or> (\<exists>j. length payload \<le> mss * j \<and> I j n))"
  using assms(4-6)
proof (induction fuel arbitrary: i f x)
  case 0
  then show ?case
    by (intro exI [of _ f] exI [of _ "[]"] exI [of _ "tx_sequence x"])
      (auto simp: ack_raw_loop.simps segments_def intro: same_but_sequence_refl)
next
  case (Suc fuel)
  show ?case
  proof (cases "mss * i < length payload")
    case False
    with Suc.prems show ?thesis
      by (intro exI [of _ f] exI [of _ "[]"] exI [of _ "tx_sequence x"])
        (auto simp: ack_raw_loop.simps segments_def intro: same_but_sequence_refl)
  next
    case True
    obtain f1 s n where 1: "ack_raw_iteration lk dst src sequence payload is_fin mss i f = Some (Ok (), f1)"
        "fw_sent f1 = fw_sent f @ [s]" "sent_payload s = take mss (drop (mss * i) payload)"
        "segment_header dst src (tx_acknowledgement x) is_fin (seq_adv sequence (i * mss)) s"
        "same_but_sequence f dst src f1" "get_state f1 dst src = Some (x\<lparr>tx_sequence := n\<rparr>)"
        "\<not> is_fin \<Longrightarrow> n = advanced (tx_sequence x) (segment_end sequence payload mss i)"
      by (rule ack_raw_iteration_ok [OF lk mss(2) Suc.prems(1) True, of sequence is_fin]) (rule that; simp)
    have "length payload - mss * (i + 1) \<le> fuel" using Suc.prems(2) mss True by (simp add: algebra_simps)
    moreover have "is_fin \<or> I (i + 1) (tx_sequence (x\<lparr>tx_sequence := n\<rparr>))"
      using step [OF True] Suc.prems(3) 1(7) by auto
    ultimately obtain f' ss n' where
      rest: "ack_raw_loop lk dst src sequence payload is_fin mss fuel (i + 1) f1 = Some (Ok (), f')"
        "fw_sent f' = fw_sent f1 @ ss"
        "segments dst src (tx_acknowledgement x) is_fin sequence mss (i + 1) (drop (mss * (i + 1)) payload) ss"
        "same_but_sequence f1 dst src f'" "get_state f' dst src = Some (x\<lparr>tx_sequence := n'\<rparr>)"
        "is_fin \<or> (\<exists>j. length payload \<le> mss * j \<and> I j n')"
      using Suc.IH [OF 1(6), of "i + 1"] by auto
    have "segments dst src (tx_acknowledgement x) is_fin sequence mss i (drop (mss * i) payload) (s # ss)"
      by (rule segments_Cons) (use 1 rest(3) mss True in \<open>simp_all add: algebra_simps\<close>)
    with 1 rest same_but_sequence_trans [OF 1(5) rest(4)] True show ?thesis
      by (intro exI [of _ f'] exI [of _ "s # ss"] exI [of _ n']) (simp add: ack_raw_loop.simps [of _ _ _ _ _ _ _ "Suc fuel"])
  qed
qed

lemma send_tcp_ack_raw_run:
  assumes lk: "link_ok lk" and x: "get_state f dst src = Some x"
    and mtu: "40 < src_mtu_of f (ip src)" "src_mtu_of f (ip src) \<le> 65535" and mss: "mss = src_mtu_of f (ip src) - 40"
    and start: "is_fin \<or> I 0 (tx_sequence x)"
    and step: "\<And>i n. mss * i < length payload \<Longrightarrow> I i n \<Longrightarrow> I (i + 1) (advanced n (segment_end sequence payload mss i))"
  obtains f' ss n where "send_tcp_ack_raw lk f dst src sequence payload is_fin = Some (Ok (), f')"
    and "fw_sent f' = fw_sent f @ ss" and "segments dst src (tx_acknowledgement x) is_fin sequence mss 0 payload ss"
    and "same_but_sequence f dst src f'" and "get_state f' dst src = Some (x\<lparr>tx_sequence := n\<rparr>)"
    and "is_fin \<or> (\<exists>j. length payload \<le> mss * j \<and> I j n)"
proof -
  have "usub (src_mtu_of f (ip src)) (ipv4_minimum_len + tcp_minimum_len) = Some mss"
    using mtu by (simp add: mss usub_def ipv4_minimum_len_def tcp_minimum_len_def)
  then have run: "send_tcp_ack_raw lk f dst src sequence payload is_fin =
      ack_raw_loop lk dst src sequence payload is_fin mss (length payload) 0 f"
    by (simp add: send_tcp_ack_raw_def)
  have "0 < mss" "40 + mss \<le> 65535" "length payload - mss * 0 \<le> length payload" using mtu mss by simp_all
  from ack_raw_loop_ok [where I = I, OF lk this(1,2) x this(3) start step] obtain f' ss n where
    "ack_raw_loop lk dst src sequence payload is_fin mss (length payload) 0 f = Some (Ok (), f')"
    "fw_sent f' = fw_sent f @ ss" "segments dst src (tx_acknowledgement x) is_fin sequence mss 0 payload ss"
    "same_but_sequence f dst src f'" "get_state f' dst src = Some (x\<lparr>tx_sequence := n\<rparr>)"
    "is_fin \<or> (\<exists>j. length payload \<le> mss * j \<and> I j n)"
    by auto
  with run show ?thesis by (intro that [of f' ss n]) simp_all
qed

text \<open>New data, which starts at the sequence number and moves it to the end of the data.\<close>

lemma send_tcp_ack_raw_ok:
  assumes lk: "link_ok lk" and x: "get_state f dst src = Some x"
    and mtu: "40 < src_mtu_of f (ip src)" "src_mtu_of f (ip src) \<le> 65535"
  obtains f' ss s where "send_tcp_ack_raw lk f dst src sequence payload is_fin = Some (Ok (), f')"
    and "fw_sent f' = fw_sent f @ ss"
    and "segments dst src (tx_acknowledgement x) is_fin sequence (src_mtu_of f (ip src) - 40) 0 payload ss"
    and "same_but_sequence f dst src f'" and "get_state f' dst src = Some (x\<lparr>tx_sequence := s\<rparr>)"
    and "\<not> is_fin \<Longrightarrow> length payload \<le> MAX_U32_WINDOW_SIZE \<Longrightarrow> tx_sequence x = sequence \<Longrightarrow>
      s = seq_adv sequence (length payload)"
proof -
  let ?mss = "src_mtu_of f (ip src) - 40"
  define I where "I i n \<longleftrightarrow> (length payload \<le> MAX_U32_WINDOW_SIZE \<and> tx_sequence x = sequence \<longrightarrow>
    n = seq_adv sequence (min (?mss * i) (length payload)))" for i n
  have step: "I (i + 1) (advanced n (segment_end sequence payload ?mss i))" if more: "?mss * i < length payload" and "I i n" for i n
  proof -
    have "advanced (seq_adv sequence (?mss * i)) (segment_end sequence payload ?mss i) = seq_adv sequence (min (?mss * (i + 1)) (length payload))"
      if "length payload \<le> MAX_U32_WINDOW_SIZE"
    proof -
      have "advanced (seq_adv sequence (?mss * i)) (segment_end sequence payload ?mss i) = segment_end sequence payload ?mss i"
        unfolding segment_end_def mult.commute [of i] using that by (intro advanced_adv) simp
      with segment_end_eq [OF more, of 0 sequence] that show ?thesis by (simp add: MAX_U32_WINDOW_SIZE_def)
    qed
    with that show ?thesis by (simp add: I_def)
  qed
  have start: "is_fin \<or> I 0 (tx_sequence x)" by (simp add: I_def)
  show ?thesis
    by (rule send_tcp_ack_raw_run [where I = I, OF lk x mtu refl start step]; assumption?) (rule that, assumption+, auto simp: I_def)
qed

text \<open>Data that has been sent before, which leaves the sequence number where it is.\<close>

lemma send_tcp_ack_raw_again:
  assumes lk: "link_ok lk" and x: "get_state f dst src = Some x"
    and mtu: "40 < src_mtu_of f (ip src)" "src_mtu_of f (ip src) \<le> 65535"
    and e: "tx_sequence x = seq_adv s e" "p + length payload \<le> e" "e \<le> p + MAX_U32_WINDOW_SIZE" "e + MAX_U32_WINDOW_SIZE < 4294967295"
  obtains f' ss where "send_tcp_ack_raw lk f dst src (seq_adv s p) payload False = Some (Ok (), f')"
    and "fw_sent f' = fw_sent f @ ss"
    and "segments dst src (tx_acknowledgement x) False (seq_adv s p) (src_mtu_of f (ip src) - 40) 0 payload ss"
    and "same_but_sequence f dst src f'" and "get_state f' dst src = Some x"
proof -
  let ?mss = "src_mtu_of f (ip src) - 40"
  have step: "advanced n (segment_end (seq_adv s p) payload ?mss i) = tx_sequence x"
    if "?mss * i < length payload" "n = tx_sequence x" for i n
  proof -
    let ?n = "min (?mss * (i + 1)) (length payload)"
    have "segment_end (seq_adv s p) payload ?mss i = seq_adv s (p + ?n)"
      using segment_end_eq [OF that(1), of p s] e by simp
    moreover have "p + ?n \<le> e" "e \<le> p + ?n + MAX_U32_WINDOW_SIZE" using e by linarith+
    ultimately show ?thesis using e that(2) by (simp add: advanced_behind)
  qed
  show ?thesis
    by (rule send_tcp_ack_raw_run [where I = "\<lambda>_ n. n = tx_sequence x" and is_fin = False, OF lk x mtu refl disjI2 [OF refl] step]; assumption?)
      (rule that; auto)
qed

lemma segments_payload:
  assumes "segments dst src ack is_fin sequence mss i payload ss" and "0 < mss"
  shows "concat (map sent_payload ss) = payload"
    and "\<forall>s\<in>set ss. 0 < length (sent_payload s) \<and> length (sent_payload s) \<le> mss"
proof -
  show "concat (map sent_payload ss) = payload"
    using assms by (simp add: segments_def concat_chunks)
  have "sent_payload s \<in> set (chunks mss payload)" if "s \<in> set ss" for s
    using assms(1) that by (metis image_eqI list.set_map segments_def)
  then show "\<forall>s\<in>set ss. 0 < length (sent_payload s) \<and> length (sent_payload s) \<le> mss"
    using chunks_bounded by blast
qed

text \<open>The first \<open>k\<close> iterations of the loop, and the loop with \<open>k\<close> more fuel after them.\<close>

fun ack_raw_iterations :: "link \<Rightarrow> socket_addr_v4 \<Rightarrow> socket_addr_v4 \<Rightarrow> u32 \<Rightarrow> u8 list \<Rightarrow> bool \<Rightarrow> usize \<Rightarrow> nat
    \<Rightarrow> forwarder \<Rightarrow> (unit, forwarder) outcome" where
  "ack_raw_iterations lk dst src sequence payload is_fin mss 0 f = Some (Ok (), f)"
| "ack_raw_iterations lk dst src sequence payload is_fin mss (Suc k) f =
     and_then (ack_raw_iterations lk dst src sequence payload is_fin mss k f)
       (\<lambda>_ f. ack_raw_iteration lk dst src sequence payload is_fin mss k f)"

text \<open>With an MSS above zero the fuel is enough: more of it does not change what the loop does.\<close>

lemma ack_raw_loop_fuel:
  assumes "0 < mss"
  shows "length payload \<le> mss * i + fuel \<Longrightarrow> ack_raw_loop lk dst src sequence payload is_fin mss (fuel + k) i f =
    ack_raw_loop lk dst src sequence payload is_fin mss fuel i f"
proof (induction fuel arbitrary: i f)
  case 0
  then show ?case by (simp add: ack_raw_loop.simps)
next
  case (Suc fuel)
  have "ack_raw_loop lk dst src sequence payload is_fin mss (fuel + k) (i + 1) =
      ack_raw_loop lk dst src sequence payload is_fin mss fuel (i + 1)"
    using Suc.prems assms by (intro ext Suc.IH) (simp add: algebra_simps)
  then show ?case by (simp add: ack_raw_loop.simps [of _ _ _ _ _ _ _ "Suc _"])
qed

text \<open>With an MSS of zero the loop sends empty segments and makes no progress.\<close>

lemma ack_raw_iterations_stuck:
  assumes lk: "link_ok lk" and x: "get_state f dst src = Some x" and payload: "payload \<noteq> []"
  shows "\<exists>f' ss n. ack_raw_iterations lk dst src sequence payload is_fin 0 k f = Some (Ok (), f') \<and>
    fw_sent f' = fw_sent f @ ss \<and> length ss = k \<and> (\<forall>s\<in>set ss. sent_payload s = []) \<and>
    get_state f' dst src = Some (x\<lparr>tx_sequence := n\<rparr>)"
proof (induction k)
  case 0
  show ?case using x by (intro exI [of _ f] exI [of _ "[]"] exI [of _ "tx_sequence x"]) simp
next
  case (Suc k)
  then obtain f1 ss n where 1: "ack_raw_iterations lk dst src sequence payload is_fin 0 k f = Some (Ok (), f1)" "fw_sent f1 = fw_sent f @ ss"
      "length ss = k" "\<forall>s\<in>set ss. sent_payload s = []" "get_state f1 dst src = Some (x\<lparr>tx_sequence := n\<rparr>)" by blast
  obtain f2 s n' where 2: "ack_raw_iteration lk dst src sequence payload is_fin 0 k f1 = Some (Ok (), f2)"
      "fw_sent f2 = fw_sent f1 @ [s]" "sent_payload s = take 0 (drop (0 * k) payload)"
      "get_state f2 dst src = Some ((x\<lparr>tx_sequence := n\<rparr>)\<lparr>tx_sequence := n'\<rparr>)"
    by (rule ack_raw_iteration_ok [OF lk _ 1(5), of 0 k payload sequence is_fin]) (use payload in auto)
  with 1 show ?case by (intro exI [of _ f2] exI [of _ "ss @ [s]"] exI [of _ n']) simp
qed

lemma ack_raw_loop_stuck:
  assumes lk: "link_ok lk" and "get_state f dst src = Some x" and "payload \<noteq> []"
  shows "ack_raw_loop lk dst src sequence payload is_fin 0 fuel i f = None"
  using assms(2)
proof (induction fuel arbitrary: i f x)
  case 0
  then show ?case using assms(3) by (simp add: ack_raw_loop.simps)
next
  case (Suc fuel)
  obtain f' n where "ack_raw_iteration lk dst src sequence payload is_fin 0 i f = Some (Ok (), f')"
      "get_state f' dst src = Some (x\<lparr>tx_sequence := n\<rparr>)"
    by (rule ack_raw_iteration_ok [OF lk _ Suc.prems, of 0 i payload sequence is_fin]) (use assms(3) in auto)
  with Suc.IH [of f' _ "i + 1"] assms(3) show ?case by (simp add: ack_raw_loop.simps [of _ _ _ _ _ _ _ "Suc fuel"])
qed

section \<open>Properties of the TCP sender\<close>

text \<open>A link and a Forwarder for the witnesses.\<close>

definition sample_link :: link where
  "sample_link = \<lparr>lk_pnet = sample_pnet\<lparr>pn_udp_set_payload := \<lambda>p b. Some (take 8 b @ p @ drop (8 + length p) b)\<rparr>,
     lk_send = \<lambda>_ _. Some (Ok ())\<rparr>"

lemma sample_link_ok: "link_ok sample_link"
  by (auto simp: link_ok_def sample_link_def pnet_ok_def pnet_sizes_def pnet_puts_def pnet_setters_def
      pnet_payloads_def tcp_sizes_ok_def keeps_def sample_put_def sample_pnet_def split: if_splits)

definition sample_forwarder :: forwarder where
  "sample_forwarder = \<lparr>fw_src_mtu = Map.empty, fw_local_mtu = 43, fw_src_hardware_addr = Map.empty,
     fw_local_hardware_addr = [], fw_local_ip_addr = 9, fw_ipv4_identification_map = Map.empty,
     fw_states = [(SocketAddrV4 1 80, SocketAddrV4 2 443) \<mapsto> sample_tx\<lparr>tx_cache_fin := None\<rparr>], fw_sent = []\<rparr>"

lemma sample_forwarder_state:
  "get_state sample_forwarder (SocketAddrV4 2 443) (SocketAddrV4 1 80) = Some (sample_tx\<lparr>tx_cache_fin := None\<rparr>)"
  "src_mtu_of sample_forwarder a = 43"
  by (simp_all add: get_state_def src_mtu_of_def sample_forwarder_def)

text \<open>
  A payload is cut into segments that carry all of it, in order and once: with a path MTU above
  40 bytes \<open>send_tcp_ack_raw\<close> returns, the payloads of the segments put together are the payload,
  none is empty or larger than the MTU less the headers, and the sequence number of the \<open>k\<close>-th
  segment is \<open>k\<close> segment sizes after the first.
\<close>

theorem tcp_segmentation:
  assumes "link_ok lk" and "get_state f dst src = Some x"
    and "40 < src_mtu_of f (ip src)" and "src_mtu_of f (ip src) \<le> 65535"
  shows "\<exists>f' ss. send_tcp_ack_raw lk f dst src sequence payload is_fin = Some (Ok (), f') \<and>
    fw_sent f' = fw_sent f @ ss \<and> concat (map sent_payload ss) = payload \<and>
    (\<forall>s\<in>set ss. 0 < length (sent_payload s) \<and> length (sent_payload s) \<le> src_mtu_of f (ip src) - 40) \<and>
    (\<forall>k<length ss. \<exists>t. sent_tcp (ss ! k) = Some t \<and> tcp_acknowledgement (tcp_layer t) = tx_acknowledgement x \<and>
      tcp_sequence (tcp_layer t) = seq_adv sequence (k * (src_mtu_of f (ip src) - 40)))"
proof -
  let ?mss = "src_mtu_of f (ip src) - 40"
  obtain f' ss where run: "send_tcp_ack_raw lk f dst src sequence payload is_fin = Some (Ok (), f')"
      "fw_sent f' = fw_sent f @ ss"
      "segments dst src (tx_acknowledgement x) is_fin sequence ?mss 0 payload ss"
    by (rule send_tcp_ack_raw_ok [OF assms, of sequence payload is_fin])
  have "0 < ?mss" using assms(3) by simp
  note pay = segments_payload [OF run(3) this]
  have "\<forall>k<length ss. \<exists>t. sent_tcp (ss ! k) = Some t \<and> tcp_acknowledgement (tcp_layer t) = tx_acknowledgement x \<and>
      tcp_sequence (tcp_layer t) = seq_adv sequence (k * ?mss)"
    using run(3) by (fastforce simp: segments_def segment_header_def)
  with run(1,2) pay show ?thesis by blast
qed

theorem tcp_segmentation_witness:
  "\<exists>f' ss. send_tcp_ack_raw sample_link sample_forwarder (SocketAddrV4 2 443) (SocketAddrV4 1 80) 9
      [1, 2, 3, 4, 5, 6, 7] False = Some (Ok (), f') \<and> fw_sent f' = ss \<and>
    concat (map sent_payload ss) = [1, 2, 3, 4, 5, 6, 7] \<and> (\<forall>s\<in>set ss. length (sent_payload s) \<le> 3)"
proof -
  have mtu: "40 < src_mtu_of sample_forwarder (ip (SocketAddrV4 1 80))"
    "src_mtu_of sample_forwarder (ip (SocketAddrV4 1 80)) \<le> 65535"
    by (simp_all add: sample_forwarder_state)
  have "fw_sent sample_forwarder = []" by (simp add: sample_forwarder_def)
  with tcp_segmentation [OF sample_link_ok sample_forwarder_state(1) mtu, of 9 "[1, 2, 3, 4, 5, 6, 7]" False]
  show ?thesis by (auto simp: sample_forwarder_state(2))
qed

text \<open>
  C32. Every segment of a payload that ends with a FIN carries the FIN flag, not only the last one:
  the test for the last segment compares with the length of the segment, because the inner
  \<open>payload\<close> shadows the whole.
\<close>

theorem tcp_fin_on_every_segment:
  assumes "link_ok lk" and "get_state f dst src = Some x"
    and "40 < src_mtu_of f (ip src)" and "src_mtu_of f (ip src) \<le> 65535"
  shows "\<exists>f' ss. send_tcp_ack_raw lk f dst src sequence payload True = Some (Ok (), f') \<and>
    fw_sent f' = fw_sent f @ ss \<and> map sent_payload ss = chunks (src_mtu_of f (ip src) - 40) payload \<and>
    (\<forall>s\<in>set ss. \<exists>t. sent_tcp s = Some t \<and> tcp_is_fin t)"
proof -
  obtain f' ss where run: "send_tcp_ack_raw lk f dst src sequence payload True = Some (Ok (), f')"
      "fw_sent f' = fw_sent f @ ss"
      "segments dst src (tx_acknowledgement x) True sequence (src_mtu_of f (ip src) - 40) 0 payload ss"
    by (rule send_tcp_ack_raw_ok [OF assms, of sequence payload True])
  have "\<forall>s\<in>set ss. \<exists>t. sent_tcp s = Some t \<and> tcp_is_fin t"
    using run(3) by (force simp: segments_def segment_header_def in_set_conv_nth)
  with run show ?thesis by (auto simp: segments_def)
qed

theorem tcp_fin_on_every_segment_witness:
  "\<exists>f' ss. send_tcp_ack_raw sample_link sample_forwarder (SocketAddrV4 2 443) (SocketAddrV4 1 80) 9
      [1, 2, 3, 4] True = Some (Ok (), f') \<and> fw_sent f' = ss \<and> map sent_payload ss = [[1, 2, 3], [4]] \<and>
    (\<forall>s\<in>set ss. \<exists>t. sent_tcp s = Some t \<and> tcp_is_fin t)"
proof -
  have mtu: "40 < src_mtu_of sample_forwarder (ip (SocketAddrV4 1 80))"
    "src_mtu_of sample_forwarder (ip (SocketAddrV4 1 80)) \<le> 65535"
    by (simp_all add: sample_forwarder_state)
  have "fw_sent sample_forwarder = []" "chunks 3 [1, 2, 3, 4] = [[1, 2, 3], [4 :: u8]]"
    by (simp_all add: sample_forwarder_def chunks_step)
  with tcp_fin_on_every_segment [OF sample_link_ok sample_forwarder_state(1) mtu, of 9 "[1, 2, 3, 4]"]
  show ?thesis by (auto simp: sample_forwarder_state(2))
qed

text \<open>
  C30. A path MTU of 40 bytes, which a peer sets by an MSS option of zero, makes the segmentation loop of
  \<open>send_tcp_ack_raw\<close> run forever: for every \<open>k\<close> the first \<open>k\<close> iterations all return without a panic and without an error, each
  sends a segment with no payload, and the condition of the loop still holds after them. So no amount of fuel lets
  the loop return.
\<close>

theorem tcp_zero_mss_never_returns:
  assumes "link_ok lk" and "get_state f dst src = Some x" and "payload \<noteq> []"
    and "src_mtu_of f (ip src) = 40"
  shows "\<exists>mss. usub (src_mtu_of f (ip src)) (ipv4_minimum_len + tcp_minimum_len) = Some mss \<and>
    (\<forall>k. \<exists>f' ss. ack_raw_iterations lk dst src sequence payload is_fin mss k f = Some (Ok (), f') \<and>
      fw_sent f' = fw_sent f @ ss \<and> length ss = k \<and> list_all (\<lambda>s. sent_payload s = []) ss \<and> mss * k < length payload) \<and>
    (\<forall>fuel. ack_raw_loop lk dst src sequence payload is_fin mss fuel 0 f = None)"
proof (intro exI [of _ 0] conjI allI)
  show "usub (src_mtu_of f (ip src)) (ipv4_minimum_len + tcp_minimum_len) = Some 0"
    using assms(4) by (simp add: usub_def ipv4_minimum_len_def tcp_minimum_len_def)
  show "\<exists>f' ss. ack_raw_iterations lk dst src sequence payload is_fin 0 k f = Some (Ok (), f') \<and>
      fw_sent f' = fw_sent f @ ss \<and> length ss = k \<and> list_all (\<lambda>s. sent_payload s = []) ss \<and> 0 * k < length payload" for k
    using ack_raw_iterations_stuck [OF assms(1-3), of sequence is_fin k] assms(3) by (auto simp: list_all_iff)
qed (rule ack_raw_loop_stuck [OF assms(1-3)])

theorem tcp_zero_mss_never_returns_witness:
  "\<exists>f' ss. ack_raw_iterations sample_link (SocketAddrV4 2 443) (SocketAddrV4 1 80) 9 [1] False 0 1000 (sample_forwarder\<lparr>fw_local_mtu := 40\<rparr>) =
      Some (Ok (), f') \<and> fw_sent f' = ss \<and> length ss = 1000 \<and> list_all (\<lambda>s. sent_payload s = []) ss"
proof -
  have "get_state (sample_forwarder\<lparr>fw_local_mtu := 40\<rparr>) (SocketAddrV4 2 443) (SocketAddrV4 1 80) =
      Some (sample_tx\<lparr>tx_cache_fin := None\<rparr>)"
    "src_mtu_of (sample_forwarder\<lparr>fw_local_mtu := 40\<rparr>) (ip (SocketAddrV4 1 80)) = 40"
    by (simp_all add: get_state_def src_mtu_of_def sample_forwarder_def)
  with tcp_zero_mss_never_returns [OF sample_link_ok this(1) _ this(2), of "[1]" 9 False]
  have "\<forall>k. \<exists>f' ss. ack_raw_iterations sample_link (SocketAddrV4 2 443) (SocketAddrV4 1 80) 9 [1] False 0 k (sample_forwarder\<lparr>fw_local_mtu := 40\<rparr>) =
      Some (Ok (), f') \<and> fw_sent f' = fw_sent (sample_forwarder\<lparr>fw_local_mtu := 40\<rparr>) @ ss \<and> length ss = k \<and> list_all (\<lambda>s. sent_payload s = []) ss"
    by (auto simp: usub_def ipv4_minimum_len_def tcp_minimum_len_def)
  from this [rule_format, of 1000] show ?thesis by (simp add: sample_forwarder_def)
qed

section \<open>Sending from the queue\<close>

lemma send_size_bounds:
  assumes "send_size f src x = Some n"
  shows "n \<le> length (tx_queue x)" and "n \<le> 65535"
    and "0 < n \<Longrightarrow> q_size (tx_cache x) + n \<le> tx_send_window x"
  using assms
  by (auto simp: send_size_def ENABLE_SEND_SWS_AVOID_def usub_def checked_sub_nat_def Let_def
      split: if_splits)

lemma send_size_total:
  "40 < src_mtu_of f (ip src) \<Longrightarrow> \<exists>n. send_size f src x = Some n"
  by (simp add: send_size_def ENABLE_SEND_SWS_AVOID_def usub_def ipv4_minimum_len_def
      tcp_minimum_len_def Let_def)

lemma set_state_get [simp]:
  "get_state (set_state f dst src x) dst src = Some x"
  "src_mtu_of (set_state f dst src x) a = src_mtu_of f a"
  "fw_sent (set_state f dst src x) = fw_sent f"
  "fw_local_mtu (set_state f dst src x) = fw_local_mtu f"
  "fw_states (set_state f dst src x) = (fw_states f)((src, dst) \<mapsto> x)"
  by (simp_all add: get_state_def set_state_def src_mtu_of_def)

text \<open>Moving \<open>n\<close> bytes into the cache and sending them.\<close>

lemma send_queued_ok:
  assumes lk: "link_ok lk" and x: "get_state f dst src = Some x" and ok: "tx_ok x"
    and n: "n \<le> length (tx_queue x)" "n \<le> 65535" "q_size (tx_cache x) + n \<le> q_capacity (tx_cache x)"
    and mtu: "40 < src_mtu_of f (ip src)" "src_mtu_of f (ip src) \<le> 65535"
  obtains f' ss x' where "send_queued lk f dst src n now = Some (Ok (), f')"
    and "fw_sent f' = fw_sent f @ ss" and "concat (map sent_payload ss) = take n (tx_queue x)"
    and "get_state f' dst src = Some x'" and "tx_ok x'" and "tx_bytes x' = tx_bytes x"
    and "queue_bytes (tx_cache x') = queue_bytes (tx_cache x) @ take n (tx_queue x)"
    and "tx_queue x' = drop n (tx_queue x)"
    and "\<not> (drop n (tx_queue x) = [] \<and> tx_queue_fin x) \<Longrightarrow>
      tx_sequence x' = seq_adv (tx_sequence x) n"
    and "0 < n \<Longrightarrow> \<exists>t. ss \<noteq> [] \<and> sent_tcp (hd ss) = Some t \<and> tcp_sequence (tcp_layer t) = tx_sequence x"
proof -
  obtain cache where cache: "append_cache x n now = Some (Ok (take n (tx_queue x)),
        x\<lparr>tx_queue := drop n (tx_queue x), tx_cache := cache\<rparr>)" "queue_inv cache"
      "queue_bytes cache = queue_bytes (tx_cache x) @ take n (tx_queue x)"
    by (rule append_cache_ok [OF ok n(1,3), of now])
  define x1 where "x1 = x\<lparr>tx_queue := drop n (tx_queue x), tx_cache := cache\<rparr>"
  define fin where "fin \<longleftrightarrow> drop n (tx_queue x) = [] \<and> tx_queue_fin x"
  define x2 where "x2 = (if fin then append_cache_fin x1 now else x1)"
  let ?p = "take n (tx_queue x)"
  have ok1: "tx_ok x1" using ok cache(2) by (simp add: tx_ok_def rto_ok_def x1_def)
  then have ok2: "tx_ok x2" by (simp add: x2_def tx_ok_simple)
  have x2: "tx_cache x2 = cache" "tx_queue x2 = drop n (tx_queue x)" "tx_sequence x2 = tx_sequence x"
    by (auto simp: x2_def x1_def append_cache_fin_def update_fin_timer_def Let_def)
  have st: "get_state (set_state (set_state f dst src x1) dst src x2) dst src = Some x2" by simp
  have mtu': "40 < src_mtu_of (set_state (set_state f dst src x1) dst src x2) (ip src)"
    "src_mtu_of (set_state (set_state f dst src x1) dst src x2) (ip src) \<le> 65535" using mtu by simp_all
  have run: "send_queued lk f dst src n now =
      send_tcp_ack_raw lk (set_state (set_state f dst src x1) dst src x2) dst src (tx_sequence x) ?p fin"
    using cache(1) x
    by (auto simp: send_queued_def fin_def x2_def Let_def simp flip: x1_def)
      (simp_all add: x1_def set_state_def append_cache_fin_def update_fin_timer_def Let_def)
  obtain f' ss s where snd: "send_tcp_ack_raw lk (set_state (set_state f dst src x1) dst src x2) dst src
        (tx_sequence x) ?p fin = Some (Ok (), f')"
      "fw_sent f' = fw_sent (set_state (set_state f dst src x1) dst src x2) @ ss"
      "segments dst src (tx_acknowledgement x2) fin (tx_sequence x)
        (src_mtu_of (set_state (set_state f dst src x1) dst src x2) (ip src) - 40) 0 ?p ss"
      "get_state f' dst src = Some (x2\<lparr>tx_sequence := s\<rparr>)"
      "\<not> fin \<Longrightarrow> length ?p \<le> MAX_U32_WINDOW_SIZE \<Longrightarrow> tx_sequence x2 = tx_sequence x \<Longrightarrow>
        s = seq_adv (tx_sequence x) (length ?p)"
    by (rule send_tcp_ack_raw_ok [OF lk st mtu', of "tx_sequence x" ?p fin]) (rule that; simp)
  have mss: "0 < src_mtu_of (set_state (set_state f dst src x1) dst src x2) (ip src) - 40" using mtu by simp
  note pay = segments_payload [OF snd(3) mss]
  have hd: "\<exists>t. ss \<noteq> [] \<and> sent_tcp (hd ss) = Some t \<and> tcp_sequence (tcp_layer t) = tx_sequence x" if "0 < n"
  proof -
    have "ss \<noteq> []" using pay(1) that n(1) by force
    with snd(3) show ?thesis by (cases ss) (force simp: segments_def segment_header_def)+
  qed
  show ?thesis
  proof (rule that)
    show "send_queued lk f dst src n now = Some (Ok (), f')" using run snd(1) by simp
    show "fw_sent f' = fw_sent f @ ss" using snd(2) by simp
    show "concat (map sent_payload ss) = take n (tx_queue x)" by (rule pay(1))
    show "get_state f' dst src = Some (x2\<lparr>tx_sequence := s\<rparr>)" by (rule snd(4))
    show "tx_ok (x2\<lparr>tx_sequence := s\<rparr>)" using ok2 by (simp add: tx_ok_def rto_ok_def)
    show "tx_bytes (x2\<lparr>tx_sequence := s\<rparr>) = tx_bytes x" by (simp add: tx_bytes_def x2 cache(3))
    show "tx_sequence (x2\<lparr>tx_sequence := s\<rparr>) = seq_adv (tx_sequence x) n"
      if "\<not> (drop n (tx_queue x) = [] \<and> tx_queue_fin x)"
      using snd(5) that n by (simp add: fin_def x2 MAX_U32_WINDOW_SIZE_def)
  qed (use x2 cache(3) hd in simp_all)
qed

lemma send_tcp_fin_ok:
  assumes lk: "link_ok lk" and x: "get_state f dst src = Some x"
  obtains s where "send_tcp_fin lk f dst src = Some (Ok (), after_send f (ip dst) (ip src) s)"
    and "sent_payload s = []"
proof -
  obtain w where w: "get_tcp_window f dst src = Some w" by (simp add: get_tcp_window_def x)
  define t where "t = tcp_new_fin (port dst) (port src) (tx_sequence x) (tx_acknowledgement x) w None"
  have "pnet_ok (lk_pnet lk)" using lk by (simp add: link_ok_def)
  moreover have "tcp_options (tcp_layer t) = []" "tcp_data_offset (tcp_layer t) = 5"
    by (simp_all add: t_def tcp_new_fin_def) (simp_all add: tcp_new_ack_def tcp_from_def)
  ultimately have fits: "transport_fits (lk_pnet lk) (Some (LTcp t)) 20 (length (unwrap_or (None :: u8 list option) []))"
    by (simp add: transport_fits_def tcp_len_eq pnet_ok_def pnet_sizes_def)
  obtain s where s: "send_ipv4_with_transport lk f (ip dst) (ip src) (LTcp t) None =
        Some (Ok (), after_send f (ip dst) (ip src) s)" "sent_payload s = []"
    by (rule send_ipv4_with_transport_ok [OF lk fits, of f "ip dst" "ip src"]) auto
  then show ?thesis using x w by (intro that [of s]) (simp_all add: send_tcp_fin_def t_def)
qed

lemma send_queued_fin_ok:
  assumes lk: "link_ok lk" and x: "get_state f dst src = Some x" and ok: "tx_ok x"
  obtains f' ss x' where "send_queued_fin lk f dst src now = Some (Ok (), f')"
    and "fw_sent f' = fw_sent f @ ss" and "concat (map sent_payload ss) = []"
    and "get_state f' dst src = Some x'" and "tx_ok x'" and "tx_cache x' = tx_cache x"
    and "tx_queue x' = tx_queue x"
proof (cases "tx_queue_fin x \<and> queue_is_empty (tx_cache x)")
  case False
  with x ok show ?thesis by (intro that [of f "[]" x]) (auto simp: send_queued_fin_def)
next
  case True
  let ?x = "append_cache_fin x now"
  let ?f = "set_state f dst src ?x"
  have st: "get_state ?f dst src = Some ?x" by simp
  obtain s where s: "send_tcp_fin lk ?f dst src = Some (Ok (), after_send ?f (ip dst) (ip src) s)"
      "sent_payload s = []"
    by (rule send_tcp_fin_ok [OF lk st])
  have "send_queued_fin lk f dst src now = Some (Ok (), after_send ?f (ip dst) (ip src) s)"
    using True x s(1) by (simp add: send_queued_fin_def)
  moreover have "tx_ok ?x" by (rule tx_ok_simple(8) [OF ok])
  moreover have "tx_cache ?x = tx_cache x" "tx_queue ?x = tx_queue x"
    by (simp_all add: append_cache_fin_def update_fin_timer_def Let_def)
  ultimately show ?thesis
    by (intro that [of "after_send ?f (ip dst) (ip src) s" "[s]" ?x]) (use s(2) in simp_all)
qed

lemma send_tcp_ack_ok:
  assumes "link_ok lk" and "get_state f dst src = Some x" and "tx_ok x" and "tx_cache_syn x = None"
    and "tx_send_window x \<le> q_capacity (tx_cache x)"
    and "40 < src_mtu_of f (ip src)" and "src_mtu_of f (ip src) \<le> 65535"
  shows "\<exists>f' ss x' n. send_tcp_ack lk f dst src now = Some (Ok (), f') \<and> get_state f' dst src = Some x' \<and>
    (if 0 < tx_send_window x then send_size f src x = Some n else n = 0) \<and> tx_ok x' \<and> fw_sent f' = fw_sent f @ ss \<and> concat (map sent_payload ss) = take n (tx_queue x) \<and>
    queue_bytes (tx_cache x') = queue_bytes (tx_cache x) @ take n (tx_queue x) \<and>
    tx_queue x' = drop n (tx_queue x) \<and>
    (0 < n \<longrightarrow> length (queue_bytes (tx_cache x')) \<le> tx_send_window x \<and>
      (\<exists>t. sent_tcp (hd ss) = Some t \<and> tcp_sequence (tcp_layer t) = tx_sequence x))"
proof -
  have "\<exists>n. (if 0 < tx_send_window x then send_size f src x = Some n else n = 0) \<and>
    n \<le> length (tx_queue x) \<and> n \<le> 65535 \<and> (0 < n \<longrightarrow> q_size (tx_cache x) + n \<le> tx_send_window x) \<and>
    send_tcp_ack lk f dst src now = and_then
      (if 0 < n then send_queued lk f dst src n now else Some (Ok (), f))
      (\<lambda>_ f. send_queued_fin lk f dst src now)"
  proof (cases "0 < tx_send_window x")
    case True
    obtain n where n: "send_size f src x = Some n"
      using send_size_total [OF assms(6)] by blast
    note send_size_bounds [OF n]
    moreover have "send_tcp_ack lk f dst src now = and_then
        (if 0 < n then send_queued lk f dst src n now else Some (Ok (), f))
        (\<lambda>_ f. send_queued_fin lk f dst src now)"
      using True n assms(2,4) by (simp add: send_tcp_ack_def)
    ultimately show ?thesis using True n by auto
  next
    case False
    with assms(2,4) show ?thesis by (intro exI [of _ 0]) (simp add: send_tcp_ack_def)
  qed
  then obtain n where sz: "if 0 < tx_send_window x then send_size f src x = Some n else n = 0"
    and n: "n \<le> length (tx_queue x)" "n \<le> 65535"
      "0 < n \<Longrightarrow> q_size (tx_cache x) + n \<le> tx_send_window x"
    and run: "send_tcp_ack lk f dst src now = and_then
      (if 0 < n then send_queued lk f dst src n now else Some (Ok (), f))
      (\<lambda>_ f. send_queued_fin lk f dst src now)" by blast
  obtain f1 ss1 x1 where q: "(if 0 < n then send_queued lk f dst src n now else Some (Ok (), f)) = Some (Ok (), f1)"
      "fw_sent f1 = fw_sent f @ ss1" "concat (map sent_payload ss1) = take n (tx_queue x)"
      "get_state f1 dst src = Some x1" "tx_ok x1"
      "queue_bytes (tx_cache x1) = queue_bytes (tx_cache x) @ take n (tx_queue x)"
      "tx_queue x1 = drop n (tx_queue x)"
      "0 < n \<Longrightarrow> \<exists>t. ss1 \<noteq> [] \<and> sent_tcp (hd ss1) = Some t \<and> tcp_sequence (tcp_layer t) = tx_sequence x"
  proof (cases "0 < n")
    case False
    with assms(2,3) show ?thesis by (intro that [of f "[]" x]) simp_all
  next
    case True
    have cap: "q_size (tx_cache x) + n \<le> q_capacity (tx_cache x)" using n(3) True assms(5) by simp
    show ?thesis
      by (rule send_queued_ok [OF assms(1-3) n(1,2) cap assms(6,7), of now]) (rule that; simp add: True)
  qed
  obtain f2 ss2 x2 where fin: "send_queued_fin lk f1 dst src now = Some (Ok (), f2)"
      "fw_sent f2 = fw_sent f1 @ ss2" "concat (map sent_payload ss2) = []"
      "get_state f2 dst src = Some x2" "tx_ok x2" "tx_cache x2 = tx_cache x1" "tx_queue x2 = tx_queue x1"
    by (rule send_queued_fin_ok [OF assms(1) q(4,5), of now])
  have "length (queue_bytes (tx_cache x)) = q_size (tx_cache x)"
    by (simp add: queue_bytes_def)
  then have "length (queue_bytes (tx_cache x2)) \<le> tx_send_window x" if "0 < n"
    using n that by (simp add: fin(6) q(6))
  moreover have "\<exists>t. sent_tcp (hd (ss1 @ ss2)) = Some t \<and> tcp_sequence (tcp_layer t) = tx_sequence x" if "0 < n"
    using q(8) [OF that] by (auto simp: hd_append)
  moreover have "send_tcp_ack lk f dst src now = Some (Ok (), f2)" using run q(1) fin(1) by simp
  ultimately show ?thesis
    using q fin sz by (intro exI [of _ f2] exI [of _ "ss1 @ ss2"] exI [of _ x2] exI [of _ n]) simp
qed

text \<open>
  C10. Sending from the queue: on a valid connection whose SYN has been acknowledged, \<open>send_tcp_ack\<close>
  returns without error; what it sends is the next bytes of the queue, in order; these bytes move
  to the end of the send cache, so that nothing is lost; it never sends more than the peer's window
  allows, and the data starts at the current sequence number.
\<close>

theorem send_tcp_ack_correct:
  assumes "link_ok lk" and "get_state f dst src = Some x" and "tx_ok x" and "tx_cache_syn x = None"
    and "tx_send_window x \<le> q_capacity (tx_cache x)"
    and "40 < src_mtu_of f (ip src)" and "src_mtu_of f (ip src) \<le> 65535"
  shows "\<exists>f' ss x' n. send_tcp_ack lk f dst src now = Some (Ok (), f') \<and> get_state f' dst src = Some x' \<and>
    (if 0 < tx_send_window x then send_size f src x = Some n else n = 0) \<and> tx_ok x' \<and> fw_sent f' = fw_sent f @ ss \<and> concat (map sent_payload ss) = take n (tx_queue x) \<and>
    queue_bytes (tx_cache x') = queue_bytes (tx_cache x) @ take n (tx_queue x) \<and>
    tx_queue x' = drop n (tx_queue x) \<and>
    (0 < n \<longrightarrow> length (queue_bytes (tx_cache x')) \<le> tx_send_window x \<and>
      (\<exists>t. sent_tcp (hd ss) = Some t \<and> tcp_sequence (tcp_layer t) = tx_sequence x))"
  by (rule send_tcp_ack_ok [OF assms])

theorem send_tcp_ack_correct_witness:
  "\<exists>f' x'. send_tcp_ack sample_link
      (set_state sample_forwarder (SocketAddrV4 2 443) (SocketAddrV4 1 80) (sample_tx\<lparr>tx_send_window := 9\<rparr>))
      (SocketAddrV4 2 443) (SocketAddrV4 1 80) 4 = Some (Ok (), f') \<and>
    get_state f' (SocketAddrV4 2 443) (SocketAddrV4 1 80) = Some x' \<and>
    concat (map sent_payload (fw_sent f')) = [3, 4, 5] \<and> tx_queue x' = []"
proof -
  let ?x = "sample_tx\<lparr>tx_send_window := 9\<rparr>"
  let ?f = "set_state sample_forwarder (SocketAddrV4 2 443) (SocketAddrV4 1 80) ?x"
  have state: "get_state ?f (SocketAddrV4 2 443) (SocketAddrV4 1 80) = Some ?x" by simp
  have ok: "tx_ok ?x" using sample_tx_ok by (simp add: tx_ok_def rto_ok_def)
  have x: "tx_cache_syn ?x = None" "tx_send_window ?x \<le> q_capacity (tx_cache ?x)"
    "tx_queue ?x = [3, 4, 5]" "0 < tx_send_window ?x"
    by (simp_all add: sample_tx_def sample_queue_1_def)
  have mtu: "40 < src_mtu_of ?f (ip (SocketAddrV4 1 80))" "src_mtu_of ?f (ip (SocketAddrV4 1 80)) \<le> 65535"
    by (simp_all add: sample_forwarder_state)
  have n: "send_size ?f (SocketAddrV4 1 80) ?x = Some 3"
    using mtu by (simp add: send_size_def sample_tx_def sample_queue_1_def ENABLE_SEND_SWS_AVOID_def usub_def
        checked_sub_nat_def ipv4_minimum_len_def tcp_minimum_len_def sample_forwarder_state Let_def)
  obtain f' ss x' n where *: "send_tcp_ack sample_link ?f (SocketAddrV4 2 443) (SocketAddrV4 1 80) 4 = Some (Ok (), f')"
      "get_state f' (SocketAddrV4 2 443) (SocketAddrV4 1 80) = Some x'"
      "if 0 < tx_send_window ?x then send_size ?f (SocketAddrV4 1 80) ?x = Some n else n = 0"
      "fw_sent f' = fw_sent ?f @ ss" "concat (map sent_payload ss) = take n (tx_queue ?x)"
      "tx_queue x' = drop n (tx_queue ?x)"
    using send_tcp_ack_correct [OF sample_link_ok state ok x(1,2) mtu, of 4] by (elim exE conjE)
  have "n = 3" using *(3) n x(4) by simp
  moreover have "fw_sent ?f = []" by (simp add: sample_forwarder_def)
  ultimately show ?thesis using *(1,2,4-6) x(3)
    by (intro exI [of _ f'] exI [of _ x']) simp
qed

end
