(* ===== verification/Fragments.thy ===== *)
theory Fragments
  imports Delivery "HOL-Library.Multiset"
begin

text \<open>
  IPv4 fragmentation of UDP datagrams by \<open>Forwarder::send_udp\<close>, and the round trip through the
  \<open>Defraggler\<close>: what the sender cuts, the receiver puts together again, in any order of arrival.
\<close>

section \<open>One fragment\<close>

text \<open>The fragment a frame carries, as the \<open>Defraggler\<close> sees it.\<close>

definition sent_part :: "sent \<Rightarrow> indicator \<times> u8 list" where
  "sent_part s = (fst s, sent_payload s)"

text \<open>The header all the fragments of one datagram have.\<close>

definition fragment_header :: "ipv4_addr \<Rightarrow> ipv4_addr \<Rightarrow> u16 \<Rightarrow> sent \<Rightarrow> bool" where
  "fragment_header dst src ident s \<longleftrightarrow> (\<exists>e i. indicator_ethernet (fst s) = Some e \<and>
     sent_ipv4 s = Some i \<and> ip_options i = [] \<and> ip_next_level_protocol i = Protocols_Udp \<and>
     frag_key_of i = (dst, src, Ipv4_kind, ident))"

lemma fragment_frame_ok:
  assumes lk: "link_ok lk" and fit: "20 + length part \<le> 65535" and opts: "ip_options i = []"
  obtains s e where "send_ethernet lk f hw (LIpv4 i) None (Some part) =
      Some (Ok (), f\<lparr>fw_sent := fw_sent f @ [s]\<rparr>)"
    and "sent_payload s = part" and "sent_ipv4 s = Some i" and "indicator_ethernet (fst s) = Some e"
proof -
  define e where "e = \<lparr>eth_destination = hw, eth_source = fw_local_hardware_addr f,
    eth_ethertype = EtherTypes_Ipv4\<rparr>"
  define ind where "ind = indicator_new (LEthernet e) (Some (LIpv4 i)) None"
  have eth: "ethernet_new Ipv4_kind (fw_local_hardware_addr f) hw = Some e"
    by (simp add: ethernet_new_def e_def layer_kind_defs)
  have fits: "transport_fits (lk_pnet lk) None 0 (length (unwrap_or (Some part) []))"
    using fit by (simp add: transport_fits_def)
  obtain frame where fr: "fw_send_frame lk f ind (Some part) =
      Some (Ok (), f\<lparr>fw_sent := fw_sent f @ [(ind, unwrap_or (Some part) [], frame)]\<rparr>)"
    by (rule datagram_send [OF lk opts fits ind_def])
  show ?thesis
    by (rule that [of "(ind, part, frame)" e])
      (use fr eth in \<open>simp_all add: send_ethernet_def fw_send_with_payload_def sent_payload_def sent_ipv4_def
        ind_def indicator_new_def indicator_ipv4_def indicator_ethernet_def\<close>)
qed

lemma send_fragment_ok:
  assumes lk: "link_ok lk" and fit: "20 + length part \<le> 65535"
  obtains s f' i where "(if mf then send_ipv4_with_fragment lk f dst src Udp_kind off part
        else send_ipv4_with_last_fragment lk f dst src Udp_kind off part) = Some (Ok (), f')"
    and "fw_sent f' = fw_sent f @ [s]" and "sent_payload s = part"
    and "fragment_header dst src (ipv4_identification_of f dst src) s"
    and "sent_ipv4 s = Some i" and "ip_fragment_offset i = off" and "ipv4_is_more_fragment i \<longleftrightarrow> mf"
    and "mf \<Longrightarrow> ipv4_identification_of f' dst src = ipv4_identification_of f dst src"
proof -
  define i0 where "i0 = the (ipv4_new (ipv4_identification_of f dst src) Udp_kind dst src)"
  have i0: "ipv4_new (ipv4_identification_of f dst src) Udp_kind dst src = Some i0" "ip_options i0 = []"
      "ip_next_level_protocol i0 = Protocols_Udp" "frag_key_of i0 = (dst, src, Ipv4_kind, ipv4_identification_of f dst src)"
      "ip_flags i0 = 0"
    by (simp_all add: i0_def ipv4_new_def frag_key_of_def)
  define i where "i = (if mf then i0\<lparr>ip_flags := MoreFragments, ip_fragment_offset := off\<rparr>
    else i0\<lparr>ip_fragment_offset := off\<rparr>)"
  have i: "ip_options i = []" "ip_next_level_protocol i = Protocols_Udp"
      "frag_key_of i = (dst, src, Ipv4_kind, ipv4_identification_of f dst src)"
      "ip_fragment_offset i = off" "ipv4_is_more_fragment i \<longleftrightarrow> mf"
    using i0 by (simp_all add: i_def ipv4_is_more_fragment_def MoreFragments_def frag_key_of_def)
  obtain s e where s: "send_ethernet lk f (src_hardware_addr_of f src) (LIpv4 i) None (Some part) =
        Some (Ok (), f\<lparr>fw_sent := fw_sent f @ [s]\<rparr>)"
      "sent_payload s = part" "sent_ipv4 s = Some i" "indicator_ethernet (fst s) = Some e"
    by (rule fragment_frame_ok [OF lk fit i(1)])
  define f' where "f' = (if mf then f\<lparr>fw_sent := fw_sent f @ [s]\<rparr> else after_send f dst src s)"
  have "(if mf then send_ipv4_with_fragment lk f dst src Udp_kind off part
        else send_ipv4_with_last_fragment lk f dst src Udp_kind off part) = Some (Ok (), f')"
    using i0(1) s(1) by (cases mf) (simp_all add: send_ipv4_with_fragment_def send_ipv4_with_last_fragment_def
        ipv4_new_more_fragment_def ipv4_new_last_fragment_def i_def f'_def after_send_def)
  then show ?thesis
    by (rule that [of f' s i])
      (use i s in \<open>auto simp: f'_def fragment_header_def ipv4_identification_of_def\<close>)
qed

section \<open>The loop\<close>

text \<open>
  With at least sixteen bytes of room each iteration sends a non-empty part of whole eight-byte
  units, or the rest.
\<close>

lemma fragment_length_ok:
  assumes "16 \<le> mss" and "n < total_len"
  obtains len remain where "fragment_length total_len mss n = Some (len, remain)"
    and "0 < len" and "len \<le> mss" and "n + len \<le> total_len"
    and "0 < remain \<longleftrightarrow> n + len < total_len" and "0 < remain \<Longrightarrow> len mod 8 = 0"
proof (cases "total_len - n \<le> mss")
  case True
  with assms show ?thesis
    by (intro that [of "total_len - n" 0]) (auto simp: fragment_length_def min_def Let_def)
next
  case False
  define k where "k = mss div 8"
  have k: "2 \<le> k" "8 * k \<le> mss" using assms(1) by (auto simp: k_def)
  define len where "len = (if total_len - n - k * 8 < 8 then k * 8 - 8 else k * 8)"
  have rem: "0 < total_len - n - k * 8" "0 < total_len - n - mss" using False k by auto
  have len: "0 < len" "len \<le> mss" "n + len < total_len" "len mod 8 = 0"
    using k False by (auto simp: len_def mod_eq_0_iff_dvd intro: dvd_diff_nat)
  have "fragment_length total_len mss n = Some (len, total_len - n - k * 8)"
    using False rem k by (auto simp: fragment_length_def usub_def len_def k_def min_def Let_def)
  then show ?thesis
    by (rule that) (use len rem in auto)
qed

text \<open>One iteration of the loop sends one fragment of the buffer.\<close>

lemma fragment_step:
  assumes lk: "link_ok lk" and mss: "16 \<le> mss" "20 + mss \<le> 65535" and buf: "length buffer \<le> 65535"
    and n: "n < length buffer" "n mod 8 = 0"
  obtains f' s len where "0 < len" and "n + len \<le> length buffer" and "(n + len) mod 8 = 0 \<or> n + len = length buffer"
    and "fragment_loop lk dst src Udp_kind buffer (length buffer) mss (Suc fuel) n f =
      fragment_loop lk dst src Udp_kind buffer (length buffer) mss fuel (n + len) f'"
    and "fw_sent f' = fw_sent f @ [s]" and "is_fragment_of buffer (sent_part s)" and "frag_positions (sent_part s) = {n..<n + len}"
    and "length (sent_payload s) = len" and "len \<le> mss"
    and "fragment_header (ip dst) (ip src) (ipv4_identification_of f (ip dst) (ip src)) s"
    and "n + len < length buffer \<Longrightarrow> ipv4_identification_of f' (ip dst) (ip src) = ipv4_identification_of f (ip dst) (ip src)"
proof -
  obtain len remain where len: "fragment_length (length buffer) mss n = Some (len, remain)"
      "0 < len" "len \<le> mss" "n + len \<le> length buffer" "0 < remain \<longleftrightarrow> n + len < length buffer"
      "0 < remain \<Longrightarrow> len mod 8 = 0"
    by (rule fragment_length_ok [OF mss(1) n(1)]) (rule that; (assumption | blast))
  define part where "part = take len (drop n buffer)"
  have part: "length part = len" "subslice buffer n (n + len) = Some part"
    using len(4) by (simp_all add: part_def subslice_def)
  have fit: "20 + length part \<le> 65535" using part len mss by simp
  obtain s f1 i where s: "(if 0 < remain
        then send_ipv4_with_fragment lk f (ip dst) (ip src) Udp_kind (of_nat (n div 8)) part
        else send_ipv4_with_last_fragment lk f (ip dst) (ip src) Udp_kind (of_nat (n div 8)) part) =
          Some (Ok (), f1)"
      "fw_sent f1 = fw_sent f @ [s]" "sent_payload s = part"
      "fragment_header (ip dst) (ip src) (ipv4_identification_of f (ip dst) (ip src)) s"
      "sent_ipv4 s = Some i" "ip_fragment_offset i = of_nat (n div 8)" "ipv4_is_more_fragment i \<longleftrightarrow> 0 < remain"
      "0 < remain \<Longrightarrow> ipv4_identification_of f1 (ip dst) (ip src) = ipv4_identification_of f (ip dst) (ip src)"
    by (rule send_fragment_ok [OF lk fit, of "0 < remain" f "ip dst" "ip src" "of_nat (n div 8)"])
      (rule that; (assumption | blast))
  have "unat (of_nat (n div 8) :: u16) = n div 8" using n(1) buf by (simp add: unat_of_nat take_bit_nat_eq_self)
  then have off: "frag_offset (fst s) = n" using s(5,6) n(2) by (auto simp: frag_offset_def sent_ipv4_def)
  have "n + len = length buffer \<longleftrightarrow> \<not> ipv4_is_more_fragment i" "part \<noteq> []" using s(7) len(2,4,5) part(1) by auto
  then have frag: "is_fragment_of buffer (sent_part s)"
    using s(3,5) part(1) off len(4) by (simp add: is_fragment_of_def sent_part_def sent_ipv4_def) (simp add: part_def)
  have "(n + len) mod 8 = 0 \<or> n + len = length buffer" using len(4,5,6) n(2) by (auto simp: mod_add_eq [symmetric])
  moreover have "fragment_loop lk dst src Udp_kind buffer (length buffer) mss (Suc fuel) n f =
      fragment_loop lk dst src Udp_kind buffer (length buffer) mss fuel (n + len) f1"
    using n(1) len(1) part(2) s(1) by (subst fragment_loop.simps) simp
  moreover have "frag_positions (sent_part s) = {n..<n + len}" using s(3) part(1) off by (simp add: sent_part_def frag_positions_def)
  ultimately show ?thesis using that [of len f1 s] len s(2,3,4,8) part(1) frag by simp
qed

lemma fragment_loop_ok:
  assumes lk: "link_ok lk" and mss: "16 \<le> mss" "20 + mss \<le> 65535"
    and buf: "length buffer \<le> 65535"
    and "n \<le> length buffer" and "n mod 8 = 0 \<or> n = length buffer" and "length buffer - n \<le> fuel"
  shows "\<exists>f' ss. fragment_loop lk dst src Udp_kind buffer (length buffer) mss fuel n f = Some (Ok (), f') \<and>
    fw_sent f' = fw_sent f @ ss \<and> list_all (is_fragment_of buffer) (map sent_part ss) \<and>
    parts_positions (map sent_part ss) = {n..<length buffer} \<and>
    parts_length (map sent_part ss) = length buffer - n \<and>
    (\<forall>s\<in>set ss. length (sent_payload s) \<le> mss \<and>
      fragment_header (ip dst) (ip src) (ipv4_identification_of f (ip dst) (ip src)) s)"
  using assms(5-)
proof (induction fuel arbitrary: n f)
  case 0
  then show ?case by (subst fragment_loop.simps) simp
next
  case (Suc fuel)
  show ?case
  proof (cases "n < length buffer")
    case False
    with Suc.prems show ?thesis by (subst fragment_loop.simps) simp
  next
    case True
    then have n8: "n mod 8 = 0" using Suc.prems(2) by simp
    obtain f1 s len where step: "0 < len" "n + len \<le> length buffer" "(n + len) mod 8 = 0 \<or> n + len = length buffer"
        "fragment_loop lk dst src Udp_kind buffer (length buffer) mss (Suc fuel) n f =
          fragment_loop lk dst src Udp_kind buffer (length buffer) mss fuel (n + len) f1"
        "fw_sent f1 = fw_sent f @ [s]" "is_fragment_of buffer (sent_part s)" "frag_positions (sent_part s) = {n..<n + len}"
        "length (sent_payload s) = len" "len \<le> mss" "fragment_header (ip dst) (ip src) (ipv4_identification_of f (ip dst) (ip src)) s"
        "n + len < length buffer \<Longrightarrow> ipv4_identification_of f1 (ip dst) (ip src) = ipv4_identification_of f (ip dst) (ip src)"
      by (rule fragment_step [OF lk mss buf True n8]) (rule that; (assumption | blast))
    have "length buffer - (n + len) \<le> fuel" using step(1) Suc.prems(3) by simp
    from Suc.IH [OF step(2,3) this, of f1] obtain f' ss where rest:
      "fragment_loop lk dst src Udp_kind buffer (length buffer) mss fuel (n + len) f1 = Some (Ok (), f')"
      "fw_sent f' = fw_sent f1 @ ss" "list_all (is_fragment_of buffer) (map sent_part ss)"
      "parts_positions (map sent_part ss) = {n + len..<length buffer}"
      "parts_length (map sent_part ss) = length buffer - (n + len)"
      "\<forall>s\<in>set ss. length (sent_payload s) \<le> mss \<and>
        fragment_header (ip dst) (ip src) (ipv4_identification_of f1 (ip dst) (ip src)) s"
      by blast
    have hdr: "fragment_header (ip dst) (ip src) (ipv4_identification_of f (ip dst) (ip src)) s'" if "s' \<in> set ss" for s'
    proof -
      have "0 < length (snd (sent_part s'))" using that rest(3) by (auto simp: list_all_iff is_fragment_of_def)
      also have "\<dots> \<le> parts_length (map sent_part ss)" using that unfolding parts_length_def by (intro member_le_sum_list) auto
      finally show ?thesis using rest(5,6) that step(11) by simp
    qed
    have "parts_positions (map sent_part (s # ss)) = {n..<length buffer}" using step(2,7) rest(4) by (auto simp: ivl_disj_un)
    moreover have "parts_length (map sent_part (s # ss)) = length buffer - n"
      using rest(5) step(2,8) by (simp add: sent_part_def)
    ultimately show ?thesis using step(4,5,6,8,9,10) rest(1,2,3,6) hdr
      by (intro exI [of _ f'] exI [of _ "s # ss"]) auto
  qed
qed

lemma fragments_of_perm:
  assumes "fragments_of P ps" and "mset qs = mset ps"
  shows "fragments_of P qs"
proof -
  have "set qs = set ps" using assms(2) by (rule mset_eq_setD)
  moreover have "parts_length qs = parts_length ps"
    unfolding parts_length_def by (simp flip: sum_mset_sum_list add: assms(2))
  ultimately show ?thesis
    using assms(1) by (simp add: fragments_of_def list_all_iff parts_positions_def)
qed

section \<open>The whole datagram\<close>

text \<open>The UDP datagram as bytes, as \<open>send_udp\<close> builds it before cutting it.\<close>

definition udp_datagram :: "pnet \<Rightarrow> socket_addr_v4 \<Rightarrow> socket_addr_v4 \<Rightarrow> u8 list \<Rightarrow> u8 list option" where
  "udp_datagram pn dst src payload = do {
     ipv4 \<leftarrow> ipv4_new 0 Udp_kind (ip dst) (ip src);
     (r, buffer) \<leftarrow> udp_serialize pn (udp_set_ipv4_layer (udp_new (port dst) (port src)) ipv4) (Some payload)
       (replicate (8 + length payload) 0) (8 + length payload);
     Some buffer
   }"

lemma send_udp_fragments:
  assumes lk: "link_ok lk" and mtu: "36 \<le> src_mtu_of f (ip src)" "src_mtu_of f (ip src) \<le> 65535"
    and len: "src_mtu_of f (ip src) < 28 + length payload" "8 + length payload \<le> 65535"
  obtains f' ss buffer where "send_udp lk f dst src payload = Some (Ok (), f')"
    and "fw_sent f' = fw_sent f @ ss" and "udp_datagram (lk_pnet lk) dst src payload = Some buffer"
    and "length buffer = 8 + length payload" and "fragments_of buffer (map sent_part ss)"
    and "\<forall>s\<in>set ss. length (sent_payload s) \<le> src_mtu_of f (ip src) - 20 \<and>
      fragment_header (ip dst) (ip src) (ipv4_identification_of f (ip dst) (ip src)) s"
proof -
  let ?n = "8 + length payload" and ?mss = "src_mtu_of f (ip src) - 20"
  have pn: "pnet_ok (lk_pnet lk)" using lk by (simp add: link_ok_def)
  obtain i where i: "ipv4_new 0 Udp_kind (ip dst) (ip src) = Some i" by (simp add: ipv4_new_def)
  let ?u = "udp_set_ipv4_layer (udp_new (port dst) (port src)) i"
  have fit: "8 + length (unwrap_or (Some payload) []) \<le> length (replicate ?n (0 :: u8))" by simp
  obtain m buffer where ser: "udp_serialize (lk_pnet lk) ?u (Some payload) (replicate ?n 0) ?n = Some (Ok m, buffer)"
      "length buffer = length (replicate ?n (0 :: u8))"
    by (rule udp_serialize_ok [OF pn fit len(2)])
  have buf: "length buffer = ?n" using ser(2) by simp
  have dg: "udp_datagram (lk_pnet lk) dst src payload = Some buffer"
    using i ser(1) by (simp add: udp_datagram_def)
  have "usub (src_mtu_of f (ip src)) 20 = Some ?mss" "\<not> ?n \<le> ?mss"
    "pn_udp_size (lk_pnet lk) (udp_layer ?u) = 8"
    using mtu len pn by (auto simp: usub_def pnet_ok_def pnet_sizes_def)
  then have run: "send_udp lk f dst src payload =
      fragment_loop lk dst src Udp_kind buffer ?n ?mss ?n 0 f"
    using i ser(1) by (simp add: send_udp_def udp_minimum_len_def ipv4_minimum_len_def Let_def)
  have mss: "16 \<le> ?mss" "20 + ?mss \<le> 65535" "length buffer \<le> 65535" using mtu len buf by auto
  obtain f' ss where "fragment_loop lk dst src Udp_kind buffer (length buffer) ?mss ?n 0 f = Some (Ok (), f')"
      "fw_sent f' = fw_sent f @ ss" "list_all (is_fragment_of buffer) (map sent_part ss)"
      "parts_positions (map sent_part ss) = {0..<length buffer}"
      "parts_length (map sent_part ss) = length buffer - 0"
      "\<forall>s\<in>set ss. length (sent_payload s) \<le> ?mss \<and>
        fragment_header (ip dst) (ip src) (ipv4_identification_of f (ip dst) (ip src)) s"
    using fragment_loop_ok [OF lk mss le0 disjI1 [OF mod_0], of ?n dst src f] buf by auto
  then show ?thesis
    using run dg buf by (intro that [of f' ss buffer]) (simp_all add: fragments_of_def atLeast0LessThan)
qed

section \<open>Properties\<close>

text \<open>
  C12. Fragmentation round trip: a UDP datagram larger than the path MTU (of at least 36 bytes) is
  sent without error as fragments with one identification, none larger than the MTU less the IPv4
  header; and a \<open>Defraggler\<close> with no entry for that key that receives frames carrying these
  fragments in any order, within its expiry time, returns the whole datagram with the last of them.
\<close>

theorem udp_fragmentation_roundtrip:
  assumes "link_ok lk" and "36 \<le> src_mtu_of f (ip src)" and "src_mtu_of f (ip src) \<le> 65535"
    and "src_mtu_of f (ip src) < 28 + length payload" and "8 + length payload \<le> 65535"
  shows "\<exists>f' ss buffer. send_udp lk f dst src payload = Some (Ok (), f') \<and> fw_sent f' = fw_sent f @ ss \<and>
    ss \<noteq> [] \<and> udp_datagram (lk_pnet lk) dst src payload = Some buffer \<and> length buffer = 8 + length payload \<and>
    (\<forall>s\<in>set ss. length (sent_payload s) \<le> src_mtu_of f (ip src) - 20 \<and>
      fragment_header (ip dst) (ip src) (ipv4_identification_of f (ip dst) (ip src)) s) \<and>
    (\<forall>ps frs pn d start key. mset ps = mset (map sent_part ss) \<longrightarrow> list_all2 (carries pn key start) ps frs \<longrightarrow>
      snd (snd (hd frs)) = start \<longrightarrow> frags d key = None \<longrightarrow>
      (\<exists>g d'. defrag_run pn d frs = Some (replicate (length ps - 1) None @ [Some g], d') \<and>
        take (frag_length g) (frag_buffer g) = buffer))"
proof -
  obtain f' ss buffer where run: "send_udp lk f dst src payload = Some (Ok (), f')"
      "fw_sent f' = fw_sent f @ ss" "udp_datagram (lk_pnet lk) dst src payload = Some buffer"
      "length buffer = 8 + length payload" "fragments_of buffer (map sent_part ss)"
      "\<forall>s\<in>set ss. length (sent_payload s) \<le> src_mtu_of f (ip src) - 20 \<and>
        fragment_header (ip dst) (ip src) (ipv4_identification_of f (ip dst) (ip src)) s"
    by (rule send_udp_fragments [OF assms])
  have "\<exists>g d'. defrag_run pn d frs = Some (replicate (length ps - 1) None @ [Some g], d') \<and>
        take (frag_length g) (frag_buffer g) = buffer"
    if "mset ps = mset (map sent_part ss)" "list_all2 (carries pn key start) ps frs"
      "snd (snd (hd frs)) = start" "frags d key = None" for ps frs pn d start key
  proof -
    have ps: "fragments_of buffer ps" by (rule fragments_of_perm [OF run(5) that(1)])
    then have "parts_length ps = 8 + length payload" using run(4) by (simp add: fragments_of_def)
    then have ne: "ps \<noteq> []" by auto
    have "length buffer \<le> 65535" using run(4) assms(5) by simp
    from defrag_run_fragments [OF ps ne this that(2-4)] obtain g d' where
      "defrag_run pn d frs = Some (replicate (length ps - 1) None @ [Some g], d')"
      "take (frag_length g) (frag_buffer g) = buffer" by (elim exE conjE)
    then show ?thesis by (intro exI conjI)
  qed
  note rt = this
  show ?thesis
  proof (intro exI conjI)
    show "send_udp lk f dst src payload = Some (Ok (), f')" by (rule run(1))
    show "fw_sent f' = fw_sent f @ ss" by (rule run(2))
    have "parts_length (map sent_part ss) = 8 + length payload" using run(4,5) by (simp add: fragments_of_def)
    then show "ss \<noteq> []" by auto
    show "udp_datagram (lk_pnet lk) dst src payload = Some buffer" by (rule run(3))
    show "length buffer = 8 + length payload" by (rule run(4))
  qed (use run(6) rt in blast)+
qed

text \<open>The fragments of a datagram of 48 bytes, arriving in reverse order.\<close>

lemma sample_frames_carry:
  assumes "\<forall>s\<in>set ss. fragment_header dst src ident s"
  shows "list_all2 (carries sample_pnet (dst, src, Ipv4_kind, ident) 5) (map sent_part ss)
    (map (\<lambda>s. (fst s, replicate 34 0 @ sent_payload s, 5)) ss)"
proof -
  have "carries sample_pnet (dst, src, Ipv4_kind, ident) 5 (sent_part s)
      (fst s, replicate 34 0 @ sent_payload s, 5)" if s: "s \<in> set ss" for s
  proof -
    obtain e i where "indicator_ethernet (fst s) = Some e" "sent_ipv4 s = Some i" "ip_options i = []"
        "frag_key_of i = (dst, src, Ipv4_kind, ident)"
      using assms s by (auto simp: fragment_header_def)
    then show ?thesis
      by (simp add: carries_def sent_part_def sent_ipv4_def ipv4_len_def as_millis_def EXPIRE_TIME_def sample_pnet_def)
  qed
  then show ?thesis by (simp add: list_all2_conv_all_nth)
qed

theorem udp_fragmentation_roundtrip_witness:
  "\<exists>f' g d'. send_udp sample_link sample_forwarder (SocketAddrV4 2 443) (SocketAddrV4 1 80) (replicate 40 7) =
      Some (Ok (), f') \<and>
    defrag_run sample_pnet defraggler_new
      (map (\<lambda>s. (fst s, replicate 34 0 @ sent_payload s, 5)) (rev (fw_sent f'))) =
        Some (replicate (length (fw_sent f') - 1) None @ [Some g], d') \<and>
    length (take (frag_length g) (frag_buffer g)) = 48"
proof -
  let ?dst = "SocketAddrV4 2 443" and ?src = "SocketAddrV4 1 80"
  have mtu: "36 \<le> src_mtu_of sample_forwarder (ip ?src)" "src_mtu_of sample_forwarder (ip ?src) \<le> 65535"
    "src_mtu_of sample_forwarder (ip ?src) < 28 + length (replicate 40 (7 :: u8))"
    "8 + length (replicate 40 (7 :: u8)) \<le> 65535"
    by (simp_all add: sample_forwarder_state)
  let ?key = "(ip ?dst, ip ?src, Ipv4_kind, ipv4_identification_of sample_forwarder (ip ?dst) (ip ?src))"
  obtain f' ss buffer where run: "send_udp sample_link sample_forwarder ?dst ?src (replicate 40 7) = Some (Ok (), f')"
      "fw_sent f' = fw_sent sample_forwarder @ ss" "ss \<noteq> []" "length buffer = 8 + length (replicate 40 (7 :: u8))"
      "\<forall>s\<in>set ss. length (sent_payload s) \<le> src_mtu_of sample_forwarder (ip ?src) - 20 \<and>
        fragment_header (ip ?dst) (ip ?src) (ipv4_identification_of sample_forwarder (ip ?dst) (ip ?src)) s"
    and rt: "\<forall>ps frs pn d start key. mset ps = mset (map sent_part ss) \<longrightarrow>
      list_all2 (carries pn key start) ps frs \<longrightarrow> snd (snd (hd frs)) = start \<longrightarrow> frags d key = None \<longrightarrow>
      (\<exists>g d'. defrag_run pn d frs = Some (replicate (length ps - 1) None @ [Some g], d') \<and>
        take (frag_length g) (frag_buffer g) = buffer)"
    using udp_fragmentation_roundtrip [OF sample_link_ok mtu, of ?dst] by (elim exE conjE)
  let ?frs = "map (\<lambda>s. (fst s, replicate 34 0 @ sent_payload s, 5)) (rev ss)"
  have sent: "fw_sent f' = ss" using run(2) by (simp add: sample_forwarder_def)
  have 1: "list_all2 (carries sample_pnet ?key 5) (map sent_part (rev ss)) ?frs"
    by (rule sample_frames_carry) (use run(5) in simp)
  have 2: "mset (map sent_part (rev ss)) = mset (map sent_part ss)" by simp
  have 3: "snd (snd (hd ?frs)) = 5" using run(3) by (simp add: hd_map)
  have 4: "frags defraggler_new ?key = None" by (simp add: defraggler_new_def)
  obtain g d' where "defrag_run sample_pnet defraggler_new ?frs =
        Some (replicate (length (map sent_part (rev ss)) - 1) None @ [Some g], d')"
      "take (frag_length g) (frag_buffer g) = buffer"
    using rt [rule_format, OF 2 1 3 4] by (elim exE conjE)
  with run(1,4) sent show ?thesis by (intro exI [of _ f'] exI [of _ g] exI [of _ d']) simp
qed

end
