(* ===== verification/Retransmit.thy ===== *)
theory Retransmit
  imports Delivery
begin

text \<open>
  Retransmission by the \<open>Forwarder\<close>: after duplicate acknowledgements with selective ranges, and
  after a timeout. What is sent again is related to the bytes of the send cache.
\<close>

section \<open>Segments at their place in the cache\<close>

text \<open>The payload of a segment is what the cache holds at the sequence number of the segment.\<close>

definition at_its_place :: "queue \<Rightarrow> sent \<Rightarrow> bool" where
  "at_its_place q s \<longleftrightarrow> (\<exists>t k. sent_tcp s = Some t \<and> tcp_sequence (tcp_layer t) = seq_adv (q_sequence q) k \<and>
     k + length (sent_payload s) \<le> q_size q \<and>
     sent_payload s = take (length (sent_payload s)) (drop k (queue_bytes q)))"

lemma chunks_nth:
  "k < length (chunks n xs) \<Longrightarrow> chunks n xs ! k = take n (drop (k * n) xs)"
proof (induction n xs arbitrary: k rule: chunks.induct)
  case (1 n xs)
  then have *: "n \<noteq> 0" "xs \<noteq> []" by (auto simp: chunks.simps split: if_splits)
  with 1 show ?case by (cases k) (auto simp: chunks_step ac_simps)
qed

lemma take_length_prefix: "ys = take m zs \<Longrightarrow> ys = take (length ys) zs"
  by (simp add: min_def)

lemma segments_at_place:
  assumes seg: "segments dst src ack is_fin (seq_adv (q_sequence q) a) mss 0 (take n (drop a (queue_bytes q))) ss"
    and n: "a + n \<le> q_size q" and small: "q_size q \<le> MAX_U32_WINDOW_SIZE" and s: "s \<in> set ss"
  shows "at_its_place q s"
proof -
  let ?p = "take n (drop a (queue_bytes q))"
  obtain k where k: "k < length ss" "s = ss ! k" using s by (auto simp: in_set_conv_nth)
  have len: "length ss = length (chunks mss ?p)" "map sent_payload ss = chunks mss ?p"
    using seg by (auto simp: segments_def dest: map_eq_imp_length_eq arg_cong [where f = length])
  then have pay: "sent_payload s = take mss (drop (k * mss) ?p)"
    using k chunks_nth [of k mss ?p] by (metis nth_map)
  have ne: "sent_payload s \<noteq> []"
    using chunks_bounded [of "sent_payload s" mss ?p] len(2) s by (metis image_eqI length_greater_0_conv set_map)
  have size: "length (queue_bytes q) = q_size q" by (simp add: queue_bytes_def)
  have lt: "k * mss < n" using ne pay by (auto simp: not_le min_def split: if_splits)
  have "sent_payload s = take (length (sent_payload s)) (drop (a + k * mss) (queue_bytes q))"
    by (rule take_length_prefix [of _ "min mss (n - k * mss)"]) (simp add: pay drop_take ac_simps)
  moreover have "a + k * mss + length (sent_payload s) \<le> q_size q"
    using pay n lt size by auto
  moreover have "seq_adv (seq_adv (q_sequence q) a) (k * mss) = seq_adv (q_sequence q) (a + k * mss)"
    using n lt small by (intro seq.adv_adv) (simp add: MAX_U32_WINDOW_SIZE_def)
  moreover have "segment_header dst src ack is_fin (seq_adv (seq_adv (q_sequence q) a) ((0 + k) * mss)) s"
    using seg k by (simp add: segments_def)
  ultimately show ?thesis by (auto simp: at_its_place_def segment_header_def)
qed

lemma queue_get_range:
  assumes q: "queue_inv q" and r: "fst r \<le> snd r" "snd r \<le> q_size q" and small: "q_size q \<le> MAX_U32_WINDOW_SIZE"
  shows "queue_get q (fst (at_offsets (q_sequence q) r))
      (seq_dist (snd (at_offsets (q_sequence q) r)) (fst (at_offsets (q_sequence q) r))) =
    Some (Ok (take (snd r - fst r) (drop (fst r) (queue_bytes q))))"
proof -
  have wf: "queue_wf q" using q by simp
  have n: "seq_dist (seq_adv (q_sequence q) (snd r)) (seq_adv (q_sequence q) (fst r)) = snd r - fst r"
    using r small by (intro seq_dist_offsets(2)) auto
  have d: "seq_dist (seq_adv (q_sequence q) (fst r)) (q_sequence q) = fst r"
    using r small by (intro seq.dist_adv) (simp add: MAX_U32_WINDOW_SIZE_def)
  show ?thesis
  proof (cases "fst r = snd r")
    case True
    then show ?thesis by (simp add: queue_get_def at_offsets_def n)
  next
    case False
    then show ?thesis
      using queue_get_ok [OF wf, of "seq_adv (q_sequence q) (fst r)" "snd r - fst r"] r d n
      by (simp add: at_offsets_def)
  qed
qed

section \<open>Selective retransmission\<close>

text \<open>
  The state of a connection during a retransmission: only the sequence number may change.
\<close>

lemma same_but_sequence_mtu:
  "same_but_sequence f dst src f' \<Longrightarrow> src_mtu_of f' a = src_mtu_of f a"
  by (simp add: same_but_sequence_def src_mtu_of_def)

lemma retransmit_ranges_ok:
  assumes lk: "link_ok lk" and inv: "queue_inv q" and small: "q_size q \<le> MAX_U32_WINDOW_SIZE"
    and "get_state f dst src = Some x" and "tx_cache x = q"
    and "40 < src_mtu_of f (ip src)" and "src_mtu_of f (ip src) \<le> 65535"
    and "\<forall>r\<in>set rs. fst r \<le> snd r \<and> snd r \<le> q_size q"
  shows "\<exists>f' ss n. retransmit_ranges lk dst src recv_next (map (at_offsets (q_sequence q)) rs) f =
      Some (Ok (), f') \<and> fw_sent f' = fw_sent f @ ss \<and> get_state f' dst src = Some (x\<lparr>tx_sequence := n\<rparr>) \<and>
    concat (map sent_payload ss) = concat (map (\<lambda>r. take (snd r - fst r) (drop (fst r) (queue_bytes q))) rs) \<and>
    (\<forall>s\<in>set ss. at_its_place q s)"
  using assms(4-)
proof (induction rs arbitrary: f x)
  case Nil
  then show ?case by (intro exI [of _ f] exI [of _ "[]"] exI [of _ "tx_sequence x"]) simp
next
  case (Cons r rs)
  define p where "p = take (snd r - fst r) (drop (fst r) (queue_bytes q))"
  let ?rng = "at_offsets (q_sequence q) r"
  have r: "fst r \<le> snd r" "snd r \<le> q_size q" using Cons.prems(5) by simp_all
  note get = queue_get_range [OF inv r small, folded p_def]
  let ?fin = "snd ?rng = recv_next \<and> tx_cache_fin x \<noteq> None"
  have "\<exists>f1 ss1 n. (if length p > 0 then send_tcp_ack_raw lk f dst src (fst ?rng) p ?fin else Some (Ok (), f)) =
      Some (Ok (), f1) \<and> fw_sent f1 = fw_sent f @ ss1 \<and> get_state f1 dst src = Some (x\<lparr>tx_sequence := n\<rparr>) \<and>
    src_mtu_of f1 (ip src) = src_mtu_of f (ip src) \<and> concat (map sent_payload ss1) = p \<and>
    (\<forall>s\<in>set ss1. at_its_place q s)"
  proof (cases "0 < length p")
    case False
    with Cons.prems(1) show ?thesis
      by (intro exI [of _ f] exI [of _ "[]"] exI [of _ "tx_sequence x"]) simp
  next
    case True
    obtain f1 ss1 n where s: "send_tcp_ack_raw lk f dst src (fst ?rng) p ?fin = Some (Ok (), f1)"
        "fw_sent f1 = fw_sent f @ ss1"
        "segments dst src (tx_acknowledgement x) ?fin (fst ?rng) (src_mtu_of f (ip src) - 40) 0 p ss1"
        "same_but_sequence f dst src f1" "get_state f1 dst src = Some (x\<lparr>tx_sequence := n\<rparr>)"
      by (rule send_tcp_ack_raw_ok [OF lk Cons.prems(1,3,4), of "fst ?rng" p ?fin])
    have "\<forall>s\<in>set ss1. at_its_place q s"
      using s(3) r small by (auto simp: at_offsets_def p_def intro!: segments_at_place)
    with True s segments_payload(1) [OF s(3)] Cons.prems(3) same_but_sequence_mtu [OF s(4)] show ?thesis
      by (intro exI [of _ f1] exI [of _ ss1] exI [of _ n]) simp
  qed
  then obtain f1 ss1 n where one: "(if length p > 0 then send_tcp_ack_raw lk f dst src (fst ?rng) p ?fin
        else Some (Ok (), f)) = Some (Ok (), f1)"
      "fw_sent f1 = fw_sent f @ ss1" "get_state f1 dst src = Some (x\<lparr>tx_sequence := n\<rparr>)"
      "src_mtu_of f1 (ip src) = src_mtu_of f (ip src)" "concat (map sent_payload ss1) = p"
      "\<forall>s\<in>set ss1. at_its_place q s" by (elim exE conjE)
  have "tx_cache (x\<lparr>tx_sequence := n\<rparr>) = q" "40 < src_mtu_of f1 (ip src)" "src_mtu_of f1 (ip src) \<le> 65535"
    "\<forall>r\<in>set rs. fst r \<le> snd r \<and> snd r \<le> q_size q"
    using Cons.prems one(4) by simp_all
  from Cons.IH [OF one(3) this] obtain f' ss n' where rest:
      "retransmit_ranges lk dst src recv_next (map (at_offsets (q_sequence q)) rs) f1 = Some (Ok (), f')"
      "fw_sent f' = fw_sent f1 @ ss" "get_state f' dst src = Some (x\<lparr>tx_sequence := n'\<rparr>)"
      "concat (map sent_payload ss) = concat (map (\<lambda>r. take (snd r - fst r) (drop (fst r) (queue_bytes q))) rs)"
      "\<forall>s\<in>set ss. at_its_place q s"
    by auto
  have "retransmit_ranges lk dst src recv_next (map (at_offsets (q_sequence q)) (r # rs)) f = Some (Ok (), f')"
    using Cons.prems(1,2) get one(1) rest(1) by simp
  with one rest show ?case
    by (intro exI [of _ f'] exI [of _ "ss1 @ ss"] exI [of _ n']) (auto simp: p_def)
qed

section \<open>Properties\<close>

lemma retransmit_without_ok:
  assumes "link_ok lk" and "get_state f dst src = Some x" and "tx_ok x"
    and "q_size (tx_cache x) \<le> MAX_U32_WINDOW_SIZE"
    and "40 < src_mtu_of f (ip src)" and "src_mtu_of f (ip src) \<le> 65535"
    and "list_all offsets_ok sacks"
  shows "\<exists>f' ss x'. retransmit_tcp_ack_without lk f dst src (map (at_offsets (q_sequence (tx_cache x))) sacks) =
      Some (Ok (), f') \<and> fw_sent f' = fw_sent f @ ss \<and>
    concat (map sent_payload ss) = nths (queue_bytes (tx_cache x)) (- offset_set sacks) \<and>
    (\<forall>s\<in>set ss. sent_payload s \<noteq> [] \<longrightarrow> at_its_place (tx_cache x) s) \<and>
    get_state f' dst src = Some x' \<and> tx_cache x' = tx_cache x \<and> tx_queue x' = tx_queue x"
proof -
  let ?q = "tx_cache x"
  have inv: "queue_inv ?q" using assms(3) by (simp add: tx_ok_def)
  have size: "length (queue_bytes ?q) = q_size ?q" by (simp add: queue_bytes_def)
  have asc: "ascending [(0, q_size ?q)]" using assms(4) by (simp add: ascending_def offsets_ok_def)
  obtain rs where rs: "remove_sacks (map (at_offsets (q_sequence ?q)) [(0, q_size ?q)])
        (map (at_offsets (q_sequence ?q)) sacks) = map (at_offsets (q_sequence ?q)) rs"
      "refine_ranges [(0, q_size ?q)] rs" "offset_set rs = offset_set [(0, q_size ?q)] - offset_set sacks"
    by (rule remove_sacks_offsets [OF asc assms(7)])
  have in_q: "\<forall>r\<in>set rs. fst r \<le> snd r \<and> snd r \<le> q_size ?q"
    using rs(2) by (auto simp: refine_ranges_def ascending_def offsets_ok_def inside_def list_all_iff)
  have ranges: "remove_sacks [(q_sequence ?q, queue_recv_next ?q)] (map (at_offsets (q_sequence ?q)) sacks) =
      map (at_offsets (q_sequence ?q)) rs"
    using rs(1) by (simp add: at_offsets_def queue_recv_next_def)
  obtain f1 ss1 n where run: "retransmit_ranges lk dst src (queue_recv_next ?q) (map (at_offsets (q_sequence ?q)) rs) f =
        Some (Ok (), f1)" "fw_sent f1 = fw_sent f @ ss1" "get_state f1 dst src = Some (x\<lparr>tx_sequence := n\<rparr>)"
      "concat (map sent_payload ss1) = concat (map (\<lambda>r. take (snd r - fst r) (drop (fst r) (queue_bytes ?q))) rs)"
      "\<forall>s\<in>set ss1. at_its_place ?q s"
    using retransmit_ranges_ok [OF assms(1) inv assms(4,2) refl assms(5,6) in_q, of "queue_recv_next ?q"]
    by (elim exE conjE)
  have "nths (queue_bytes ?q) (offset_set rs) = nths (queue_bytes ?q) (- offset_set sacks)"
    unfolding nths_def by (rule arg_cong [where f = "map fst"], rule filter_cong)
      (auto simp: rs(3) size set_zip)
  then have bytes: "concat (map sent_payload ss1) = nths (queue_bytes ?q) (- offset_set sacks)"
    using run(4) ranges_bytes [of rs "queue_bytes ?q"] rs(2) unfolding refine_ranges_def by argo
  show ?thesis
  proof (cases "rs = [] \<and> tx_cache_fin x \<noteq> None")
    case True
    obtain s where s: "send_tcp_fin lk f1 dst src = Some (Ok (), after_send f1 (ip dst) (ip src) s)"
        "sent_payload s = []"
      by (rule send_tcp_fin_ok [OF assms(1) run(3)])
    with True run bytes ranges assms(2) show ?thesis
      by (intro exI [of _ "after_send f1 (ip dst) (ip src) s"] exI [of _ "ss1 @ [s]"]
          exI [of _ "x\<lparr>tx_sequence := n\<rparr>"])
        (auto simp: retransmit_tcp_ack_without_def)
  next
    case False
    with run bytes ranges assms(2) show ?thesis
      by (intro exI [of _ f1] exI [of _ ss1] exI [of _ "x\<lparr>tx_sequence := n\<rparr>"])
        (auto simp: retransmit_tcp_ack_without_def)
  qed
qed

text \<open>
  C11. Selective retransmission: given ranges the peer has acknowledged selectively, anywhere within
  16 MiB after the first cached byte, \<open>retransmit_tcp_ack_without\<close> returns without error and sends,
  in order and once, exactly the cached bytes outside of these ranges, each segment under the
  sequence number its bytes have in the cache; the cache is not changed.
\<close>

theorem sack_retransmission:
  assumes "link_ok lk" and "get_state f dst src = Some x" and "tx_ok x"
    and "q_size (tx_cache x) \<le> MAX_U32_WINDOW_SIZE"
    and "40 < src_mtu_of f (ip src)" and "src_mtu_of f (ip src) \<le> 65535"
    and "list_all offsets_ok sacks"
  shows "\<exists>f' ss x'. retransmit_tcp_ack_without lk f dst src (map (at_offsets (q_sequence (tx_cache x))) sacks) =
      Some (Ok (), f') \<and> fw_sent f' = fw_sent f @ ss \<and>
    concat (map sent_payload ss) = nths (queue_bytes (tx_cache x)) (- offset_set sacks) \<and>
    (\<forall>s\<in>set ss. sent_payload s \<noteq> [] \<longrightarrow> at_its_place (tx_cache x) s) \<and>
    get_state f' dst src = Some x' \<and> tx_cache x' = tx_cache x \<and> tx_queue x' = tx_queue x"
  by (rule retransmit_without_ok [OF assms])

theorem sack_retransmission_witness:
  "\<exists>f' ss. retransmit_tcp_ack_without sample_link sample_forwarder (SocketAddrV4 2 443) (SocketAddrV4 1 80)
      [at_offsets (q_sequence sample_queue_1) (0, 1)] = Some (Ok (), f') \<and> fw_sent f' = ss \<and>
    concat (map sent_payload ss) = [2]"
proof -
  let ?x = "sample_tx\<lparr>tx_cache_fin := None\<rparr>"
  have ok: "tx_ok ?x" using sample_tx_ok by (simp add: tx_ok_def rto_ok_def)
  have q: "q_size (tx_cache ?x) \<le> MAX_U32_WINDOW_SIZE" "tx_cache ?x = sample_queue_1" "list_all offsets_ok [(0, 1)]"
    by (simp_all add: sample_tx_def sample_queue_1_def MAX_U32_WINDOW_SIZE_def offsets_ok_def)
  have mtu: "40 < src_mtu_of sample_forwarder (ip (SocketAddrV4 1 80))"
    "src_mtu_of sample_forwarder (ip (SocketAddrV4 1 80)) \<le> 65535"
    by (simp_all add: sample_forwarder_state)
  have "nths (queue_bytes sample_queue_1) (- offset_set [(0, 1)]) = [2]"
    by (simp add: queue_bytes_def sample_queue_1_def ring_list_def upt_rec nths_Cons)
  moreover have "fw_sent sample_forwarder = []" by (simp add: sample_forwarder_def)
  ultimately show ?thesis
    using sack_retransmission [OF sample_link_ok sample_forwarder_state(1) ok q(1) mtu q(3)] q(2) by auto
qed

lemma timed_out_rto: "max MAX_RTO (min MIN_RTO r) = MAX_RTO"
  by (simp add: MIN_RTO_def MAX_RTO_def)

lemma double_rto_rto:
  assumes "rto_ok x"
  shows "tx_rto (double_rto x) = min MAX_RTO (2 * tx_rto x)"
  using assms by (simp add: double_rto_def set_rto_def ENABLE_RTO_COMPUTE_def checked_mul_u64_def rto_ok_def
      U64_MAX_def MIN_RTO_def MAX_RTO_def)

lemma double_rto_sel [simp]:
  "tx_cache (double_rto x) = tx_cache x" "tx_queue (double_rto x) = tx_queue x"
  "tx_cache_fin (double_rto x) = tx_cache_fin x"
  "tx_cache (update_fin_timer x now) = tx_cache x" "tx_queue (update_fin_timer x now) = tx_queue x"
  "tx_rto (update_fin_timer x now) = tx_rto x"
  by (simp_all add: double_rto_def set_rto_def update_fin_timer_def Let_def)

text \<open>The branch of \<open>retransmit_tcp_ack_timedout\<close> with data in the cache.\<close>

lemma timedout_data_ok:
  assumes lk: "link_ok lk" and inv: "queue_inv q" and small: "q_size q \<le> MAX_U32_WINDOW_SIZE"
    and z: "get_state f dst src = Some z" and k: "k \<le> q_size q"
    and mtu: "40 < src_mtu_of f (ip src)" "src_mtu_of f (ip src) \<le> 65535"
  obtains f' ss n where "send_tcp_ack_raw lk f dst src (q_sequence q) (take k (queue_bytes q)) fin = Some (Ok (), f')"
    and "fw_sent f' = fw_sent f @ ss" and "concat (map sent_payload ss) = take k (queue_bytes q)"
    and "\<forall>s\<in>set ss. at_its_place q s" and "get_state f' dst src = Some (z\<lparr>tx_sequence := n\<rparr>)"
proof -
  obtain f' ss n where s: "send_tcp_ack_raw lk f dst src (q_sequence q) (take k (queue_bytes q)) fin = Some (Ok (), f')"
      "fw_sent f' = fw_sent f @ ss"
      "segments dst src (tx_acknowledgement z) fin (q_sequence q) (src_mtu_of f (ip src) - 40) 0 (take k (queue_bytes q)) ss"
      "get_state f' dst src = Some (z\<lparr>tx_sequence := n\<rparr>)"
    by (rule send_tcp_ack_raw_ok [OF lk z mtu, of "q_sequence q" "take k (queue_bytes q)" fin])
  have seg: "segments dst src (tx_acknowledgement z) fin (seq_adv (q_sequence q) 0) (src_mtu_of f (ip src) - 40) 0
      (take k (drop 0 (queue_bytes q))) ss" using s(3) by simp
  have "\<forall>s\<in>set ss. at_its_place q s" using segments_at_place [OF seg] k small by simp
  moreover have "concat (map sent_payload ss) = take k (queue_bytes q)"
    using segments_payload(1) [OF s(3)] mtu by simp
  ultimately show ?thesis using s by (intro that)
qed

text \<open>What the cache reports as timed out, with the renewed clocks.\<close>

definition timed_out_part :: "tcp_tx_state \<Rightarrow> instant \<Rightarrow> nat \<Rightarrow> tcp_tx_state \<Rightarrow> bool" where
  "timed_out_part x now k y \<longleftrightarrow> k \<le> q_size (tx_cache x) \<and>
     (\<forall>r. take_timed_out x (max MAX_RTO (min MIN_RTO r)) now = Some (take k (queue_bytes (tx_cache x)), y)) \<and>
     tx_ok y \<and> (\<exists>cache. y = x\<lparr>tx_cache := cache\<rparr>) \<and> queue_bytes (tx_cache y) = queue_bytes (tx_cache x) \<and>
     q_sequence (tx_cache y) = q_sequence (tx_cache x) \<and> q_size (tx_cache y) = q_size (tx_cache x)"

lemma timed_out_part_ok:
  assumes "tx_ok x"
  obtains k y where "timed_out_part x now k y" and "take_timed_out x MAX_RTO now = Some (take k (queue_bytes (tx_cache x)), y)"
proof -
  let ?q = "tx_cache x"
  have size: "length (queue_bytes q) = q_size q" for q by (simp add: queue_bytes_def)
  obtain k0 cache where c: "take_timed_out x MAX_RTO now = Some (take k0 (queue_bytes ?q), x\<lparr>tx_cache := cache\<rparr>)"
      "queue_inv cache" "queue_bytes cache = queue_bytes ?q" "q_sequence cache = q_sequence ?q"
    by (rule take_timed_out_ok [OF assms, of MAX_RTO now])
  have "take k0 (queue_bytes ?q) = take (min k0 (q_size ?q)) (queue_bytes ?q)" by (simp add: min_def size)
  moreover have "tx_ok (x\<lparr>tx_cache := cache\<rparr>)" using assms c(2) by (simp add: tx_ok_def rto_ok_def)
  moreover have "q_size cache = q_size ?q" using size [of cache] size [of ?q] c(3) by simp
  ultimately show ?thesis
    using c by (intro that [of "min k0 (q_size ?q)" "x\<lparr>tx_cache := cache\<rparr>"]) (auto simp: timed_out_part_def timed_out_rto)
qed

text \<open>A tick with data in the cache, and one with at most a FIN to send again.\<close>

lemma retransmit_timedout_data:
  assumes "link_ok lk" and x: "get_state f dst src = Some x" "tx_ok x" and "q_size (tx_cache x) \<le> MAX_U32_WINDOW_SIZE"
    and mtu: "40 < src_mtu_of f (ip src)" "src_mtu_of f (ip src) \<le> 65535"
    and y: "timed_out_part x now k y" and data: "0 < q_size (tx_cache x)"
  obtains f' ss x' where "retransmit_tcp_ack_timedout lk f dst src now = Some (Ok (), f')" and "fw_sent f' = fw_sent f @ ss"
    and "concat (map sent_payload ss) = take k (queue_bytes (tx_cache x))" and "\<forall>s\<in>set ss. at_its_place (tx_cache x) s"
    and "get_state f' dst src = Some x'" and "tx_ok x'" and "tx_bytes x' = tx_bytes x" and "tx_rto x' = min MAX_RTO (2 * tx_rto x)"
    and "tx_cache x' = tx_cache y"
proof -
  let ?q = "tx_cache x" and ?f = "set_state f dst src y"
  have p: "k \<le> q_size ?q" "tx_ok y" "queue_bytes (tx_cache y) = queue_bytes ?q" "q_sequence (tx_cache y) = q_sequence ?q"
      "q_size (tx_cache y) = q_size ?q"
      "\<And>r. take_timed_out x (max MAX_RTO (min MIN_RTO r)) now = Some (take k (queue_bytes ?q), y)"
    using y by (simp_all add: timed_out_part_def)
  have same: "tx_cache_fin y = tx_cache_fin x" "tx_queue y = tx_queue x" "tx_rto y = tx_rto x" using y by (auto simp: timed_out_part_def)
  define fin where "fin \<longleftrightarrow> q_size ?q = length (take k (queue_bytes ?q)) \<and> tx_cache_fin x \<noteq> None"
  define z where "z = (if fin then update_fin_timer (double_rto y) now else double_rto y)"
  have ok_z: "tx_ok z" using p(2) by (simp add: z_def tx_ok_simple)
  have z: "tx_cache z = tx_cache y" "tx_queue z = tx_queue x" "tx_rto z = min MAX_RTO (2 * tx_rto x)"
    using double_rto_rto [of y] p(2) same by (simp_all add: z_def tx_ok_def)
  have run: "retransmit_tcp_ack_timedout lk f dst src now =
      send_tcp_ack_raw lk (set_state ?f dst src z) dst src (q_sequence ?q) (take k (queue_bytes ?q)) fin"
    using x(1) data p(1,4,5) same unfolding retransmit_tcp_ack_timedout_def by (simp add: p(6) Let_def) (auto simp: z_def fin_def)
  have inv: "queue_inv ?q" using x(2) by (simp add: tx_ok_def)
  have st: "get_state (set_state ?f dst src z) dst src = Some z"
      "40 < src_mtu_of (set_state ?f dst src z) (ip src)" "src_mtu_of (set_state ?f dst src z) (ip src) \<le> 65535"
    using mtu by simp_all
  obtain f' ss n where s: "send_tcp_ack_raw lk (set_state ?f dst src z) dst src (q_sequence ?q) (take k (queue_bytes ?q)) fin =
        Some (Ok (), f')" "fw_sent f' = fw_sent (set_state ?f dst src z) @ ss"
      "concat (map sent_payload ss) = take k (queue_bytes ?q)" "\<forall>s\<in>set ss. at_its_place ?q s"
      "get_state f' dst src = Some (z\<lparr>tx_sequence := n\<rparr>)"
    by (rule timedout_data_ok [OF assms(1) inv assms(4) st(1) p(1) st(2,3)])
  show ?thesis
    by (rule that [OF _ _ s(3-5)]) (use run s(1,2) z ok_z p(3) in \<open>simp_all add: tx_ok_def rto_ok_def tx_bytes_def\<close>)
qed

lemma retransmit_timedout_fin:
  assumes "link_ok lk" and x: "get_state f dst src = Some x" and y: "timed_out_part x now k y" and empty: "q_size (tx_cache x) = 0"
  obtains f' ss x' where "retransmit_tcp_ack_timedout lk f dst src now = Some (Ok (), f')" and "fw_sent f' = fw_sent f @ ss"
    and "\<forall>s\<in>set ss. sent_payload s = []" and "get_state f' dst src = Some x'" and "tx_ok x'" and "tx_bytes x' = tx_bytes x"
    and "tx_cache x' = tx_cache y"
proof -
  let ?q = "tx_cache x" and ?f = "set_state f dst src y"
  have p: "tx_ok y" "queue_bytes (tx_cache y) = queue_bytes ?q" "q_size (tx_cache y) = 0"
      "\<And>r. take_timed_out x (max MAX_RTO (min MIN_RTO r)) now = Some (take k (queue_bytes ?q), y)"
    using y unfolding timed_out_part_def empty by blast+
  have queue: "tx_queue y = tx_queue x" using y by (auto simp: timed_out_part_def)
  define z where "z = update_fin_timer (double_rto y) now"
  have z: "tx_ok z" "tx_bytes y = tx_bytes x" "tx_bytes z = tx_bytes x" "tx_cache z = tx_cache y" using p(1,2) queue by (simp_all add: z_def tx_ok_simple tx_bytes_def)
  have run: "retransmit_tcp_ack_timedout lk f dst src now =
      (if (case tx_cache_fin y of Some timer \<Rightarrow> timer_is_timedout now timer | None \<Rightarrow> False)
       then send_tcp_fin lk (set_state ?f dst src z) dst src else Some (Ok (), ?f))"
    using x p(3) unfolding retransmit_tcp_ack_timedout_def by (simp add: p(4) Let_def z_def split: option.splits)
  have st: "get_state (set_state ?f dst src z) dst src = Some z" by simp
  obtain s where s: "send_tcp_fin lk (set_state ?f dst src z) dst src =
      Some (Ok (), after_send (set_state ?f dst src z) (ip dst) (ip src) s)" "sent_payload s = []"
    by (rule send_tcp_fin_ok [OF assms(1) st])
  show ?thesis
  proof (cases "case tx_cache_fin y of Some timer \<Rightarrow> timer_is_timedout now timer | None \<Rightarrow> False")
    case True
    then show ?thesis
      by (intro that [of "after_send (set_state ?f dst src z) (ip dst) (ip src) s" "[s]" z]) (use run s z in simp_all)
  next
    case False
    then show ?thesis by (intro that [of ?f "[]" y]) (use run p(1) z in simp_all)
  qed
qed

lemma retransmit_timedout_ok:
  assumes "link_ok lk" and "get_state f dst src = Some x" and "tx_ok x"
    and "q_size (tx_cache x) \<le> MAX_U32_WINDOW_SIZE"
    and "40 < src_mtu_of f (ip src)" and "src_mtu_of f (ip src) \<le> 65535"
  shows "\<exists>f' ss x' y k. retransmit_tcp_ack_timedout lk f dst src now = Some (Ok (), f') \<and> fw_sent f' = fw_sent f @ ss \<and>
    take_timed_out x MAX_RTO now = Some (concat (map sent_payload ss), y) \<and>
    concat (map sent_payload ss) = take k (queue_bytes (tx_cache x)) \<and>
    (\<forall>s\<in>set ss. sent_payload s \<noteq> [] \<longrightarrow> at_its_place (tx_cache x) s) \<and>
    get_state f' dst src = Some x' \<and> tx_ok x' \<and> tx_bytes x' = tx_bytes x \<and>
    (0 < q_size (tx_cache x) \<longrightarrow> tx_rto x' = min MAX_RTO (2 * tx_rto x)) \<and> tx_cache x' = tx_cache y"
proof -
  obtain k y where y: "timed_out_part x now k y" "take_timed_out x MAX_RTO now = Some (take k (queue_bytes (tx_cache x)), y)"
    by (rule timed_out_part_ok [OF assms(3)])
  show ?thesis
  proof (cases "0 < q_size (tx_cache x)")
    case True
    obtain f' ss x' where r: "retransmit_tcp_ack_timedout lk f dst src now = Some (Ok (), f')" "fw_sent f' = fw_sent f @ ss"
        "concat (map sent_payload ss) = take k (queue_bytes (tx_cache x))" "\<forall>s\<in>set ss. at_its_place (tx_cache x) s"
        "get_state f' dst src = Some x'" "tx_ok x'" "tx_bytes x' = tx_bytes x" "tx_rto x' = min MAX_RTO (2 * tx_rto x)" "tx_cache x' = tx_cache y"
      by (rule retransmit_timedout_data [OF assms y(1) True])
    with y(2) show ?thesis by (intro exI [of _ f'] exI [of _ ss] exI [of _ x'] exI [of _ y] exI [of _ k]) simp
  next
    case False
    then have zero: "q_size (tx_cache x) = 0" "take k (queue_bytes (tx_cache x)) = []" using y(1) by (auto simp: timed_out_part_def)
    obtain f' ss x' where r: "retransmit_tcp_ack_timedout lk f dst src now = Some (Ok (), f')" "fw_sent f' = fw_sent f @ ss"
        "\<forall>s\<in>set ss. sent_payload s = []" "get_state f' dst src = Some x'" "tx_ok x'" "tx_bytes x' = tx_bytes x" "tx_cache x' = tx_cache y"
      by (rule retransmit_timedout_fin [OF assms(1,2) y(1) zero(1)])
    with y(2) zero show ?thesis by (intro exI [of _ f'] exI [of _ ss] exI [of _ x'] exI [of _ y] exI [of _ k]) simp
  qed
qed

text \<open>
  C20. Retransmission on a tick, for a path MTU above 40 bytes: \<open>retransmit_tcp_ack_timedout\<close> returns without
  error and sends, in order, exactly the bytes that \<open>get_timed_out_and_update\<close> reports, a prefix of
  the cache, under their sequence numbers; no byte of the connection is lost. The cache afterwards is the one whose
  renewed clocks run for \<open>MAX_RTO\<close>, whatever the timeout of the connection, because the bounds of the clamp are
  exchanged. If the cache is not empty, the retransmission timeout doubles (up to its bound), also when nothing timed out.
\<close>

theorem timeout_retransmission:
  assumes "link_ok lk" and "get_state f dst src = Some x" and "tx_ok x"
    and "q_size (tx_cache x) \<le> MAX_U32_WINDOW_SIZE"
    and "40 < src_mtu_of f (ip src)" and "src_mtu_of f (ip src) \<le> 65535"
  shows "\<exists>f' ss x' y k. retransmit_tcp_ack_timedout lk f dst src now = Some (Ok (), f') \<and> fw_sent f' = fw_sent f @ ss \<and>
    take_timed_out x MAX_RTO now = Some (concat (map sent_payload ss), y) \<and>
    concat (map sent_payload ss) = take k (queue_bytes (tx_cache x)) \<and>
    (\<forall>s\<in>set ss. sent_payload s \<noteq> [] \<longrightarrow> at_its_place (tx_cache x) s) \<and>
    get_state f' dst src = Some x' \<and> tx_ok x' \<and> tx_bytes x' = tx_bytes x \<and>
    (0 < q_size (tx_cache x) \<longrightarrow> tx_rto x' = min MAX_RTO (2 * tx_rto x)) \<and> tx_cache x' = tx_cache y"
  by (rule retransmit_timedout_ok [OF assms])

theorem timeout_retransmission_witness:
  "\<exists>f' x'. retransmit_tcp_ack_timedout sample_link sample_forwarder (SocketAddrV4 2 443) (SocketAddrV4 1 80) 4 =
      Some (Ok (), f') \<and> get_state f' (SocketAddrV4 2 443) (SocketAddrV4 1 80) = Some x' \<and> tx_ok x' \<and>
    tx_bytes x' = [1, 2, 3, 4, 5] \<and> tx_rto x' = min MAX_RTO (2 * tx_rto sample_tx)"
proof -
  let ?x = "sample_tx\<lparr>tx_cache_fin := None\<rparr>"
  have ok: "tx_ok ?x" using sample_tx_ok by (simp add: tx_ok_def rto_ok_def)
  have q: "q_size (tx_cache ?x) \<le> MAX_U32_WINDOW_SIZE" "tx_bytes ?x = [1, 2, 3, 4, 5]" "0 < q_size (tx_cache ?x)"
    by (simp_all add: sample_tx_def sample_queue_1_def MAX_U32_WINDOW_SIZE_def tx_bytes_def queue_bytes_def
        ring_list_def upt_rec)
  have mtu: "40 < src_mtu_of sample_forwarder (ip (SocketAddrV4 1 80))"
    "src_mtu_of sample_forwarder (ip (SocketAddrV4 1 80)) \<le> 65535"
    by (simp_all add: sample_forwarder_state)
  show ?thesis
    using timeout_retransmission [OF sample_link_ok sample_forwarder_state(1) ok q(1) mtu, of 4] q(2,3)
    by (elim exE conjE) auto
qed

end
