(* ===== verification/TcpRx.thy ===== *)
theory TcpRx
  imports Window TcpTx
begin

text \<open>
  The receive state of a TCP connection, \<open>TcpRxState\<close> of \<open>lib.rs\<close>: the number expected next, the
  duplicate acknowledgement counter of fast retransmission, the reassembly window and the number of
  a FIN that has arrived.
\<close>

definition DUPLICATES_THRESHOLD :: usize where "DUPLICATES_THRESHOLD = 3"
definition RETRANS_COOL_DOWN :: nat where "RETRANS_COOL_DOWN = 200"

record tcp_rx_state =
  rx_src :: socket_addr_v4
  rx_dst :: socket_addr_v4
  rx_recv_next :: u32
  rx_last_acknowledgement :: u32
  rx_duplicate :: usize
  rx_last_retrans :: "instant option"
  rx_wscale :: u8
  rx_sack_perm :: bool
  rx_cache :: window
  rx_fin_sequence :: "u32 option"

text \<open>\<open>None\<close> is the panic of a window scale that shifts out of a \<open>usize\<close>.\<close>

definition tcp_rx_new :: "socket_addr_v4 \<Rightarrow> socket_addr_v4 \<Rightarrow> u32 \<Rightarrow> u8 \<Rightarrow> bool \<Rightarrow> tcp_rx_state option" where
  "tcp_rx_new src dst sequence wscale sack_perm = do {
     let recv_next = unwrap_or (checked_add_u32 sequence 1) 0;
     capacity \<leftarrow> ushl (unat RECV_WINDOW) (unat wscale);
     Some \<lparr>rx_src = src, rx_dst = dst, rx_recv_next = recv_next, rx_last_acknowledgement = 0,
       rx_duplicate = 0, rx_last_retrans = None, rx_wscale = wscale, rx_sack_perm = sack_perm,
       rx_cache = window_with_capacity capacity recv_next, rx_fin_sequence = None\<rparr>
   }"

definition add_recv_next :: "tcp_rx_state \<Rightarrow> u32 \<Rightarrow> tcp_rx_state" where
  "add_recv_next x n = x\<lparr>rx_recv_next := seq_add (rx_recv_next x) n\<rparr>"

definition clear_duplicate :: "tcp_rx_state \<Rightarrow> tcp_rx_state" where
  "clear_duplicate x = x\<lparr>rx_duplicate := 0\<rparr>"

definition increase_duplicate :: "tcp_rx_state \<Rightarrow> u32 \<Rightarrow> instant \<Rightarrow> bool \<times> tcp_rx_state" where
  "increase_duplicate x acknowledgement now =
     (if rx_last_acknowledgement x = acknowledgement then
        (let x = x\<lparr>rx_duplicate := (if rx_duplicate x + 1 \<le> USIZE_MAX then rx_duplicate x + 1 else USIZE_MAX)\<rparr>
         in if rx_duplicate x \<ge> DUPLICATES_THRESHOLD then
              (let is_cooled_down = (case rx_last_retrans x of
                   Some at \<Rightarrow> as_millis (now - at) < RETRANS_COOL_DOWN
                 | None \<Rightarrow> False)
               in (\<not> is_cooled_down, x))
            else (False, x))
      else (False, (clear_duplicate x)\<lparr>rx_last_acknowledgement := acknowledgement\<rparr>))"

definition set_last_retrans :: "tcp_rx_state \<Rightarrow> instant \<Rightarrow> tcp_rx_state" where
  "set_last_retrans x now = x\<lparr>rx_last_retrans := Some now\<rparr>"

definition rx_append_cache :: "tcp_rx_state \<Rightarrow> u32 \<Rightarrow> u8 list \<Rightarrow> (u8 list option, tcp_rx_state) outcome" where
  "rx_append_cache x sequence payload = do {
     (r, cache) \<leftarrow> window_append (rx_cache x) sequence payload;
     Some (r, x\<lparr>rx_cache := cache\<rparr>)
   }"

definition set_fin_sequence :: "tcp_rx_state \<Rightarrow> u32 \<Rightarrow> tcp_rx_state" where
  "set_fin_sequence x sequence = x\<lparr>rx_fin_sequence := Some sequence\<rparr>"

definition admit_fin :: "tcp_rx_state \<Rightarrow> tcp_rx_state" where
  "admit_fin x = x\<lparr>rx_fin_sequence := None\<rparr>"

section \<open>Duplicate acknowledgements\<close>

text \<open>A run of acknowledgements, with the handler's reset after each retransmission.\<close>

fun duplicate_run :: "tcp_rx_state \<Rightarrow> (u32 \<times> instant) list \<Rightarrow> bool list \<times> tcp_rx_state" where
  "duplicate_run x [] = ([], x)"
| "duplicate_run x ((a, now) # as) =
     (let (r, x) = increase_duplicate x a now;
          x = (if r then set_last_retrans (clear_duplicate x) now else x);
          (rs, x) = duplicate_run x as
      in (r # rs, x))"


lemma increase_duplicate_retrans:
  "rx_last_retrans (snd (increase_duplicate x a now)) = rx_last_retrans x"
  by (simp add: increase_duplicate_def clear_duplicate_def Let_def)

lemma increase_duplicate_cooled:
  "fst (increase_duplicate x a now) \<Longrightarrow> rx_last_retrans x = Some at \<Longrightarrow> RETRANS_COOL_DOWN \<le> as_millis (now - at)"
  by (auto simp: increase_duplicate_def Let_def split: if_splits)

text \<open>After a retransmission at \<open>at\<close> the next one of a run with rising times comes 200 ms later at the earliest.\<close>

lemma duplicate_run_cooled:
  assumes "sorted (map snd acks)" and "\<forall>t\<in>set (map snd acks). at \<le> t" and "rx_last_retrans x = Some at"
    and "j < length acks" and "fst (duplicate_run x acks) ! j"
  shows "RETRANS_COOL_DOWN \<le> as_millis (snd (acks ! j) - at)"
  using assms
proof (induction x acks arbitrary: j at rule: duplicate_run.induct)
  case (2 x a now as)
  obtain r y where y: "increase_duplicate x a now = (r, y)" by force
  define z where "z = (if r then set_last_retrans (clear_duplicate y) now else y)"
  have fst_run: "fst (duplicate_run x ((a, now) # as)) = r # fst (duplicate_run z as)"
    by (simp add: y z_def case_prod_beta Let_def)
  have y': "rx_last_retrans y = Some at" using increase_duplicate_retrans [of x a now] y 2(4) by simp
  show ?case
  proof (cases j)
    case 0
    with 2(6) fst_run have "fst (increase_duplicate x a now)" by (simp add: y)
    with 0 increase_duplicate_cooled [OF _ 2(4)] show ?thesis by simp
  next
    case (Suc i)
    with 2(5,6) fst_run have i: "i < length as" "fst (duplicate_run z as) ! i" by simp_all
    obtain at' where z: "rx_last_retrans z = Some at'" "at' = now \<or> at' = at"
      using y' by (cases r) (auto simp: z_def set_last_retrans_def)
    have "\<forall>t\<in>set (map snd as). at' \<le> t" "at \<le> at'" "sorted (map snd as)" using 2(2,3) z(2) by auto
    with 2(1) [OF refl y [symmetric] z_def, of at' i] i z(1)
    have "RETRANS_COOL_DOWN \<le> as_millis (snd (as ! i) - at')" by simp
    also have "\<dots> \<le> as_millis (snd (as ! i) - at)" using \<open>at \<le> at'\<close> by (simp add: as_millis_def div_le_mono)
    finally show ?thesis using Suc by simp
  qed
qed simp


lemma duplicate_run_step:
  "fst (duplicate_run x ((a, now) # as)) = fst (increase_duplicate x a now) #
     fst (duplicate_run (if fst (increase_duplicate x a now)
       then set_last_retrans (clear_duplicate (snd (increase_duplicate x a now))) now
       else snd (increase_duplicate x a now)) as)"
  by (simp add: case_prod_beta Let_def)

lemma duplicate_run_spaced:
  assumes "sorted (map snd acks)" and "i < j" and "j < length acks"
    and "fst (duplicate_run x acks) ! i" and "fst (duplicate_run x acks) ! j"
  shows "RETRANS_COOL_DOWN \<le> as_millis (snd (acks ! j) - snd (acks ! i))"
  using assms
proof (induction acks arbitrary: x i j)
  case (Cons e acks)
  obtain a now where e: "e = (a, now)" by force
  obtain k where k: "j = Suc k" using Cons.prems(2) by (cases j) auto
  show ?case
  proof (cases i)
    case 0
    with Cons.prems(4) have r: "fst (increase_duplicate x a now)" by (simp only: e duplicate_run_step nth_Cons_0)
    define z where "z = set_last_retrans (clear_duplicate (snd (increase_duplicate x a now))) now"
    have "fst (duplicate_run z acks) ! k"
      using Cons.prems(5) r unfolding e k duplicate_run_step z_def by simp
    moreover have "rx_last_retrans z = Some now" by (simp add: z_def set_last_retrans_def)
    ultimately show ?thesis using duplicate_run_cooled [of acks now z k] Cons.prems(1,3) e k 0 by simp
  next
    case (Suc m)
    then show ?thesis
      using Cons.IH [of m k] Cons.prems unfolding e k duplicate_run_step by simp
  qed
qed simp

text \<open>
  Fast retransmission: however acknowledgements arrive, two retransmissions they trigger on a
  connection are at least 200 ms apart; and the third repetition of the last acknowledgement does
  trigger one when none has been sent in the last 200 ms.
\<close>

theorem fast_retransmission:
  shows "(sorted (map snd acks) \<and> i < j \<and> j < length acks \<and> fst (duplicate_run x acks) ! i \<and> fst (duplicate_run x acks) ! j \<longrightarrow>
      200 \<le> as_millis (snd (acks ! j) - snd (acks ! i))) \<and>
    (rx_duplicate y = 0 \<and> rx_last_acknowledgement y = a \<and>
      (case rx_last_retrans y of Some at \<Rightarrow> 200 \<le> as_millis (t3 - at) | None \<Rightarrow> True) \<longrightarrow>
      fst (duplicate_run y [(a, t1), (a, t2), (a, t3)]) = [False, False, True])"
proof -
  have "fst (duplicate_run y [(a, t1), (a, t2), (a, t3)]) = [False, False, True]"
    if "rx_duplicate y = 0" "rx_last_acknowledgement y = a"
      "case rx_last_retrans y of Some at \<Rightarrow> 200 \<le> as_millis (t3 - at) | None \<Rightarrow> True"
    using that by (auto simp: increase_duplicate_def DUPLICATES_THRESHOLD_def RETRANS_COOL_DOWN_def USIZE_MAX_def Let_def
        split: option.splits)
  with duplicate_run_spaced [of acks i j x] show ?thesis by (auto simp: RETRANS_COOL_DOWN_def)
qed

theorem fast_retransmission_witness:
  "\<exists>y. rx_duplicate y = 0 \<and> rx_last_acknowledgement y = 9 \<and> rx_last_retrans y = None \<and>
    fst (duplicate_run y [(9, 1), (9, 2), (9, 3)]) = [False, False, True]"
proof -
  define y where "y = \<lparr>rx_src = SocketAddrV4 1 80, rx_dst = SocketAddrV4 2 443, rx_recv_next = 7, rx_last_acknowledgement = 9,
    rx_duplicate = 0, rx_last_retrans = None, rx_wscale = 0, rx_sack_perm = False, rx_cache = window_with_capacity 16 7,
    rx_fin_sequence = None\<rparr>"
  have "rx_duplicate y = 0" "rx_last_acknowledgement y = 9" "rx_last_retrans y = None" by (simp_all add: y_def)
  with fast_retransmission [of "[]" 0 0 y y 9 3 1 2] show ?thesis by (intro exI [of _ y]) simp
qed

end
