(* ===== verification/Endpoint.thy ===== *)
theory Endpoint
  imports Addr
begin

text \<open>
  The address of the SOCKS server on the command line (\<open>ResolvableSocketAddrV4\<close> of \<open>main.rs\<close>): an
  address with a port, or the name of a host with a port. The name lookup of the crate dns_lookup is
  an argument. The standard library's parsers of numbers and addresses are written out.
\<close>

section \<open>Numbers and addresses as text\<close>

definition digit_char :: "nat \<Rightarrow> char" where
  "digit_char n = char_of (48 + n)"

definition char_digit :: "char \<Rightarrow> nat option" where
  "char_digit c = (let n = of_char c in if 48 \<le> n \<and> n < (58 :: nat) then Some (n - 48) else None)"

fun dec :: "nat \<Rightarrow> string" where
  "dec n = (if n < 10 then [digit_char n] else dec (n div 10) @ [digit_char (n mod 10)])"

declare dec.simps [simp del]

definition digits_value :: "string \<Rightarrow> nat option" where
  "digits_value s = foldl (\<lambda>v c. do { v \<leftarrow> v; d \<leftarrow> char_digit c; Some (v * 10 + d) }) (Some 0) s"

text \<open>A number below a bound, of at most so many digits, with leading zeros or without.\<close>

definition parse_number :: "nat \<Rightarrow> bool \<Rightarrow> nat \<Rightarrow> string \<Rightarrow> nat option" where
  "parse_number max_digits zeros bound s =
     (if s = [] \<or> max_digits < length s \<or> \<not> zeros \<and> hd s = CHR ''0'' \<and> 1 < length s then None
      else do { v \<leftarrow> digits_value s; if v < bound then Some v else None })"

text \<open>\<open>str::split\<close> at a character.\<close>

fun split_on :: "char \<Rightarrow> string \<Rightarrow> string list" where
  "split_on c [] = [[]]"
| "split_on c (x # xs) =
     (if x = c then [] # split_on c xs
      else (case split_on c xs of [] \<Rightarrow> [[x]] | y # ys \<Rightarrow> (x # y) # ys))"

text \<open>\<open>SocketAddrV4::from_str\<close> and \<open>u16::from_str\<close>.\<close>

definition parse_socket_addr_v4 :: "string \<Rightarrow> socket_addr_v4 option" where
  "parse_socket_addr_v4 s = (case split_on CHR '':'' s of
      [host, digits] \<Rightarrow> (case split_on CHR ''.'' host of
          [a, b, c, d] \<Rightarrow> do {
            a \<leftarrow> parse_number 3 False 256 a;
            b \<leftarrow> parse_number 3 False 256 b;
            c \<leftarrow> parse_number 3 False 256 c;
            d \<leftarrow> parse_number 3 False 256 d;
            p \<leftarrow> parse_number 5 True 65536 digits;
            Some (SocketAddrV4 (from_octets [of_nat a, of_nat b, of_nat c, of_nat d]) (of_nat p))
          }
        | _ \<Rightarrow> None)
    | _ \<Rightarrow> None)"

definition parse_u16 :: "string \<Rightarrow> u16 option" where
  "parse_u16 s =
     (let digits = (case s of [] \<Rightarrow> [] | c # cs \<Rightarrow> if c = CHR ''+'' then cs else s)
      in map_option of_nat (parse_number (length digits) True 65536 digits))"

text \<open>\<open>Display\<close> of \<open>SocketAddrV4\<close>.\<close>

fun join_with :: "char \<Rightarrow> string list \<Rightarrow> string" where
  "join_with c [] = []"
| "join_with c [x] = x"
| "join_with c (x # xs) = x @ c # join_with c xs"

definition socket_addr_string :: "socket_addr_v4 \<Rightarrow> string" where
  "socket_addr_string a =
     join_with CHR '':'' [join_with CHR ''.'' (map (\<lambda>b. dec (unat b)) (octets (ip a))), dec (unat (port a))]"

section \<open>The address of the server\<close>

datatype ip_addr = IpV4 ipv4_addr | IpV6

datatype resolvable_error = AddrParseError | ResolveError io_error

record resolvable_addr =
  ra_addr :: socket_addr_v4
  ra_alias :: "string option"

fun first_v4 :: "ip_addr list \<Rightarrow> ipv4_addr option" where
  "first_v4 [] = None"
| "first_v4 (IpV4 a # as) = Some a"
| "first_v4 (IpV6 # as) = first_v4 as"

definition resolvable_from_str :: "(string \<Rightarrow> ip_addr list io_result) \<Rightarrow> string \<Rightarrow> resolvable_error + resolvable_addr" where
  "resolvable_from_str lookup_host s = (case parse_socket_addr_v4 s of
      Some addr \<Rightarrow> Inr \<lparr>ra_addr = addr, ra_alias = None\<rparr>
    | None \<Rightarrow> (case split_on CHR '':'' s of
          [host, digits] \<Rightarrow> (case parse_u16 digits of
              None \<Rightarrow> Inl AddrParseError
            | Some p \<Rightarrow> (case lookup_host host of
                  Inl e \<Rightarrow> Inl (ResolveError e)
                | Inr addrs \<Rightarrow> (case first_v4 addrs of
                      None \<Rightarrow> Inl AddrParseError
                    | Some addr \<Rightarrow> Inr \<lparr>ra_addr = SocketAddrV4 addr p, ra_alias = Some s\<rparr>)))
        | _ \<Rightarrow> Inl AddrParseError))"

definition resolvable_string :: "resolvable_addr \<Rightarrow> string" where
  "resolvable_string r = (case ra_alias r of
      Some alias \<Rightarrow> alias @ '' ('' @ socket_addr_string (ra_addr r) @ '')''
    | None \<Rightarrow> socket_addr_string (ra_addr r))"

section \<open>Lemmas\<close>

lemma char_digit_digit_char [simp]: "d < 10 \<Longrightarrow> char_digit (digit_char d) = Some d"
  by (simp add: char_digit_def digit_char_def)

lemma digit_char_iff: "d < 10 \<Longrightarrow> digit_char d = c \<longleftrightarrow> of_char c = 48 + d"
  by (auto simp: digit_char_def char_of_eq_iff take_bit_eq_mod)

lemma digits_value_simps [simp]:
  "digits_value [] = Some 0"
  "digits_value (s @ [c]) = do { v \<leftarrow> digits_value s; d \<leftarrow> char_digit c; Some (v * 10 + d) }"
  by (simp_all add: digits_value_def)

lemma digits_value_dec: "digits_value (dec n) = Some n"
proof (induction n rule: dec.induct)
  case (1 n)
  then show ?case using digits_value_simps(2) [of "[]" "digit_char n"] by (simp add: dec.simps [of n])
qed

lemma dec_nonempty [simp]: "dec n \<noteq> []"
  by (simp add: dec.simps [of n])

lemma length_dec: "n < 10 ^ Suc k \<Longrightarrow> length (dec n) \<le> Suc k"
proof (induction k arbitrary: n)
  case (Suc k)
  then have "n div 10 < 10 ^ Suc k" by (simp add: less_mult_imp_div_less)
  with Suc.IH show ?case by (simp add: dec.simps [of n])
qed (simp add: dec.simps)

lemma hd_dec: "0 < n \<Longrightarrow> hd (dec n) \<noteq> CHR ''0''"
proof (induction n rule: dec.induct)
  case (1 n)
  then show ?case by (auto simp: dec.simps [of n] digit_char_iff)
qed

lemma dec_digits: "c \<in> set (dec n) \<Longrightarrow> char_digit c \<noteq> None"
proof (induction n rule: dec.induct)
  case (1 n)
  then show ?case by (auto simp: dec.simps [of n] split: if_splits)
qed

lemma dec_separators [simp]: "CHR ''.'' \<notin> set (dec n)" "CHR '':'' \<notin> set (dec n)"
  using dec_digits [of "CHR ''.''" n] dec_digits [of "CHR '':''" n] by (auto simp: char_digit_def)

lemma parse_number_dec:
  assumes "n < bound" and "n < 10 ^ Suc k"
  shows "parse_number (Suc k) zeros bound (dec n) = Some n"
proof -
  have "\<not> (hd (dec n) = CHR ''0'' \<and> 1 < length (dec n))" using hd_dec [of n] by (cases "n = 0") (auto simp: dec.simps)
  with assms length_dec [OF assms(2)] show ?thesis by (auto simp: parse_number_def digits_value_dec)
qed

lemma split_on_none [simp]: "c \<notin> set xs \<Longrightarrow> split_on c xs = [xs]"
  by (induction xs) auto

lemma split_on_append [simp]: "c \<notin> set xs \<Longrightarrow> split_on c (xs @ c # ys) = xs # split_on c ys"
  by (induction xs) auto

lemma split_on_join: "xs \<noteq> [] \<Longrightarrow> \<forall>x \<in> set xs. c \<notin> set x \<Longrightarrow> split_on c (join_with c xs) = xs"
  by (induction c xs rule: join_with.induct) simp_all

lemma octets_cases:
  obtains a b c d where "octets x = [a, b, c, d]"
proof -
  have "length (octets x) = Suc (Suc (Suc (Suc 0)))" by simp
  then show ?thesis using that by (auto simp: length_Suc_conv simp del: length_octets)
qed

lemma parse_socket_addr_string: "parse_socket_addr_v4 (socket_addr_string a) = Some a"
proof -
  obtain w x y z where o: "octets (ip a) = [w, x, y, z]" by (rule octets_cases)
  have octet: "parse_number 3 False 256 (dec (unat b)) = Some (unat b)" for b :: u8
    using parse_number_dec [of "unat b" 256 2] unat_u8_less [of b] by (simp add: numeral_3_eq_3)
  have "parse_number 5 True 65536 (dec (unat (port a))) = Some (unat (port a))"
    using parse_number_dec [of "unat (port a)" 65536 4] unat_u16_less [of "port a"] by simp
  moreover have "from_octets [w, x, y, z] = ip a" by (simp flip: o)
  moreover have "split_on CHR '':'' (socket_addr_string a) =
      [join_with CHR ''.'' (map (\<lambda>b. dec (unat b)) (octets (ip a))), dec (unat (port a))]"
    unfolding socket_addr_string_def by (rule split_on_join) (simp_all add: o)
  moreover have "split_on CHR ''.'' (join_with CHR ''.'' (map (\<lambda>b. dec (unat b)) (octets (ip a)))) =
      map (\<lambda>b. dec (unat b)) [w, x, y, z]"
    unfolding o by (rule split_on_join) simp_all
  ultimately show ?thesis by (simp add: parse_socket_addr_v4_def octet)
qed

text \<open>
  C26. A server given by its address is taken as written: the text of any address with its port is read
  back as that address, and no name is looked up.
\<close>

theorem resolvable_addr_roundtrip:
  "resolvable_from_str lookup_host (resolvable_string \<lparr>ra_addr = a, ra_alias = None\<rparr>) =
     Inr \<lparr>ra_addr = a, ra_alias = None\<rparr>"
  by (simp add: resolvable_from_str_def resolvable_string_def parse_socket_addr_string)

end
