(* ===== verification/Interfaces.thy ===== *)
theory Interfaces
  imports Delivery
begin

text \<open>
  The network interfaces of \<open>pcap/mod.rs\<close> and the choice of one in \<open>lib.rs\<close>. What the crates report is
  an argument: the devices of \<open>datalink::interfaces\<close> (a list of \<open>network_interface\<close>, with the fields the
  program reads), the interfaces of the operating system (\<open>system_interfaces\<close>, of the crate netifs on
  Windows and of the crate interfaces elsewhere), and the function \<open>datalink::channel\<close>.
\<close>

section \<open>What the system reports\<close>

datatype ip_network = V4 ipv4_addr | V6

record network_interface =
  ni_name :: string
  ni_mac :: "hardware_addr option"
  ni_ips :: "ip_network list"
  ni_is_up :: bool
  ni_is_loopback :: bool

record netif =
  nf_name :: string
  nf_display_name :: string
  nf_mtu :: usize
  nf_is_up :: bool
  nf_is_loopback :: bool

datatype system_interfaces = Netifs "netif list io_result" | C_interfaces "(string \<times> usize io_result) list io_result"

datatype 'c channel = Ethernet_channel 'c | Other_channel

section \<open>Interfaces\<close>

definition HARDWARE_ADDR_UNSPECIFIED :: hardware_addr where
  "HARDWARE_ADDR_UNSPECIFIED = replicate 6 0"

definition BUFFER_SIZE :: usize where
  "BUFFER_SIZE = 256 * 1024"

record interface =
  if_name :: string
  if_alias :: "string option"
  if_hardware_addr :: hardware_addr
  if_ip_addrs :: "ipv4_addr list"
  if_mtu :: usize
  if_is_up :: bool
  if_is_loopback :: bool

definition interface_new :: "interface" where
  "interface_new = \<lparr>if_name = [], if_alias = None, if_hardware_addr = HARDWARE_ADDR_UNSPECIFIED,
     if_ip_addrs = [], if_mtu = 0, if_is_up = False, if_is_loopback = False\<rparr>"

definition interface_open :: "network_interface list \<Rightarrow> (network_interface \<Rightarrow> usize \<Rightarrow> usize \<Rightarrow> 'c channel io_result)
    \<Rightarrow> interface \<Rightarrow> 'c io_result" where
  "interface_open inters datalink_channel i =
     (case filter (\<lambda>current. ni_name current = if_name i) inters of
        [] \<Rightarrow> Err (IoError NotFound ''interface not found'')
      | dev # _ \<Rightarrow>
          (case datalink_channel dev BUFFER_SIZE BUFFER_SIZE of
             Inl e \<Rightarrow> Err e
           | Inr (Ethernet_channel c) \<Rightarrow> Ok c
           | Inr Other_channel \<Rightarrow> Err (IoError Other ''unknown link type'')))"

definition interface_ip_addr :: "interface \<Rightarrow> ipv4_addr option" where
  "interface_ip_addr i = (if 0 < length (if_ip_addrs i) then Some (if_ip_addrs i ! 0) else None)"

section \<open>Enumeration\<close>

text \<open>The closure over the devices; \<open>None\<close> is its \<open>Err(())\<close>, which \<open>filter_map\<close> drops.\<close>

definition interface_of :: "network_interface \<Rightarrow> interface option" where
  "interface_of dev = do {
     mac \<leftarrow> ni_mac dev;
     let i = interface_new\<lparr>if_name := ni_name dev, if_hardware_addr := mac,
       if_ip_addrs := List.map_filter (\<lambda>n. case n of V4 a \<Rightarrow> Some a | V6 \<Rightarrow> None) (ni_ips dev)\<rparr>;
     if length (if_ip_addrs i) \<le> 0 then None
     else Some (i\<lparr>if_is_up := ni_is_up dev, if_is_loopback := ni_is_loopback dev\<rparr>)
   }"

text \<open>\<open>str::ends_with\<close>\<close>

definition ends_with :: "string \<Rightarrow> string \<Rightarrow> bool" where
  "ends_with s t \<longleftrightarrow> length t \<le> length s \<and> drop (length s - length t) s = t"

definition mark_netif :: "netif \<Rightarrow> interface \<Rightarrow> interface" where
  "mark_netif dev i =
     (if ends_with (if_name i) (nf_name dev)
      then i\<lparr>if_alias := Some (nf_display_name dev), if_mtu := nf_mtu dev, if_is_up := nf_is_up dev,
        if_is_loopback := nf_is_loopback dev\<rparr>
      else i)"

definition mark_c_interface :: "string \<times> usize io_result \<Rightarrow> interface \<Rightarrow> interface" where
  "mark_c_interface dev i =
     (if if_name i = fst dev then (case snd dev of Inr mtu \<Rightarrow> i\<lparr>if_mtu := mtu\<rparr> | Inl _ \<Rightarrow> i) else i)"

definition mark_interfaces :: "system_interfaces \<Rightarrow> interface list \<Rightarrow> interface list" where
  "mark_interfaces sys ifs = (case sys of
      Netifs (Inr inters) \<Rightarrow> fold (\<lambda>dev. map (mark_netif dev)) inters ifs
    | C_interfaces (Inr inters) \<Rightarrow> fold (\<lambda>dev. map (mark_c_interface dev)) inters ifs
    | _ \<Rightarrow> ifs)"

definition pcap_interfaces :: "network_interface list \<Rightarrow> system_interfaces \<Rightarrow> interface list" where
  "pcap_interfaces inters sys = mark_interfaces sys (List.map_filter interface_of inters)"

section \<open>The choice of an interface\<close>

definition interfaces :: "network_interface list \<Rightarrow> system_interfaces \<Rightarrow> interface list" where
  "interfaces inters sys = filter (\<lambda>i. if_is_up i \<and> \<not> if_is_loopback i) (pcap_interfaces inters sys)"

definition interface_named :: "network_interface list \<Rightarrow> system_interfaces \<Rightarrow> string option \<Rightarrow> interface option" where
  "interface_named inters sys name =
     (let inters = (case name of
            Some name \<Rightarrow> filter (\<lambda>i. if_name i = name) (interfaces inters sys)
          | None \<Rightarrow> interfaces inters sys)
      in if length inters \<noteq> 1 then None else Some (last inters))"

section \<open>A sender that discards\<close>

definition black_hole :: "pnet \<Rightarrow> link" where
  "black_hole pn = \<lparr>lk_pnet = pn, lk_send = \<lambda>_ _. Some (Ok ())\<rparr>"

lemma black_hole_ok: "pnet_ok pn \<Longrightarrow> link_ok (black_hole pn)"
  by (simp add: link_ok_def black_hole_def)

section \<open>Lemmas\<close>

text \<open>What an interface keeps of its device.\<close>

definition of_device :: "network_interface list \<Rightarrow> interface \<Rightarrow> bool" where
  "of_device inters i \<longleftrightarrow> if_ip_addrs i \<noteq> [] \<and>
     (\<exists>dev \<in> set inters. ni_name dev = if_name i \<and> ni_mac dev = Some (if_hardware_addr i) \<and>
        V4 ` set (if_ip_addrs i) \<subseteq> set (ni_ips dev))"

lemma interface_of_device:
  assumes "interface_of dev = Some i" and "dev \<in> set inters"
  shows "of_device inters i"
  using assms
  by (fastforce simp: interface_of_def of_device_def interface_new_def Let_def map_filter_def
      split: option.splits if_splits ip_network.splits bind_splits)

lemma of_device_mark:
  "of_device inters (mark_netif n i) = of_device inters i"
  "of_device inters (mark_c_interface c i) = of_device inters i"
  by (simp_all add: of_device_def mark_netif_def mark_c_interface_def split: sum.split)

lemma fold_map_all:
  assumes "\<And>y x. P (f y x) = P x" and "\<forall>x \<in> set xs. P x"
  shows "\<forall>x \<in> set (fold (\<lambda>y. map (f y)) ys xs). P x"
  using assms(2)
proof (induction ys arbitrary: xs)
  case (Cons y ys)
  show ?case using Cons.IH [of "map (f y) xs"] Cons.prems by (simp add: assms(1))
qed simp

lemma mark_interfaces_device:
  assumes "\<forall>i \<in> set ifs. of_device inters i"
  shows "\<forall>i \<in> set (mark_interfaces sys ifs). of_device inters i"
proof (cases sys)
  case (Netifs r)
  then show ?thesis using fold_map_all [of "of_device inters" mark_netif, OF of_device_mark(1) assms] assms
    by (cases r) (simp_all add: mark_interfaces_def)
next
  case (C_interfaces r)
  then show ?thesis using fold_map_all [of "of_device inters" mark_c_interface, OF of_device_mark(2) assms] assms
    by (cases r) (simp_all add: mark_interfaces_def)
qed

lemma interfaces_device:
  assumes "i \<in> set (interfaces inters sys)"
  shows "of_device inters i \<and> if_is_up i \<and> \<not> if_is_loopback i"
proof -
  have "\<forall>i \<in> set (List.map_filter interface_of inters). of_device inters i"
    by (auto simp: map_filter_def intro: interface_of_device)
  from mark_interfaces_device [OF this, of sys] assms show ?thesis by (auto simp: interfaces_def pcap_interfaces_def)
qed

lemma interface_named_device:
  assumes "interface_named inters sys name = Some i"
  shows "i \<in> set (interfaces inters sys)" and "of_device inters i"
    and "\<And>n. name = Some n \<Longrightarrow> if_name i = n"
proof -
  let ?is = "case name of Some n \<Rightarrow> filter (\<lambda>i. if_name i = n) (interfaces inters sys) | None \<Rightarrow> interfaces inters sys"
  have one: "?is \<noteq> []" "last ?is = i" using assms by (auto simp: interface_named_def Let_def split: if_splits)
  then have "i \<in> set ?is" using last_in_set by blast
  then show "i \<in> set (interfaces inters sys)" and "\<And>n. name = Some n \<Longrightarrow> if_name i = n"
    by (auto split: option.splits)
  then show "of_device inters i" using interfaces_device by blast
qed

lemma of_device_ip_addr: "of_device inters i \<Longrightarrow> interface_ip_addr i = Some (hd (if_ip_addrs i))"
  by (simp add: of_device_def interface_ip_addr_def hd_conv_nth)

lemma of_device_open:
  assumes "of_device inters i"
  obtains dev where "dev \<in> set inters" and "ni_name dev = if_name i"
    and "interface_open inters datalink_channel i = (case datalink_channel dev BUFFER_SIZE BUFFER_SIZE of
        Inl e \<Rightarrow> Err e
      | Inr (Ethernet_channel c) \<Rightarrow> Ok c
      | Inr Other_channel \<Rightarrow> Err (IoError Other ''unknown link type''))"
proof (cases "filter (\<lambda>d. ni_name d = if_name i) inters")
  case Nil
  then show ?thesis using assms by (auto simp: of_device_def filter_empty_conv)
next
  case (Cons d ds)
  then have "d \<in> set (filter (\<lambda>d. ni_name d = if_name i) inters)" by simp
  then have "d \<in> set inters" and "ni_name d = if_name i" by auto
  then show ?thesis using that [of d] Cons by (simp add: interface_open_def)
qed

end
