(* ===== verification/Briefs.thy ===== *)
theory Briefs
  imports Packet Endpoint Interfaces TcpTx TcpRx
begin

text \<open>
  The texts of the layers, of frames, interfaces and connections, as the log shows them (\<open>Display\<close> and
  \<open>brief\<close>). They matter for safety: a log message is made with the frame at hand and can panic. The text of a
  hardware address belongs to the crate \<open>pnet\<close> and is an argument.
\<close>

section \<open>Layers\<close>

definition layer_kind_string :: "layer_kind \<Rightarrow> string" where
  "layer_kind_string k =
     (if k = Ethernet_kind then ''Ethernet'' else if k = Arp_kind then ''ARP'' else if k = Ipv4_kind then ''IPv4''
      else if k = Icmpv4_kind then ''ICMPv4'' else if k = Tcp_kind then ''TCP'' else if k = Udp_kind then ''UDP''
      else ''unknown'')"

text \<open>\<open>Display\<close> of \<open>Ipv4Addr\<close> and of the unsigned integers.\<close>

definition ipv4_addr_string :: "ipv4_addr \<Rightarrow> string" where
  "ipv4_addr_string a = join_with CHR ''.'' (map (\<lambda>b. dec (unat b)) (octets a))"

definition u16_string :: "u16 \<Rightarrow> string" where
  "u16_string n = dec (unat n)"

definition ethernet_string :: "(hardware_addr \<Rightarrow> string) \<Rightarrow> ethernet \<Rightarrow> string" where
  "ethernet_string mac e =
     layer_kind_string Ethernet_kind @ '': '' @ mac (eth_source e) @ '' -> '' @ mac (eth_destination e)"

definition arp_string :: "arp \<Rightarrow> string" where
  "arp_string a =
     layer_kind_string Arp_kind @ '': '' @ ipv4_addr_string (arp_sender_proto_addr a) @ '' -> '' @
     ipv4_addr_string (arp_target_proto_addr a) @ '', Operation = '' @
     (if arp_operation a = ArpOperations_Request then ''Request''
      else if arp_operation a = ArpOperations_Reply then ''Reply'' else ''unknown'')"

text \<open>\<open>None\<close> is the overflow of the offset in bytes, a \<open>u16\<close>.\<close>

definition ipv4_string :: "ipv4 \<Rightarrow> string option" where
  "ipv4_string i = do {
     fragment \<leftarrow> (if ipv4_is_fragment i then
         if unat (ip_fragment_offset i) * 8 \<le> 65535
         then Some ('', Fragment = '' @ u16_string (ip_fragment_offset i * 8)) else None
       else Some []);
     Some (layer_kind_string Ipv4_kind @ '': '' @ ipv4_addr_string (ip_source i) @ '' -> '' @
       ipv4_addr_string (ip_destination i) @ '', Length = '' @ u16_string (ip_total_length i) @ fragment)
   }"

definition icmpv4_description :: "icmpv4 \<Rightarrow> string" where
  "icmpv4_description i =
     (if icmpv4_is_echo_reply i then ''Echo reply''
      else if icmpv4_is_destination_port_unreachable i then ''Destination port unreachable''
      else if icmpv4_is_fragmentation_required i then ''Fragmentation required, and DF flag set''
      else if icmpv4_is_echo_request i then ''Echo request''
      else ''Type = '' @ dec (unat (icmp_type i)) @ '', Code = '' @ dec (unat (icmp_code i)))"

definition icmpv4_string :: "icmpv4 \<Rightarrow> string" where
  "icmpv4_string i = layer_kind_string Icmpv4_kind @ '': '' @ icmpv4_description i"

definition tcp_flag_string :: "tcp \<Rightarrow> string" where
  "tcp_flag_string t =
     (let flags = ''['';
          flags = (if tcp_is_syn t then flags @ ''S'' else flags);
          flags = (if tcp_is_rst t then flags @ ''R'' else flags);
          flags = (if tcp_is_fin t then flags @ ''F'' else flags);
          flags = (if tcp_is_ack t then flags @ ''.'' else flags)
      in flags @ '']'')"

definition tcp_string :: "tcp \<Rightarrow> string" where
  "tcp_string t =
     layer_kind_string Tcp_kind @ '': '' @ u16_string (tcp_source (tcp_layer t)) @ '' -> '' @
     u16_string (tcp_destination (tcp_layer t)) @ '' '' @ tcp_flag_string t"

definition udp_string :: "udp \<Rightarrow> string" where
  "udp_string u =
     layer_kind_string Udp_kind @ '': '' @ u16_string (udp_source (udp_layer u)) @ '' -> '' @
     u16_string (udp_destination (udp_layer u)) @ '', Length = '' @ u16_string (udp_length (udp_layer u))"

fun layers_string :: "(hardware_addr \<Rightarrow> string) \<Rightarrow> layers \<Rightarrow> string option" where
  "layers_string mac (LEthernet e) = Some (ethernet_string mac e)"
| "layers_string mac (LArp a) = Some (arp_string a)"
| "layers_string mac (LIpv4 i) = ipv4_string i"
| "layers_string mac (LIcmpv4 i) = Some (icmpv4_string i)"
| "layers_string mac (LTcp t) = Some (tcp_string t)"
| "layers_string mac (LUdp u) = Some (udp_string u)"

section \<open>Frames\<close>

text \<open>\<open>None\<close> is an \<open>unreachable!\<close>, or the overflow in the text of a fragment.\<close>

definition transport_brief :: "ipv4 \<Rightarrow> layers \<Rightarrow> string option" where
  "transport_brief ipv4 transport =
     (case transport of
        LIcmpv4 icmpv4 \<Rightarrow> Some (layer_kind_string (layers_kind transport) @ '': '' @ ipv4_addr_string (ip_source ipv4) @ '' -> '' @
          ipv4_addr_string (ip_destination ipv4) @ '', '' @ icmpv4_description icmpv4)
      | LTcp tcp \<Rightarrow> Some (layer_kind_string (layers_kind transport) @ '': '' @
          ipv4_addr_string (tcp_src_ip tcp) @ '':'' @ u16_string (tcp_source (tcp_layer tcp)) @ '' -> '' @
          ipv4_addr_string (tcp_dst_ip tcp) @ '':'' @ u16_string (tcp_destination (tcp_layer tcp)) @ '' '' @ tcp_flag_string tcp)
      | LUdp udp \<Rightarrow> Some (layer_kind_string (layers_kind transport) @ '': '' @
          ipv4_addr_string (udp_src_ip udp) @ '':'' @ u16_string (udp_source (udp_layer udp)) @ '' -> '' @
          ipv4_addr_string (udp_dst_ip udp) @ '':'' @ u16_string (udp_destination (udp_layer udp)) @
          '', Length = '' @ u16_string (udp_length (udp_layer udp)))
      | _ \<Rightarrow> None)"

definition indicator_brief :: "(hardware_addr \<Rightarrow> string) \<Rightarrow> indicator \<Rightarrow> string option" where
  "indicator_brief mac ind =
     (case ind_network ind of
        Some network \<Rightarrow>
          (case network of
             LArp arp \<Rightarrow> Some (arp_string arp)
           | LIpv4 ipv4 \<Rightarrow>
               (case ind_transport ind of
                  Some transport \<Rightarrow> transport_brief ipv4 transport
                | None \<Rightarrow> ipv4_string ipv4)
           | _ \<Rightarrow> None)
      | None \<Rightarrow> (case ind_link ind of LEthernet e \<Rightarrow> Some (ethernet_string mac e) | _ \<Rightarrow> None))"

text \<open>One line of the text of a frame.\<close>

definition layer_line :: "(hardware_addr \<Rightarrow> string) \<Rightarrow> pnet \<Rightarrow> layers \<Rightarrow> string option" where
  "layer_line mac pn l = do {
     text \<leftarrow> layers_string mac l;
     n \<leftarrow> layers_len pn l;
     Some (CHR 0x0A # ''- '' @ text @ '' ('' @ dec n @ '' Bytes)'')
   }"

definition indicator_string :: "(hardware_addr \<Rightarrow> string) \<Rightarrow> pnet \<Rightarrow> indicator \<Rightarrow> string option" where
  "indicator_string mac pn ind = do {
     link_string \<leftarrow> layer_line mac pn (ind_link ind);
     network_string \<leftarrow> (case ind_network ind of Some l \<Rightarrow> layer_line mac pn l | None \<Rightarrow> Some []);
     transport_string \<leftarrow> (case ind_transport ind of Some l \<Rightarrow> layer_line mac pn l | None \<Rightarrow> Some []);
     Some (''Indicator'' @ link_string @ network_string @ transport_string)
   }"

section \<open>Interfaces and connections\<close>

fun join_strings :: "string \<Rightarrow> string list \<Rightarrow> string" where
  "join_strings sep [] = []"
| "join_strings sep [x] = x"
| "join_strings sep (x # xs) = x @ sep @ join_strings sep xs"

definition interface_string :: "(hardware_addr \<Rightarrow> string) \<Rightarrow> interface \<Rightarrow> string" where
  "interface_string mac i =
     (let name = (case if_alias i of Some alias \<Rightarrow> if_name i @ '' ('' @ alias @ '')'' | None \<Rightarrow> if_name i);
          ip_addrs = join_strings '', '' (map ipv4_addr_string (if_ip_addrs i));
          flags = (if if_is_loopback i then '' (Loopback)'' else [])
      in name @ '' ['' @ mac (if_hardware_addr i) @ '']'' @ flags @ '': '' @ ip_addrs)"

definition tcp_tx_string :: "tcp_tx_state \<Rightarrow> string" where
  "tcp_tx_string x = ''TCP TX State: '' @ socket_addr_string (tx_dst x) @ '' -> '' @ socket_addr_string (tx_src x)"

definition tcp_rx_string :: "tcp_rx_state \<Rightarrow> string" where
  "tcp_rx_string x = ''TCP RX State: '' @ socket_addr_string (rx_src x) @ '' -> '' @ socket_addr_string (rx_dst x)"

section \<open>The messages about received frames\<close>

text \<open>
  The message of \<open>handle_ipv4\<close> at the level debug. The number of bytes behind the headers is a difference of
  \<open>usize\<close>: it panics when the total length in the IPv4 header is less than the headers take.
\<close>

definition receive_text :: "(hardware_addr \<Rightarrow> string) \<Rightarrow> pnet \<Rightarrow> indicator \<Rightarrow> string option" where
  "receive_text mac pn ind = do {
     brief \<leftarrow> indicator_brief mac ind;
     len \<leftarrow> indicator_len pn ind;
     content_len \<leftarrow> indicator_content_len pn ind;
     n \<leftarrow> usub content_len len;
     Some (''receive from pcap: '' @ brief @ '' ('' @ dec len @ '' + '' @ dec n @ '' Bytes)'')
   }"

text \<open>The offset of a fragment is a field of 13 bits, so its text is always defined.\<close>

lemma ipv4_string_total: "unat (ip_fragment_offset i) < 8192 \<Longrightarrow> ipv4_string i \<noteq> None"
  by (simp add: ipv4_string_def)

lemma receive_text_total:
  "indicator_brief mac ind \<noteq> None \<Longrightarrow> indicator_len pn ind = Some len \<Longrightarrow> indicator_content_len pn ind = Some n \<Longrightarrow>
    receive_text mac pn ind = None \<longleftrightarrow> n < len"
  by (auto simp: receive_text_def usub_def)

end
