(* ===== verification/Redirector.thy ===== *)
theory Redirector
  imports Forwarder TcpRx Briefs
begin

text \<open>
  The \<open>Redirector\<close> of \<open>lib.rs\<close>: it takes frames from the device, keeps the receive states, the
  streams and the UDP ports, and drives the \<open>Forwarder\<close>.

  Parameters of the model, code that is not part of the program: the LRU cache of the crate \<open>lru\<close>
  (\<open>lru_ops\<close>), the test for the source network (\<open>Ipv4Network::contains\<close>), and what the calls of tokio and
  async_socks5 (\<open>ev_socks\<close>), the sockets and the random generator deliver during the handling of a frame
  (\<open>env\<close>). While a handler awaits a socket the tasks of the workers run: \<open>ev_await\<close> is the sequence of their
  steps. \<open>ev_debug\<close> tells whether the logger takes messages of the level debug: only then is their text made.

  An error is the result of the handler; \<open>None\<close> is a panic.
\<close>

section \<open>Parameters\<close>

record 'l lru_ops =
  lru_new :: "usize \<Rightarrow> 'l"
  lru_get :: "'l \<Rightarrow> u16 \<Rightarrow> 'l"
  lru_put :: "'l \<Rightarrow> u16 \<Rightarrow> socket_addr_v4 \<Rightarrow> 'l"
  lru_len :: "'l \<Rightarrow> usize"
  lru_cap :: "'l \<Rightarrow> usize"
  lru_pop_lru :: "'l \<Rightarrow> ((u16 \<times> socket_addr_v4) \<times> 'l) option"
  lru_pop :: "'l \<Rightarrow> u16 \<Rightarrow> 'l"

datatype task_step = Reader conn_key read_event | Ticker conn_key | Receiver u16 "u8 list io_result"

text \<open>\<open>Auth\<close> of async_socks5: a user name and a password.\<close>

type_synonym auth = "string \<times> string"

record env =
  ev_now :: instant
  ev_rng :: u32
  ev_debug :: bool
  ev_socks :: "auth socks_calls"
  ev_write :: "(nat \<times> io_error) option"
  ev_send_to :: "usize io_result"
  ev_await :: "task_step list"
  ev_await_send_to :: "task_step list"

section \<open>State\<close>

definition ENABLE_WSCALE :: bool where "ENABLE_WSCALE = True"
definition MAX_RECV_WSCALE :: u8 where "MAX_RECV_WSCALE = 8"
definition ENABLE_SACK :: bool where "ENABLE_SACK = True"
definition MAX_UDP_PORT :: usize where "MAX_UDP_PORT = 256"

record 'l redirector =
  rd_tx :: forwarder
  rd_is_tx_src_hardware_addr_set :: bool
  rd_src_contains :: "ipv4_addr \<Rightarrow> bool"
  rd_local_ip_addr :: ipv4_addr
  rd_gw_ip_addr :: "ipv4_addr option"
  rd_remote :: socket_addr_v4
  rd_options :: socks_option
  rd_streams :: "conn_key \<rightharpoonup> stream_worker"
  rd_states :: "conn_key \<rightharpoonup> tcp_rx_state"
  rd_datagrams :: "u16 \<rightharpoonup> datagram_worker"
  rd_datagram_map :: "socket_addr_v4 \<rightharpoonup> u16"
  rd_udp_lru :: 'l
  rd_defrag :: defraggler

definition redirector_new :: "'l lru_ops \<Rightarrow> forwarder \<Rightarrow> (ipv4_addr \<Rightarrow> bool) \<Rightarrow> ipv4_addr \<Rightarrow> ipv4_addr option
    \<Rightarrow> socket_addr_v4 \<Rightarrow> bool \<Rightarrow> bool \<Rightarrow> (string \<times> string) option \<Rightarrow> 'l redirector" where
  "redirector_new ops tx src_contains local_ip_addr gw_ip_addr remote force_associate_dst
     force_associate_bind_addr auth =
     \<lparr>rd_tx = (case gw_ip_addr of Some gw \<Rightarrow> set_local_ip_addr tx gw | None \<Rightarrow> tx),
      rd_is_tx_src_hardware_addr_set = False, rd_src_contains = src_contains,
      rd_local_ip_addr = local_ip_addr, rd_gw_ip_addr = gw_ip_addr, rd_remote = remote,
      rd_options = socks_option_new force_associate_dst force_associate_bind_addr
        (map_option (\<lambda>(username, password). \<lparr>sa_username = username, sa_password = password\<rparr>) auth),
      rd_streams = Map.empty, rd_states = Map.empty, rd_datagrams = Map.empty,
      rd_datagram_map = Map.empty, rd_udp_lru = lru_new ops MAX_UDP_PORT, rd_defrag = defraggler_new\<rparr>"

text \<open>What the SOCKS server of the \<open>Redirector\<close> answers to a connection to \<open>dst\<close>.\<close>

abbreviation connect_result :: "env \<Rightarrow> 'l redirector \<Rightarrow> socket_addr_v4 \<Rightarrow> unit io_result" where
  "connect_result ev rd dst \<equiv> socks_connect (ev_socks ev) (rd_remote rd) dst (rd_options rd)"

text \<open>A call of the \<open>Forwarder\<close>, and a change of the send state of a connection.\<close>

definition on_tx :: "'l redirector \<Rightarrow> (forwarder \<Rightarrow> ('a, forwarder) outcome) \<Rightarrow> ('a, 'l redirector) outcome" where
  "on_tx rd g = do {
     (r, f) \<leftarrow> g (rd_tx rd);
     Some (r, rd\<lparr>rd_tx := f\<rparr>)
   }"

definition update_tx :: "'l redirector \<Rightarrow> socket_addr_v4 \<Rightarrow> socket_addr_v4
    \<Rightarrow> (tcp_tx_state \<Rightarrow> tcp_tx_state option) \<Rightarrow> 'l redirector option" where
  "update_tx rd dst src g = do {
     state \<leftarrow> get_state (rd_tx rd) dst src;
     state \<leftarrow> g state;
     Some (rd\<lparr>rd_tx := set_state (rd_tx rd) dst src state\<rparr>)
   }"

definition put_stream :: "'l redirector \<Rightarrow> conn_key \<Rightarrow> stream_worker \<Rightarrow> 'l redirector" where
  "put_stream rd key w = rd\<lparr>rd_streams := (rd_streams rd)(key \<mapsto> w)\<rparr>"

definition put_rx :: "'l redirector \<Rightarrow> conn_key \<Rightarrow> tcp_rx_state \<Rightarrow> 'l redirector" where
  "put_rx rd key x = rd\<lparr>rd_states := (rd_states rd)(key \<mapsto> x)\<rparr>"

section \<open>The tasks of the workers\<close>

text \<open>A task whose worker has been dropped does nothing any more.\<close>

definition task_run :: "link \<Rightarrow> instant \<Rightarrow> task_step \<Rightarrow> 'l redirector \<Rightarrow> 'l redirector option" where
  "task_run lk now t rd =
     (case t of
        Reader key ev \<Rightarrow>
          (case rd_streams rd key of
             None \<Rightarrow> Some rd
           | Some w \<Rightarrow> do {
               (w, f) \<leftarrow> reader_step (forwarder_stream lk) (rd_tx rd) w ev now;
               Some (put_stream (rd\<lparr>rd_tx := f\<rparr>) key w)
             })
      | Ticker key \<Rightarrow>
          (case rd_streams rd key of
             None \<Rightarrow> Some rd
           | Some w \<Rightarrow> do {
               (w, f) \<leftarrow> ticker_step (forwarder_stream lk) (rd_tx rd) w now;
               Some (put_stream (rd\<lparr>rd_tx := f\<rparr>) key w)
             })
      | Receiver p r \<Rightarrow>
          (case rd_datagrams rd p of
             None \<Rightarrow> Some rd
           | Some w \<Rightarrow> do {
               (w, f) \<leftarrow> receiver_step (forwarder_datagram lk) (rd_tx rd) w r;
               Some (rd\<lparr>rd_tx := f, rd_datagrams := (rd_datagrams rd)(p \<mapsto> w)\<rparr>)
             }))"

fun tasks_run :: "link \<Rightarrow> instant \<Rightarrow> task_step list \<Rightarrow> 'l redirector \<Rightarrow> 'l redirector option" where
  "tasks_run lk now [] rd = Some rd"
| "tasks_run lk now (t # ts) rd = do { rd \<leftarrow> task_run lk now t rd; tasks_run lk now ts rd }"

section \<open>Connections\<close>

text \<open>\<open>clean_up\<close>; removing a stream drops its worker.\<close>

definition clean_up :: "'l redirector \<Rightarrow> socket_addr_v4 \<Rightarrow> socket_addr_v4 \<Rightarrow> 'l redirector option" where
  "clean_up rd src dst = do {
     _ \<leftarrow> (case rd_streams rd (src, dst) of Some w \<Rightarrow> map_option (\<lambda>_. ()) (stream_close w) | None \<Rightarrow> Some ());
     Some (rd\<lparr>rd_streams := (rd_streams rd)((src, dst) := None),
       rd_states := (rd_states rd)((src, dst) := None), rd_tx := fw_clean_up (rd_tx rd) dst src\<rparr>)
   }"

definition tcp_src_addr :: "tcp \<Rightarrow> socket_addr_v4" where
  "tcp_src_addr tcp = SocketAddrV4 (tcp_src_ip tcp) (tcp_source (tcp_layer tcp))"

definition tcp_dst_addr :: "tcp \<Rightarrow> socket_addr_v4" where
  "tcp_dst_addr tcp = SocketAddrV4 (tcp_dst_ip tcp) (tcp_destination (tcp_layer tcp))"

definition handle_tcp_rst :: "'l redirector \<Rightarrow> tcp \<Rightarrow> 'l redirector option" where
  "handle_tcp_rst rd tcp = clean_up rd (tcp_src_addr tcp) (tcp_dst_addr tcp)"

text \<open>The part of \<open>handle_tcp_fin\<close> that admits a FIN all of whose data has arrived.\<close>

definition admit_tcp_fin :: "link \<Rightarrow> 'l redirector \<Rightarrow> socket_addr_v4 \<Rightarrow> socket_addr_v4 \<Rightarrow> bool
    \<Rightarrow> (unit, 'l redirector) outcome" where
  "admit_tcp_fin lk rd src dst is_readable = do {
     state \<leftarrow> rd_states rd (src, dst);
     let rd = put_rx rd (src, dst) (add_recv_next (admit_fin state) 1);
     rd \<leftarrow> update_tx rd dst src (\<lambda>x. Some (add_acknowledgement x 1));
     and_then (on_tx rd (\<lambda>f. send_tcp_ack_0 lk f dst src))
       (\<lambda>_ rd. if is_readable then do {
           stream \<leftarrow> rd_streams rd (src, dst);
           stream \<leftarrow> stream_shutdown_write stream;
           Some (Ok (), put_stream rd (src, dst) stream)
         } else do {
           rd \<leftarrow> clean_up rd src dst;
           Some (Ok (), rd)
         })
   }"

definition handle_tcp_fin :: "link \<Rightarrow> 'l redirector \<Rightarrow> tcp \<Rightarrow> u8 list \<Rightarrow> (unit, 'l redirector) outcome" where
  "handle_tcp_fin lk rd tcp payload =
     (let src = tcp_src_addr tcp; dst = tcp_dst_addr tcp; key = (src, dst)
      in case rd_streams rd key of
           Some stream \<Rightarrow> do {
             let is_readable = (\<not> sw_is_read_closed stream);
             state \<leftarrow> rd_states rd key;
             let state = (if tcp_is_fin tcp
               then set_fin_sequence state (seq_adv (tcp_sequence (tcp_layer tcp)) (length payload)) else state);
             let rd = put_rx rd key state;
             (case rx_fin_sequence state of
                Some fin_sequence \<Rightarrow>
                  if fin_sequence = rx_recv_next state then admit_tcp_fin lk rd src dst is_readable
                  else if length payload = 0 then on_tx rd (\<lambda>f. send_tcp_ack_0 lk f dst src)
                  else Some (Ok (), rd)
              | None \<Rightarrow> Some (Ok (), rd))
           }
         | None \<Rightarrow> on_tx rd (\<lambda>f. send_tcp_rst lk f dst src))"

text \<open>\<open>a >> n\<close> on \<open>usize\<close>, which panics for a shift by 64 or more.\<close>

definition ushr :: "usize \<Rightarrow> nat \<Rightarrow> usize option" where
  "ushr a n = (if n < 64 then Some (a div 2 ^ n) else None)"

text \<open>\<open>(state.cache.remaining() >> state.wscale as usize) as u16\<close>\<close>

definition cache_remaining_size :: "tcp_rx_state \<Rightarrow> u16 option" where
  "cache_remaining_size state = do {
     remaining \<leftarrow> window_remaining (rx_cache state);
     n \<leftarrow> ushr remaining (unat (rx_wscale state));
     Some (of_nat n)
   }"

text \<open>The data part of \<open>handle_tcp_ack\<close> after the window has handed on \<open>payload\<close>.\<close>

definition ack_deliver :: "link \<Rightarrow> env \<Rightarrow> 'l redirector \<Rightarrow> socket_addr_v4 \<Rightarrow> socket_addr_v4 \<Rightarrow> u8 list
    \<Rightarrow> (unit, 'l redirector) outcome" where
  "ack_deliver lk ev rd src dst payload = do {
     stream \<leftarrow> rd_streams rd (src, dst);
     let (sent, stream) = stream_send stream payload (ev_write ev);
     rd \<leftarrow> tasks_run lk (ev_now ev) (ev_await ev) (put_stream rd (src, dst) stream);
     (case sent of
        Inr _ \<Rightarrow> do {
          state \<leftarrow> rd_states rd (src, dst);
          window \<leftarrow> cache_remaining_size state;
          let rd = put_rx rd (src, dst) (add_recv_next state (of_nat (length payload)));
          rd \<leftarrow> update_tx rd dst src
            (\<lambda>x. Some (add_acknowledgement (set_window x window) (of_nat (length payload))));
          on_tx rd (\<lambda>f. send_tcp_ack_0 lk f dst src)
        }
      | Inl e \<Rightarrow>
          and_then (on_tx rd (\<lambda>f. send_tcp_ack_rst lk f dst src))
            (\<lambda>_ rd. do {
              rd \<leftarrow> clean_up rd src dst;
              Some (Err e, rd)
            }))
   }"

definition ack_data :: "link \<Rightarrow> env \<Rightarrow> 'l redirector \<Rightarrow> socket_addr_v4 \<Rightarrow> socket_addr_v4 \<Rightarrow> u32 \<Rightarrow> u8 list
    \<Rightarrow> (unit, 'l redirector) outcome" where
  "ack_data lk ev rd src dst sequence payload = do {
     state \<leftarrow> rd_states rd (src, dst);
     (r, state) \<leftarrow> rx_append_cache state sequence payload;
     let rd = put_rx rd (src, dst) state;
     (case r of
        Inl e \<Rightarrow> Some (Err e, rd)
      | Inr cont_payload \<Rightarrow> do {
          rd \<leftarrow> (if rx_sack_perm state
            then update_tx rd dst src (\<lambda>x. Some (set_sacks x (window_filled (rx_cache state))))
            else Some rd);
          (case cont_payload of
             Some payload \<Rightarrow> ack_deliver lk ev rd src dst payload
           | None \<Rightarrow> do {
               window \<leftarrow> cache_remaining_size state;
               rd \<leftarrow> update_tx rd dst src (\<lambda>x. Some (set_window x window));
               on_tx rd (\<lambda>f. send_tcp_ack_0 lk f dst src)
             })
        })
   }"

text \<open>An acknowledgement without data on a connection that stays: counting it, fast retransmission.\<close>

definition ack_duplicate :: "link \<Rightarrow> env \<Rightarrow> 'l redirector \<Rightarrow> tcp \<Rightarrow> (unit, 'l redirector) outcome" where
  "ack_duplicate lk ev rd tcp =
     (let src = tcp_src_addr tcp; dst = tcp_dst_addr tcp; key = (src, dst)
      in do {
        state \<leftarrow> rd_states rd key;
        let (is_retrans, state) = increase_duplicate state (tcp_acknowledgement (tcp_layer tcp)) (ev_now ev);
        let rd = put_rx rd key state;
        if is_retrans \<and> \<not> tcp_is_zero_window tcp then do {
          sacks \<leftarrow> (if rx_sack_perm state then tcp_sack (lk_pnet lk) tcp else Some None);
          and_then
            (if unwrap_or sacks [] \<noteq> []
             then on_tx rd (\<lambda>f. retransmit_tcp_ack_without lk f dst src (unwrap_or sacks []))
             else on_tx rd (\<lambda>f. retransmit_tcp_ack lk f dst src))
            (\<lambda>_ rd. Some (Ok (), put_rx rd key (set_last_retrans (clear_duplicate state) (ev_now ev))))
        } else Some (Ok (), rd)
      })"

text \<open>The common end of \<open>handle_tcp_ack\<close>: sending what waits, and the FIN.\<close>

definition ack_end :: "link \<Rightarrow> env \<Rightarrow> tcp \<Rightarrow> u8 list \<Rightarrow> 'l redirector \<Rightarrow> (unit, 'l redirector) outcome" where
  "ack_end lk ev tcp payload rd =
     and_then (on_tx rd (\<lambda>f. send_tcp_ack lk f (tcp_dst_addr tcp) (tcp_src_addr tcp) (ev_now ev)))
       (\<lambda>_ rd. do {
         state \<leftarrow> rd_states rd (tcp_src_addr tcp, tcp_dst_addr tcp);
         if tcp_is_fin tcp \<or> rx_fin_sequence state \<noteq> None
         then handle_tcp_fin lk rd tcp payload else Some (Ok (), rd)
       })"

text \<open>
  \<open>handle_tcp_ack\<close>. The part before the common end yields whether the handler goes on (it stops
  when the last acknowledgement closes the connection).
\<close>

definition handle_tcp_ack :: "link \<Rightarrow> env \<Rightarrow> 'l redirector \<Rightarrow> tcp \<Rightarrow> u8 list \<Rightarrow> (unit, 'l redirector) outcome" where
  "handle_tcp_ack lk ev rd tcp payload =
     (let src = tcp_src_addr tcp; dst = tcp_dst_addr tcp; key = (src, dst)
      in case rd_streams rd key of
           None \<Rightarrow> on_tx rd (\<lambda>f. send_tcp_rst lk f dst src)
         | Some stream \<Rightarrow> do {
             let is_writable = (\<not> sw_is_write_closed stream);
             state \<leftarrow> rd_states rd key;
             rd \<leftarrow> update_tx rd dst src (\<lambda>x. do {
               x \<leftarrow> acknowledge x (tcp_acknowledgement (tcp_layer tcp)) (ev_now ev);
               window \<leftarrow> ushl (unat (tcp_window (tcp_layer tcp))) (unat (rx_wscale state));
               Some (set_send_window x window)
             });
             cache_size \<leftarrow> get_cache_size (rd_tx rd) dst src;
             if length payload = 0 \<and> \<not> is_writable \<and> cache_size = 0 then do {
               rd \<leftarrow> clean_up rd src dst;
               Some (Ok (), rd)
             } else
               and_then
                 (if length payload > 0
                  then ack_data lk ev rd src dst (tcp_sequence (tcp_layer tcp)) payload
                  else ack_duplicate lk ev rd tcp)
                 (\<lambda>_ rd. ack_end lk ev tcp payload rd)
           })"

text \<open>The part of \<open>handle_tcp_syn\<close> from the connection on.\<close>

definition syn_connect :: "link \<Rightarrow> env \<Rightarrow> conn_key \<Rightarrow> tcp_rx_state \<Rightarrow> 'l redirector \<Rightarrow> (unit, 'l redirector) outcome" where
  "syn_connect lk ev key state rd = (let (src, dst) = key in do {
     (r, rd) \<leftarrow> on_tx rd (\<lambda>f. stream_connect (forwarder_stream lk) f (ev_socks ev) src dst (rd_remote rd) (rd_options rd) (ev_now ev));
     (case r of
        Inr stream \<Rightarrow> Some (Ok (), put_stream (put_rx rd key state) key stream)
      | Inl e \<Rightarrow> do {
          rd \<leftarrow> update_tx rd dst src (\<lambda>x. Some (add_acknowledgement x 1));
          and_then (on_tx rd (\<lambda>f. send_tcp_ack_rst lk f dst src))
            (\<lambda>_ rd. do {
              rd \<leftarrow> clean_up rd src dst;
              Some (Err e, rd)
            })
        })
   })"

definition handle_tcp_syn :: "link \<Rightarrow> env \<Rightarrow> 'l redirector \<Rightarrow> tcp \<Rightarrow> (unit, 'l redirector) outcome" where
  "handle_tcp_syn lk ev rd tcp =
     (let src = tcp_src_addr tcp; dst = tcp_dst_addr tcp; key = (src, dst)
      in case rd_streams rd key of
           Some _ \<Rightarrow> Some (Ok (), rd)
         | None \<Rightarrow> do {
             rd \<leftarrow> clean_up rd src dst;
             wscale \<leftarrow> (if ENABLE_WSCALE then tcp_wscale (lk_pnet lk) tcp else Some None);
             let recv_wscale = map_option (\<lambda>w. min w MAX_RECV_WSCALE) wscale;
             let sack_perm = (ENABLE_SACK \<and> tcp_is_sack_perm (lk_pnet lk) tcp);
             state \<leftarrow> tcp_rx_new src dst (tcp_sequence (tcp_layer tcp)) (unwrap_or wscale 0) sack_perm;
             let acknowledgement = unwrap_or (checked_add_u32 (tcp_sequence (tcp_layer tcp)) 1) 0;
             mss \<leftarrow> tcp_mss (lk_pnet lk) tcp;
             let f = (case mss of
                 Some mss \<Rightarrow> snd (set_src_mtu (rd_tx rd) (tcp_src_ip tcp)
                   (ipv4_minimum_len + tcp_minimum_len + unat mss))
               | None \<Rightarrow> rd_tx rd);
             tx_state \<leftarrow> tcp_tx_new src dst (ev_rng ev) acknowledgement (tcp_window (tcp_layer tcp))
               recv_wscale sack_perm wscale;
             let rd = rd\<lparr>rd_tx := set_state f dst src tx_state\<rparr>;
             rd \<leftarrow> tasks_run lk (ev_now ev) (ev_await ev) rd;
             syn_connect lk ev key state rd
           })"

text \<open>A segment with none of the four flags reaches \<open>unreachable!()\<close>.\<close>

definition handle_tcp :: "link \<Rightarrow> env \<Rightarrow> 'l redirector \<Rightarrow> tcp \<Rightarrow> u8 list \<Rightarrow> (unit, 'l redirector) outcome" where
  "handle_tcp lk ev rd tcp payload =
     (if tcp_is_rst tcp then do { rd \<leftarrow> handle_tcp_rst rd tcp; Some (Ok (), rd) }
      else if tcp_is_ack tcp then handle_tcp_ack lk ev rd tcp payload
      else if tcp_is_syn tcp then handle_tcp_syn lk ev rd tcp
      else if tcp_is_fin tcp then handle_tcp_fin lk rd tcp payload
      else None)"

section \<open>UDP ports\<close>

text \<open>The part of \<open>bind_local_udp_port\<close> that binds a new port while the LRU cache has room.\<close>

definition bind_new_udp_port :: "'l lru_ops \<Rightarrow> link \<Rightarrow> env \<Rightarrow> 'l redirector \<Rightarrow> socket_addr_v4
    \<Rightarrow> (u16, 'l redirector) outcome" where
  "bind_new_udp_port ops lk ev rd src =
     (if lru_len ops (rd_udp_lru rd) < lru_cap ops (rd_udp_lru rd) then do {
        rd \<leftarrow> tasks_run lk (ev_now ev) (ev_await ev) rd;
        bound \<leftarrow> datagram_bind (ev_socks ev) src (rd_remote rd) (rd_options rd);
        (case bound of
           Inr (worker, p) \<Rightarrow> Some (Ok p,
             rd\<lparr>rd_datagrams := (rd_datagrams rd)(p \<mapsto> worker),
                rd_datagram_map := (rd_datagram_map rd)(src \<mapsto> p),
                rd_udp_lru := lru_put ops (rd_udp_lru rd) p src\<rparr>)
         | Inl e \<Rightarrow> Some (Err e, rd))
      } else Some (Err (IoError Other ''cannot bind UDP port''), rd))"

definition bind_local_udp_port :: "'l lru_ops \<Rightarrow> link \<Rightarrow> env \<Rightarrow> 'l redirector \<Rightarrow> socket_addr_v4
    \<Rightarrow> (u16, 'l redirector) outcome" where
  "bind_local_udp_port ops lk ev rd src =
     (case rd_datagram_map rd src of
        Some local_port \<Rightarrow> Some (Ok local_port, rd\<lparr>rd_udp_lru := lru_get ops (rd_udp_lru rd) local_port\<rparr>)
      | None \<Rightarrow> do {
          (bind_port, rd) \<leftarrow> bind_new_udp_port ops lk ev rd src;
          (case bind_port of
             Inr p \<Rightarrow> Some (Ok p, rd)
           | Inl e \<Rightarrow>
               if lru_len ops (rd_udp_lru rd) = 0 then Some (Err e, rd)
               else do {
                 ((p, prev_src), lru) \<leftarrow> lru_pop_lru ops (rd_udp_lru rd);
                 Some (Ok p, rd\<lparr>rd_datagram_map := ((rd_datagram_map rd)(prev_src := None))(src \<mapsto> p),
                   rd_udp_lru := lru_put ops lru p src\<rparr>)
               })
        })"

definition unbind_local_udp_port :: "'l lru_ops \<Rightarrow> 'l redirector \<Rightarrow> socket_addr_v4 \<Rightarrow> 'l redirector" where
  "unbind_local_udp_port ops rd src =
     (case rd_datagram_map rd src of
        Some local_port \<Rightarrow>
          rd\<lparr>rd_datagrams := (rd_datagrams rd)(local_port := None),
             rd_udp_lru := lru_pop ops (rd_udp_lru rd) local_port,
             rd_datagram_map := (rd_datagram_map rd)(src := None)\<rparr>
      | None \<Rightarrow> rd)"

definition handle_udp :: "'l lru_ops \<Rightarrow> link \<Rightarrow> env \<Rightarrow> 'l redirector \<Rightarrow> udp \<Rightarrow> u8 list
    \<Rightarrow> (unit, 'l redirector) outcome" where
  "handle_udp ops lk ev rd udp payload =
     and_then (bind_local_udp_port ops lk ev rd (SocketAddrV4 (udp_src_ip udp) (udp_source (udp_layer udp))))
       (\<lambda>p rd. do {
         worker \<leftarrow> rd_datagrams rd p;
         (r, worker) \<leftarrow> datagram_send_to worker payload
           (SocketAddrV4 (udp_dst_ip udp) (udp_destination (udp_layer udp))) (ev_send_to ev);
         rd \<leftarrow> tasks_run lk (ev_now ev) (ev_await_send_to ev)
           (rd\<lparr>rd_datagrams := (rd_datagrams rd)(p \<mapsto> worker)\<rparr>);
         (case r of Inl e \<Rightarrow> Some (Err e, rd) | Inr _ \<Rightarrow> Some (Ok (), rd))
       })"

section \<open>Frames\<close>

definition handle_icmpv4 :: "'l lru_ops \<Rightarrow> link \<Rightarrow> 'l redirector \<Rightarrow> icmpv4 \<Rightarrow> (unit, 'l redirector) outcome" where
  "handle_icmpv4 ops lk rd icmpv4 =
     (if icmpv4_is_destination_port_unreachable icmpv4 then do {
        kind \<leftarrow> icmpv4_next_level_layer_kind (lk_pnet lk) icmpv4;
        (case kind of
           None \<Rightarrow> Some (Ok (), rd)
         | Some kind \<Rightarrow>
             if kind = Udp_kind then do {
               dst \<leftarrow> icmpv4_dst (lk_pnet lk) icmpv4;
               dst \<leftarrow> dst;
               Some (Ok (), unbind_local_udp_port ops rd dst)
             } else Some (Ok (), rd))
      } else if icmpv4_is_fragmentation_required icmpv4 then do {
        mtu \<leftarrow> icmpv4_next_hop_mtu icmpv4;
        mtu \<leftarrow> mtu;
        dst \<leftarrow> icmpv4_dst_ip_addr (lk_pnet lk) icmpv4;
        dst \<leftarrow> dst;
        Some (Ok (), rd\<lparr>rd_tx := snd (set_src_mtu (rd_tx rd) dst (unat mtu))\<rparr>)
      } else Some (Ok (), rd))"

text \<open>The address of a device is taken from its first frame, and only from the first device.\<close>

definition learn_hardware_addr :: "'l redirector \<Rightarrow> ipv4_addr \<Rightarrow> hardware_addr \<Rightarrow> 'l redirector" where
  "learn_hardware_addr rd src hardware_addr =
     (if \<not> rd_is_tx_src_hardware_addr_set rd
      then rd\<lparr>rd_tx := set_src_hardware_addr (rd_tx rd) src hardware_addr,
        rd_is_tx_src_hardware_addr_set := True\<rparr>
      else rd)"

definition handle_arp :: "link \<Rightarrow> 'l redirector \<Rightarrow> indicator \<Rightarrow> (unit, 'l redirector) outcome" where
  "handle_arp lk rd ind =
     (case rd_gw_ip_addr rd of
        None \<Rightarrow> Some (Ok (), rd)
      | Some gw \<Rightarrow>
          (case indicator_arp ind of
             None \<Rightarrow> Some (Ok (), rd)
           | Some arp \<Rightarrow>
               let src = arp_sender_proto_addr arp
               in if src \<noteq> rd_local_ip_addr rd \<and> rd_src_contains rd src \<and> arp_target_proto_addr arp = gw
                  then on_tx (learn_hardware_addr rd src (arp_sender_hw_addr arp))
                    (\<lambda>f. send_arp_reply lk f src)
                  else Some (Ok (), rd)))"

text \<open>The handler of a transport layer; \<open>rest\<close> is the payload behind it.\<close>

definition handle_transport :: "'l lru_ops \<Rightarrow> link \<Rightarrow> env \<Rightarrow> 'l redirector \<Rightarrow> layers \<Rightarrow> u8 list option
    \<Rightarrow> (unit, 'l redirector) outcome" where
  "handle_transport ops lk ev rd transport rest =
     (case transport of
        LIcmpv4 icmpv4 \<Rightarrow> handle_icmpv4 ops lk rd icmpv4
      | LTcp tcp \<Rightarrow> do { payload \<leftarrow> rest; handle_tcp lk ev rd tcp payload }
      | LUdp udp \<Rightarrow> do { payload \<leftarrow> rest; handle_udp ops lk ev rd udp payload }
      | _ \<Rightarrow> None)"

text \<open>The part of \<open>handle_ipv4\<close> for a fragment, with the frame cut to the length in its header.\<close>

definition handle_fragment :: "'l lru_ops \<Rightarrow> link \<Rightarrow> env \<Rightarrow> 'l redirector \<Rightarrow> indicator \<Rightarrow> u8 list
    \<Rightarrow> (unit, 'l redirector) outcome" where
  "handle_fragment ops lk ev rd ind frame_without_padding = do {
     (frag, defrag) \<leftarrow> defraggler_add (lk_pnet lk) (rd_defrag rd) ind frame_without_padding (ev_now ev);
     let rd = rd\<lparr>rd_defrag := defrag\<rparr>;
     (case frag of
        None \<Rightarrow> Some (Ok (), rd)
      | Some frag \<Rightarrow> do {
          (transport, payload) \<leftarrow> fragmentation_concatenate (lk_pnet lk) frag;
          (case transport of
             None \<Rightarrow> Some (Ok (), rd)
           | Some transport \<Rightarrow> handle_transport ops lk ev rd transport (Some payload))
        })
   }"

text \<open>
  The text of the debug message is made first, and can panic. The address of the device is then taken, if
  it is the first, and the frame is cut to the length in its header.
\<close>

definition handle_ipv4 :: "'l lru_ops \<Rightarrow> link \<Rightarrow> env \<Rightarrow> 'l redirector \<Rightarrow> indicator \<Rightarrow> u8 list
    \<Rightarrow> (unit, 'l redirector) outcome" where
  "handle_ipv4 ops lk ev rd ind frame =
     (case indicator_ipv4 ind of
        None \<Rightarrow> Some (Ok (), rd)
      | Some ipv4 \<Rightarrow>
          let src = ip_source ipv4
          in if src \<noteq> rd_local_ip_addr rd \<and> rd_src_contains rd src then do {
               _ \<leftarrow> (if ev_debug ev then receive_text (pn_mac_string (lk_pnet lk)) (lk_pnet lk) ind else Some []);
               rd \<leftarrow> (if \<not> rd_is_tx_src_hardware_addr_set rd then do {
                   ethernet \<leftarrow> indicator_ethernet ind;
                   Some (learn_hardware_addr rd src (eth_source ethernet))
                 } else Some rd);
               content_len \<leftarrow> indicator_content_len (lk_pnet lk) ind;
               frame_without_padding \<leftarrow> subslice frame 0 content_len;
               if ipv4_is_fragment ipv4 then handle_fragment ops lk ev rd ind frame_without_padding
               else
                 (case ind_transport ind of
                    None \<Rightarrow> Some (Ok (), rd)
                  | Some transport \<Rightarrow> handle_transport ops lk ev rd transport (do {
                      n \<leftarrow> indicator_len (lk_pnet lk) ind;
                      subslice frame_without_padding n (length frame_without_padding)
                    }))
             } else Some (Ok (), rd))"

text \<open>An error of a handler is only logged, with the text of the frame.\<close>

definition warn_error :: "pnet \<Rightarrow> indicator \<Rightarrow> (unit, 'l redirector) outcome \<Rightarrow> 'l redirector option" where
  "warn_error pn ind handled = do {
     (r, rd) \<leftarrow> handled;
     _ \<leftarrow> (case r of Inl e \<Rightarrow> indicator_brief (pn_mac_string pn) ind | Inr _ \<Rightarrow> Some []);
     Some rd
   }"

text \<open>One frame in the loop of \<open>open\<close>.\<close>

definition redirect_frame :: "'l lru_ops \<Rightarrow> link \<Rightarrow> env \<Rightarrow> 'l redirector \<Rightarrow> u8 list \<Rightarrow> 'l redirector option" where
  "redirect_frame ops lk ev rd frame =
     (case indicator_from (lk_pnet lk) frame of
        None \<Rightarrow> Some rd
      | Some ind \<Rightarrow>
          (case indicator_network_kind ind of
             None \<Rightarrow> Some rd
           | Some t \<Rightarrow>
               if t = Arp_kind then warn_error (lk_pnet lk) ind (handle_arp lk rd ind)
               else if t = Ipv4_kind then warn_error (lk_pnet lk) ind (handle_ipv4 ops lk ev rd ind frame)
               else None))"

text \<open>
  The loop of \<open>open\<close> over what the device delivers, with the steps the tasks take between two frames.
\<close>

datatype rx_event = Rx_frame env "u8 list" | Rx_err io_error | Rx_task instant task_step

fun redirector_open :: "'l lru_ops \<Rightarrow> link \<Rightarrow> rx_event list \<Rightarrow> 'l redirector \<Rightarrow> (unit, 'l redirector) outcome" where
  "redirector_open ops lk [] rd = Some (Ok (), rd)"
| "redirector_open ops lk (Rx_frame ev frame # es) rd = do {
     rd \<leftarrow> redirect_frame ops lk ev rd frame;
     redirector_open ops lk es rd
   }"
| "redirector_open ops lk (Rx_err e # es) rd =
     (if error_kind e = TimedOut then redirector_open ops lk es rd else Some (Err e, rd))"
| "redirector_open ops lk (Rx_task now t # es) rd = do {
     rd \<leftarrow> task_run lk now t rd;
     redirector_open ops lk es rd
   }"

end
