(* ===== verification/FwInv.thy ===== *)
theory FwInv
  imports Retransmit Fragments
begin

text \<open>
  The invariant of the \<open>Forwarder\<close> and what its operations keep. \<open>fw_inv\<close> says that the send state of
  every connection is valid and the path MTUs are usable; \<open>fw_keeps\<close> says that an operation on one
  connection leaves the other ones alone. Every operation the relay and the tasks call returns,
  keeps the invariant and touches one connection only.
\<close>

section \<open>What an operation on one connection leaves alone\<close>

definition tx_keeps :: "tcp_tx_state \<Rightarrow> tcp_tx_state \<Rightarrow> bool" where
  "tx_keeps x x' \<longleftrightarrow> tx_acknowledgement x' = tx_acknowledgement x \<and> tx_send_window x' = tx_send_window x \<and>
     q_capacity (tx_cache x') = q_capacity (tx_cache x)"

definition fw_keeps :: "socket_addr_v4 \<Rightarrow> socket_addr_v4 \<Rightarrow> forwarder \<Rightarrow> forwarder \<Rightarrow> bool" where
  "fw_keeps dst src f f' \<longleftrightarrow> fw_src_mtu f' = fw_src_mtu f \<and> fw_local_mtu f' = fw_local_mtu f \<and>
     (\<forall>k. k \<noteq> (src, dst) \<longrightarrow> fw_states f' k = fw_states f k) \<and>
     rel_option tx_keeps (get_state f dst src) (get_state f' dst src)"

lemma tx_keeps_refl [simp]: "tx_keeps x x"
  by (simp add: tx_keeps_def)

lemma tx_keeps_trans: "tx_keeps x y \<Longrightarrow> tx_keeps y z \<Longrightarrow> tx_keeps x z"
  by (simp add: tx_keeps_def)

lemma fw_keeps_refl [simp]: "fw_keeps dst src f f"
  by (simp add: fw_keeps_def option.rel_refl)

lemma fw_keeps_trans: "fw_keeps dst src f g \<Longrightarrow> fw_keeps dst src g h \<Longrightarrow> fw_keeps dst src f h"
  unfolding fw_keeps_def
  by (auto elim!: option.rel_cases intro: tx_keeps_trans)

lemma fw_keeps_set_state:
  "get_state f dst src = Some x \<Longrightarrow> tx_keeps x x' \<Longrightarrow> fw_keeps dst src f (set_state f dst src x')"
  by (simp add: fw_keeps_def set_state_def get_state_def)

lemma fw_keeps_state:
  assumes "fw_keeps dst src f f'" and "get_state f dst src = Some x"
  obtains x' where "get_state f' dst src = Some x'" and "tx_keeps x x'"
  using assms by (auto simp: fw_keeps_def elim: option.rel_cases)

lemma fw_keeps_mtu [simp]: "fw_keeps dst src f f' \<Longrightarrow> src_mtu_of f' a = src_mtu_of f a"
  by (simp add: fw_keeps_def src_mtu_of_def)

text \<open>Frames change nothing of the connections, whatever comes of them.\<close>

definition fw_quiet :: "forwarder \<Rightarrow> forwarder \<Rightarrow> bool" where
  "fw_quiet f f' \<longleftrightarrow> fw_src_mtu f' = fw_src_mtu f \<and> fw_local_mtu f' = fw_local_mtu f \<and> fw_states f' = fw_states f"

lemma fw_quiet_refl [simp]: "fw_quiet f f"
  by (simp add: fw_quiet_def)

lemma fw_quiet_trans: "fw_quiet f g \<Longrightarrow> fw_quiet g h \<Longrightarrow> fw_quiet f h"
  by (simp add: fw_quiet_def)

lemma fw_quiet_keeps: "fw_quiet f f' \<Longrightarrow> fw_keeps dst src f f'"
  by (simp add: fw_quiet_def fw_keeps_def get_state_def option.rel_refl)

lemma fw_quiet_get [simp]:
  "fw_quiet f f' \<Longrightarrow> get_state f' dst src = get_state f dst src"
  "fw_quiet f f' \<Longrightarrow> src_mtu_of f' a = src_mtu_of f a"
  by (simp_all add: fw_quiet_def get_state_def src_mtu_of_def)

lemma fw_quiet_identification [simp]: "fw_quiet f (increase_ipv4_identification f dst src)"
  by (simp add: fw_quiet_def increase_ipv4_identification_def Let_def)

lemma fw_send_frame_quiet: "fw_send_frame lk f ind payload = Some (r, f') \<Longrightarrow> fw_quiet f f'"
  by (auto simp: fw_send_frame_def fw_quiet_def Let_def split: bind_splits sum.splits)

lemma send_ethernet_quiet: "send_ethernet lk f hw network transport payload = Some (r, f') \<Longrightarrow> fw_quiet f f'"
  by (auto simp: send_ethernet_def fw_send_def fw_send_with_payload_def Let_def
      split: bind_splits option.splits dest: fw_send_frame_quiet)

lemma and_then_Some:
  assumes "and_then m k = Some (r, s')"
  obtains e where "m = Some (Err e, s')" and "r = Err e" | a s where "m = Some (Ok a, s)" and "k a s = Some (r, s')"
  using assms by (auto simp: and_then_def split: option.splits sum.splits)

lemma send_ipv4_with_transport_quiet:
  "send_ipv4_with_transport lk f dst src l payload = Some (r, f') \<Longrightarrow> fw_quiet f f'"
  by (auto simp: send_ipv4_with_transport_def Let_def split: bind_splits elim!: and_then_Some
      dest!: send_ethernet_quiet intro: fw_quiet_trans)

lemma send_tcp_quiet:
  "send_tcp_ack_0 lk f dst src = Some (r, f') \<Longrightarrow> fw_quiet f f'"
  "send_tcp_ack_syn lk f dst src = Some (r, f') \<Longrightarrow> fw_quiet f f'"
  "send_tcp_ack_rst lk f dst src = Some (r, f') \<Longrightarrow> fw_quiet f f'"
  "send_tcp_rst lk f dst src = Some (r, f') \<Longrightarrow> fw_quiet f f'"
  "send_tcp_fin lk f dst src = Some (r, f') \<Longrightarrow> fw_quiet f f'"
  by (auto simp: send_tcp_ack_0_def send_tcp_ack_syn_def send_tcp_ack_rst_def send_tcp_rst_def send_tcp_fin_def
      split: bind_splits if_splits elim!: and_then_Some intro: send_ipv4_with_transport_quiet)

section \<open>Every operation touches one connection\<close>

lemma advance_sequence_keeps:
  "advance_sequence f dst src n = Some f' \<Longrightarrow> fw_keeps dst src f f'"
  by (auto simp: advance_sequence_def add_sequence_def tx_keeps_def Let_def split: bind_splits if_splits
      intro!: fw_keeps_set_state)

lemma ack_raw_iteration_keeps:
  "ack_raw_iteration lk dst src sequence payload is_fin mss i f = Some (r, f') \<Longrightarrow> fw_keeps dst src f f'"
  by (auto simp: ack_raw_iteration_def Let_def split: bind_splits elim!: and_then_Some
      dest!: send_ipv4_with_transport_quiet advance_sequence_keeps intro: fw_quiet_keeps)
    (meson fw_quiet_keeps fw_keeps_trans)

lemma ack_raw_loop_keeps:
  "ack_raw_loop lk dst src sequence payload is_fin mss fuel i f = Some (r, f') \<Longrightarrow> fw_keeps dst src f f'"
proof (induction fuel arbitrary: i f)
  case 0
  then show ?case by (auto simp: ack_raw_loop.simps split: if_splits)
next
  case (Suc fuel)
  from Suc.prems show ?case
    by (subst (asm) ack_raw_loop.simps)
      (auto split: if_splits elim!: and_then_Some dest!: ack_raw_iteration_keeps Suc.IH intro: fw_keeps_trans)
qed

lemma send_tcp_ack_raw_keeps:
  "send_tcp_ack_raw lk f dst src sequence payload is_fin = Some (r, f') \<Longrightarrow> fw_keeps dst src f f'"
  by (auto simp: send_tcp_ack_raw_def split: bind_splits intro: ack_raw_loop_keeps)

lemma queue_capacity_keeps:
  "queue_append q p rto now = Some (r, q') \<Longrightarrow> q_capacity q' = q_capacity q"
  "queue_get_timed_out_and_update q rto now = Some (p', q'') \<Longrightarrow> q_capacity q'' = q_capacity q"
  by (auto simp: queue_append_def queue_get_timed_out_and_update_def Let_def split: bind_splits if_splits prod.splits option.splits)

lemma tx_keeps_ops:
  "append_cache x n now = Some (r, x') \<Longrightarrow> tx_keeps x x'"
  "take_timed_out x rto now = Some (p, x'') \<Longrightarrow> tx_keeps x x''"
  by (auto simp: append_cache_def take_timed_out_def tx_keeps_def Let_def queue_capacity_keeps
      split: bind_splits if_splits sum.splits)

lemma tx_keeps_simple [simp, intro]:
  "tx_keeps x (append_cache_fin x now)" "tx_keeps x (append_queue x p)" "tx_keeps x (append_queue_fin x)"
  "tx_keeps x (double_rto x)" "tx_keeps x (update_fin_timer x now)" "tx_keeps x (update_syn_timer x now)"
  by (simp_all add: tx_keeps_def append_cache_fin_def append_queue_def append_queue_fin_def double_rto_def
      set_rto_def update_fin_timer_def update_syn_timer_def Let_def)

text \<open>A change of the state first, then an operation.\<close>

lemma fw_keeps_after_set:
  "fw_keeps dst src (set_state f dst src x') f' \<Longrightarrow> get_state f dst src = Some x \<Longrightarrow> tx_keeps x x' \<Longrightarrow>
     fw_keeps dst src f f'"
  by (rule fw_keeps_trans [OF fw_keeps_set_state])

lemma fw_keeps_then_set:
  "fw_keeps dst src f f' \<Longrightarrow> get_state f' dst src = Some x \<Longrightarrow> tx_keeps x x' \<Longrightarrow>
     fw_keeps dst src f (set_state f' dst src x')"
  by (rule fw_keeps_trans [OF _ fw_keeps_set_state])

lemma send_queued_keeps:
  assumes "send_queued lk f dst src n now = Some (r, f')"
  shows "fw_keeps dst src f f'"
proof -
  obtain x q x1 where x: "get_state f dst src = Some x" and app: "append_cache x n now = Some (q, x1)"
    using assms by (auto simp: send_queued_def split: bind_splits)
  have k1: "fw_keeps dst src f (set_state f dst src x1)"
    by (rule fw_keeps_set_state [OF x tx_keeps_ops(1) [OF app]])
  have k2: "fw_keeps dst src f (set_state (set_state f dst src x1) dst src (append_cache_fin x1 now))"
    by (rule fw_keeps_then_set [OF k1, of x1]) simp_all
  show ?thesis
    using assms x app k1 k2
    by (auto simp: send_queued_def Let_def split: sum.splits if_splits dest!: send_tcp_ack_raw_keeps
        elim: fw_keeps_trans)
qed

lemma send_queued_fin_keeps:
  "send_queued_fin lk f dst src now = Some (r, f') \<Longrightarrow> fw_keeps dst src f f'"
  by (auto simp: send_queued_fin_def split: bind_splits if_splits elim!: and_then_Some
      dest!: send_tcp_quiet(5) [THEN fw_quiet_keeps, of _ _ _ _ _ _ dst src]
      elim!: fw_keeps_after_set)

lemma send_tcp_ack_keeps:
  "send_tcp_ack lk f dst src now = Some (r, f') \<Longrightarrow> fw_keeps dst src f f'"
  by (auto simp: send_tcp_ack_def split: bind_splits if_splits elim!: and_then_Some
      dest!: send_queued_keeps send_queued_fin_keeps
      intro: fw_keeps_trans send_tcp_quiet(2) [THEN fw_quiet_keeps])

lemma forward_keeps:
  "forward_open lk f dst src now = Some (r, f') \<Longrightarrow> fw_keeps dst src f f'"
  "forward_stream lk f dst src payload now = Some (r, f') \<Longrightarrow> fw_keeps dst src f f'"
  "forward_close lk f dst src now = Some (r, f') \<Longrightarrow> fw_keeps dst src f f'"
  by (auto simp: forward_open_def forward_stream_def forward_close_def append_to_queue_def
      split: bind_splits if_splits elim!: and_then_Some
      dest!: send_tcp_ack_keeps send_tcp_quiet(2) [THEN fw_quiet_keeps, of _ _ _ _ _ _ dst src]
      elim!: fw_keeps_after_set)
    (blast intro: fw_keeps_then_set)+

lemma retransmit_tcp_ack_keeps:
  "retransmit_tcp_ack lk f dst src = Some (r, f') \<Longrightarrow> fw_keeps dst src f f'"
  by (auto simp: retransmit_tcp_ack_def Let_def split: bind_splits if_splits elim!: and_then_Some
      intro: send_tcp_ack_raw_keeps)

lemma retransmit_ranges_keeps:
  "retransmit_ranges lk dst src recv_next ranges f = Some (r, f') \<Longrightarrow> fw_keeps dst src f f'"
proof (induction ranges arbitrary: f)
  case (Cons rng ranges)
  from Cons.prems show ?case
    by (auto simp: Let_def split: bind_splits if_splits sum.splits elim!: and_then_Some
        dest!: Cons.IH send_tcp_ack_raw_keeps intro: fw_keeps_trans)
qed simp

lemma retransmit_tcp_ack_without_keeps:
  "retransmit_tcp_ack_without lk f dst src sacks = Some (r, f') \<Longrightarrow> fw_keeps dst src f f'"
  by (auto simp: retransmit_tcp_ack_without_def Let_def split: bind_splits if_splits elim!: and_then_Some
      dest!: retransmit_ranges_keeps send_tcp_quiet(5) [THEN fw_quiet_keeps, of _ _ _ _ _ _ dst src]
      intro: fw_keeps_trans)

lemma forward_tick_keeps:
  assumes "forward_tick lk f dst src now = Some (r, f')"
  shows "fw_keeps dst src f f'"
proof -
  obtain x rto p y where x: "get_state f dst src = Some x" and t: "take_timed_out x rto now = Some (p, y)"
    and run: "(let f = set_state f dst src y in
      if q_size (tx_cache y) > 0 then
        if q_size (tx_cache (double_rto y)) = length p \<and> tx_cache_fin (double_rto y) \<noteq> None
        then send_tcp_ack_raw lk (set_state f dst src (update_fin_timer (double_rto y) now)) dst src
          (q_sequence (tx_cache y)) p True
        else send_tcp_ack_raw lk (set_state f dst src (double_rto y)) dst src (q_sequence (tx_cache y)) p False
      else (case tx_cache_fin y of
          Some timer \<Rightarrow> if timer_is_timedout now timer
            then send_tcp_fin lk (set_state f dst src (update_fin_timer (double_rto y) now)) dst src
            else Some (Ok (), f)
        | None \<Rightarrow> Some (Ok (), f))) = Some (r, f')"
    using assms unfolding forward_tick_def retransmit_tcp_ack_timedout_def Let_def
    by (auto split: bind_splits)
  have k1: "fw_keeps dst src f (set_state f dst src y)"
    by (rule fw_keeps_set_state [OF x tx_keeps_ops(2) [OF t]])
  have k2: "fw_keeps dst src f (set_state (set_state f dst src y) dst src z)" if "tx_keeps y z" for z
    by (rule fw_keeps_then_set [OF k1 _ that]) simp
  have "tx_keeps y (update_fin_timer (double_rto y) now)"
    by (rule tx_keeps_trans [of _ "double_rto y"]) auto
  note k3 = k2 [OF this] k2 [OF tx_keeps_simple(4)]
  show ?thesis
    using run k1 k3
    by (auto simp: Let_def split: if_splits option.splits dest!: send_tcp_ack_raw_keeps
        send_tcp_quiet(5) [THEN fw_quiet_keeps, of _ _ _ _ _ _ dst src] elim: fw_keeps_trans)
qed

lemma send_udp_quiet:
  "send_udp lk f dst src payload = Some (r, f') \<Longrightarrow> fw_quiet f f'"
proof -
  have frag: "fw_quiet f f'" if "fragment_loop lk dst src kind buffer t mss fuel n f = Some (r, f')"
    for kind buffer t mss fuel n f r
    using that
  proof (induction fuel arbitrary: n f)
    case 0
    then show ?case by (subst (asm) fragment_loop.simps) (auto split: if_splits)
  next
    case (Suc fuel)
    from Suc.prems show ?case
      by (subst (asm) fragment_loop.simps,
          auto simp: send_ipv4_with_fragment_def send_ipv4_with_last_fragment_def split: if_splits bind_splits
          elim!: and_then_Some dest!: Suc.IH send_ethernet_quiet)
        (blast intro: fw_quiet_trans fw_quiet_identification)+
  qed
  assume "send_udp lk f dst src payload = Some (r, f')"
  then show ?thesis
    by (auto simp: send_udp_def send_udp_raw_def Let_def split: bind_splits if_splits sum.splits elim!: and_then_Some
        dest: frag send_ipv4_with_transport_quiet)
qed

section \<open>The invariant\<close>

definition conn_ok :: "tcp_tx_state \<Rightarrow> bool" where
  "conn_ok x \<longleftrightarrow> tx_ok x \<and> tx_send_window x \<le> q_capacity (tx_cache x) \<and>
     q_capacity (tx_cache x) \<le> MAX_U32_WINDOW_SIZE"

definition fw_inv :: "forwarder \<Rightarrow> bool" where
  "fw_inv f \<longleftrightarrow> (\<forall>k x. fw_states f k = Some x \<longrightarrow> conn_ok x) \<and> 40 < fw_local_mtu f \<and> fw_local_mtu f \<le> 65535 \<and>
     (\<forall>a. 40 < src_mtu_of f a \<and> src_mtu_of f a \<le> 65535)"

lemma fw_inv_conn: "fw_inv f \<Longrightarrow> get_state f dst src = Some x \<Longrightarrow> conn_ok x"
  by (simp add: fw_inv_def get_state_def)

lemma fw_inv_mtu: "fw_inv f \<Longrightarrow> 40 < src_mtu_of f a" "fw_inv f \<Longrightarrow> src_mtu_of f a \<le> 65535"
  by (simp_all add: fw_inv_def)

lemma conn_ok_size: "conn_ok x \<Longrightarrow> q_size (tx_cache x) \<le> MAX_U32_WINDOW_SIZE"
  by (auto simp: conn_ok_def tx_ok_def queue_inv_def queue_wf_def)

lemma fw_inv_quiet: "fw_inv f \<Longrightarrow> fw_quiet f f' \<Longrightarrow> fw_inv f'"
  by (simp add: fw_inv_def fw_quiet_def src_mtu_of_def)

lemma fw_inv_keeps:
  assumes "fw_inv f" and "fw_keeps dst src f f'" and "\<And>x. get_state f' dst src = Some x \<Longrightarrow> tx_ok x"
  shows "fw_inv f'"
proof -
  have "conn_ok x" if "fw_states f' k = Some x" for k x
  proof (cases "k = (src, dst)")
    case True
    with that have x: "get_state f' dst src = Some x" by (simp add: get_state_def)
    with assms(2) obtain y where "get_state f dst src = Some y" "tx_keeps y x"
      by (auto simp: fw_keeps_def elim: option.rel_cases)
    with fw_inv_conn [OF assms(1)] assms(3) [OF x] show ?thesis by (auto simp: conn_ok_def tx_keeps_def)
  next
    case False
    with assms(2) have "fw_states f' k = fw_states f k" unfolding fw_keeps_def by blast
    with that assms(1) show ?thesis unfolding fw_inv_def by metis
  qed
  with assms(1,2) show ?thesis by (simp add: fw_inv_def fw_keeps_def src_mtu_of_def)
qed

lemma fw_inv_set_state:
  "fw_inv f \<Longrightarrow> conn_ok x \<Longrightarrow> fw_inv (set_state f dst src x)"
  by (auto simp: fw_inv_def split: if_splits)

lemma fw_inv_clean_up: "fw_inv f \<Longrightarrow> fw_inv (fw_clean_up f dst src)"
  by (auto simp: fw_inv_def fw_clean_up_def src_mtu_of_def split: if_splits)

section \<open>Segments without data\<close>

lemma tcp_header_flags:
  "tcp_sizes_ok pn \<Longrightarrow> tcp_len pn (tcp_set_flags t fl) = tcp_len pn t"
  "tcp_data_offset (tcp_layer (tcp_set_flags t fl)) = tcp_data_offset (tcp_layer t)"
  by (simp_all add: tcp_len_eq tcp_set_flags_def)

lemma control_send_ok:
  assumes lk: "link_ok lk"
    and t: "u = tcp_new_ack a b s k w sacks ts \<or> u = tcp_new_ack_syn a b s k w mss wscale sack_perm ts"
    and v: "v = u \<or> v = tcp_set_flags u fl"
  obtains fr where "send_ipv4_with_transport lk f dst src (LTcp v) None = Some (Ok (), after_send f dst src fr)"
    and "sent_payload fr = []" and "\<exists>j. ind_transport (fst fr) = Some (LTcp (tcp_set_ipv4_layer v j)) \<and>
      ip_source j = dst \<and> ip_destination j = src"
proof -
  have pn: "pnet_ok (lk_pnet lk)" using lk by (simp add: link_ok_def)
  then have sizes: "tcp_sizes_ok (lk_pnet lk)" by (simp add: pnet_ok_def pnet_sizes_def)
  have "tcp_len (lk_pnet lk) v = Some (4 * unat (tcp_data_offset (tcp_layer v)))"
      "unat (tcp_data_offset (tcp_layer v)) \<le> 15"
    using tcp_header_ok [OF sizes t] v tcp_header_flags(1) [OF sizes] tcp_header_flags(2) by auto
  moreover from this(1) have "5 \<le> unat (tcp_data_offset (tcp_layer v))"
    using tcp_len_eq [OF sizes, of v] by simp
  ultimately have fits: "transport_fits (lk_pnet lk) (Some (LTcp v)) (4 * unat (tcp_data_offset (tcp_layer v)))
      (length (unwrap_or (None :: u8 list option) []))"
    by (simp add: transport_fits_def)
  show ?thesis
    by (rule send_ipv4_with_transport_ok [OF lk fits, of f dst src])
      (rule that; auto simp: set_ipv4_layer_def)
qed

lemma send_control_inv:
  assumes lk: "link_ok lk" and inv: "fw_inv f"
  shows "get_state f dst src \<noteq> None \<Longrightarrow> \<exists>f'. send_tcp_ack_0 lk f dst src = Some (Ok (), f') \<and> fw_inv f'"
    and "get_state f dst src \<noteq> None \<Longrightarrow> \<exists>f'. send_tcp_ack_syn lk f dst src = Some (Ok (), f') \<and> fw_inv f'"
    and "get_state f dst src \<noteq> None \<Longrightarrow> \<exists>f'. send_tcp_ack_rst lk f dst src = Some (Ok (), f') \<and> fw_inv f'"
    and "\<exists>f'. send_tcp_rst lk f dst src = Some (Ok (), f') \<and> fw_inv f'"
    and "get_state f dst src \<noteq> None \<Longrightarrow> \<exists>f'. send_tcp_fin lk f dst src = Some (Ok (), f') \<and> fw_inv f'"
proof -
  have after: "fw_inv (after_send f d s fr)" for d s fr
    using inv by (simp add: fw_inv_def src_mtu_of_def)
  have ack: "\<exists>f'. send_ipv4_with_transport lk f d s (LTcp v) None = Some (Ok (), f') \<and> fw_inv f'"
    if "v = u \<or> v = tcp_set_flags u fl" "u = tcp_new_ack a b q k w sacks None" for d s v u fl a b q k w sacks
    by (rule control_send_ok [OF lk disjI1 [OF that(2)] that(1), where f = f and dst = d and src = s])
      (use after in auto)
  have syn: "\<exists>f'. send_ipv4_with_transport lk f d s (LTcp u) None = Some (Ok (), f') \<and> fw_inv f'"
    if "u = tcp_new_ack_syn a b q k w mss wscale sack_perm None" for d s u a b q k w mss wscale sack_perm
    by (rule control_send_ok [OF lk disjI2 [OF that] disjI1 [OF refl], where f = f and dst = d and src = s])
      (use after in auto)
  have win: "\<exists>w. get_tcp_window f dst src = Some w" if "get_state f dst src \<noteq> None"
    using that by (auto simp: get_tcp_window_def)
  show "\<exists>f'. send_tcp_rst lk f dst src = Some (Ok (), f') \<and> fw_inv f'"
    unfolding send_tcp_rst_def tcp_new_rst_def by (rule ack [OF disjI2 [OF refl] refl])
  assume "get_state f dst src \<noteq> None"
  then obtain x w where x: "get_state f dst src = Some x" "get_tcp_window f dst src = Some w" using win by auto
  show "\<exists>f'. send_tcp_ack_0 lk f dst src = Some (Ok (), f') \<and> fw_inv f'"
    unfolding send_tcp_ack_0_def by (simp add: x) (rule ack [OF disjI1 [OF refl] refl])
  show "\<exists>f'. send_tcp_fin lk f dst src = Some (Ok (), f') \<and> fw_inv f'"
    unfolding send_tcp_fin_def tcp_new_fin_def by (simp add: x) (rule ack [OF disjI2 [OF refl] refl])
  show "\<exists>f'. send_tcp_ack_rst lk f dst src = Some (Ok (), f') \<and> fw_inv f'"
    using ack [OF disjI2 [OF refl] refl]
    by (simp add: x send_tcp_ack_rst_def tcp_new_ack_rst_def tcp_new_rst_def tcp_set_flags_def Let_def)
  have "40 \<le> fw_local_mtu f" using inv by (simp add: fw_inv_def)
  then obtain m where "usub (fw_local_mtu f) (ipv4_minimum_len + tcp_minimum_len) = Some m"
    by (simp add: usub_def ipv4_minimum_len_def tcp_minimum_len_def)
  moreover obtain f' where "send_ipv4_with_transport lk f (ip dst) (ip src)
      (LTcp (tcp_new_ack_syn (port dst) (port src) (tx_sequence x) (tx_acknowledgement x) w
        (Some (if m > 65535 then 65535 else of_nat m)) (tx_send_wscale x) (tx_sack_perm x) None)) None =
        Some (Ok (), f')" "fw_inv f'"
    using syn [OF refl] by blast
  ultimately show "\<exists>f'. send_tcp_ack_syn lk f dst src = Some (Ok (), f') \<and> fw_inv f'"
    by (simp add: x send_tcp_ack_syn_def ENABLE_MSS_def Let_def)
qed

section \<open>Data\<close>

lemma send_tcp_ack_inv:
  assumes lk: "link_ok lk" and inv: "fw_inv f" and x: "get_state f dst src = Some x"
  obtains f' x' where "send_tcp_ack lk f dst src now = Some (Ok (), f')" and "fw_inv f'"
    and "get_state f' dst src = Some x'" and "tx_keeps x x'"
proof -
  have conn: "conn_ok x" by (rule fw_inv_conn [OF inv x])
  note mtu = fw_inv_mtu [OF inv, of "ip src"]
  have "\<exists>f'. send_tcp_ack lk f dst src now = Some (Ok (), f') \<and> fw_inv f'"
  proof (cases "tx_cache_syn x")
    case None
    from send_tcp_ack_ok [OF lk x _ None _ mtu, of now] conn obtain f' x' where
      "send_tcp_ack lk f dst src now = Some (Ok (), f')" "get_state f' dst src = Some x'" "tx_ok x'"
      by (auto simp: conn_ok_def)
    with fw_inv_keeps [OF inv send_tcp_ack_keeps [OF this(1)]] show ?thesis by auto
  next
    case (Some t)
    with x send_control_inv(2) [OF lk inv, of dst src] show ?thesis by (simp add: send_tcp_ack_def)
  qed
  then obtain f' where f': "send_tcp_ack lk f dst src now = Some (Ok (), f')" "fw_inv f'" by blast
  with fw_keeps_state [OF send_tcp_ack_keeps x] that show ?thesis by blast
qed

lemma forward_tick_inv:
  assumes lk: "link_ok lk" and inv: "fw_inv f" and x: "get_state f dst src = Some x"
  obtains f' where "forward_tick lk f dst src now = Some (Ok (), f')" and "fw_inv f'"
proof -
  have conn: "conn_ok x" by (rule fw_inv_conn [OF inv x])
  then have ok: "tx_ok x" by (simp add: conn_ok_def)
  from retransmit_timedout_ok [OF lk x ok conn_ok_size [OF conn] fw_inv_mtu [OF inv], of now]
  obtain f' x' where f': "forward_tick lk f dst src now = Some (Ok (), f')" "get_state f' dst src = Some x'" "tx_ok x'"
    by (auto simp: forward_tick_def)
  with fw_inv_keeps [OF inv forward_tick_keeps [OF f'(1)]] show ?thesis by (intro that) auto
qed

lemma conn_ok_keeps: "conn_ok x \<Longrightarrow> tx_keeps x x' \<Longrightarrow> tx_ok x' \<Longrightarrow> conn_ok x'"
  by (simp add: conn_ok_def tx_keeps_def)

lemma forward_inv:
  assumes lk: "link_ok lk" and inv: "fw_inv f" and x: "get_state f dst src = Some x"
  shows "\<exists>f'. forward_open lk f dst src now = Some (Ok (), f') \<and> fw_inv f'"
    and "\<exists>r f'. forward_stream lk f dst src payload now = Some (r, f') \<and> fw_inv f'"
    and "\<exists>f'. forward_close lk f dst src now = Some (Ok (), f') \<and> fw_inv f'"
proof -
  have conn: "conn_ok x" by (rule fw_inv_conn [OF inv x])
  then have ok: "tx_ok x" by (simp add: conn_ok_def)
  have set: "\<exists>f'. send_tcp_ack lk (set_state f dst src y) dst src now = Some (Ok (), f') \<and> fw_inv f'"
    if "tx_keeps x y" "tx_ok y" for y
  proof -
    have inv': "fw_inv (set_state f dst src y)"
      by (rule fw_inv_set_state [OF inv conn_ok_keeps [OF conn that]])
    have y: "get_state (set_state f dst src y) dst src = Some y" by simp
    show ?thesis by (rule send_tcp_ack_inv [OF lk inv' y, of now]) blast
  qed
  show "\<exists>f'. forward_close lk f dst src now = Some (Ok (), f') \<and> fw_inv f'"
    using x set [of "append_queue_fin x"] tx_ok_simple [OF ok] by (simp add: forward_close_def)
  show "\<exists>r f'. forward_stream lk f dst src payload now = Some (r, f') \<and> fw_inv f'"
    using x set [of "append_queue x payload"] tx_ok_simple [OF ok] inv
    by (auto simp: forward_stream_def append_to_queue_def)
  obtain f1 where f1: "send_tcp_ack_syn lk f dst src = Some (Ok (), f1)" "fw_inv f1"
    using send_control_inv(2) [OF lk inv, of dst src] x by auto
  then have x1: "get_state f1 dst src = Some x" using send_tcp_quiet(2) x by fastforce
  have "conn_ok (update_syn_timer x now)"
    by (rule conn_ok_keeps [OF conn]) (simp_all add: tx_ok_simple [OF ok])
  then show "\<exists>f'. forward_open lk f dst src now = Some (Ok (), f') \<and> fw_inv f'"
    using f1 x1 by (simp add: forward_open_def fw_inv_set_state)
qed

lemma retransmit_tcp_ack_inv:
  assumes lk: "link_ok lk" and inv: "fw_inv f" and x: "get_state f dst src = Some x"
  obtains f' where "retransmit_tcp_ack lk f dst src = Some (Ok (), f')" and "fw_inv f'"
proof -
  have "tx_ok x" using fw_inv_conn [OF inv x] by (simp add: conn_ok_def)
  then have q: "queue_get_all (tx_cache x) = Some (queue_bytes (tx_cache x))"
    by (simp add: tx_ok_def queue_get_all_ok)
  show ?thesis
  proof (cases "q_size (tx_cache x) = 0")
    case True
    then have "queue_bytes (tx_cache x) = []" by (simp flip: length_0_conv)
    with x q inv show ?thesis by (intro that [of f]) (simp_all add: retransmit_tcp_ack_def)
  next
    case False
    then have "queue_bytes (tx_cache x) \<noteq> []" by (simp flip: length_0_conv)
    let ?fin = "tx_cache_fin x \<noteq> None"
    obtain f' s where f': "send_tcp_ack_raw lk f dst src (q_sequence (tx_cache x)) (queue_bytes (tx_cache x)) ?fin =
        Some (Ok (), f')" "get_state f' dst src = Some (x\<lparr>tx_sequence := s\<rparr>)"
      by (rule send_tcp_ack_raw_ok [OF lk x fw_inv_mtu [OF inv],
            of "q_sequence (tx_cache x)" "queue_bytes (tx_cache x)" ?fin])
    have "fw_inv f'"
      using fw_inv_keeps [OF inv send_tcp_ack_raw_keeps [OF f'(1)]] f'(2) \<open>tx_ok x\<close>
      by (simp add: tx_ok_def rto_ok_def)
    with f' \<open>queue_bytes (tx_cache x) \<noteq> []\<close> x q show ?thesis
      by (intro that [of f']) (simp_all add: retransmit_tcp_ack_def)
  qed
qed

text \<open>Whatever ranges a peer reports, selective retransmission returns, possibly with an error.\<close>

lemma retransmit_ranges_total:
  assumes lk: "link_ok lk" and "fw_inv f" and "get_state f dst src = Some x"
  shows "\<exists>r f' x'. retransmit_ranges lk dst src recv_next ranges f = Some (r, f') \<and> fw_inv f' \<and>
    get_state f' dst src = Some x'"
  using assms(2,3)
proof (induction ranges arbitrary: f x)
  case (Cons rng ranges)
  have ok: "tx_ok x" using fw_inv_conn [OF Cons.prems] by (simp add: conn_ok_def)
  obtain g where g: "queue_get (tx_cache x) (fst rng) (seq_dist (snd rng) (fst rng)) = Some g"
    using ok queue_get_total by (fastforce simp: tx_ok_def)
  show ?case
  proof (cases g)
    case (Inl e)
    with g Cons.prems show ?thesis by simp
  next
    case (Inr p)
    let ?fin = "snd rng = recv_next \<and> tx_cache_fin x \<noteq> None"
    have "\<exists>f1 x1. (if length p > 0 then send_tcp_ack_raw lk f dst src (fst rng) p ?fin else Some (Ok (), f)) =
        Some (Ok (), f1) \<and> fw_inv f1 \<and> get_state f1 dst src = Some x1"
    proof (cases "0 < length p")
      case True
      obtain f1 s where f1: "send_tcp_ack_raw lk f dst src (fst rng) p ?fin = Some (Ok (), f1)"
          "get_state f1 dst src = Some (x\<lparr>tx_sequence := s\<rparr>)"
        by (rule send_tcp_ack_raw_ok [OF lk Cons.prems(2) fw_inv_mtu [OF Cons.prems(1)], of "fst rng" p ?fin])
      then show ?thesis
        using True fw_inv_keeps [OF Cons.prems(1) send_tcp_ack_raw_keeps [OF f1(1)]] ok
        by (simp add: tx_ok_def rto_ok_def)
    qed (use Cons.prems in simp)
    then obtain f1 x1 where f1: "(if length p > 0 then send_tcp_ack_raw lk f dst src (fst rng) p ?fin
        else Some (Ok (), f)) = Some (Ok (), f1)" "fw_inv f1" "get_state f1 dst src = Some x1"
      by (elim exE conjE)
    show ?thesis using Cons.IH [OF f1(2,3)] g Inr Cons.prems(2) f1(1) by simp
  qed
qed simp

lemma retransmit_tcp_ack_without_total:
  assumes lk: "link_ok lk" and inv: "fw_inv f" and x: "get_state f dst src = Some x"
  obtains r f' where "retransmit_tcp_ack_without lk f dst src sacks = Some (r, f')" and "fw_inv f'"
proof -
  let ?ranges = "remove_sacks [(q_sequence (tx_cache x), queue_recv_next (tx_cache x))] sacks"
  obtain r f1 x1 where run: "retransmit_ranges lk dst src (queue_recv_next (tx_cache x)) ?ranges f = Some (r, f1)"
      "fw_inv f1" "get_state f1 dst src = Some x1"
    using retransmit_ranges_total [OF assms] by blast
  obtain f2 where fin: "send_tcp_fin lk f1 dst src = Some (Ok (), f2)" "fw_inv f2"
    using send_control_inv(5) [OF lk run(2), of dst src] run(3) by auto
  show ?thesis
  proof (cases r)
    case (Inl e)
    with x run show ?thesis by (intro that [of r f1]) (simp_all add: retransmit_tcp_ack_without_def)
  next
    case (Inr u)
    have step: "retransmit_tcp_ack_without lk f dst src sacks =
        (if length ?ranges = 0 \<and> tx_cache_fin x1 \<noteq> None
         then and_then (send_tcp_fin lk f1 dst src) (\<lambda>_ f. Some (Ok (), f)) else Some (Ok (), f1))"
      using x run Inr by (simp add: retransmit_tcp_ack_without_def)
    show ?thesis
    proof (cases "length ?ranges = 0 \<and> tx_cache_fin x1 \<noteq> None")
      case True
      then show ?thesis using step fin by (intro that [of "Ok ()" f2]) simp_all
    next
      case False
      then show ?thesis by (intro that [OF _ run(2)]) (simp only: step if_False)
    qed
  qed
qed

lemma send_udp_inv:
  assumes lk: "link_ok lk" and inv: "fw_inv f" and len: "8 + length payload \<le> 65535"
  obtains f' where "send_udp lk f dst src payload = Some (Ok (), f')" and "fw_inv f'" and "fw_quiet f f'"
proof -
  note mtu = fw_inv_mtu [OF inv, of "ip src"]
  have "\<exists>f'. send_udp lk f dst src payload = Some (Ok (), f')"
  proof (cases "src_mtu_of f (ip src) < 28 + length payload")
    case True
    have m: "36 \<le> src_mtu_of f (ip src)" using mtu(1) by simp
    show ?thesis by (rule send_udp_fragments [OF lk m mtu(2) True len]) blast
  next
    case False
    have fits: "transport_fits (lk_pnet lk) (Some (LUdp (udp_new (port dst) (port src)))) 8
        (length (unwrap_or (Some payload) []))"
      using False mtu(2) by (simp add: transport_fits_def)
    obtain s where "send_ipv4_with_transport lk f (ip dst) (ip src) (LUdp (udp_new (port dst) (port src))) (Some payload) =
        Some (Ok (), after_send f (ip dst) (ip src) s)"
      by (rule send_ipv4_with_transport_ok [OF lk fits, of f "ip dst" "ip src"])
    moreover have "8 + length payload \<le> src_mtu_of f (ip src) - 20" using False by linarith
    ultimately show ?thesis using mtu
      by (simp add: send_udp_def send_udp_raw_def usub_def udp_minimum_len_def ipv4_minimum_len_def Let_def)
  qed
  then obtain f' where f': "send_udp lk f dst src payload = Some (Ok (), f')" by blast
  note q = send_udp_quiet [OF this]
  show ?thesis by (rule that [OF f' fw_inv_quiet [OF inv q] q])
qed

section \<open>The contracts of the workers\<close>

interpretation fwd: forward_stream "forwarder_stream lk" "\<lambda>f. link_ok lk \<and> fw_inv f"
    "\<lambda>f dst src. get_state f dst src \<noteq> None" fw_keeps for lk
proof unfold_locales
  fix f :: forwarder and dst src :: socket_addr_v4 and now :: instant and payload :: "u8 list"
  show "fw_keeps dst src f f" by simp
  assume "link_ok lk \<and> fw_inv f" and "get_state f dst src \<noteq> None"
  then obtain x where a: "link_ok lk" "fw_inv f" "get_state f dst src = Some x" by blast
  show "\<exists>r f'. fs_forward (forwarder_stream lk) f dst src payload now = Some (r, f') \<and> (link_ok lk \<and> fw_inv f') \<and> fw_keeps dst src f f'"
    using forward_inv(2) [OF a, of payload now] forward_keeps(2) a(1) by (fastforce simp: forwarder_stream_def)
  show "\<exists>f'. fs_open (forwarder_stream lk) f dst src now = Some (Ok (), f') \<and> (link_ok lk \<and> fw_inv f') \<and> fw_keeps dst src f f'"
    using forward_inv(1) [OF a, of now] forward_keeps(1) a(1) by (fastforce simp: forwarder_stream_def)
  show "\<exists>f'. fs_tick (forwarder_stream lk) f dst src now = Some (Ok (), f') \<and> (link_ok lk \<and> fw_inv f') \<and> fw_keeps dst src f f'"
    by (rule forward_tick_inv [OF a, of now]) (use forward_tick_keeps a(1) in \<open>fastforce simp: forwarder_stream_def\<close>)
  show "\<exists>f'. fs_close (forwarder_stream lk) f dst src now = Some (Ok (), f') \<and> (link_ok lk \<and> fw_inv f') \<and> fw_keeps dst src f f'"
    using forward_inv(3) [OF a, of now] forward_keeps(3) a(1) by (fastforce simp: forwarder_stream_def)
qed

interpretation fwdg: forward_datagram "forwarder_datagram lk" "\<lambda>f. link_ok lk \<and> fw_inv f" fw_quiet for lk
proof unfold_locales
  fix f :: forwarder and dst src :: socket_addr_v4 and payload :: "u8 list"
  show "fw_quiet f f" by simp
  assume "link_ok lk \<and> fw_inv f" and len: "8 + length payload \<le> 65535"
  then have a: "link_ok lk" "fw_inv f" by blast+
  show "\<exists>r f'. fd_forward (forwarder_datagram lk) f dst src payload = Some (r, f') \<and> (link_ok lk \<and> fw_inv f') \<and> fw_quiet f f'"
    by (rule send_udp_inv [OF a len, of dst src])
      (use a(1) in \<open>auto simp: forwarder_datagram_def forward_datagram_def\<close>)
qed

end
