(* ===== verification/Tasks.thy ===== *)
theory Tasks
  imports Redirector FwInv
begin

text \<open>
  What the tasks of the workers do to the \<open>Redirector\<close> while it waits: they return, keep
  \<open>rd_safe\<close> (each connection with a stream has a send state, each worker its write half and its
  buffers), and change only what \<open>rd_frame\<close> allows: flags of the streams, the send caches and queues,
  receive buffers. Which connections and ports exist, and what has been written, stays as it is.
\<close>

section \<open>The frame of a task\<close>

definition fw_frame :: "forwarder \<Rightarrow> forwarder \<Rightarrow> bool" where
  "fw_frame f f' \<longleftrightarrow> fw_src_mtu f' = fw_src_mtu f \<and> fw_local_mtu f' = fw_local_mtu f \<and>
     (\<forall>k. rel_option tx_keeps (fw_states f k) (fw_states f' k))"

definition rd_frame :: "'l redirector \<Rightarrow> 'l redirector \<Rightarrow> bool" where
  "rd_frame rd rd' \<longleftrightarrow>
     rd' = rd\<lparr>rd_tx := rd_tx rd', rd_streams := rd_streams rd', rd_datagrams := rd_datagrams rd'\<rparr> \<and>
     fw_frame (rd_tx rd) (rd_tx rd') \<and>
     (\<forall>k. rel_option stream_keeps (rd_streams rd k) (rd_streams rd' k)) \<and>
     (\<forall>p. rel_option datagram_keeps (rd_datagrams rd p) (rd_datagrams rd' p))"

lemma rel_option_trans:
  assumes "rel_option R a b" and "rel_option R b c" and trans: "\<And>x y z. R x y \<Longrightarrow> R y z \<Longrightarrow> R x z"
  shows "rel_option R a c"
  using assms(1,2) by (cases a; cases b; cases c; simp) (erule (1) trans)

lemma fw_frame_refl [simp]: "fw_frame f f"
  by (simp add: fw_frame_def option.rel_refl)

lemma fw_frame_trans: "fw_frame f g \<Longrightarrow> fw_frame g h \<Longrightarrow> fw_frame f h"
  unfolding fw_frame_def by (metis rel_option_trans tx_keeps_trans)

lemma fw_keeps_frame: "fw_keeps dst src f f' \<Longrightarrow> fw_frame f f'"
proof -
  assume a: "fw_keeps dst src f f'"
  have "rel_option tx_keeps (fw_states f k) (fw_states f' k)" for k
  proof (cases "k = (src, dst)")
    case True
    with a show ?thesis unfolding fw_keeps_def get_state_def by blast
  next
    case False
    with a have "fw_states f' k = fw_states f k" unfolding fw_keeps_def by blast
    then show ?thesis by (simp add: option.rel_refl)
  qed
  with a show ?thesis by (simp add: fw_frame_def fw_keeps_def)
qed

lemma rd_frame_refl [simp]: "rd_frame rd rd"
  by (simp add: rd_frame_def option.rel_refl)

lemma rd_frame_trans: "rd_frame a b \<Longrightarrow> rd_frame b c \<Longrightarrow> rd_frame a c"
proof -
  assume ab: "rd_frame a b" and bc: "rd_frame b c"
  have "c = a\<lparr>rd_tx := rd_tx c, rd_streams := rd_streams c, rd_datagrams := rd_datagrams c\<rparr>"
    using ab bc unfolding rd_frame_def by (cases a; cases b; cases c) simp
  with ab bc show ?thesis
    unfolding rd_frame_def by (meson fw_frame_trans keeps_trans rel_option_trans)
qed

lemma rd_frame_fields:
  assumes "rd_frame rd rd'"
  shows "rd_states rd' = rd_states rd" and "rd_datagram_map rd' = rd_datagram_map rd"
    and "rd_udp_lru rd' = rd_udp_lru rd" and "fw_frame (rd_tx rd) (rd_tx rd')"
    and "rd_remote rd' = rd_remote rd" and "rd_options rd' = rd_options rd"
  using assms by (cases rd; cases rd'; simp add: rd_frame_def)+

lemma rd_frame_stream:
  assumes "rd_frame rd rd'" and "rd_streams rd k = Some w"
  obtains w' where "rd_streams rd' k = Some w'" and "stream_keeps w w'"
proof -
  from assms(1) have "rel_option stream_keeps (rd_streams rd k) (rd_streams rd' k)"
    unfolding rd_frame_def by blast
  with assms(2) show ?thesis by (auto elim: option.rel_cases intro: that)
qed

lemma fw_frame_state:
  assumes "fw_frame f f'" and "get_state f dst src = Some x"
  obtains x' where "get_state f' dst src = Some x'" and "tx_keeps x x'"
proof -
  from assms(1) have "rel_option tx_keeps (get_state f dst src) (get_state f' dst src)"
    unfolding fw_frame_def get_state_def by blast
  with assms(2) show ?thesis by (auto elim: option.rel_cases intro: that)
qed

section \<open>Safety\<close>

definition worker_ok :: "conn_key \<Rightarrow> stream_worker \<Rightarrow> bool" where
  "worker_ok k w \<longleftrightarrow> sw_src w = fst k \<and> sw_dst w = snd k \<and> (\<not> sw_is_write_closed w \<longrightarrow> sw_stream_tx w) \<and>
     (sw_is_write_closed w \<and> sw_stream_tx w \<longrightarrow> sw_is_read_closed w)"

definition rd_safe :: "'l redirector \<Rightarrow> bool" where
  "rd_safe rd \<longleftrightarrow> fw_inv (rd_tx rd) \<and>
     (\<forall>k w. rd_streams rd k = Some w \<longrightarrow> worker_ok k w \<and> fw_states (rd_tx rd) k \<noteq> None) \<and>
     (\<forall>p w. rd_datagrams rd p = Some w \<longrightarrow> datagram_ok w)"

text \<open>
  What a socket may deliver to a task: anything on a stream, a reply of the SOCKS server on a UDP port.
\<close>

definition task_ok :: "task_step \<Rightarrow> bool" where
  "task_ok t \<longleftrightarrow> (case t of Receiver _ r \<Rightarrow> reply_ok r | _ \<Rightarrow> True)"

lemma stream_keeps_worker_ok: "worker_ok k w \<Longrightarrow> stream_keeps w w' \<Longrightarrow> worker_ok k w'"
  by (auto simp: worker_ok_def stream_keeps_def)

lemma rd_safe_state:
  assumes "rd_safe rd" and "rd_streams rd (src, dst) = Some w"
  obtains x where "get_state (rd_tx rd) dst src = Some x"
proof -
  from assms have "fw_states (rd_tx rd) (src, dst) \<noteq> None" unfolding rd_safe_def by blast
  then show ?thesis by (auto simp: get_state_def intro: that)
qed

section \<open>Runs of tasks\<close>

lemma rd_safe_put_stream:
  assumes safe: "rd_safe rd" and w: "rd_streams rd (src, dst) = Some w" and f: "fw_inv f" "fw_keeps dst src (rd_tx rd) f"
    and keeps: "stream_keeps w w'"
  shows "rd_safe (put_stream (rd\<lparr>rd_tx := f\<rparr>) (src, dst) w')"
    and "rd_frame rd (put_stream (rd\<lparr>rd_tx := f\<rparr>) (src, dst) w')"
proof -
  note frame = fw_keeps_frame [OF f(2)]
  then have some: "fw_states f k \<noteq> None" if "fw_states (rd_tx rd) k \<noteq> None" for k
    using that unfolding fw_frame_def by (metis option.rel_distinct(2) option.exhaust)
  from safe w have "worker_ok (src, dst) w" unfolding rd_safe_def by blast
  then have ok: "worker_ok (src, dst) w'" by (rule stream_keeps_worker_ok [OF _ keeps])
  have str: "worker_ok k v \<and> fw_states (rd_tx rd) k \<noteq> None" if "rd_streams rd k = Some v" for k v
    using safe that unfolding rd_safe_def by blast
  have "worker_ok k v \<and> fw_states f k \<noteq> None" if "((rd_streams rd)((src, dst) \<mapsto> w')) k = Some v" for k v
    using that str ok some w by (metis fun_upd_apply option.inject)
  with safe f show "rd_safe (put_stream (rd\<lparr>rd_tx := f\<rparr>) (src, dst) w')"
    by (simp add: rd_safe_def put_stream_def)
  show "rd_frame rd (put_stream (rd\<lparr>rd_tx := f\<rparr>) (src, dst) w')"
    using frame w keeps by (simp add: rd_frame_def put_stream_def option.rel_refl)
qed

text \<open>
  A step of a task of a stream, given by what it makes of the worker and the forwarder: it keeps \<open>rd_safe\<close> within
  the frame, and leaves connections without a stream alone.
\<close>

definition task_safe :: "'l redirector \<Rightarrow> 'l redirector option \<Rightarrow> bool" where
  "task_safe rd r \<longleftrightarrow> (\<exists>rd'. r = Some rd' \<and> rd_safe rd' \<and> rd_frame rd rd' \<and>
     (\<forall>k. rd_streams rd k = None \<longrightarrow> fw_states (rd_tx rd') k = fw_states (rd_tx rd) k))"

lemma task_safe_same: "rd_safe rd \<Longrightarrow> task_safe rd (Some rd)"
  by (simp add: task_safe_def)

lemma stream_task_safe:
  assumes safe: "rd_safe rd" and w: "rd_streams rd key = Some w"
    and step: "fw_inv (rd_tx rd) \<Longrightarrow> get_state (rd_tx rd) (sw_dst w) (sw_src w) \<noteq> None \<Longrightarrow>
      \<exists>w' f'. st = Some (w', f') \<and> fw_inv f' \<and> fw_keeps (sw_dst w) (sw_src w) (rd_tx rd) f' \<and> stream_keeps w w'"
  shows "task_safe rd (do { (w, f) \<leftarrow> st; Some (put_stream (rd\<lparr>rd_tx := f\<rparr>) key w) })"
proof -
  have "worker_ok key w \<and> fw_states (rd_tx rd) key \<noteq> None" using safe w unfolding rd_safe_def by blast
  then have key: "key = (sw_src w, sw_dst w)" "fw_states (rd_tx rd) key \<noteq> None" "fw_inv (rd_tx rd)"
    using safe by (auto simp: rd_safe_def worker_ok_def)
  then obtain w' f' where s: "st = Some (w', f')" "fw_inv f'" "fw_keeps (sw_dst w) (sw_src w) (rd_tx rd) f'" "stream_keeps w w'"
    using step by (auto simp: get_state_def)
  have "fw_states f' k = fw_states (rd_tx rd) k" if "rd_streams rd k = None" for k
    using that s(3) w key(1) unfolding fw_keeps_def by (metis option.discI)
  with rd_safe_put_stream [OF safe w [unfolded key(1)] s(2-4)] s(1) key(1) show ?thesis by (simp add: task_safe_def put_stream_def)
qed

lemma task_run_safe:
  assumes lk: "link_ok lk" and safe: "rd_safe rd" and t: "task_ok t"
  shows "task_safe rd (task_run lk now t rd)"
proof (cases t)
  case (Reader key ev)
  then show ?thesis
    using task_safe_same [OF safe] stream_task_safe [OF safe] fwd.reader_step_ok [of lk "rd_tx rd" _ ev now] lk
    by (simp add: task_run_def split: option.split)
next
  case (Ticker key)
  then show ?thesis
    using task_safe_same [OF safe] stream_task_safe [OF safe] fwd.ticker_step_ok [of lk "rd_tx rd" _ now] lk
    by (simp add: task_run_def split: option.split)
next
  case (Receiver p r)
  show ?thesis
  proof (cases "rd_datagrams rd p")
    case (Some w)
    have inv: "fw_inv (rd_tx rd)" "datagram_ok w" using safe Some by (auto simp: rd_safe_def)
    then obtain w' f' where *: "receiver_step (forwarder_datagram lk) (rd_tx rd) w r = Some (w', f')" "fw_inv f'"
        "fw_quiet (rd_tx rd) f'" "datagram_keeps w w'" "datagram_ok w'"
      using fwdg.receiver_step_ok [of lk "rd_tx rd" w r] lk t Receiver by (auto simp: task_ok_def)
    let ?rd = "rd\<lparr>rd_tx := f', rd_datagrams := (rd_datagrams rd)(p \<mapsto> w')\<rparr>"
    have "rd_safe ?rd" using safe * by (auto simp: rd_safe_def fw_quiet_def)
    moreover have "rd_frame rd ?rd"
      using * Some fw_keeps_frame [OF fw_quiet_keeps [OF *(3)]] by (simp add: rd_frame_def option.rel_refl)
    ultimately show ?thesis using * Some Receiver by (simp add: task_run_def task_safe_def fw_quiet_def)
  qed (use task_safe_same [OF safe] Receiver in \<open>simp add: task_run_def\<close>)
qed

lemma task_run_ok:
  assumes "link_ok lk" and "rd_safe rd" and "task_ok t"
  obtains rd' where "task_run lk now t rd = Some rd'" and "rd_safe rd'" and "rd_frame rd rd'"
  using task_run_safe [OF assms, of now] by (auto simp: task_safe_def)

lemma tasks_run_ok:
  assumes lk: "link_ok lk" and "rd_safe rd" and "list_all task_ok ts"
  shows "\<exists>rd'. tasks_run lk now ts rd = Some rd' \<and> rd_safe rd' \<and> rd_frame rd rd'"
  using assms(2,3)
proof (induction ts arbitrary: rd)
  case (Cons t ts)
  obtain rd1 where 1: "task_run lk now t rd = Some rd1" "rd_safe rd1" "rd_frame rd rd1"
    using task_run_ok [OF lk Cons.prems(1)] Cons.prems(2) by (metis list.pred_inject(2))
  with Cons.IH [OF 1(2)] Cons.prems(2) show ?case by (auto intro: rd_frame_trans)
qed simp

text \<open>A connection without a stream is left alone.\<close>

lemma task_run_other:
  assumes lk: "link_ok lk" and safe: "rd_safe rd" and t: "task_ok t" and free: "rd_streams rd k = None"
    and run: "task_run lk now t rd = Some rd'"
  shows "fw_states (rd_tx rd') k = fw_states (rd_tx rd) k" and "rd_streams rd' k = None"
proof -
  obtain rd1 where rd1: "task_run lk now t rd = Some rd1" "rd_frame rd rd1"
      "\<forall>k. rd_streams rd k = None \<longrightarrow> fw_states (rd_tx rd1) k = fw_states (rd_tx rd) k"
    using task_run_safe [OF lk safe t, of now] unfolding task_safe_def by blast
  then have r: "rd_frame rd rd'" and same: "rd1 = rd'" using run by simp_all
  show "fw_states (rd_tx rd') k = fw_states (rd_tx rd) k" using rd1(3) free same by blast
  have "rel_option stream_keeps (rd_streams rd k) (rd_streams rd' k)" using r unfolding rd_frame_def by blast
  then show "rd_streams rd' k = None" using free by simp
qed

lemma tasks_run_other:
  assumes lk: "link_ok lk" and "rd_safe rd" and "list_all task_ok ts" and "rd_streams rd k = None" and "tasks_run lk now ts rd = Some rd'"
  shows "fw_states (rd_tx rd') k = fw_states (rd_tx rd) k"
  using assms(2-)
proof (induction ts arbitrary: rd)
  case (Cons t ts)
  have t: "task_ok t" and ts: "list_all task_ok ts" using Cons.prems(2) by simp_all
  obtain rd1 where 1: "task_run lk now t rd = Some rd1" "rd_safe rd1" by (rule task_run_ok [OF lk Cons.prems(1) t])
  with Cons.prems(4) have "tasks_run lk now ts rd1 = Some rd'" by simp
  from Cons.IH [OF 1(2) ts _ this] task_run_other [OF lk Cons.prems(1) t Cons.prems(3) 1(1)] show ?case by simp
qed simp

end
