(* ===== verification/Relay.thy ===== *)
theory Relay
  imports Tasks
begin

text \<open>
  The relay of TCP connections: the invariant of the \<open>Redirector\<close> and what its TCP handlers do.

  \<open>relays st s0 w x t\<close> ties the three parts of a connection together: its worker \<open>w\<close>, its receive
  state \<open>x\<close> and its send state \<open>t\<close>. What has been written to the stream is a prefix of the byte stream
  \<open>st\<close> the device sends from the number \<open>s0\<close> on, the window expects the byte behind it, and the
  number that is acknowledged to the device is the one the receiver expects.
\<close>

declare split_paired_All [simp del] split_paired_Ex [simp del]

section \<open>The invariant\<close>

definition relays :: "(nat \<Rightarrow> u8) \<Rightarrow> u32 \<Rightarrow> stream_worker \<Rightarrow> tcp_rx_state \<Rightarrow> tcp_tx_state \<Rightarrow> bool" where
  "relays st s0 w x t \<longleftrightarrow>
     sw_written w = map st [0..<length (sw_written w)] \<and>
     window_holds st (length (sw_written w)) (rx_cache x) \<and>
     w_sequence (rx_cache x) = seq_adv s0 (length (sw_written w)) \<and>
     rx_recv_next x = tx_acknowledgement t \<and>
     (sw_stream_tx w \<longrightarrow> rx_recv_next x = seq_adv s0 (length (sw_written w))) \<and>
     unat (rx_wscale x) \<le> 8 \<and> w_capacity (rx_cache x) = 65535 * 2 ^ unat (rx_wscale x) \<and>
     q_capacity (tx_cache t) = 65535 * 2 ^ unat (rx_wscale x)"

lemma relaysD:
  assumes "relays st s0 w x t"
  shows "sw_written w = map st [0..<length (sw_written w)]"
    and "window_holds st (length (sw_written w)) (rx_cache x)"
    and "w_sequence (rx_cache x) = seq_adv s0 (length (sw_written w))"
    and "rx_recv_next x = tx_acknowledgement t"
    and "sw_stream_tx w \<Longrightarrow> rx_recv_next x = seq_adv s0 (length (sw_written w))"
    and "unat (rx_wscale x) \<le> 8" and "w_capacity (rx_cache x) = 65535 * 2 ^ unat (rx_wscale x)"
    and "q_capacity (tx_cache t) = 65535 * 2 ^ unat (rx_wscale x)"
  using assms unfolding relays_def by blast+

definition conn_inv :: "'l redirector \<Rightarrow> conn_key \<Rightarrow> bool" where
  "conn_inv rd k \<longleftrightarrow>
     (case rd_streams rd k of
        None \<Rightarrow> rd_states rd k = None
      | Some w \<Rightarrow> \<exists>x t st s0. rd_states rd k = Some x \<and> fw_states (rd_tx rd) k = Some t \<and> relays st s0 w x t)"

definition rd_inv :: "'l redirector \<Rightarrow> bool" where
  "rd_inv rd \<longleftrightarrow> rd_safe rd \<and> (\<forall>k. conn_inv rd k)"

text \<open>A \<open>Redirector\<close> in the middle of handling a segment of the connection \<open>key\<close>.\<close>

definition at_conn :: "conn_key \<Rightarrow> 'l redirector \<Rightarrow> stream_worker \<Rightarrow> tcp_rx_state \<Rightarrow> tcp_tx_state \<Rightarrow> bool" where
  "at_conn key rd w x t \<longleftrightarrow> rd_safe rd \<and> (\<forall>k. k \<noteq> key \<longrightarrow> conn_inv rd k) \<and> rd_streams rd key = Some w \<and>
     rd_states rd key = Some x \<and> fw_states (rd_tx rd) key = Some t"

lemma at_connD:
  assumes "at_conn (src, dst) rd w x t"
  shows "rd_safe rd" and "fw_inv (rd_tx rd)" and "rd_streams rd (src, dst) = Some w"
    and "rd_states rd (src, dst) = Some x" and "get_state (rd_tx rd) dst src = Some t"
    and "worker_ok (src, dst) w" and "conn_ok t"
proof -
  show safe: "rd_safe rd" and w: "rd_streams rd (src, dst) = Some w" and "rd_states rd (src, dst) = Some x"
    using assms by (simp_all add: at_conn_def)
  show inv: "fw_inv (rd_tx rd)" using safe by (simp add: rd_safe_def)
  show t: "get_state (rd_tx rd) dst src = Some t" using assms by (simp add: at_conn_def get_state_def)
  show "conn_ok t" by (rule fw_inv_conn [OF inv t])
  show "worker_ok (src, dst) w" using safe w unfolding rd_safe_def by blast
qed

lemma rd_inv_at:
  assumes "rd_inv rd" and "rd_streams rd key = Some w"
  obtains x t st s0 where "at_conn key rd w x t" and "relays st s0 w x t"
proof -
  from assms have "conn_inv rd key" by (simp add: rd_inv_def)
  then obtain x t st s0 where *: "rd_states rd key = Some x" "fw_states (rd_tx rd) key = Some t" "relays st s0 w x t"
    by (auto simp: conn_inv_def assms(2))
  then have "at_conn key rd w x t" using assms by (simp add: at_conn_def rd_inv_def)
  then show ?thesis by (rule that [OF _ *(3)])
qed

lemma at_conn_inv:
  assumes "at_conn key rd w x t" and "relays st s0 w x t"
  shows "rd_inv rd"
proof -
  have "conn_inv rd key" using assms by (auto simp: at_conn_def conn_inv_def)
  with assms(1) show ?thesis unfolding rd_inv_def at_conn_def by metis
qed

text \<open>The parts the connection \<open>k\<close> depends on.\<close>

lemma conn_inv_cong:
  "rd_streams rd' k = rd_streams rd k \<Longrightarrow> rd_states rd' k = rd_states rd k \<Longrightarrow>
    fw_states (rd_tx rd') k = fw_states (rd_tx rd) k \<Longrightarrow> conn_inv rd' k = conn_inv rd k"
  by (simp add: conn_inv_def split: option.split)

lemma relays_keeps:
  "relays st s0 w x t \<Longrightarrow> stream_keeps w w' \<Longrightarrow> tx_keeps t t' \<Longrightarrow> relays st s0 w' x t'"
  unfolding relays_def stream_keeps_def tx_keeps_def by (elim conjE) simp

lemma conn_inv_frame: "conn_inv rd k \<Longrightarrow> rd_frame rd rd' \<Longrightarrow> conn_inv rd' k"
proof -
  assume inv: "conn_inv rd k" and fr: "rd_frame rd rd'"
  have st: "rel_option stream_keeps (rd_streams rd k) (rd_streams rd' k)"
    and tx: "rel_option tx_keeps (fw_states (rd_tx rd) k) (fw_states (rd_tx rd') k)"
    using fr rd_frame_fields(4) [OF fr] unfolding rd_frame_def fw_frame_def by blast+
  show ?thesis
  proof (cases "rd_streams rd k")
    case None
    with inv st rd_frame_fields(1) [OF fr] show ?thesis by (simp add: conn_inv_def)
  next
    case (Some w)
    with inv obtain x t sm s0 where *: "rd_states rd k = Some x" "fw_states (rd_tx rd) k = Some t" "relays sm s0 w x t"
      by (auto simp: conn_inv_def)
    from st Some obtain w' where w': "rd_streams rd' k = Some w'" "stream_keeps w w'"
      by (auto elim: option.rel_cases)
    from tx * obtain t' where t': "fw_states (rd_tx rd') k = Some t'" "tx_keeps t t'"
      by (auto elim: option.rel_cases)
    from relays_keeps [OF *(3) w'(2) t'(2)] w' t' * rd_frame_fields(1) [OF fr] show ?thesis
      unfolding conn_inv_def by auto
  qed
qed

section \<open>Steps of a handler\<close>

lemma at_conn_put_rx: "at_conn key rd w x t \<Longrightarrow> at_conn key (put_rx rd key x') w x' t"
  by (auto simp: at_conn_def put_rx_def rd_safe_def cong: conn_inv_cong)

lemma at_conn_put_stream:
  "at_conn key rd w x t \<Longrightarrow> worker_ok key w' \<Longrightarrow> at_conn key (put_stream rd key w') w' x t"
  by (auto simp: at_conn_def put_stream_def rd_safe_def cong: conn_inv_cong)

lemma at_conn_set_tx:
  assumes at: "at_conn (src, dst) rd w x t" and inv: "fw_inv f"
    and other: "\<And>k. k \<noteq> (src, dst) \<Longrightarrow> fw_states f k = fw_states (rd_tx rd) k"
    and t': "get_state f dst src = Some t'"
  shows "at_conn (src, dst) (rd\<lparr>rd_tx := f\<rparr>) w x t'"
proof -
  have "conn_inv (rd\<lparr>rd_tx := f\<rparr>) k" if "k \<noteq> (src, dst)" for k
    using at that other [OF that] conn_inv_cong [of "rd\<lparr>rd_tx := f\<rparr>" k rd] by (simp add: at_conn_def)
  moreover have "fw_states f k \<noteq> None" if "rd_streams rd k = Some v" for k v
    using at t' other [of k] that unfolding at_conn_def rd_safe_def get_state_def by (metis option.distinct(1))
  ultimately show ?thesis using at inv t' unfolding at_conn_def rd_safe_def get_state_def by simp
qed


lemma at_conn_update_tx:
  assumes at: "at_conn (src, dst) rd w x t" and g: "g t = Some t'" and ok: "conn_ok t'"
  obtains rd' where "update_tx rd dst src g = Some rd'" and "at_conn (src, dst) rd' w x t'"
proof -
  note d = at_connD [OF at]
  have "at_conn (src, dst) (rd\<lparr>rd_tx := set_state (rd_tx rd) dst src t'\<rparr>) w x t'"
    by (rule at_conn_set_tx [OF at fw_inv_set_state [OF d(2) ok]]) (simp_all add: set_state_def get_state_def)
  then show ?thesis using d g by (intro that) (simp_all add: update_tx_def)
qed

lemma at_conn_on_tx:
  assumes at: "at_conn (src, dst) rd w x t" and run: "op (rd_tx rd) = Some (r, f)"
    and inv: "fw_inv f" and keeps: "fw_keeps dst src (rd_tx rd) f"
  obtains rd' t' where "on_tx rd op = Some (r, rd')" and "at_conn (src, dst) rd' w x t'" and "tx_keeps t t'"
proof -
  obtain t' where t': "get_state f dst src = Some t'" "tx_keeps t t'"
    by (rule fw_keeps_state [OF keeps at_connD(5) [OF at]])
  have "fw_states f k = fw_states (rd_tx rd) k" if "k \<noteq> (src, dst)" for k
    using keeps that unfolding fw_keeps_def by blast
  from at_conn_set_tx [OF at inv this t'(1)] t'(2) run show ?thesis
    by (intro that [of "rd\<lparr>rd_tx := f\<rparr>" t']) (simp_all add: on_tx_def)
qed

lemma at_conn_tasks:
  assumes lk: "link_ok lk" and at: "at_conn (src, dst) rd w x t" and ts: "list_all task_ok ts"
  obtains rd' w' t' where "tasks_run lk now ts rd = Some rd'" and "at_conn (src, dst) rd' w' x t'"
    and "stream_keeps w w'" and "tx_keeps t t'"
proof -
  note d = at_connD [OF at]
  obtain rd' where rd': "tasks_run lk now ts rd = Some rd'" "rd_safe rd'" "rd_frame rd rd'"
    using tasks_run_ok [OF lk d(1) ts] by blast
  obtain w' where w': "rd_streams rd' (src, dst) = Some w'" "stream_keeps w w'"
    by (rule rd_frame_stream [OF rd'(3) d(3)])
  obtain t' where t': "get_state (rd_tx rd') dst src = Some t'" "tx_keeps t t'"
    by (rule fw_frame_state [OF rd_frame_fields(4) [OF rd'(3)] d(5)])
  have "conn_inv rd' k" if "k \<noteq> (src, dst)" for k
    using at that conn_inv_frame [OF _ rd'(3)] unfolding at_conn_def by blast
  then have "at_conn (src, dst) rd' w' x t'"
    using rd' w' t' d(4) rd_frame_fields(1) [OF rd'(3)] by (simp add: at_conn_def get_state_def)
  with rd'(1) w'(2) t'(2) show ?thesis by (intro that)
qed

lemma stream_close_ok: "worker_ok k w \<Longrightarrow> \<exists>w'. stream_close w = Some w'"
  by (auto simp: worker_ok_def stream_close_def stream_shutdown_write_def)

lemma clean_up_ok:
  assumes safe: "rd_safe rd" and other: "\<And>k. k \<noteq> (src, dst) \<Longrightarrow> conn_inv rd k"
  obtains rd' where "clean_up rd src dst = Some rd'" and "rd_inv rd'" and "rd_streams rd' (src, dst) = None"
    and "rd_states rd' (src, dst) = None" and "get_state (rd_tx rd') dst src = None"
    and "\<And>k. k \<noteq> (src, dst) \<Longrightarrow> rd_streams rd' k = rd_streams rd k \<and> rd_states rd' k = rd_states rd k \<and>
      fw_states (rd_tx rd') k = fw_states (rd_tx rd) k"
    and "src_mtu_of (rd_tx rd') = src_mtu_of (rd_tx rd)"
proof -
  define rd' where "rd' = rd\<lparr>rd_streams := (rd_streams rd)((src, dst) := None),
       rd_states := (rd_states rd)((src, dst) := None), rd_tx := fw_clean_up (rd_tx rd) dst src\<rparr>"
  have str: "worker_ok k w \<and> fw_states (rd_tx rd) k \<noteq> None" if "rd_streams rd k = Some w" for k w
    using safe that unfolding rd_safe_def by blast
  then have run: "clean_up rd src dst = Some rd'"
    using stream_close_ok by (fastforce simp: clean_up_def rd'_def split: option.split)
  have fields: "rd_streams rd' = (rd_streams rd)((src, dst) := None)" "rd_states rd' = (rd_states rd)((src, dst) := None)"
      "rd_datagrams rd' = rd_datagrams rd" "fw_states (rd_tx rd') = (fw_states (rd_tx rd))((src, dst) := None)"
      "src_mtu_of (rd_tx rd') = src_mtu_of (rd_tx rd)"
    by (auto simp: rd'_def fw_clean_up_def src_mtu_of_def)
  have "conn_inv rd' k" for k
  proof (cases "k = (src, dst)")
    case False
    with other conn_inv_cong [of rd' k rd] show ?thesis by (simp add: fields)
  qed (simp add: conn_inv_def fields)
  moreover have "fw_inv (rd_tx rd')"
    using safe by (simp add: rd'_def rd_safe_def fw_inv_clean_up)
  then have "rd_safe rd'" using safe str unfolding rd_safe_def fields by auto
  ultimately have "rd_inv rd'" by (simp add: rd_inv_def)
  then show ?thesis by (rule that [OF run]) (simp_all add: fields get_state_def)
qed

lemma at_conn_clean_up:
  assumes "at_conn (src, dst) rd w x t"
  obtains rd' where "clean_up rd src dst = Some rd'" and "rd_inv rd'" and "rd_streams rd' (src, dst) = None"
proof -
  from assms have safe: "rd_safe rd" and other: "\<And>k. k \<noteq> (src, dst) \<Longrightarrow> conn_inv rd k"
    by (simp_all add: at_conn_def)
  show ?thesis by (rule clean_up_ok [of rd src dst, OF safe]) (rule other that; assumption)+
qed

text \<open>The segments without data that the handlers send.\<close>

lemma at_conn_send:
  assumes lk: "link_ok lk" and at: "at_conn (src, dst) rd w x t"
  shows "\<exists>rd' t'. on_tx rd (\<lambda>f. send_tcp_ack_0 lk f dst src) = Some (Ok (), rd') \<and>
      at_conn (src, dst) rd' w x t' \<and> tx_keeps t t'"
    and "\<exists>rd' t'. on_tx rd (\<lambda>f. send_tcp_ack_rst lk f dst src) = Some (Ok (), rd') \<and>
      at_conn (src, dst) rd' w x t' \<and> tx_keeps t t'"
    and "\<exists>rd' t'. on_tx rd (\<lambda>f. send_tcp_ack lk f dst src now) = Some (Ok (), rd') \<and>
      at_conn (src, dst) rd' w x t' \<and> tx_keeps t t'"
    and "\<exists>rd' t'. on_tx rd (\<lambda>f. retransmit_tcp_ack lk f dst src) = Some (Ok (), rd') \<and>
      at_conn (src, dst) rd' w x t' \<and> tx_keeps t t'"
    and "\<exists>r rd' t'. on_tx rd (\<lambda>f. retransmit_tcp_ack_without lk f dst src sacks) = Some (r, rd') \<and>
      at_conn (src, dst) rd' w x t' \<and> tx_keeps t t'"
proof -
  note d = at_connD [OF at]
  have run: "\<exists>rd' t'. on_tx rd op = Some (r, rd') \<and> at_conn (src, dst) rd' w x t' \<and> tx_keeps t t'"
    if "op (rd_tx rd) = Some (r, f)" "fw_inv f" "fw_keeps dst src (rd_tx rd) f"
    for op :: "forwarder \<Rightarrow> (unit, forwarder) outcome" and r f
    by (rule at_conn_on_tx [where op = op, OF at that]) blast
  obtain f0 where f0: "send_tcp_ack_0 lk (rd_tx rd) dst src = Some (Ok (), f0)" "fw_inv f0"
    using send_control_inv(1) [OF lk d(2), of dst src] d(5) by auto
  show "\<exists>rd' t'. on_tx rd (\<lambda>f. send_tcp_ack_0 lk f dst src) = Some (Ok (), rd') \<and>
      at_conn (src, dst) rd' w x t' \<and> tx_keeps t t'"
    by (rule run [of "\<lambda>f. send_tcp_ack_0 lk f dst src", OF f0 fw_quiet_keeps [OF send_tcp_quiet(1) [OF f0(1)]]])
  obtain f1 where f1: "send_tcp_ack_rst lk (rd_tx rd) dst src = Some (Ok (), f1)" "fw_inv f1"
    using send_control_inv(3) [OF lk d(2), of dst src] d(5) by auto
  show "\<exists>rd' t'. on_tx rd (\<lambda>f. send_tcp_ack_rst lk f dst src) = Some (Ok (), rd') \<and>
      at_conn (src, dst) rd' w x t' \<and> tx_keeps t t'"
    by (rule run [of "\<lambda>f. send_tcp_ack_rst lk f dst src", OF f1 fw_quiet_keeps [OF send_tcp_quiet(3) [OF f1(1)]]])
  obtain f2 where f2: "send_tcp_ack lk (rd_tx rd) dst src now = Some (Ok (), f2)" "fw_inv f2"
    by (rule send_tcp_ack_inv [OF lk d(2,5)])
  show "\<exists>rd' t'. on_tx rd (\<lambda>f. send_tcp_ack lk f dst src now) = Some (Ok (), rd') \<and>
      at_conn (src, dst) rd' w x t' \<and> tx_keeps t t'"
    by (rule run [of "\<lambda>f. send_tcp_ack lk f dst src now", OF f2 send_tcp_ack_keeps [OF f2(1)]])
  obtain f3 where f3: "retransmit_tcp_ack lk (rd_tx rd) dst src = Some (Ok (), f3)" "fw_inv f3"
    by (rule retransmit_tcp_ack_inv [OF lk d(2,5)])
  show "\<exists>rd' t'. on_tx rd (\<lambda>f. retransmit_tcp_ack lk f dst src) = Some (Ok (), rd') \<and>
      at_conn (src, dst) rd' w x t' \<and> tx_keeps t t'"
    by (rule run [of "\<lambda>f. retransmit_tcp_ack lk f dst src", OF f3 retransmit_tcp_ack_keeps [OF f3(1)]])
  obtain r f4 where f4: "retransmit_tcp_ack_without lk (rd_tx rd) dst src sacks = Some (r, f4)" "fw_inv f4"
    by (rule retransmit_tcp_ack_without_total [OF lk d(2,5)])
  have "\<exists>rd' t'. on_tx rd (\<lambda>f. retransmit_tcp_ack_without lk f dst src sacks) = Some (r, rd') \<and>
      at_conn (src, dst) rd' w x t' \<and> tx_keeps t t'"
    by (rule run [of "\<lambda>f. retransmit_tcp_ack_without lk f dst src sacks", OF f4 retransmit_tcp_ack_without_keeps [OF f4(1)]])
  then show "\<exists>r rd' t'. on_tx rd (\<lambda>f. retransmit_tcp_ack_without lk f dst src sacks) = Some (r, rd') \<and>
      at_conn (src, dst) rd' w x t' \<and> tx_keeps t t'" by blast
qed

section \<open>FIN\<close>

lemma conn_ok_simple:
  "conn_ok t \<Longrightarrow> conn_ok (add_acknowledgement t n)" "conn_ok t \<Longrightarrow> conn_ok (set_window t m)"
  "conn_ok t \<Longrightarrow> conn_ok (set_sacks t sacks)"
  by (auto simp: conn_ok_def tx_ok_def rto_ok_def add_acknowledgement_def set_window_def set_sacks_def)

text \<open>A stream that may still be read loses its write half when it is shut down.\<close>

lemma stream_shutdown_ok:
  assumes "worker_ok k w" and "\<not> sw_is_read_closed w"
  obtains w' where "stream_shutdown_write w = Some w'" and "worker_ok k w'" and "\<not> sw_stream_tx w'"
    and "sw_written w' = sw_written w"
  using assms by (cases "sw_is_write_closed w") (auto simp: worker_ok_def stream_shutdown_write_def intro: that)

lemma admit_tcp_fin_ok:
  assumes lk: "link_ok lk" and at: "at_conn (src, dst) rd w x t" and rel: "relays st s0 w x t"
  obtains rd' where "admit_tcp_fin lk rd src dst (\<not> sw_is_read_closed w) = Some (Ok (), rd')" and "rd_inv rd'"
proof -
  note d = at_connD [OF at]
  let ?x = "add_recv_next (admit_fin x) 1" and ?t = "add_acknowledgement t 1"
  obtain rd1 where rd1: "update_tx (put_rx rd (src, dst) ?x) dst src (\<lambda>x. Some (add_acknowledgement x 1)) = Some rd1"
      "at_conn (src, dst) rd1 w ?x ?t"
    by (rule at_conn_update_tx [where g = "\<lambda>x. Some (add_acknowledgement x 1)", OF at_conn_put_rx [OF at] refl conn_ok_simple(1) [OF d(7)]])
  obtain rd2 t2 where rd2: "on_tx rd1 (\<lambda>f. send_tcp_ack_0 lk f dst src) = Some (Ok (), rd2)"
      "at_conn (src, dst) rd2 w ?x t2" "tx_keeps ?t t2"
    using at_conn_send(1) [OF lk rd1(2)] by blast
  have run: "admit_tcp_fin lk rd src dst readable =
      (if readable then do {
         stream \<leftarrow> rd_streams rd2 (src, dst);
         stream \<leftarrow> stream_shutdown_write stream;
         Some (Ok (), put_stream rd2 (src, dst) stream)
       } else do { rd \<leftarrow> clean_up rd2 src dst; Some (Ok (), rd) })" for readable
    using d(4) rd1(1) rd2(1) by (simp add: admit_tcp_fin_def)
  show ?thesis
  proof (cases "sw_is_read_closed w")
    case True
    obtain rd3 where "clean_up rd2 src dst = Some rd3" "rd_inv rd3" by (rule at_conn_clean_up [OF rd2(2)])
    with True show ?thesis by (intro that) (simp_all add: run)
  next
    case False
    obtain w' where w': "stream_shutdown_write w = Some w'" "worker_ok (src, dst) w'" "\<not> sw_stream_tx w'"
        "sw_written w' = sw_written w"
      by (rule stream_shutdown_ok [OF d(6) False])
    have "relays st s0 w' ?x t2"
      using rel rd2(3) w'(3,4) unfolding relays_def
      by (simp add: add_recv_next_def admit_fin_def tx_keeps_def add_acknowledgement_def)
    from at_conn_inv [OF at_conn_put_stream [OF rd2(2) w'(2)] this]
    show ?thesis using False w'(1) at_connD(3) [OF rd2(2)] by (intro that) (simp_all add: run)
  qed
qed


lemma relays_rx:
  "rx_cache x' = rx_cache x \<Longrightarrow> rx_recv_next x' = rx_recv_next x \<Longrightarrow> rx_wscale x' = rx_wscale x \<Longrightarrow>
    relays st s0 w x' t = relays st s0 w x t"
  by (simp add: relays_def)

lemma relays_tx:
  "tx_acknowledgement t' = tx_acknowledgement t \<Longrightarrow> q_capacity (tx_cache t') = q_capacity (tx_cache t) \<Longrightarrow>
    relays st s0 w x t' = relays st s0 w x t"
  by (simp add: relays_def)

lemma rx_frames [simp]:
  "rx_cache (set_fin_sequence x s) = rx_cache x" "rx_recv_next (set_fin_sequence x s) = rx_recv_next x"
  "rx_wscale (set_fin_sequence x s) = rx_wscale x"
  "rx_cache (snd (increase_duplicate x a now)) = rx_cache x"
  "rx_recv_next (snd (increase_duplicate x a now)) = rx_recv_next x"
  "rx_wscale (snd (increase_duplicate x a now)) = rx_wscale x"
  "rx_fin_sequence (snd (increase_duplicate x a now)) = rx_fin_sequence x"
  "rx_cache (set_last_retrans (clear_duplicate x) now) = rx_cache x"
  "rx_recv_next (set_last_retrans (clear_duplicate x) now) = rx_recv_next x"
  "rx_wscale (set_last_retrans (clear_duplicate x) now) = rx_wscale x"
  by (simp_all add: set_fin_sequence_def increase_duplicate_def set_last_retrans_def clear_duplicate_def Let_def)

lemma rd_inv_quiet:
  assumes inv: "rd_inv rd" and q: "fw_quiet (rd_tx rd) f"
  shows "rd_inv (rd\<lparr>rd_tx := f\<rparr>)"
proof -
  have "conn_inv (rd\<lparr>rd_tx := f\<rparr>) k" for k
    using inv q conn_inv_cong [of "rd\<lparr>rd_tx := f\<rparr>" k rd] by (simp add: rd_inv_def fw_quiet_def)
  moreover have "rd_safe (rd\<lparr>rd_tx := f\<rparr>)"
    using inv q fw_inv_quiet [OF _ q] by (simp add: rd_inv_def rd_safe_def fw_quiet_def)
  ultimately show ?thesis by (simp add: rd_inv_def)
qed

lemma send_tcp_rst_inv:
  assumes lk: "link_ok lk" and inv: "rd_inv rd"
  obtains rd' where "on_tx rd (\<lambda>f. send_tcp_rst lk f dst src) = Some (Ok (), rd')" and "rd_inv rd'"
proof -
  obtain f where f: "send_tcp_rst lk (rd_tx rd) dst src = Some (Ok (), f)"
    using send_control_inv(4) [OF lk] inv unfolding rd_inv_def rd_safe_def by blast
  from rd_inv_quiet [OF inv send_tcp_quiet(4) [OF f]] f show ?thesis by (intro that) (simp_all add: on_tx_def)
qed

lemma handle_tcp_fin_ok:
  assumes lk: "link_ok lk" and inv: "rd_inv rd"
  obtains rd' where "handle_tcp_fin lk rd tcp payload = Some (Ok (), rd')" and "rd_inv rd'"
proof -
  let ?src = "tcp_src_addr tcp" and ?dst = "tcp_dst_addr tcp"
  have "\<exists>rd'. handle_tcp_fin lk rd tcp payload = Some (Ok (), rd') \<and> rd_inv rd'"
  proof (cases "rd_streams rd (?src, ?dst)")
    case None
    obtain rd' where "on_tx rd (\<lambda>f. send_tcp_rst lk f ?dst ?src) = Some (Ok (), rd')" "rd_inv rd'"
      by (rule send_tcp_rst_inv [OF lk inv])
    with None show ?thesis by (simp add: handle_tcp_fin_def Let_def)
  next
    case (Some w)
    obtain x t sm s0 where at: "at_conn (?src, ?dst) rd w x t" and rel: "relays sm s0 w x t"
      by (rule rd_inv_at [OF inv Some])
    define y where "y = (if tcp_is_fin tcp
      then set_fin_sequence x (seq_adv (tcp_sequence (tcp_layer tcp)) (length payload)) else x)"
    have at': "at_conn (?src, ?dst) (put_rx rd (?src, ?dst) y) w y t" by (rule at_conn_put_rx [OF at])
    have rel': "relays sm s0 w y t" by (rule relays_rx [THEN iffD2, OF _ _ _ rel]) (simp_all add: y_def)
    obtain rd1 where admit: "admit_tcp_fin lk (put_rx rd (?src, ?dst) y) ?src ?dst (\<not> sw_is_read_closed w) = Some (Ok (), rd1)"
        "rd_inv rd1"
      by (rule admit_tcp_fin_ok [OF lk at' rel'])
    obtain rd2 t2 where ack: "on_tx (put_rx rd (?src, ?dst) y) (\<lambda>f. send_tcp_ack_0 lk f ?dst ?src) = Some (Ok (), rd2)"
        "at_conn (?src, ?dst) rd2 w y t2" "tx_keeps t t2"
      using at_conn_send(1) [OF lk at'] by blast
    have inv2: "rd_inv rd2" by (rule at_conn_inv [OF ack(2) relays_keeps [OF rel' keeps_refl(1) ack(3)]])
    have inv': "rd_inv (put_rx rd (?src, ?dst) y)" by (rule at_conn_inv [OF at' rel'])
    have "handle_tcp_fin lk rd tcp payload =
        (case rx_fin_sequence y of
           Some fin_sequence \<Rightarrow>
             if fin_sequence = rx_recv_next y
             then admit_tcp_fin lk (put_rx rd (?src, ?dst) y) ?src ?dst (\<not> sw_is_read_closed w)
             else if length payload = 0 then on_tx (put_rx rd (?src, ?dst) y) (\<lambda>f. send_tcp_ack_0 lk f ?dst ?src)
             else Some (Ok (), put_rx rd (?src, ?dst) y)
         | None \<Rightarrow> Some (Ok (), put_rx rd (?src, ?dst) y))"
      using at_connD(4) [OF at] Some unfolding y_def by (simp add: handle_tcp_fin_def Let_def)
    then have "handle_tcp_fin lk rd tcp payload \<in>
        {Some (Ok (), rd1), Some (Ok (), rd2), Some (Ok (), put_rx rd (?src, ?dst) y)}"
      by (cases "rx_fin_sequence y") (simp_all add: admit(1) ack(1))
    then show ?thesis using admit(2) inv2 inv' by blast
  qed
  then show ?thesis using that by blast
qed


section \<open>Acknowledgements\<close>

lemma ack_duplicate_ok:
  assumes lk: "link_ok lk" and at: "at_conn (tcp_src_addr tcp, tcp_dst_addr tcp) rd w x t" and rel: "relays st s0 w x t"
    and sack: "tcp_sack (lk_pnet lk) tcp \<noteq> None"
  obtains r rd' x' t' where "ack_duplicate lk ev rd tcp = Some (r, rd')"
    and "at_conn (tcp_src_addr tcp, tcp_dst_addr tcp) rd' w x' t'" and "relays st s0 w x' t'"
proof -
  let ?src = "tcp_src_addr tcp" and ?dst = "tcp_dst_addr tcp"
  obtain dup y where y: "increase_duplicate x (tcp_acknowledgement (tcp_layer tcp)) (ev_now ev) = (dup, y)" by force
  let ?z = "set_last_retrans (clear_duplicate y) (ev_now ev)" and ?rd = "put_rx rd (?src, ?dst) y"
  have at': "at_conn (?src, ?dst) ?rd w y t" by (rule at_conn_put_rx [OF at])
  have "y = snd (increase_duplicate x (tcp_acknowledgement (tcp_layer tcp)) (ev_now ev))" by (simp add: y)
  then have rel': "relays st s0 w y t'" and rel'': "relays st s0 w ?z t'" if "tx_keeps t t'" for t'
    by (auto intro!: relays_keeps [OF relays_rx [THEN iffD2, OF _ _ _ rel] keeps_refl(1) that])
  obtain sacks where sacks: "(if rx_sack_perm y then tcp_sack (lk_pnet lk) tcp else Some None) = Some sacks"
    using sack by (cases "rx_sack_perm y") auto
  define op where "op = (if unwrap_or sacks [] \<noteq> []
    then on_tx ?rd (\<lambda>f. retransmit_tcp_ack_without lk f ?dst ?src (unwrap_or sacks []))
    else on_tx ?rd (\<lambda>f. retransmit_tcp_ack lk f ?dst ?src))"
  obtain r rd1 t1 where re: "op = Some (r, rd1)" "at_conn (?src, ?dst) rd1 w y t1" "tx_keeps t t1"
    using at_conn_send(4) [OF lk at'] at_conn_send(5) [OF lk at', of "unwrap_or sacks []"]
    unfolding op_def by (cases "unwrap_or sacks [] \<noteq> []") (simp_all, blast+)
  have run: "ack_duplicate lk ev rd tcp = (if dup \<and> \<not> tcp_is_zero_window tcp
      then and_then op (\<lambda>_ rd. Some (Ok (), put_rx rd (?src, ?dst) ?z)) else Some (Ok (), ?rd))"
    using at_connD(4) [OF at] y sacks unfolding op_def by (simp add: ack_duplicate_def Let_def)
  show ?thesis
  proof (cases "dup \<and> \<not> tcp_is_zero_window tcp")
    case False
    with run have "ack_duplicate lk ev rd tcp = Some (Ok (), ?rd)" by (simp only: if_False)
    then show ?thesis by (rule that [OF _ at' rel' [OF tx_keeps_refl]])
  next
    case True
    show ?thesis
    proof (cases r)
      case (Inl e)
      with True run re(1) have "ack_duplicate lk ev rd tcp = Some (Err e, rd1)" by simp
      then show ?thesis by (rule that [OF _ re(2) rel' [OF re(3)]])
    next
      case (Inr u)
      with True run re(1) have "ack_duplicate lk ev rd tcp = Some (Ok (), put_rx rd1 (?src, ?dst) ?z)" by simp
      then show ?thesis by (rule that [OF _ at_conn_put_rx [OF re(2)] rel'' [OF re(3)]])
    qed
  qed
qed

text \<open>What the handler does to the send state first.\<close>

lemma acknowledge_parts:
  "acknowledge_syn t s now = (r, t') \<Longrightarrow> tx_acknowledgement t' = tx_acknowledgement t"
  "acknowledge_fin t s now r0 = (r, t') \<Longrightarrow> tx_acknowledgement t' = tx_acknowledgement t"
  "update_rto t rtt = Some t' \<Longrightarrow> tx_acknowledgement t' = tx_acknowledgement t"
  by (auto simp: acknowledge_syn_def acknowledge_fin_def add_sequence_def split: option.splits if_splits)
    (auto simp: update_rto_def set_rto_def Let_def split: bind_splits)

lemma acknowledge_keeps_acknowledgement:
  "acknowledge t s now = Some t' \<Longrightarrow> tx_acknowledgement t' = tx_acknowledgement t"
  by (auto simp: acknowledge_def split: prod.splits bind_splits option.splits dest!: acknowledge_parts)

lemma wscale_shift:
  assumes "unat k \<le> 8" and "n \<le> 65535"
  shows "ushl n (unat k) = Some (n * 2 ^ unat k)" and "n * 2 ^ unat k \<le> 65535 * 2 ^ unat k"
    and "(65535 :: nat) * 2 ^ unat k \<le> MAX_U32_WINDOW_SIZE"
proof -
  have p: "(2 :: nat) ^ unat k \<le> 2 ^ 8" using assms(1) by (rule power_increasing) simp
  then show "(65535 :: nat) * 2 ^ unat k \<le> MAX_U32_WINDOW_SIZE" by (simp add: MAX_U32_WINDOW_SIZE_def)
  show le: "n * 2 ^ unat k \<le> 65535 * 2 ^ unat k" using assms(2) by simp
  have "(65535 :: nat) * 2 ^ unat k \<le> USIZE_MAX" using p by (simp add: USIZE_MAX_def)
  with le have "n * 2 ^ unat k \<le> USIZE_MAX" by (rule order_trans)
  then show "ushl n (unat k) = Some (n * 2 ^ unat k)" using assms(1) by (intro ushl_small) simp_all
qed

lemma ack_prepare:
  fixes win :: u16
  assumes at: "at_conn (src, dst) rd w x t" and rel: "relays st s0 w x t"
  obtains rd' t' where "update_tx rd dst src (\<lambda>x'. do {
      x' \<leftarrow> acknowledge x' a now;
      window \<leftarrow> ushl (unat win) (unat (rx_wscale x));
      Some (set_send_window x' window)
    }) = Some rd'" and "at_conn (src, dst) rd' w x t'" and "relays st s0 w x t'"
    and "get_cache_size (rd_tx rd') dst src = Some (q_size (tx_cache t') + length (tx_queue t'))"
proof -
  note d = at_connD [OF at]
  from d(7) have ok: "tx_ok t" by (simp add: conn_ok_def)
  obtain t1 where t1: "acknowledge t a now = Some t1" "tx_ok t1" "q_capacity (tx_cache t1) = q_capacity (tx_cache t)"
    by (rule acknowledge_ok [OF ok])
  have ws: "unat (rx_wscale x) \<le> 8" "q_capacity (tx_cache t) = 65535 * 2 ^ unat (rx_wscale x)"
    using rel by (simp_all add: relays_def)
  have win: "unat win \<le> 65535" using unat_u16_less [of win] by simp
  note sh = wscale_shift [OF ws(1) win]
  define t2 where "t2 = set_send_window t1 (unat win * 2 ^ unat (rx_wscale x))"
  have "conn_ok t2"
    using t1 ws sh by (simp add: t2_def conn_ok_def set_send_window_def tx_ok_def rto_ok_def)
  from at_conn_update_tx [where g = "\<lambda>x'. do {
      x' \<leftarrow> acknowledge x' a now;
      window \<leftarrow> ushl (unat win) (unat (rx_wscale x));
      Some (set_send_window x' window)
    }", OF at _ this] t1(1) sh(1)
  obtain rd' where rd': "update_tx rd dst src (\<lambda>x'. do {
      x' \<leftarrow> acknowledge x' a now;
      window \<leftarrow> ushl (unat win) (unat (rx_wscale x));
      Some (set_send_window x' window)
    }) = Some rd'" "at_conn (src, dst) rd' w x t2"
    by (auto simp: t2_def)
  have "relays st s0 w x t2"
    by (rule relays_tx [THEN iffD2, OF _ _ rel])
      (simp_all add: t2_def set_send_window_def t1(3) acknowledge_keeps_acknowledgement [OF t1(1)])
  moreover have "get_cache_size (rd_tx rd') dst src = Some (q_size (tx_cache t2) + length (tx_queue t2))"
    using at_connD(5) [OF rd'(2)] by (simp add: get_cache_size_def)
  ultimately show ?thesis by (rule that [OF rd'])
qed


section \<open>Data\<close>

text \<open>The window that is announced to the device.\<close>

lemma cache_remaining_size_ok:
  assumes "window_holds st n (rx_cache x)" and "unat (rx_wscale x) \<le> 8"
  obtains m where "cache_remaining_size x = Some m"
proof -
  have "w_size (rx_cache x) \<le> w_capacity (rx_cache x)"
    using assms(1) window_shape_sizes(1,2) [of "rx_cache x"] by (simp add: window_holds_def window_data_def)
  with assms(2) show ?thesis
    by (intro that) (simp add: cache_remaining_size_def window_remaining_def usub_def ushr_def)
qed

lemma worker_ok_written [simp]: "worker_ok k (w\<lparr>sw_written := b\<rparr>) = worker_ok k w"
  by (simp add: worker_ok_def)

lemma ack_deliver_ok:
  assumes lk: "link_ok lk" and at: "at_conn (src, dst) rd w x t" and ts: "list_all task_ok (ev_await ev)"
    and win: "window_holds st (length (sw_written w) + n) (rx_cache x)"
    and exp: "w_sequence (rx_cache x) = seq_adv s0 (length (sw_written w) + n)"
    and rel: "relays st s0 w (x\<lparr>rx_cache := c\<rparr>) t" and cap: "w_capacity (rx_cache x) = w_capacity c"
    and payload: "payload = map st [length (sw_written w)..<length (sw_written w) + n]"
    and small: "length (sw_written w) + n < 4294967295"
  obtains r rd' where "ack_deliver lk ev rd src dst payload = Some (r, rd')"
    and "isl r \<Longrightarrow> rd_inv rd'" and "sw_stream_tx w \<Longrightarrow> ev_write ev = None \<Longrightarrow> \<not> isl r"
    and "\<not> isl r \<Longrightarrow> sw_stream_tx w \<and> (\<exists>w' x' t'. at_conn (src, dst) rd' w' x' t' \<and> relays st s0 w' x' t' \<and> sw_stream_tx w' \<and>
      length (sw_written w') = length (sw_written w) + n \<and> rx_fin_sequence x' = rx_fin_sequence x)"
proof -
  note d = at_connD [OF at]
  obtain sent w1 where sent: "stream_send w payload (ev_write ev) = (sent, w1)" by force
  have w1: "worker_ok (src, dst) w1" "sw_stream_tx w1 = sw_stream_tx w"
    and ok1: "\<not> isl sent \<Longrightarrow> sw_stream_tx w \<and> sw_written w1 = sw_written w @ payload"
    and good: "sw_stream_tx w \<Longrightarrow> ev_write ev = None \<Longrightarrow> \<not> isl sent"
    using sent d(6) by (auto simp: stream_send_def split: if_splits option.splits)
  obtain rd2 w2 t2 where rd2: "tasks_run lk (ev_now ev) (ev_await ev) (put_stream rd (src, dst) w1) = Some rd2"
      "at_conn (src, dst) rd2 w2 x t2" "stream_keeps w1 w2" "tx_keeps t t2"
    by (rule at_conn_tasks [OF lk at_conn_put_stream [OF at w1(1)] ts])
  note d2 = at_connD [OF rd2(2)]
  show ?thesis
  proof (cases sent)
    case (Inl e)
    obtain rd3 t3 where rd3: "on_tx rd2 (\<lambda>f. send_tcp_ack_rst lk f dst src) = Some (Ok (), rd3)" "at_conn (src, dst) rd3 w2 x t3"
      using at_conn_send(2) [OF lk rd2(2)] by blast
    obtain rd4 where rd4: "clean_up rd3 src dst = Some rd4" "rd_inv rd4" by (rule at_conn_clean_up [OF rd3(2)])
    have "ack_deliver lk ev rd src dst payload = Some (Err e, rd4)"
      using d(3) sent rd2(1) rd3(1) rd4(1) Inl by (simp add: ack_deliver_def)
    then show ?thesis using rd4(2) good Inl by (intro that [of "Err e" rd4]) auto
  next
    case (Inr u)
    have ws: "unat (rx_wscale x) \<le> 8" using rel by (simp add: relays_def)
    obtain m where m: "cache_remaining_size x = Some m" by (rule cache_remaining_size_ok [OF win ws])
    let ?k = "of_nat (length payload) :: u32"
    let ?x = "add_recv_next x ?k" and ?t = "add_acknowledgement (set_window t2 m) ?k"
    have "conn_ok ?t" by (intro conn_ok_simple d2(7))
    then obtain rd3 where rd3: "update_tx (put_rx rd2 (src, dst) ?x) dst src
          (\<lambda>x. Some (add_acknowledgement (set_window x m) ?k)) = Some rd3" "at_conn (src, dst) rd3 w2 ?x ?t"
      by (rule at_conn_update_tx [where g = "\<lambda>x. Some (add_acknowledgement (set_window x m) ?k)",
            OF at_conn_put_rx [OF rd2(2)] refl])
    obtain rd4 t4 where rd4: "on_tx rd3 (\<lambda>f. send_tcp_ack_0 lk f dst src) = Some (Ok (), rd4)"
        "at_conn (src, dst) rd4 w2 ?x t4" "tx_keeps ?t t4"
      using at_conn_send(1) [OF lk rd3(2)] by blast
    have run: "ack_deliver lk ev rd src dst payload = Some (Ok (), rd4)"
      using d(3) sent rd2(1) Inr d2(4) m rd3(1) rd4(1) by (simp add: ack_deliver_def)
    have w2: "sw_stream_tx w" "sw_stream_tx w2" "sw_written w2 = sw_written w @ payload"
      using ok1 Inr w1(2) rd2(3) by (auto simp: stream_keeps_def)
    have wr: "sw_written w = map st [0..<length (sw_written w)]"
      and next_x: "rx_recv_next x = seq_adv s0 (length (sw_written w))" "tx_acknowledgement t = rx_recv_next x"
      and caps: "w_capacity c = 65535 * 2 ^ unat (rx_wscale x)" "q_capacity (tx_cache t) = 65535 * 2 ^ unat (rx_wscale x)"
      using relaysD [OF rel] w2(1) by simp_all
    have len: "length payload = n" by (simp add: payload)
    have adv: "seq_add (seq_adv s0 (length (sw_written w))) ?k = seq_adv s0 (length (sw_written w) + n)"
      using seq.adv_adv [of "length (sw_written w)" n s0] small by (simp add: len seq_adv_def)
    have lw: "length (sw_written w2) = length (sw_written w) + n" by (simp add: w2(3) len)
    have "map st [0..<length (sw_written w)] @ payload = map st [0..<length (sw_written w2)]"
      unfolding lw payload by (simp only: upt_add_eq_append [of 0, simplified] map_append)
    then have "sw_written w2 = map st [0..<length (sw_written w2)]" unfolding w2(3) by (simp only: flip: wr)
    then have "relays st s0 w2 ?x t4"
      unfolding relays_def lw
      using win exp w2(2) next_x adv caps cap ws rd4(3) rd2(4)
      by (simp add: add_recv_next_def tx_keeps_def add_acknowledgement_def set_window_def)
    then have "\<exists>w' x' t'. at_conn (src, dst) rd4 w' x' t' \<and> relays st s0 w' x' t' \<and> sw_stream_tx w' \<and>
        length (sw_written w') = length (sw_written w) + n \<and> rx_fin_sequence x' = rx_fin_sequence x"
      using rd4(2) lw w2(2) by (intro exI [of _ w2] exI [of _ ?x] exI [of _ t4]) (simp add: add_recv_next_def)
    with w2(1) show ?thesis by (intro that [OF run]) simp_all
  qed
qed


text \<open>
  \<open>advances\<close>: the connection goes on, and the segment at position \<open>q\<close> has reached the stream if it
  starts at or before the expected byte and fits into the window.
\<close>

definition advances :: "(nat \<Rightarrow> u8) \<Rightarrow> u32 \<Rightarrow> conn_key \<Rightarrow> stream_worker \<Rightarrow> tcp_rx_state \<Rightarrow> nat \<Rightarrow> nat \<Rightarrow> 'l redirector \<Rightarrow> bool" where
  "advances st s0 key w x q len rd \<longleftrightarrow>
     (\<exists>w' x' t'. at_conn key rd w' x' t' \<and> relays st s0 w' x' t' \<and> sw_stream_tx w' = sw_stream_tx w \<and>
       rx_fin_sequence x' = rx_fin_sequence x \<and> length (sw_written w) \<le> length (sw_written w') \<and>
       (q \<le> length (sw_written w) \<longrightarrow> q + len \<le> length (sw_written w) + w_capacity (rx_cache x) \<longrightarrow>
         q + len \<le> length (sw_written w')))"

text \<open>The two steps of \<open>ack_data\<close> around the delivery: the ranges to report, and the answer when nothing can be delivered.\<close>

lemma report_sacks_ok:
  assumes at: "at_conn (src, dst) rd w x t"
  obtains rd' t' where "(if rx_sack_perm x then update_tx rd dst src (\<lambda>t. Some (set_sacks t (window_filled (rx_cache x)))) else Some rd) = Some rd'"
    and "at_conn (src, dst) rd' w x t'" and "tx_acknowledgement t' = tx_acknowledgement t"
    and "q_capacity (tx_cache t') = q_capacity (tx_cache t)" and "conn_ok t'"
proof (cases "rx_sack_perm x")
  case True
  note ok = conn_ok_simple(3) [OF at_connD(7) [OF at]]
  obtain rd' where "update_tx rd dst src (\<lambda>t. Some (set_sacks t (window_filled (rx_cache x)))) = Some rd'"
      "at_conn (src, dst) rd' w x (set_sacks t (window_filled (rx_cache x)))"
    by (rule at_conn_update_tx [where g = "\<lambda>t. Some (set_sacks t (window_filled (rx_cache x)))", OF at refl ok])
  with True ok show ?thesis by (intro that [of rd' "set_sacks t (window_filled (rx_cache x))"]) (simp_all add: set_sacks_def)
next
  case False
  then show ?thesis using at at_connD(7) [OF at] by (intro that) simp_all
qed

lemma answer_window_ok:
  assumes lk: "link_ok lk" and at: "at_conn (src, dst) rd w x t"
  obtains rd' t' where "do {
        rd \<leftarrow> update_tx rd dst src (\<lambda>t. Some (set_window t m));
        on_tx rd (\<lambda>f. send_tcp_ack_0 lk f dst src)
      } = Some (Ok (), rd')"
    and "at_conn (src, dst) rd' w x t'" and "tx_acknowledgement t' = tx_acknowledgement t"
    and "q_capacity (tx_cache t') = q_capacity (tx_cache t)"
proof -
  obtain rd2 where rd2: "update_tx rd dst src (\<lambda>t. Some (set_window t m)) = Some rd2" "at_conn (src, dst) rd2 w x (set_window t m)"
    by (rule at_conn_update_tx [where g = "\<lambda>t. Some (set_window t m)", OF at refl conn_ok_simple(2) [OF at_connD(7) [OF at]]])
  obtain rd3 t3 where "on_tx rd2 (\<lambda>f. send_tcp_ack_0 lk f dst src) = Some (Ok (), rd3)" "at_conn (src, dst) rd3 w x t3"
      "tx_keeps (set_window t m) t3"
    using at_conn_send(1) [OF lk rd2(2)] by blast
  with rd2(1) show ?thesis by (intro that [of rd3 t3]) (simp_all add: tx_keeps_def set_window_def)
qed

text \<open>The segment in the receive window: \<open>n\<close> more bytes of the stream are in order, and \<open>a\<close> hands them over.\<close>

definition received :: "(nat \<Rightarrow> u8) \<Rightarrow> u32 \<Rightarrow> stream_worker \<Rightarrow> tcp_rx_state \<Rightarrow> nat \<Rightarrow> nat \<Rightarrow> nat \<Rightarrow> u8 list option io_result \<Rightarrow> tcp_rx_state \<Rightarrow> bool" where
  "received st s0 w x q len n a x1 \<longleftrightarrow> (\<exists>c. x1 = x\<lparr>rx_cache := c\<rparr>) \<and>
     window_holds st (length (sw_written w) + n) (rx_cache x1) \<and> w_sequence (rx_cache x1) = seq_adv s0 (length (sw_written w) + n) \<and>
     w_capacity (rx_cache x1) = w_capacity (rx_cache x) \<and> delivered a = map st [length (sw_written w)..<length (sw_written w) + n] \<and>
     length (sw_written w) + n < 4294967295 \<and>
     (q + len \<le> length (sw_written w) + w_capacity (rx_cache x) \<longrightarrow>
       \<not> isl a \<and> (q \<le> length (sw_written w) \<longrightarrow> q + len \<le> length (sw_written w) + n))"

lemma rx_append_received:
  assumes rel: "relays st s0 w x t" and seg: "segment_ok st s0 (length (sw_written w)) q payload"
  obtains n a x1 where "rx_append_cache x (seq_adv s0 q) payload = Some (a, x1)" and "received st s0 w x q (length payload) n a x1"
proof -
  note rd = relaysD [OF rel]
  let ?n = "length (sw_written w)"
  obtain n a c where app: "window_append (rx_cache x) (seq_adv s0 q) payload = Some (a, c)"
      "window_holds st (?n + n) c" "w_sequence c = seq_adv s0 (?n + n)" "w_capacity c = w_capacity (rx_cache x)"
      "delivered a = map st [?n..<?n + n]" "n \<le> w_capacity (rx_cache x)"
      "q + length payload \<le> ?n + w_capacity (rx_cache x) \<Longrightarrow> isl a = False"
      "q \<le> ?n \<Longrightarrow> q + length payload \<le> ?n + w_capacity (rx_cache x) \<Longrightarrow> q + length payload \<le> ?n + n"
    by (rule wr.segment_step [OF rd(2,3) seg]) (rule that; (assumption | blast))
  have "?n + n < 4294967295"
    using app(6) wscale_shift(3) [OF rd(6), of 0] rd(7) seg by (simp add: segment_ok_def)
  with app show ?thesis
    by (intro that [of a "x\<lparr>rx_cache := c\<rparr>" n]) (auto simp: rx_append_cache_def received_def)
qed

lemma received_idle:
  assumes "received st s0 w x q len 0 a x1" and "relays st s0 w x t" and "tx_acknowledgement t' = tx_acknowledgement t"
    and "q_capacity (tx_cache t') = q_capacity (tx_cache t)"
  shows "relays st s0 w x1 t'"
  using assms relaysD [OF assms(2)] unfolding relays_def received_def by auto

text \<open>\<open>ack_data\<close> on a segment that leaves a gap, and on one that continues the stream.\<close>

lemma answer_advances:
  assumes lk: "link_ok lk" and at: "at_conn (src, dst) rd w x1 t1" and rel: "relays st s0 w x t"
    and rcv: "received st s0 w x q len 0 (Inr None) x1" and t1: "tx_acknowledgement t1 = tx_acknowledgement t" "q_capacity (tx_cache t1) = q_capacity (tx_cache t)"
  obtains rd' where "do {
        window \<leftarrow> cache_remaining_size x1;
        rd \<leftarrow> update_tx rd dst src (\<lambda>x. Some (set_window x window));
        on_tx rd (\<lambda>f. send_tcp_ack_0 lk f dst src)
      } = Some (Ok (), rd')" and "advances st s0 (src, dst) w x q len rd'"
proof -
  have x1: "window_holds st (length (sw_written w)) (rx_cache x1)" "rx_wscale x1 = rx_wscale x" "w_capacity (rx_cache x1) = w_capacity (rx_cache x)"
      "rx_fin_sequence x1 = rx_fin_sequence x" using rcv by (auto simp: received_def)
  obtain m where m: "cache_remaining_size x1 = Some m"
    using cache_remaining_size_ok [OF x1(1)] relaysD(6) [OF rel] x1(2,3) by auto
  obtain rd3 t3 where rd3: "do { rd \<leftarrow> update_tx rd dst src (\<lambda>x. Some (set_window x m)); on_tx rd (\<lambda>f. send_tcp_ack_0 lk f dst src) } =
      Some (Ok (), rd3)" "at_conn (src, dst) rd3 w x1 t3" "tx_acknowledgement t3 = tx_acknowledgement t1"
      "q_capacity (tx_cache t3) = q_capacity (tx_cache t1)"
    by (rule answer_window_ok [OF lk at])
  have "relays st s0 w x1 t3" using rd3(3,4) t1 by (intro received_idle [OF rcv rel]) simp_all
  then have "advances st s0 (src, dst) w x q len rd3"
    unfolding advances_def using rd3(2) x1(4) rcv
    by (intro exI [of _ w] exI [of _ x1] exI [of _ t3]) (simp add: received_def)
  with m rd3(1) show ?thesis by (intro that [of rd3]) simp_all
qed

lemma deliver_advances:
  assumes lk: "link_ok lk" and at: "at_conn (src, dst) rd w x1 t1" and rel: "relays st s0 w x t" and ts: "list_all task_ok (ev_await ev)"
    and rcv: "received st s0 w x q len n (Inr (Some bytes)) x1" and t1: "tx_acknowledgement t1 = tx_acknowledgement t" "q_capacity (tx_cache t1) = q_capacity (tx_cache t)"
  obtains r rd' where "ack_deliver lk ev rd src dst bytes = Some (r, rd')" and "isl r \<Longrightarrow> rd_inv rd'"
    and "sw_stream_tx w \<Longrightarrow> ev_write ev = None \<Longrightarrow> \<not> isl r" and "\<not> isl r \<Longrightarrow> advances st s0 (src, dst) w x q len rd'"
proof -
  let ?n = "length (sw_written w)"
  obtain c where c: "x1 = x\<lparr>rx_cache := c\<rparr>" using rcv by (auto simp: received_def)
  have rel1: "relays st s0 w (x1\<lparr>rx_cache := rx_cache x\<rparr>) t1" using relays_tx [THEN iffD2, OF t1 rel] by (simp add: c)
  have win: "window_holds st (?n + n) (rx_cache x1)" "w_sequence (rx_cache x1) = seq_adv s0 (?n + n)"
      "w_capacity (rx_cache x1) = w_capacity (rx_cache x)" "bytes = map st [?n..<?n + n]" "?n + n < 4294967295"
    using rcv by (simp_all add: received_def)
  obtain r rd' where del: "ack_deliver lk ev rd src dst bytes = Some (r, rd')" "isl r \<Longrightarrow> rd_inv rd'"
      "sw_stream_tx w \<Longrightarrow> ev_write ev = None \<Longrightarrow> \<not> isl r"
      "\<not> isl r \<Longrightarrow> sw_stream_tx w \<and> (\<exists>w' x' t'. at_conn (src, dst) rd' w' x' t' \<and> relays st s0 w' x' t' \<and> sw_stream_tx w' \<and>
        length (sw_written w') = ?n + n \<and> rx_fin_sequence x' = rx_fin_sequence x1)"
    by (rule ack_deliver_ok [OF lk at ts win(1,2) rel1 win(3-5)]) (rule that; (assumption | blast))
  have "advances st s0 (src, dst) w x q len rd'" if ok: "\<not> isl r"
  proof -
    obtain w' x' t' where "at_conn (src, dst) rd' w' x' t'" "relays st s0 w' x' t'" "sw_stream_tx w'"
        "length (sw_written w') = ?n + n" "rx_fin_sequence x' = rx_fin_sequence x1" "sw_stream_tx w"
      using del(4) [OF ok] by blast
    with rcv c show ?thesis
      unfolding advances_def by (intro exI [of _ w'] exI [of _ x'] exI [of _ t']) (simp add: received_def)
  qed
  with del show ?thesis by (intro that [of r rd'])
qed

lemma ack_data_ok:
  assumes lk: "link_ok lk" and at: "at_conn (src, dst) rd w x t" and rel: "relays st s0 w x t"
    and seg: "segment_ok st s0 (length (sw_written w)) q payload" and ts: "list_all task_ok (ev_await ev)"
  obtains r rd' where "ack_data lk ev rd src dst (seq_adv s0 q) payload = Some (r, rd')"
    and "isl r \<Longrightarrow> rd_inv rd'" and "\<not> isl r \<Longrightarrow> advances st s0 (src, dst) w x q (length payload) rd'"
    and "sw_stream_tx w \<Longrightarrow> ev_write ev = None \<Longrightarrow>
      q + length payload \<le> length (sw_written w) + w_capacity (rx_cache x) \<Longrightarrow> \<not> isl r"
proof -
  note d = at_connD [OF at]
  obtain n a x1 where x1: "rx_append_cache x (seq_adv s0 q) payload = Some (a, x1)" and rcv: "received st s0 w x q (length payload) n a x1"
    by (rule rx_append_received [OF rel seg])
  have at1: "at_conn (src, dst) (put_rx rd (src, dst) x1) w x1 t" by (rule at_conn_put_rx [OF at])
  have none: "n = 0" if "delivered a = []" using rcv that by (auto simp: received_def)
  show ?thesis
  proof (cases a)
    case (Inl e)
    then have "ack_data lk ev rd src dst (seq_adv s0 q) payload = Some (Err e, put_rx rd (src, dst) x1)"
      using d(4) x1 by (simp add: ack_data_def)
    moreover have "n = 0" using none Inl by simp
    then have "rd_inv (put_rx rd (src, dst) x1)" using rcv by (intro at_conn_inv [OF at1 received_idle [OF _ rel]]) simp_all
    ultimately show ?thesis using rcv Inl by (intro that) (auto simp: received_def)
  next
    case (Inr cont)
    obtain rd1 t1 where rd1: "(if rx_sack_perm x1 then update_tx (put_rx rd (src, dst) x1) dst src
          (\<lambda>x. Some (set_sacks x (window_filled (rx_cache x1)))) else Some (put_rx rd (src, dst) x1)) = Some rd1"
        "at_conn (src, dst) rd1 w x1 t1"
      and t1: "tx_acknowledgement t1 = tx_acknowledgement t" "q_capacity (tx_cache t1) = q_capacity (tx_cache t)" "conn_ok t1"
      by (rule report_sacks_ok [OF at1])
    have run: "ack_data lk ev rd src dst (seq_adv s0 q) payload =
        (case cont of
           Some payload \<Rightarrow> ack_deliver lk ev rd1 src dst payload
         | None \<Rightarrow> do {
             window \<leftarrow> cache_remaining_size x1;
             rd \<leftarrow> update_tx rd1 dst src (\<lambda>x. Some (set_window x window));
             on_tx rd (\<lambda>f. send_tcp_ack_0 lk f dst src)
           })"
      using d(4) x1 Inr rd1(1) by (simp add: ack_data_def)
    show ?thesis
    proof (cases cont)
      case None
      then have "received st s0 w x q (length payload) 0 (Inr None) x1" using rcv none Inr by simp
      from answer_advances [OF lk rd1(2) rel this t1(1,2)] run None show ?thesis by (metis option.simps(4) that sum.disc(2))
    next
      case (Some bytes)
      then have "received st s0 w x q (length payload) n (Inr (Some bytes)) x1" using rcv Inr by simp
      from deliver_advances [OF lk rd1(2) rel ts this t1(1,2)] run Some show ?thesis by (metis option.simps(5) that)
    qed
  qed
qed


section \<open>The handler of acknowledgements\<close>

lemma ack_end_ok:
  assumes lk: "link_ok lk" and at: "at_conn (tcp_src_addr tcp, tcp_dst_addr tcp) rd w x t" and rel: "relays st s0 w x t"
  obtains rd' where "ack_end lk ev tcp payload rd = Some (Ok (), rd')" and "rd_inv rd'"
    and "\<not> tcp_is_fin tcp \<Longrightarrow> rx_fin_sequence x = None \<Longrightarrow>
      \<exists>t'. at_conn (tcp_src_addr tcp, tcp_dst_addr tcp) rd' w x t' \<and> tx_keeps t t'"
proof -
  let ?src = "tcp_src_addr tcp" and ?dst = "tcp_dst_addr tcp"
  obtain rd1 t1 where rd1: "on_tx rd (\<lambda>f. send_tcp_ack lk f ?dst ?src (ev_now ev)) = Some (Ok (), rd1)"
      "at_conn (?src, ?dst) rd1 w x t1" "tx_keeps t t1"
    using at_conn_send(3) [OF lk at] by blast
  have inv1: "rd_inv rd1" by (rule at_conn_inv [OF rd1(2) relays_keeps [OF rel keeps_refl(1) rd1(3)]])
  have run: "ack_end lk ev tcp payload rd = (if tcp_is_fin tcp \<or> rx_fin_sequence x \<noteq> None
      then handle_tcp_fin lk rd1 tcp payload else Some (Ok (), rd1))"
    using rd1(1) at_connD(4) [OF rd1(2)] by (simp add: ack_end_def)
  obtain rd2 where rd2: "handle_tcp_fin lk rd1 tcp payload = Some (Ok (), rd2)" "rd_inv rd2"
    by (rule handle_tcp_fin_ok [OF lk inv1])
  show ?thesis
  proof (cases "tcp_is_fin tcp \<or> rx_fin_sequence x \<noteq> None")
    case True
    with run rd2(1) have "ack_end lk ev tcp payload rd = Some (Ok (), rd2)" by (simp only: if_True)
    then show ?thesis using rd2(2) True by (intro that) auto
  next
    case False
    with run have "ack_end lk ev tcp payload rd = Some (Ok (), rd1)" by (simp only: if_False)
    then show ?thesis using inv1 rd1(2,3) by (intro that) auto
  qed
qed

lemma handle_tcp_ack_eq:
  assumes at: "at_conn (tcp_src_addr tcp, tcp_dst_addr tcp) rd w x t" and rel: "relays st s0 w x t"
  obtains rd' t' where "at_conn (tcp_src_addr tcp, tcp_dst_addr tcp) rd' w x t'" and "relays st s0 w x t'"
    and "handle_tcp_ack lk ev rd tcp payload =
      (if length payload = 0 \<and> sw_is_write_closed w \<and> q_size (tx_cache t') + length (tx_queue t') = 0
       then do { rd \<leftarrow> clean_up rd' (tcp_src_addr tcp) (tcp_dst_addr tcp); Some (Ok (), rd) }
       else and_then
         (if length payload > 0
          then ack_data lk ev rd' (tcp_src_addr tcp) (tcp_dst_addr tcp) (tcp_sequence (tcp_layer tcp)) payload
          else ack_duplicate lk ev rd' tcp)
         (\<lambda>_. ack_end lk ev tcp payload))"
proof -
  let ?src = "tcp_src_addr tcp" and ?dst = "tcp_dst_addr tcp"
  obtain rd' t' where rd': "update_tx rd ?dst ?src (\<lambda>x'. do {
      x' \<leftarrow> acknowledge x' (tcp_acknowledgement (tcp_layer tcp)) (ev_now ev);
      window \<leftarrow> ushl (unat (tcp_window (tcp_layer tcp))) (unat (rx_wscale x));
      Some (set_send_window x' window)
    }) = Some rd'" "at_conn (?src, ?dst) rd' w x t'" "relays st s0 w x t'"
      "get_cache_size (rd_tx rd') ?dst ?src = Some (q_size (tx_cache t') + length (tx_queue t'))"
    by (rule ack_prepare [OF at rel])
  show ?thesis
    by (rule that [OF rd'(2,3)])
      (use rd'(1,4) at_connD(3,4) [OF at] in \<open>simp add: handle_tcp_ack_def Let_def\<close>)
qed

text \<open>A segment with data for a connection that is open.\<close>

lemma handle_tcp_ack_data:
  assumes lk: "link_ok lk" and at: "at_conn (tcp_src_addr tcp, tcp_dst_addr tcp) rd w x t" and rel: "relays st s0 w x t"
    and num: "tcp_sequence (tcp_layer tcp) = seq_adv s0 q"
    and seg: "segment_ok st s0 (length (sw_written w)) q payload" and ts: "list_all task_ok (ev_await ev)"
  obtains r rd' where "handle_tcp_ack lk ev rd tcp payload = Some (r, rd')" and "rd_inv rd'"
    and "sw_stream_tx w \<Longrightarrow> ev_write ev = None \<Longrightarrow> \<not> tcp_is_fin tcp \<Longrightarrow> rx_fin_sequence x = None \<Longrightarrow>
      q + length payload \<le> length (sw_written w) + w_capacity (rx_cache x) \<Longrightarrow>
      r = Ok () \<and> advances st s0 (tcp_src_addr tcp, tcp_dst_addr tcp) w x q (length payload) rd'"
proof -
  let ?src = "tcp_src_addr tcp" and ?dst = "tcp_dst_addr tcp"
  have ne: "0 < length payload" using seg by (simp add: segment_ok_def)
  obtain rd1 t1 where rd1: "at_conn (?src, ?dst) rd1 w x t1" "relays st s0 w x t1"
      "handle_tcp_ack lk ev rd tcp payload = and_then (ack_data lk ev rd1 ?src ?dst (seq_adv s0 q) payload)
        (\<lambda>_. ack_end lk ev tcp payload)"
    by (rule handle_tcp_ack_eq [OF at rel, of lk ev payload]) (use ne in \<open>simp add: num\<close>)
  obtain r rd2 where rd2: "ack_data lk ev rd1 ?src ?dst (seq_adv s0 q) payload = Some (r, rd2)"
      "isl r \<Longrightarrow> rd_inv rd2" "\<not> isl r \<Longrightarrow> advances st s0 (?src, ?dst) w x q (length payload) rd2"
      "sw_stream_tx w \<Longrightarrow> ev_write ev = None \<Longrightarrow>
        q + length payload \<le> length (sw_written w) + w_capacity (rx_cache x) \<Longrightarrow> \<not> isl r"
    by (rule ack_data_ok [OF lk rd1(1,2) seg ts]) (rule that; (assumption | blast))
  show ?thesis
  proof (cases r)
    case (Inl e)
    then show ?thesis using rd1(3) rd2 by (intro that [of "Err e" rd2]) auto
  next
    case (Inr u)
    then obtain w' x' t' where adv: "at_conn (?src, ?dst) rd2 w' x' t'" "relays st s0 w' x' t'"
        "sw_stream_tx w' = sw_stream_tx w" "rx_fin_sequence x' = rx_fin_sequence x"
        "length (sw_written w) \<le> length (sw_written w')"
        "q \<le> length (sw_written w) \<Longrightarrow> q + length payload \<le> length (sw_written w) + w_capacity (rx_cache x) \<Longrightarrow>
          q + length payload \<le> length (sw_written w')"
      using rd2(3) unfolding advances_def by auto
    obtain rd3 where rd3: "ack_end lk ev tcp payload rd2 = Some (Ok (), rd3)" "rd_inv rd3"
        "\<not> tcp_is_fin tcp \<Longrightarrow> rx_fin_sequence x' = None \<Longrightarrow> \<exists>t''. at_conn (?src, ?dst) rd3 w' x' t'' \<and> tx_keeps t' t''"
      by (rule ack_end_ok [OF lk adv(1,2), of ev payload]) (rule that; (assumption | blast))
    have "advances st s0 (?src, ?dst) w x q (length payload) rd3"
      if fin: "\<not> tcp_is_fin tcp" "rx_fin_sequence x = None"
    proof -
      obtain t'' where "at_conn (?src, ?dst) rd3 w' x' t''" "tx_keeps t' t''" using rd3(3) fin adv(4) by auto
      with relays_keeps [OF adv(2) keeps_refl(1)] adv(3-6) show ?thesis unfolding advances_def by blast
    qed
    then show ?thesis using rd1(3) rd2(1) Inr rd3(1,2) by (intro that [of "Ok ()" rd3]) simp_all
  qed
qed

text \<open>A segment without data.\<close>

lemma handle_tcp_ack_empty:
  assumes lk: "link_ok lk" and at: "at_conn (tcp_src_addr tcp, tcp_dst_addr tcp) rd w x t" and rel: "relays st s0 w x t"
    and sack: "tcp_sack (lk_pnet lk) tcp \<noteq> None"
  obtains r rd' where "handle_tcp_ack lk ev rd tcp [] = Some (r, rd')" and "rd_inv rd'"
proof -
  let ?src = "tcp_src_addr tcp" and ?dst = "tcp_dst_addr tcp"
  obtain rd1 t1 where rd1: "at_conn (?src, ?dst) rd1 w x t1" "relays st s0 w x t1"
      "handle_tcp_ack lk ev rd tcp [] =
        (if sw_is_write_closed w \<and> q_size (tx_cache t1) + length (tx_queue t1) = 0
         then do { rd \<leftarrow> clean_up rd1 ?src ?dst; Some (Ok (), rd) }
         else and_then (ack_duplicate lk ev rd1 tcp) (\<lambda>_. ack_end lk ev tcp []))"
    by (rule handle_tcp_ack_eq [OF at rel, of lk ev "[]"]) simp
  obtain rd2 where rd2: "clean_up rd1 ?src ?dst = Some rd2" "rd_inv rd2" by (rule at_conn_clean_up [OF rd1(1)])
  obtain r rd3 x3 t3 where rd3: "ack_duplicate lk ev rd1 tcp = Some (r, rd3)" "at_conn (?src, ?dst) rd3 w x3 t3"
      "relays st s0 w x3 t3"
    by (rule ack_duplicate_ok [OF lk rd1(1,2) sack])
  obtain rd4 where rd4: "ack_end lk ev tcp [] rd3 = Some (Ok (), rd4)" "rd_inv rd4"
    by (rule ack_end_ok [OF lk rd3(2,3)])
  have "handle_tcp_ack lk ev rd tcp [] \<in> {Some (Ok (), rd2), Some (r, rd3), Some (Ok (), rd4)}"
    unfolding rd1(3) using rd2(1) rd3(1) rd4(1) by (cases r) simp_all
  then show ?thesis using rd2(2) at_conn_inv [OF rd3(2,3)] rd4(2) that by blast
qed

end
