(* ===== verification/Handshake.thy ===== *)
theory Handshake
  imports Relay
begin

text \<open>
  The handshake: what \<open>handle_tcp_syn\<close> does when the SOCKS server accepts the connection and when it
  does not, and the invariant over every TCP segment.
\<close>

declare split_paired_All [simp del] split_paired_Ex [simp del]

section \<open>Connections without a stream\<close>

lemma rd_inv_set_tx:
  assumes inv: "rd_inv rd" and free: "rd_streams rd key = None" and f: "fw_inv f"
    and other: "\<And>k. k \<noteq> key \<Longrightarrow> fw_states f k = fw_states (rd_tx rd) k"
  shows "rd_inv (rd\<lparr>rd_tx := f\<rparr>)"
proof -
  have "conn_inv (rd\<lparr>rd_tx := f\<rparr>) k" for k
  proof (cases "k = key")
    case True
    from inv have "conn_inv rd key" unfolding rd_inv_def by blast
    with True free show ?thesis by (simp add: conn_inv_def)
  next
    case False
    with inv other conn_inv_cong [of "rd\<lparr>rd_tx := f\<rparr>" k rd] show ?thesis by (simp add: rd_inv_def)
  qed
  moreover have "fw_states f k \<noteq> None" if "rd_streams rd k = Some w" for k w
  proof -
    from that free have "k \<noteq> key" by auto
    with inv that other show ?thesis unfolding rd_inv_def rd_safe_def by metis
  qed
  then have "rd_safe (rd\<lparr>rd_tx := f\<rparr>)" using inv f unfolding rd_inv_def rd_safe_def by simp
  ultimately show ?thesis unfolding rd_inv_def by blast
qed

lemma rd_inv_frame: "rd_inv rd \<Longrightarrow> rd_safe rd' \<Longrightarrow> rd_frame rd rd' \<Longrightarrow> rd_inv rd'"
  unfolding rd_inv_def by (metis conn_inv_frame)

lemma fw_inv_set_src_mtu:
  assumes "fw_inv f" and "40 < mtu"
  shows "fw_inv (snd (set_src_mtu f a mtu))"
    and "fw_states (snd (set_src_mtu f a mtu)) = fw_states f"
    and "fw_sent (snd (set_src_mtu f a mtu)) = fw_sent f"
  using assms by (auto simp: set_src_mtu_def fw_inv_def src_mtu_of_def Let_def)

section \<open>The frames of the handshake\<close>

definition bare_segment :: "sent \<Rightarrow> socket_addr_v4 \<Rightarrow> socket_addr_v4 \<Rightarrow> tcp \<Rightarrow> bool" where
  "bare_segment fr from_addr to_addr tcp \<longleftrightarrow> sent_tcp fr = Some tcp \<and> sent_payload fr = [] \<and>
     tcp_src_addr tcp = from_addr \<and> tcp_dst_addr tcp = to_addr"

lemma send_tcp_ack_syn_frame:
  assumes lk: "link_ok lk" and inv: "fw_inv f" and x: "get_state f dst src = Some x"
  obtains f' fr tcp where "send_tcp_ack_syn lk f dst src = Some (Ok (), f')" and "fw_sent f' = fw_sent f @ [fr]"
    and "bare_segment fr dst src tcp" and "tcp_is_syn tcp" and "tcp_is_ack tcp"
    and "tcp_sequence (tcp_layer tcp) = tx_sequence x" and "tcp_acknowledgement (tcp_layer tcp) = tx_acknowledgement x"
proof -
  obtain win where win: "get_tcp_window f dst src = Some win" using x by (auto simp: get_tcp_window_def)
  obtain m where m: "usub (fw_local_mtu f) (ipv4_minimum_len + tcp_minimum_len) = Some m"
    using inv by (simp add: fw_inv_def usub_def ipv4_minimum_len_def tcp_minimum_len_def)
  define u where "u = tcp_new_ack_syn (port dst) (port src) (tx_sequence x) (tx_acknowledgement x) win
    (Some (if m > 65535 then 65535 else of_nat m)) (tx_send_wscale x) (tx_sack_perm x) None"
  obtain fr j where fr: "send_ipv4_with_transport lk f (ip dst) (ip src) (LTcp u) None =
        Some (Ok (), after_send f (ip dst) (ip src) fr)" "sent_payload fr = []"
      "ind_transport (fst fr) = Some (LTcp (tcp_set_ipv4_layer u j))" "ip_source j = ip dst" "ip_destination j = ip src"
    by (rule control_send_ok [OF lk disjI2 [OF u_def] disjI1 [OF refl], of f "ip dst" "ip src"]) blast
  have fields: "tcp_source (tcp_layer u) = port dst" "tcp_destination (tcp_layer u) = port src"
      "tcp_sequence (tcp_layer u) = tx_sequence x" "tcp_acknowledgement (tcp_layer u) = tx_acknowledgement x"
      "tcp_is_syn u" "tcp_is_ack u"
    by (auto simp: u_def tcp_new_ack_syn_def tcp_new_ack_def tcp_from_def tcp_set_flags_def tcp_push_options_def
        tcp_is_syn_def tcp_is_ack_def TcpFlags_SYN_def TcpFlags_ACK_def Let_def split: option.split)
  show ?thesis
    by (rule that [of "after_send f (ip dst) (ip src) fr" fr "tcp_set_ipv4_layer u j"])
      (use fr fields x win m in \<open>simp_all add: send_tcp_ack_syn_def ENABLE_MSS_def u_def [symmetric] bare_segment_def
        sent_tcp_def indicator_tcp_def tcp_src_addr_def tcp_dst_addr_def tcp_set_ipv4_layer_def tcp_is_syn_def tcp_is_ack_def\<close>)
qed

lemma send_tcp_ack_rst_frame:
  assumes lk: "link_ok lk" and x: "get_state f dst src = Some x"
  obtains f' fr tcp where "send_tcp_ack_rst lk f dst src = Some (Ok (), f')" and "fw_sent f' = fw_sent f @ [fr]"
    and "bare_segment fr dst src tcp" and "tcp_is_rst tcp"
    and "tcp_acknowledgement (tcp_layer tcp) = tx_acknowledgement x"
proof -
  obtain win where win: "get_tcp_window f dst src = Some win" using x by (auto simp: get_tcp_window_def)
  define v where "v = tcp_new_ack (port dst) (port src) (tx_sequence x) (tx_acknowledgement x) win None None"
  define u where "u = tcp_new_ack_rst (port dst) (port src) (tx_sequence x) (tx_acknowledgement x) win None"
  have u: "u = tcp_set_flags v (TcpFlags_RST OR TcpFlags_ACK)"
    by (simp add: u_def v_def tcp_new_ack_rst_def tcp_new_rst_def tcp_set_flags_def Let_def)
  obtain fr j where fr: "send_ipv4_with_transport lk f (ip dst) (ip src) (LTcp u) None =
        Some (Ok (), after_send f (ip dst) (ip src) fr)" "sent_payload fr = []"
      "ind_transport (fst fr) = Some (LTcp (tcp_set_ipv4_layer u j))" "ip_source j = ip dst" "ip_destination j = ip src"
    by (rule control_send_ok [OF lk disjI1 [OF v_def] disjI2 [OF u], of f "ip dst" "ip src"]) blast
  have fields: "tcp_source (tcp_layer u) = port dst" "tcp_destination (tcp_layer u) = port src"
      "tcp_acknowledgement (tcp_layer u) = tx_acknowledgement x" "tcp_is_rst u"
    by (auto simp: u v_def tcp_new_ack_def tcp_from_def tcp_set_flags_def tcp_is_rst_def TcpFlags_RST_def
        TcpFlags_ACK_def Let_def)
  show ?thesis
    by (rule that [of "after_send f (ip dst) (ip src) fr" fr "tcp_set_ipv4_layer u j"])
      (use fr fields x win in \<open>simp_all add: send_tcp_ack_rst_def u_def [symmetric] bare_segment_def
        sent_tcp_def indicator_tcp_def tcp_src_addr_def tcp_dst_addr_def tcp_set_ipv4_layer_def tcp_is_rst_def\<close>)
qed


section \<open>The handler of SYN\<close>

text \<open>
  What the handler relies on: options that can be read, a window scale that keeps the window within
  16 MiB, and a segment size above zero.
\<close>

definition syn_ok :: "pnet \<Rightarrow> tcp \<Rightarrow> bool" where
  "syn_ok pn tcp \<longleftrightarrow>
     (case tcp_wscale pn tcp of Some wscale \<Rightarrow> unat (unwrap_or wscale 0) \<le> 8 | None \<Rightarrow> False) \<and>
     (case tcp_mss pn tcp of Some mss \<Rightarrow> mss \<noteq> Some 0 | None \<Rightarrow> False)"

text \<open>The number of the first byte of the stream.\<close>

definition first_number :: "tcp \<Rightarrow> u32" where
  "first_number tcp = unwrap_or (checked_add_u32 (tcp_sequence (tcp_layer tcp)) 1) 0"

text \<open>A send state with nothing in it, whose next number is \<open>s\<close>.\<close>

definition fresh :: "u32 \<Rightarrow> tcp_tx_state \<Rightarrow> bool" where
  "fresh s t \<longleftrightarrow> tx_bytes t = [] \<and> tx_sequence t = s \<and> q_sequence (tx_cache t) = s \<and> tx_cache_fin t = None \<and> \<not> tx_queue_fin t"

lemma syn_states_ok:
  assumes ws: "unat (unwrap_or wscale 0) \<le> 8"
  obtains x t where "tcp_rx_new src dst a (unwrap_or wscale 0) sack_perm = Some x"
    and "tcp_tx_new src dst s (unwrap_or (checked_add_u32 a 1) 0) win (map_option (\<lambda>w. min w MAX_RECV_WSCALE) wscale)
      sack_perm wscale = Some t"
    and "conn_ok t" and "tx_sequence t = s" and "tx_acknowledgement t = unwrap_or (checked_add_u32 a 1) 0"
    and "rx_recv_next x = unwrap_or (checked_add_u32 a 1) 0" and "rx_fin_sequence x = None" and "rx_wscale x = unwrap_or wscale 0"
    and "rx_cache x = window_with_capacity (65535 * 2 ^ unat (unwrap_or wscale 0)) (unwrap_or (checked_add_u32 a 1) 0)"
    and "q_capacity (tx_cache t) = 65535 * 2 ^ unat (unwrap_or wscale 0)" and "fresh s t"
proof -
  let ?rw = "map_option (\<lambda>w. min w MAX_RECV_WSCALE) wscale" and ?k = "unwrap_or wscale (0 :: u8)"
  have rw: "unat (unwrap_or ?rw (0 :: u8)) \<le> unat ?k"
    by (cases wscale) (simp_all add: min_def word_le_nat_alt)
  have k14: "unat ?k \<le> 14" "unat (unwrap_or ?rw (0 :: u8)) \<le> 14" using ws rw by simp_all
  obtain t where t: "tcp_tx_new src dst s (unwrap_or (checked_add_u32 a 1) 0) win ?rw sack_perm wscale = Some t" "tx_ok t"
      "q_capacity (tx_cache t) = 65535 * 2 ^ unat ?k" "tx_send_window t = unat win * 2 ^ unat (unwrap_or ?rw 0)"
      "tx_sequence t = s"
    by (rule tcp_tx_new_ok [OF k14(2,1)])
  have "unat win * 2 ^ unat (unwrap_or ?rw (0 :: u8)) \<le> 65535 * 2 ^ unat ?k"
    using unat_u16_less [of win] rw by (intro mult_le_mono power_increasing) simp_all
  then have "conn_ok t" using t wscale_shift(3) [OF ws, of 0] by (simp add: conn_ok_def)
  moreover have "tx_acknowledgement t = unwrap_or (checked_add_u32 a 1) 0"
    using t(1) by (auto simp: tcp_tx_new_def split: bind_splits)
  moreover have "fresh s t"
    using t(1) by (auto simp: fresh_def tcp_tx_new_def queue_with_capacity_def tx_bytes_def queue_bytes_def split: bind_splits if_splits)
  ultimately show ?thesis
    using t RECV_WINDOW_shift(1) [OF k14(1)]
    by (intro that [of "\<lparr>rx_src = src, rx_dst = dst, rx_recv_next = unwrap_or (checked_add_u32 a 1) 0,
       rx_last_acknowledgement = 0, rx_duplicate = 0, rx_last_retrans = None, rx_wscale = ?k, rx_sack_perm = sack_perm,
       rx_cache = window_with_capacity (65535 * 2 ^ unat ?k) (unwrap_or (checked_add_u32 a 1) 0), rx_fin_sequence = None\<rparr>" t])
      (simp_all add: tcp_rx_new_def Let_def)
qed

lemma handle_tcp_syn_eq:
  assumes inv: "rd_inv rd" and free: "rd_streams rd (tcp_src_addr tcp, tcp_dst_addr tcp) = None"
    and syn: "syn_ok (lk_pnet lk) tcp"
  obtains rd1 x t where "handle_tcp_syn lk ev rd tcp = do {
      rd \<leftarrow> tasks_run lk (ev_now ev) (ev_await ev) rd1;
      syn_connect lk ev (tcp_src_addr tcp, tcp_dst_addr tcp) x rd }"
    and "rd_inv rd1" and "rd_streams rd1 (tcp_src_addr tcp, tcp_dst_addr tcp) = None"
    and "get_state (rd_tx rd1) (tcp_dst_addr tcp) (tcp_src_addr tcp) = Some t"
    and "tx_sequence t = ev_rng ev" and "tx_acknowledgement t = first_number tcp"
    and "\<And>st w t'. sw_written w = [] \<Longrightarrow> tx_keeps t t' \<Longrightarrow> relays st (first_number tcp) w x t'"
    and "fw_sent (rd_tx rd1) = fw_sent (rd_tx rd)" and "rx_fin_sequence x = None" and "fresh (ev_rng ev) t"
    and "connect_result ev rd1 (tcp_dst_addr tcp) = connect_result ev rd (tcp_dst_addr tcp)"
proof -
  let ?src = "tcp_src_addr tcp" and ?dst = "tcp_dst_addr tcp"
  from syn obtain wscale mss where w: "tcp_wscale (lk_pnet lk) tcp = Some wscale" "unat (unwrap_or wscale 0) \<le> 8"
    and m: "tcp_mss (lk_pnet lk) tcp = Some mss" "mss \<noteq> Some 0"
    by (auto simp: syn_ok_def split: option.splits)
  define sack where "sack = (ENABLE_SACK \<and> tcp_is_sack_perm (lk_pnet lk) tcp)"
  have safe: "rd_safe rd" and conns: "\<And>k. conn_inv rd k" using inv unfolding rd_inv_def by blast+
  obtain rd0 where rd0: "clean_up rd ?src ?dst = Some rd0" "rd_inv rd0" "rd_streams rd0 (?src, ?dst) = None"
    by (rule clean_up_ok [of rd ?src ?dst, OF safe conns])
  have sent0: "fw_sent (rd_tx rd0) = fw_sent (rd_tx rd)" and server: "rd_remote rd0 = rd_remote rd" "rd_options rd0 = rd_options rd"
    using rd0(1) by (auto simp: clean_up_def fw_clean_up_def split: bind_splits)
  obtain x t where st: "tcp_rx_new ?src ?dst (tcp_sequence (tcp_layer tcp)) (unwrap_or wscale 0) sack = Some x"
      "tcp_tx_new ?src ?dst (ev_rng ev) (first_number tcp) (tcp_window (tcp_layer tcp))
        (map_option (\<lambda>w. min w MAX_RECV_WSCALE) wscale) sack wscale = Some t"
      "conn_ok t" "tx_sequence t = ev_rng ev" "tx_acknowledgement t = first_number tcp"
      "rx_recv_next x = first_number tcp" "rx_fin_sequence x = None" "rx_wscale x = unwrap_or wscale 0"
      "rx_cache x = window_with_capacity (65535 * 2 ^ unat (unwrap_or wscale 0)) (first_number tcp)"
      "q_capacity (tx_cache t) = 65535 * 2 ^ unat (unwrap_or wscale 0)" "fresh (ev_rng ev) t"
    unfolding first_number_def by (rule syn_states_ok [OF w(2)])
  define f where "f = (case mss of Some mss \<Rightarrow> snd (set_src_mtu (rd_tx rd0) (tcp_src_ip tcp)
    (ipv4_minimum_len + tcp_minimum_len + unat mss)) | None \<Rightarrow> rd_tx rd0)"
  have inv0: "fw_inv (rd_tx rd0)" using rd0(2) by (simp add: rd_inv_def rd_safe_def)
  have f: "fw_inv f" "fw_states f = fw_states (rd_tx rd0)" "fw_sent f = fw_sent (rd_tx rd0)"
  proof -
    have "40 < ipv4_minimum_len + tcp_minimum_len + unat v" if "mss = Some v" for v
      using that m(2) by (simp add: ipv4_minimum_len_def tcp_minimum_len_def unat_gt_0)
    then show "fw_inv f" "fw_states f = fw_states (rd_tx rd0)" "fw_sent f = fw_sent (rd_tx rd0)"
      using inv0 fw_inv_set_src_mtu [OF inv0] by (cases mss; simp add: f_def)+
  qed
  let ?rd = "rd0\<lparr>rd_tx := set_state f ?dst ?src t\<rparr>"
  have inv1: "rd_inv ?rd"
    by (rule rd_inv_set_tx [OF rd0(2,3) fw_inv_set_state [OF f(1) st(3)]]) (simp add: set_state_def f(2))
  have run: "handle_tcp_syn lk ev rd tcp = do {
      rd \<leftarrow> tasks_run lk (ev_now ev) (ev_await ev) ?rd;
      syn_connect lk ev (?src, ?dst) x rd }"
    using free rd0(1) w(1) m(1) st(1,2) unfolding f_def sack_def first_number_def
    by (simp add: handle_tcp_syn_def ENABLE_WSCALE_def Let_def)
  have rel: "relays st (first_number tcp) v x t'" if "sw_written v = []" "tx_keeps t t'" for st v t'
    using that st w(2) window_holds_with_capacity [OF wscale_shift(3) [OF w(2), of 0], of st 0 "first_number tcp"]
    by (simp add: relays_def tx_keeps_def seq.adv_0) (simp add: window_with_capacity_def)
  show ?thesis
    by (rule that [OF run inv1 _ _ st(4,5) rel _ st(7,11)])
      (simp_all add: rd0(3) get_state_def set_state_def f(3) sent0 server)
qed


lemma syn_connect_accept:
  assumes lk: "link_ok lk" and inv: "rd_inv rd" and free: "rd_streams rd (src, dst) = None"
    and t: "get_state (rd_tx rd) dst src = Some t" and conn: "connect_result ev rd dst = Ok ()"
  obtains rd' w t' fr tcp where "syn_connect lk ev (src, dst) x rd = Some (Ok (), rd')"
    and "at_conn (src, dst) rd' w x t'" and "sw_written w = []" and "sw_stream_tx w" and "tx_keeps t t'"
    and "fw_sent (rd_tx rd') = fw_sent (rd_tx rd) @ [fr]" and "bare_segment fr dst src tcp" and "tcp_is_syn tcp" and "tcp_is_ack tcp"
    and "tcp_sequence (tcp_layer tcp) = tx_sequence t" and "tcp_acknowledgement (tcp_layer tcp) = tx_acknowledgement t"
    and "t' = update_syn_timer t (ev_now ev)" and "sw_reader w" and "\<not> sw_is_read_closed w" and "\<not> sw_is_write_closed w"
proof -
  let ?key = "(src, dst)"
  have fw: "fw_inv (rd_tx rd)" using inv by (simp add: rd_inv_def rd_safe_def)
  obtain f1 fr tcp where syn: "send_tcp_ack_syn lk (rd_tx rd) dst src = Some (Ok (), f1)"
      "fw_sent f1 = fw_sent (rd_tx rd) @ [fr]" "bare_segment fr dst src tcp" "tcp_is_syn tcp" "tcp_is_ack tcp"
      "tcp_sequence (tcp_layer tcp) = tx_sequence t" "tcp_acknowledgement (tcp_layer tcp) = tx_acknowledgement t"
    by (rule send_tcp_ack_syn_frame [OF lk fw t])
  have q: "fw_quiet (rd_tx rd) f1" by (rule send_tcp_quiet(2) [OF syn(1)])
  define t' where "t' = update_syn_timer t (ev_now ev)"
  define f where "f = set_state f1 dst src t'"
  have open_run: "forward_open lk (rd_tx rd) dst src (ev_now ev) = Some (Ok (), f)"
    using syn(1) q t by (simp add: forward_open_def f_def t'_def)
  have keeps: "tx_keeps t t'" by (simp add: t'_def)
  have "conn_ok t" by (rule fw_inv_conn [OF fw t])
  then have "tx_ok t" by (simp add: conn_ok_def)
  then have ok: "conn_ok t'"
    unfolding t'_def by (intro conn_ok_keeps [OF \<open>conn_ok t\<close>]) (simp_all add: tx_ok_simple)
  have fi: "fw_inv f" unfolding f_def by (rule fw_inv_set_state [OF fw_inv_quiet [OF fw q] ok])
  define w where "w = \<lparr>sw_src = src, sw_dst = dst, sw_stream_tx = True, sw_is_write_closed = False,
     sw_is_read_closed = False, sw_reader = True, sw_recv_zero = 0, sw_ticker = True, sw_written = []\<rparr>"
  have inv1: "rd_inv (rd\<lparr>rd_tx := f\<rparr>)"
    by (rule rd_inv_set_tx [OF inv free fi]) (use q in \<open>simp add: f_def set_state_def fw_quiet_def\<close>)
  let ?rd = "put_stream (put_rx (rd\<lparr>rd_tx := f\<rparr>) ?key x) ?key w"
  have "conn_inv ?rd k" if "k \<noteq> ?key" for k
    using inv1 that conn_inv_cong [of ?rd k "rd\<lparr>rd_tx := f\<rparr>"] unfolding rd_inv_def by (simp add: put_stream_def put_rx_def)
  moreover have st: "fw_states f ?key = Some t'" by (simp add: f_def set_state_def)
  moreover have "rd_safe ?rd"
    using inv1 st unfolding rd_inv_def rd_safe_def by (auto simp: put_stream_def put_rx_def w_def worker_ok_def)
  ultimately have at: "at_conn ?key ?rd w x t'" by (simp add: at_conn_def put_stream_def put_rx_def)
  have run: "syn_connect lk ev ?key x rd = Some (Ok (), ?rd)"
    using conn open_run by (simp add: syn_connect_def on_tx_def stream_connect_def forwarder_stream_def w_def)
  show ?thesis
    by (rule that [OF run at _ _ keeps _ syn(3-7) t'_def])
      (simp_all add: w_def put_stream_def put_rx_def f_def set_state_def syn(2))
qed

lemma syn_connect_refuse:
  assumes lk: "link_ok lk" and inv: "rd_inv rd" and free: "rd_streams rd (src, dst) = None"
    and t: "get_state (rd_tx rd) dst src = Some t" and conn: "connect_result ev rd dst = Err e"
  obtains rd' fr tcp where "syn_connect lk ev (src, dst) x rd = Some (Err e, rd')" and "rd_inv rd'"
    and "rd_streams rd' (src, dst) = None" and "get_state (rd_tx rd') dst src = None"
    and "fw_sent (rd_tx rd') = fw_sent (rd_tx rd) @ [fr]" and "bare_segment fr dst src tcp" and "tcp_is_rst tcp"
    and "tcp_acknowledgement (tcp_layer tcp) = seq_add (tx_acknowledgement t) 1"
proof -
  have fw: "fw_inv (rd_tx rd)" using inv by (simp add: rd_inv_def rd_safe_def)
  define f where "f = set_state (rd_tx rd) dst src (add_acknowledgement t 1)"
  have fi: "fw_inv f" unfolding f_def by (rule fw_inv_set_state [OF fw conn_ok_simple(1) [OF fw_inv_conn [OF fw t]]])
  have inv1: "rd_inv (rd\<lparr>rd_tx := f\<rparr>)" by (rule rd_inv_set_tx [OF inv free fi]) (simp add: f_def set_state_def)
  have upd: "update_tx rd dst src (\<lambda>x. Some (add_acknowledgement x 1)) = Some (rd\<lparr>rd_tx := f\<rparr>)"
    using t by (simp add: update_tx_def f_def)
  have t1: "get_state f dst src = Some (add_acknowledgement t 1)" by (simp add: f_def)
  obtain f1 fr tcp where rst: "send_tcp_ack_rst lk f dst src = Some (Ok (), f1)" "fw_sent f1 = fw_sent f @ [fr]"
      "bare_segment fr dst src tcp" "tcp_is_rst tcp"
      "tcp_acknowledgement (tcp_layer tcp) = tx_acknowledgement (add_acknowledgement t 1)"
    by (rule send_tcp_ack_rst_frame [OF lk t1])
  have inv2: "rd_inv (rd\<lparr>rd_tx := f1\<rparr>)"
    using rd_inv_quiet [OF inv1, of f1] send_tcp_quiet(3) [OF rst(1)] by simp
  then have safe2: "rd_safe (rd\<lparr>rd_tx := f1\<rparr>)" and conns2: "\<And>k. conn_inv (rd\<lparr>rd_tx := f1\<rparr>) k"
    unfolding rd_inv_def by blast+
  obtain rd' where rd': "clean_up (rd\<lparr>rd_tx := f1\<rparr>) src dst = Some rd'" "rd_inv rd'" "rd_streams rd' (src, dst) = None"
      "get_state (rd_tx rd') dst src = None"
    by (rule clean_up_ok [of "rd\<lparr>rd_tx := f1\<rparr>" src dst, OF safe2 conns2])
  have "fw_sent (rd_tx rd') = fw_sent f1"
    using rd'(1) by (auto simp: clean_up_def fw_clean_up_def split: bind_splits)
  then have sent: "fw_sent (rd_tx rd') = fw_sent (rd_tx rd) @ [fr]" using rst(2) by (simp add: f_def set_state_def)
  have run: "syn_connect lk ev (src, dst) x rd = Some (Err e, rd')"
    using conn upd rst(1) rd'(1) by (simp add: syn_connect_def on_tx_def stream_connect_def)
  show ?thesis
    by (rule that [OF run rd'(2-4) sent rst(3,4)]) (simp add: rst(5) add_acknowledgement_def)
qed

lemma tasks_run_free:
  assumes lk: "link_ok lk" and inv: "rd_inv rd" and free: "rd_streams rd (src, dst) = None"
    and t: "get_state (rd_tx rd) dst src = Some t" and ts: "list_all task_ok ts"
  obtains rd' t' where "tasks_run lk now ts rd = Some rd'" and "rd_inv rd'" and "rd_streams rd' (src, dst) = None"
    and "get_state (rd_tx rd') dst src = Some t'" and "tx_keeps t t'" and "connect_result ev rd' dst = connect_result ev rd dst"
proof -
  from inv have safe: "rd_safe rd" by (simp add: rd_inv_def)
  obtain rd' where rd': "tasks_run lk now ts rd = Some rd'" "rd_safe rd'" "rd_frame rd rd'"
    using tasks_run_ok [OF lk safe ts] by blast
  have "rel_option stream_keeps (rd_streams rd (src, dst)) (rd_streams rd' (src, dst))"
    using rd'(3) unfolding rd_frame_def by blast
  then have free': "rd_streams rd' (src, dst) = None" using free by simp
  obtain t' where t': "get_state (rd_tx rd') dst src = Some t'" "tx_keeps t t'"
    by (rule fw_frame_state [OF rd_frame_fields(4) [OF rd'(3)] t])
  show ?thesis by (rule that [OF rd'(1) rd_inv_frame [OF inv rd'(2,3)] free' t']) (simp add: rd_frame_fields(5,6) [OF rd'(3)])
qed

text \<open>The handler when the SOCKS server answers, with the frame that is sent last.\<close>

lemma handle_tcp_syn_accept:
  assumes lk: "link_ok lk" and inv: "rd_inv rd" and free: "rd_streams rd (tcp_src_addr tcp, tcp_dst_addr tcp) = None"
    and syn: "syn_ok (lk_pnet lk) tcp" and ts: "list_all task_ok (ev_await ev)" and conn: "connect_result ev rd (tcp_dst_addr tcp) = Ok ()"
  obtains rd' w x t where "handle_tcp_syn lk ev rd tcp = Some (Ok (), rd')"
    and "at_conn (tcp_src_addr tcp, tcp_dst_addr tcp) rd' w x t" and "\<And>st. relays st (first_number tcp) w x t"
    and "sw_written w = []" and "sw_stream_tx w" and "rx_fin_sequence x = None"
    and "\<exists>fs fr reply. fw_sent (rd_tx rd') = fs @ [fr] \<and> bare_segment fr (tcp_dst_addr tcp) (tcp_src_addr tcp) reply \<and>
      tcp_is_syn reply \<and> tcp_is_ack reply \<and> tcp_acknowledgement (tcp_layer reply) = first_number tcp"
proof -
  let ?src = "tcp_src_addr tcp" and ?dst = "tcp_dst_addr tcp"
  obtain rd1 x t where s1: "handle_tcp_syn lk ev rd tcp = do {
      rd \<leftarrow> tasks_run lk (ev_now ev) (ev_await ev) rd1; syn_connect lk ev (?src, ?dst) x rd }"
    "rd_inv rd1" "rd_streams rd1 (?src, ?dst) = None" "get_state (rd_tx rd1) ?dst ?src = Some t"
    "tx_acknowledgement t = first_number tcp"
    and rel: "\<And>st w t'. sw_written w = [] \<Longrightarrow> tx_keeps t t' \<Longrightarrow> relays st (first_number tcp) w x t'"
    and fin: "rx_fin_sequence x = None" and server: "connect_result ev rd1 ?dst = connect_result ev rd ?dst"
    by (rule handle_tcp_syn_eq [OF inv free syn, of ev]) (rule that; (assumption | blast))
  obtain rd2 t2 where s2: "tasks_run lk (ev_now ev) (ev_await ev) rd1 = Some rd2" "rd_inv rd2"
      "rd_streams rd2 (?src, ?dst) = None" "get_state (rd_tx rd2) ?dst ?src = Some t2" "tx_keeps t t2"
      "connect_result ev rd2 ?dst = connect_result ev rd1 ?dst"
    by (rule tasks_run_free [OF lk s1(2,3,4) ts])
  obtain rd' w t' fr reply where acc: "syn_connect lk ev (?src, ?dst) x rd2 = Some (Ok (), rd')"
      "at_conn (?src, ?dst) rd' w x t'" "sw_written w = []" "sw_stream_tx w" "tx_keeps t2 t'"
      "fw_sent (rd_tx rd') = fw_sent (rd_tx rd2) @ [fr]" "bare_segment fr ?dst ?src reply" "tcp_is_syn reply" "tcp_is_ack reply"
      "tcp_acknowledgement (tcp_layer reply) = tx_acknowledgement t2"
    by (rule syn_connect_accept [OF lk s2(2,3,4) conn [folded server s2(6)]])
  have ack: "tx_acknowledgement t2 = first_number tcp" using s1(5) s2(5) by (simp add: tx_keeps_def)
  have run: "handle_tcp_syn lk ev rd tcp = Some (Ok (), rd')" using s1(1) s2(1) acc(1) by simp
  have "\<exists>fs fr reply. fw_sent (rd_tx rd') = fs @ [fr] \<and> bare_segment fr ?dst ?src reply \<and> tcp_is_syn reply \<and>
      tcp_is_ack reply \<and> tcp_acknowledgement (tcp_layer reply) = first_number tcp"
    using acc(6-10) unfolding ack by blast
  then show ?thesis
    by (rule that [OF run acc(2) rel [OF acc(3) tx_keeps_trans [OF s2(5) acc(5)]] acc(3,4) fin])
qed

lemma handle_tcp_syn_refuse:
  assumes lk: "link_ok lk" and inv: "rd_inv rd" and free: "rd_streams rd (tcp_src_addr tcp, tcp_dst_addr tcp) = None"
    and syn: "syn_ok (lk_pnet lk) tcp" and ts: "list_all task_ok (ev_await ev)" and conn: "connect_result ev rd (tcp_dst_addr tcp) = Err e"
  obtains rd' where "handle_tcp_syn lk ev rd tcp = Some (Err e, rd')" and "rd_inv rd'"
    and "rd_streams rd' (tcp_src_addr tcp, tcp_dst_addr tcp) = None"
    and "get_state (rd_tx rd') (tcp_dst_addr tcp) (tcp_src_addr tcp) = None"
    and "\<exists>fs fr reply. fw_sent (rd_tx rd') = fs @ [fr] \<and> bare_segment fr (tcp_dst_addr tcp) (tcp_src_addr tcp) reply \<and>
      tcp_is_rst reply \<and> tcp_acknowledgement (tcp_layer reply) = seq_add (first_number tcp) 1"
proof -
  let ?src = "tcp_src_addr tcp" and ?dst = "tcp_dst_addr tcp"
  obtain rd1 x t where s1: "handle_tcp_syn lk ev rd tcp = do {
      rd \<leftarrow> tasks_run lk (ev_now ev) (ev_await ev) rd1; syn_connect lk ev (?src, ?dst) x rd }"
    "rd_inv rd1" "rd_streams rd1 (?src, ?dst) = None" "get_state (rd_tx rd1) ?dst ?src = Some t"
    "tx_acknowledgement t = first_number tcp" and server: "connect_result ev rd1 ?dst = connect_result ev rd ?dst"
    by (rule handle_tcp_syn_eq [OF inv free syn, of ev])
  obtain rd2 t2 where s2: "tasks_run lk (ev_now ev) (ev_await ev) rd1 = Some rd2" "rd_inv rd2"
      "rd_streams rd2 (?src, ?dst) = None" "get_state (rd_tx rd2) ?dst ?src = Some t2" "tx_keeps t t2"
      "connect_result ev rd2 ?dst = connect_result ev rd1 ?dst"
    by (rule tasks_run_free [OF lk s1(2,3,4) ts])
  obtain rd' fr reply where ref: "syn_connect lk ev (?src, ?dst) x rd2 = Some (Err e, rd')" "rd_inv rd'"
      "rd_streams rd' (?src, ?dst) = None" "get_state (rd_tx rd') ?dst ?src = None"
      "fw_sent (rd_tx rd') = fw_sent (rd_tx rd2) @ [fr]" "bare_segment fr ?dst ?src reply" "tcp_is_rst reply"
      "tcp_acknowledgement (tcp_layer reply) = seq_add (tx_acknowledgement t2) 1"
    by (rule syn_connect_refuse [OF lk s2(2,3,4) conn [folded server s2(6)]])
  have ack: "tx_acknowledgement t2 = first_number tcp" using s1(5) s2(5) by (simp add: tx_keeps_def)
  have run: "handle_tcp_syn lk ev rd tcp = Some (Err e, rd')" using s1(1) s2(1) ref(1) by simp
  have "\<exists>fs fr reply. fw_sent (rd_tx rd') = fs @ [fr] \<and> bare_segment fr ?dst ?src reply \<and>
      tcp_is_rst reply \<and> tcp_acknowledgement (tcp_layer reply) = seq_add (first_number tcp) 1"
    using ref(5-8) unfolding ack by blast
  then show ?thesis by (rule that [OF run ref(2-4)])
qed

lemma handle_tcp_syn_ok:
  assumes lk: "link_ok lk" and inv: "rd_inv rd" and syn: "syn_ok (lk_pnet lk) tcp" and ts: "list_all task_ok (ev_await ev)"
  shows "\<exists>r rd'. handle_tcp_syn lk ev rd tcp = Some (r, rd') \<and> rd_inv rd'"
proof (cases "rd_streams rd (tcp_src_addr tcp, tcp_dst_addr tcp)")
  case (Some w)
  with inv show ?thesis by (simp add: handle_tcp_syn_def Let_def)
next
  case None
  show ?thesis
  proof (cases "connect_result ev rd (tcp_dst_addr tcp)")
    case (Inl e)
    show ?thesis by (rule handle_tcp_syn_refuse [OF lk inv None syn ts Inl]) blast
  next
    case (Inr u)
    then have ok: "connect_result ev rd (tcp_dst_addr tcp) = Ok ()" by simp
    show ?thesis
      by (rule handle_tcp_syn_accept [OF lk inv None syn ts ok]) (blast intro: at_conn_inv)
  qed
qed

end
