(* ===== verification/Uploads.thy ===== *)
theory Uploads
  imports Handshake
begin

text \<open>
  Properties of the TCP relay: the invariant of the \<open>Redirector\<close> over all segments and tasks, the
  handshake, and the delivery of a device's stream to the SOCKS server.
\<close>

declare split_paired_All [simp del] split_paired_Ex [simp del]

section \<open>Reachable states\<close>

text \<open>
  The segments the handler is safe for: one of the four flags, options that can be read, and data
  that is part of the stream of the connection and not older than its window (\<open>segment_ok\<close>).
\<close>

definition tcp_input_ok :: "link \<Rightarrow> 'l redirector \<Rightarrow> tcp \<Rightarrow> u8 list \<Rightarrow> bool" where
  "tcp_input_ok lk rd tcp payload \<longleftrightarrow>
     (tcp_is_rst tcp \<or> tcp_is_ack tcp \<or> tcp_is_syn tcp \<or> tcp_is_fin tcp) \<and>
     (tcp_is_syn tcp \<longrightarrow> syn_ok (lk_pnet lk) tcp) \<and> tcp_sack (lk_pnet lk) tcp \<noteq> None \<and>
     (payload \<noteq> [] \<longrightarrow> (\<forall>w x t. rd_streams rd (tcp_src_addr tcp, tcp_dst_addr tcp) = Some w \<longrightarrow>
       rd_states rd (tcp_src_addr tcp, tcp_dst_addr tcp) = Some x \<longrightarrow>
       fw_states (rd_tx rd) (tcp_src_addr tcp, tcp_dst_addr tcp) = Some t \<longrightarrow>
       (\<exists>st s0 q. relays st s0 w x t \<and> tcp_sequence (tcp_layer tcp) = seq_adv s0 q \<and>
         segment_ok st s0 (length (sw_written w)) q payload)))"

text \<open>A \<open>Redirector\<close> that has handled segments and whose tasks have run, in any order.\<close>

inductive relaying :: "link \<Rightarrow> 'l redirector \<Rightarrow> bool" for lk where
  relaying_new: "\<lbrakk>fw_states f = Map.empty; fw_src_mtu f = Map.empty; 40 < fw_local_mtu f; fw_local_mtu f \<le> 65535\<rbrakk> \<Longrightarrow>
    relaying lk (redirector_new ops f contains local_ip gw remote force_dst force_bind auth)"
| relaying_segment: "\<lbrakk>relaying lk rd; tcp_input_ok lk rd tcp payload; list_all task_ok (ev_await ev);
    handle_tcp lk ev rd tcp payload = Some (r, rd')\<rbrakk> \<Longrightarrow> relaying lk rd'"
| relaying_task: "\<lbrakk>relaying lk rd; task_ok t; task_run lk now t rd = Some rd'\<rbrakk> \<Longrightarrow> relaying lk rd'"

lemma rd_inv_new:
  assumes "fw_states f = Map.empty" and "fw_src_mtu f = Map.empty" and "40 < fw_local_mtu f" and "fw_local_mtu f \<le> 65535"
  shows "rd_inv (redirector_new ops f contains local_ip gw remote force_dst force_bind auth)"
  using assms by (simp add: rd_inv_def rd_safe_def conn_inv_def redirector_new_def fw_inv_def src_mtu_of_def
      set_local_ip_addr_def split: option.split)

lemma handle_tcp_ok:
  assumes lk: "link_ok lk" and inv: "rd_inv rd" and input: "tcp_input_ok lk rd tcp payload"
    and ts: "list_all task_ok (ev_await ev)"
  shows "\<exists>r rd'. handle_tcp lk ev rd tcp payload = Some (r, rd') \<and> rd_inv rd'"
proof -
  let ?src = "tcp_src_addr tcp" and ?dst = "tcp_dst_addr tcp"
  have safe: "rd_safe rd" and conns: "\<And>k. conn_inv rd k" using inv unfolding rd_inv_def by blast+
  obtain rd1 where rst: "clean_up rd ?src ?dst = Some rd1" "rd_inv rd1"
    by (rule clean_up_ok [of rd ?src ?dst, OF safe conns])
  obtain rd2 where fin: "handle_tcp_fin lk rd tcp payload = Some (Ok (), rd2)" "rd_inv rd2"
    by (rule handle_tcp_fin_ok [OF lk inv])
  have syn: "\<exists>r rd'. handle_tcp_syn lk ev rd tcp = Some (r, rd') \<and> rd_inv rd'" if "tcp_is_syn tcp"
    using handle_tcp_syn_ok [OF lk inv _ ts] input that by (simp add: tcp_input_ok_def)
  have ack: "\<exists>r rd'. handle_tcp_ack lk ev rd tcp payload = Some (r, rd') \<and> rd_inv rd'"
  proof (cases "rd_streams rd (?src, ?dst)")
    case None
    obtain rd3 where "on_tx rd (\<lambda>f. send_tcp_rst lk f ?dst ?src) = Some (Ok (), rd3)" "rd_inv rd3"
      by (rule send_tcp_rst_inv [OF lk inv])
    with None show ?thesis by (simp add: handle_tcp_ack_def Let_def)
  next
    case (Some w)
    obtain x t st s0 where at: "at_conn (?src, ?dst) rd w x t" and rel: "relays st s0 w x t"
      by (rule rd_inv_at [OF inv Some])
    show ?thesis
    proof (cases "payload = []")
      case True
      have sack: "tcp_sack (lk_pnet lk) tcp \<noteq> None" using input by (simp add: tcp_input_ok_def)
      show ?thesis unfolding True by (rule handle_tcp_ack_empty [OF lk at rel sack]) blast
    next
      case False
      with input at obtain st s0 q where seg: "relays st s0 w x t" "tcp_sequence (tcp_layer tcp) = seq_adv s0 q"
          "segment_ok st s0 (length (sw_written w)) q payload"
        unfolding tcp_input_ok_def at_conn_def by blast
      show ?thesis by (rule handle_tcp_ack_data [OF lk at seg ts]) blast
    qed
  qed
  show ?thesis using input rst fin syn ack by (auto simp: handle_tcp_def handle_tcp_rst_def tcp_input_ok_def)
qed

lemma relaying_inv: "relaying lk rd \<Longrightarrow> link_ok lk \<Longrightarrow> rd_inv rd"
proof (induction rule: relaying.induct)
  case (relaying_new f ops contains local_ip gw remote force_dst force_bind auth)
  then show ?case by (intro rd_inv_new)
next
  case (relaying_segment rd tcp payload ev r rd')
  then show ?case using handle_tcp_ok [of lk rd tcp payload ev] by auto
next
  case (relaying_task rd t now rd')
  then have inv: "rd_inv rd" by blast
  then have safe: "rd_safe rd" by (simp add: rd_inv_def)
  obtain rd'' where "task_run lk now t rd = Some rd''" "rd_safe rd''" "rd_frame rd rd''"
    by (rule task_run_ok [OF relaying_task.prems safe relaying_task.hyps(2)])
  with relaying_task.hyps(3) rd_inv_frame [OF inv] show ?case by simp
qed

section \<open>Uploads\<close>

text \<open>
  \<open>uploads st s0 key n rd\<close>: the first \<open>n\<close> bytes of the stream have been written to the SOCKS
  server, nothing else has, and the device has been told so.
\<close>

definition uploads :: "(nat \<Rightarrow> u8) \<Rightarrow> u32 \<Rightarrow> conn_key \<Rightarrow> nat \<Rightarrow> 'l redirector \<Rightarrow> bool" where
  "uploads st s0 key n rd \<longleftrightarrow>
     (\<exists>w x t. rd_streams rd key = Some w \<and> rd_states rd key = Some x \<and> fw_states (rd_tx rd) key = Some t \<and>
       sw_stream_tx w \<and> rx_fin_sequence x = None \<and> length (sw_written w) = n \<and> relays st s0 w x t)"

lemma uploads_written:
  assumes "uploads st s0 key n rd"
  shows "map_option sw_written (rd_streams rd key) = Some (map st [0..<n])"
    and "map_option tx_acknowledgement (fw_states (rd_tx rd) key) = Some (seq_adv s0 n)"
  using assms relaysD unfolding uploads_def by fastforce+

lemma uploads_at:
  assumes "rd_inv rd" and "uploads st s0 key n rd"
  obtains w x t where "at_conn key rd w x t" and "relays st s0 w x t" and "sw_stream_tx w"
    and "rx_fin_sequence x = None" and "length (sw_written w) = n"
  using assms unfolding uploads_def rd_inv_def at_conn_def by blast

lemma uploads_intro:
  "at_conn key rd w x t \<Longrightarrow> relays st s0 w x t \<Longrightarrow> sw_stream_tx w \<Longrightarrow> rx_fin_sequence x = None \<Longrightarrow>
    uploads st s0 key (length (sw_written w)) rd"
  unfolding uploads_def at_conn_def by blast


section \<open>Properties\<close>

text \<open>A \<open>Redirector\<close> without connections, a SYN and a segment with data for the witnesses.\<close>

definition sample_env :: env where
  "sample_env = \<lparr>ev_now = 4, ev_rng = 100, ev_debug = True, ev_socks = sample_calls, ev_write = None, ev_send_to = Ok 13,
     ev_await = [], ev_await_send_to = []\<rparr>"

definition sample_redirector :: "unit redirector" where
  "sample_redirector = redirector_new
     \<lparr>lru_new = \<lambda>_. (), lru_get = \<lambda>_ _. (), lru_put = \<lambda>_ _ _. (), lru_len = \<lambda>_. 0, lru_cap = \<lambda>_. 0,
      lru_pop_lru = \<lambda>_. None, lru_pop = \<lambda>_ _. ()\<rparr>
     (sample_forwarder\<lparr>fw_states := Map.empty\<rparr>) (\<lambda>_. True) 9 None (SocketAddrV4 3 1080) False False None"

definition sample_segment :: "u32 \<Rightarrow> u16 \<Rightarrow> tcp" where
  "sample_segment sequence flags =
     (tcp_set_flags (tcp_new_ack 80 443 sequence 100 1000 None None) flags)\<lparr>tcp_src_ip := 1, tcp_dst_ip := 2\<rparr>"

lemma sample_segment_simps [simp]:
  "tcp_src_addr (sample_segment s fl) = SocketAddrV4 1 80" "tcp_dst_addr (sample_segment s fl) = SocketAddrV4 2 443"
  "tcp_sequence (tcp_layer (sample_segment s fl)) = s" "tcp_flags (tcp_layer (sample_segment s fl)) = fl"
  "syn_ok pn (sample_segment s fl)" "tcp_sack pn (sample_segment s fl) \<noteq> None"
  by (simp_all add: sample_segment_def tcp_new_ack_def tcp_from_def tcp_set_flags_def tcp_src_addr_def tcp_dst_addr_def
      syn_ok_def tcp_wscale_def tcp_mss_def tcp_sack_def tcp_option_buffer_def Let_def)

lemma sample_redirector_new: "relaying lk sample_redirector"
  unfolding sample_redirector_def by (rule relaying_new) (simp_all add: sample_forwarder_def)

lemma sample_redirector_free: "rd_streams sample_redirector k = None"
  by (simp add: sample_redirector_def redirector_new_def)

text \<open>
  C7. The relay keeps its state consistent on the segments it is safe for (\<open>tcp_input_ok\<close>): with one of the four flags, options that
  can be read, in a SYN a window scale up to 8 and an MSS above zero, and data that does not end before the byte expected; a stale
  retransmission and a larger scale, which TCP allows, are not among them. In every state reached from a start with an MTU from 41 to 65535
  through such segments and steps of the tasks, in any order, each stream has its receive and its send state, all
  three agree on what has been transferred, and the next such segment and the next step of a task are handled
  without a panic, with the tasks running while the handler waits.
\<close>

theorem redirector_tcp_safe:
  assumes "link_ok lk" and "relaying lk rd"
  shows "rd_inv rd \<and>
    (tcp_input_ok lk rd tcp payload \<and> list_all task_ok (ev_await ev) \<longrightarrow>
      (\<exists>r rd'. handle_tcp lk ev rd tcp payload = Some (r, rd') \<and> rd_inv rd')) \<and>
    (task_ok t \<longrightarrow> (\<exists>rd'. task_run lk now t rd = Some rd' \<and> rd_inv rd' \<and> rd_frame rd rd'))"
proof -
  have inv: "rd_inv rd" by (rule relaying_inv [OF assms(2,1)])
  then have safe: "rd_safe rd" by (simp add: rd_inv_def)
  have "\<exists>rd'. task_run lk now t rd = Some rd' \<and> rd_inv rd' \<and> rd_frame rd rd'" if "task_ok t"
    by (rule task_run_ok [OF assms(1) safe that]) (use rd_inv_frame [OF inv] in blast)
  with inv handle_tcp_ok [OF assms(1) inv] show ?thesis by blast
qed

theorem redirector_tcp_safe_witness:
  "\<exists>r rd'. handle_tcp sample_link sample_env sample_redirector (sample_segment 6 2) [] = Some (r, rd') \<and> rd_inv rd'"
proof -
  have "tcp_input_ok sample_link sample_redirector (sample_segment 6 2) []"
    by (simp add: tcp_input_ok_def tcp_is_syn_def TcpFlags_SYN_def)
  then show ?thesis
    using redirector_tcp_safe [OF sample_link_ok sample_redirector_new] by (simp add: sample_env_def)
qed

lemma syn_uploads:
  assumes "link_ok lk" and "rd_inv rd" and "rd_streams rd (tcp_src_addr tcp, tcp_dst_addr tcp) = None"
    and "syn_ok (lk_pnet lk) tcp" and "list_all task_ok (ev_await ev)" and "connect_result ev rd (tcp_dst_addr tcp) = Ok ()"
  shows "\<exists>rd' fs fr reply. handle_tcp_syn lk ev rd tcp = Some (Ok (), rd') \<and> rd_inv rd' \<and>
    uploads st (first_number tcp) (tcp_src_addr tcp, tcp_dst_addr tcp) 0 rd' \<and>
    fw_sent (rd_tx rd') = fs @ [fr] \<and> bare_segment fr (tcp_dst_addr tcp) (tcp_src_addr tcp) reply \<and>
    tcp_is_syn reply \<and> tcp_is_ack reply \<and> tcp_acknowledgement (tcp_layer reply) = first_number tcp"
proof -
  let ?key = "(tcp_src_addr tcp, tcp_dst_addr tcp)"
  obtain rd' w x t where c: "handle_tcp_syn lk ev rd tcp = Some (Ok (), rd')" "at_conn ?key rd' w x t"
    and rel: "\<And>st. relays st (first_number tcp) w x t"
    and d: "sw_written w = []" "sw_stream_tx w" "rx_fin_sequence x = None"
      "\<exists>fs fr reply. fw_sent (rd_tx rd') = fs @ [fr] \<and> bare_segment fr (tcp_dst_addr tcp) (tcp_src_addr tcp) reply \<and>
      tcp_is_syn reply \<and> tcp_is_ack reply \<and> tcp_acknowledgement (tcp_layer reply) = first_number tcp"
    by (rule handle_tcp_syn_accept [OF assms]) (rule that; (assumption | blast))
  have "uploads st (first_number tcp) ?key 0 rd'" using uploads_intro [OF c(2) rel d(2,3)] d(1) by simp
  with c(1) at_conn_inv [OF c(2) rel] d(4) show ?thesis by blast
qed

lemma upload_segment:
  assumes "link_ok lk" and "rd_inv rd" and "uploads st s0 (tcp_src_addr tcp, tcp_dst_addr tcp) n rd"
    and "tcp_sequence (tcp_layer tcp) = seq_adv s0 q" and "segment_ok st s0 n q payload" and "q + length payload \<le> n + 65535"
    and "\<not> tcp_is_fin tcp" and "ev_write ev = None" and "list_all task_ok (ev_await ev)"
  shows "\<exists>rd' n'. handle_tcp_ack lk ev rd tcp payload = Some (Ok (), rd') \<and> rd_inv rd' \<and>
    uploads st s0 (tcp_src_addr tcp, tcp_dst_addr tcp) n' rd' \<and>
    map_option sw_written (rd_streams rd' (tcp_src_addr tcp, tcp_dst_addr tcp)) = Some (map st [0..<n']) \<and>
    map_option tx_acknowledgement (fw_states (rd_tx rd') (tcp_src_addr tcp, tcp_dst_addr tcp)) = Some (seq_adv s0 n') \<and>
    n \<le> n' \<and> (q \<le> n \<longrightarrow> q + length payload \<le> n')"
proof -
  let ?key = "(tcp_src_addr tcp, tcp_dst_addr tcp)"
  obtain w x t where c: "at_conn ?key rd w x t" "relays st s0 w x t" "sw_stream_tx w" "rx_fin_sequence x = None"
      "length (sw_written w) = n"
    by (rule uploads_at [OF assms(2,3)])
  have "65535 \<le> w_capacity (rx_cache x)" using relaysD(7) [OF c(2)] by simp
  with assms(6) c(5) have fit: "q + length payload \<le> length (sw_written w) + w_capacity (rx_cache x)" by linarith
  have seg: "segment_ok st s0 (length (sw_written w)) q payload" using assms(5) c(5) by simp
  obtain r rd' where h: "handle_tcp_ack lk ev rd tcp payload = Some (r, rd')" "rd_inv rd'"
      "r = Ok () \<and> advances st s0 ?key w x q (length payload) rd'"
    by (rule handle_tcp_ack_data [OF assms(1) c(1,2) assms(4) seg assms(9)]) (use c fit assms(7,8) that in blast)
  obtain w' x' t' where a: "at_conn ?key rd' w' x' t'" "relays st s0 w' x' t'" "sw_stream_tx w'" "rx_fin_sequence x' = None"
      "n \<le> length (sw_written w')" "q \<le> n \<Longrightarrow> q + length payload \<le> length (sw_written w')"
    using h(3) c fit unfolding advances_def by auto
  have up: "uploads st s0 ?key (length (sw_written w')) rd'" by (rule uploads_intro [OF a(1-4)])
  show ?thesis
    using h up uploads_written [OF up] a(5,6) by (intro exI [of _ rd'] exI [of _ "length (sw_written w')"]) simp
qed

text \<open>
  C3. The upload of a stream: a segment of the device's stream that fits the window is handled, what
  has been written to the SOCKS server is exactly the prefix of the stream up to the byte the
  window expects, and the number acknowledged to the device is that of this byte. No byte is
  dropped again, and a segment that starts at or before the expected byte is written completely.
  The tasks of all workers may run while the handler waits for the socket.
\<close>

theorem upload_step:
  assumes "link_ok lk" and "rd_inv rd" and "uploads st s0 (tcp_src_addr tcp, tcp_dst_addr tcp) n rd"
    and "tcp_sequence (tcp_layer tcp) = seq_adv s0 q" and "segment_ok st s0 n q payload" and "q + length payload \<le> n + 65535"
    and "\<not> tcp_is_fin tcp" and "ev_write ev = None" and "list_all task_ok (ev_await ev)"
  shows "\<exists>rd' n'. handle_tcp_ack lk ev rd tcp payload = Some (Ok (), rd') \<and> rd_inv rd' \<and>
    uploads st s0 (tcp_src_addr tcp, tcp_dst_addr tcp) n' rd' \<and>
    map_option sw_written (rd_streams rd' (tcp_src_addr tcp, tcp_dst_addr tcp)) = Some (map st [0..<n']) \<and>
    map_option tx_acknowledgement (fw_states (rd_tx rd') (tcp_src_addr tcp, tcp_dst_addr tcp)) = Some (seq_adv s0 n') \<and>
    n \<le> n' \<and> (q \<le> n \<longrightarrow> q + length payload \<le> n')"
  by (rule upload_segment [OF assms])

lemma first_number_sample: "first_number (sample_segment 6 fl) = 7"
  by (simp add: first_number_def checked_add_u32_def U32_MAX_def)

lemma sample_redirector_inv: "rd_inv sample_redirector"
  by (rule relaying_inv [OF sample_redirector_new sample_link_ok])

text \<open>
  C18. The handshake: on a SYN of a new connection that the SOCKS server accepts, the handler connects,
  answers with SYN and ACK for the next number, and leaves a connection from which every stream can
  be uploaded, of which nothing has been written yet.
\<close>

theorem syn_accepted:
  assumes "link_ok lk" and "rd_inv rd" and "rd_streams rd (tcp_src_addr tcp, tcp_dst_addr tcp) = None"
    and "syn_ok (lk_pnet lk) tcp" and "list_all task_ok (ev_await ev)" and "connect_result ev rd (tcp_dst_addr tcp) = Ok ()"
  shows "\<exists>rd' fs fr reply. handle_tcp_syn lk ev rd tcp = Some (Ok (), rd') \<and> rd_inv rd' \<and>
    uploads st (first_number tcp) (tcp_src_addr tcp, tcp_dst_addr tcp) 0 rd' \<and>
    fw_sent (rd_tx rd') = fs @ [fr] \<and> bare_segment fr (tcp_dst_addr tcp) (tcp_src_addr tcp) reply \<and>
    tcp_is_syn reply \<and> tcp_is_ack reply \<and> tcp_acknowledgement (tcp_layer reply) = first_number tcp"
  by (rule syn_uploads [OF assms])

theorem syn_accepted_witness:
  "\<exists>rd'. handle_tcp_syn sample_link sample_env sample_redirector (sample_segment 6 2) = Some (Ok (), rd') \<and>
    uploads sample_stream 7 (SocketAddrV4 1 80, SocketAddrV4 2 443) 0 rd'"
  using syn_accepted [OF sample_link_ok sample_redirector_inv sample_redirector_free, of "sample_segment 6 2" sample_env sample_stream]
  by (auto simp: sample_env_def first_number_sample)

theorem upload_step_witness:
  "\<exists>rd rd'. handle_tcp_syn sample_link sample_env sample_redirector (sample_segment 6 2) = Some (Ok (), rd) \<and>
    handle_tcp_ack sample_link sample_env rd (sample_segment 7 16) [1, 2, 3] = Some (Ok (), rd') \<and>
    (\<exists>n\<ge>3. map_option sw_written (rd_streams rd' (SocketAddrV4 1 80, SocketAddrV4 2 443)) = Some (map sample_stream [0..<n]))"
proof -
  let ?key = "(SocketAddrV4 1 80, SocketAddrV4 2 443)"
  have ts: "list_all task_ok (ev_await sample_env)" "ev_write sample_env = None" by (simp_all add: sample_env_def)
  obtain rd where c: "handle_tcp_syn sample_link sample_env sample_redirector (sample_segment 6 2) = Some (Ok (), rd)"
      "rd_inv rd" "uploads sample_stream 7 ?key 0 rd"
    using syn_uploads [OF sample_link_ok sample_redirector_inv sample_redirector_free, of "sample_segment 6 2" sample_env sample_stream] ts
    by (auto simp: first_number_sample sample_env_def)
  have seg: "segment_ok sample_stream 7 0 0 [1, 2, 3]"
    by (simp add: segment_ok_def sample_stream_def MAX_U32_WINDOW_SIZE_def upt_rec)
  show ?thesis
    using upload_step [OF sample_link_ok c(2), of sample_stream 7 "sample_segment 7 16" 0 0 "[1, 2, 3]" sample_env]
      c seg ts by (auto simp: tcp_is_fin_def TcpFlags_FIN_def numeral_3_eq_3)
qed

text \<open>
  When the SOCKS server refuses, the connection is removed again, but the RST that tells the device
  so acknowledges one number more than the SYN has used: the handler increments a number that already
  counts the SYN.
\<close>

theorem syn_refused:
  assumes "link_ok lk" and "rd_inv rd" and "rd_streams rd (tcp_src_addr tcp, tcp_dst_addr tcp) = None"
    and "syn_ok (lk_pnet lk) tcp" and "list_all task_ok (ev_await ev)" and "connect_result ev rd (tcp_dst_addr tcp) = Err e"
  shows "\<exists>rd' fs fr reply. handle_tcp_syn lk ev rd tcp = Some (Err e, rd') \<and> rd_inv rd' \<and>
    rd_streams rd' (tcp_src_addr tcp, tcp_dst_addr tcp) = None \<and> get_state (rd_tx rd') (tcp_dst_addr tcp) (tcp_src_addr tcp) = None \<and>
    fw_sent (rd_tx rd') = fs @ [fr] \<and> bare_segment fr (tcp_dst_addr tcp) (tcp_src_addr tcp) reply \<and> tcp_is_rst reply \<and>
    tcp_acknowledgement (tcp_layer reply) = seq_add (first_number tcp) 1 \<and>
    tcp_acknowledgement (tcp_layer reply) \<noteq> first_number tcp"
proof -
  have "seq_add (first_number tcp) 1 \<noteq> first_number tcp"
    by (auto simp: seq_add_def checked_add_u32_def U32_MAX_def split: option.split)
  moreover obtain rd' where "handle_tcp_syn lk ev rd tcp = Some (Err e, rd')" "rd_inv rd'"
      "rd_streams rd' (tcp_src_addr tcp, tcp_dst_addr tcp) = None"
      "get_state (rd_tx rd') (tcp_dst_addr tcp) (tcp_src_addr tcp) = None"
      "\<exists>fs fr reply. fw_sent (rd_tx rd') = fs @ [fr] \<and> bare_segment fr (tcp_dst_addr tcp) (tcp_src_addr tcp) reply \<and>
        tcp_is_rst reply \<and> tcp_acknowledgement (tcp_layer reply) = seq_add (first_number tcp) 1"
    by (rule handle_tcp_syn_refuse [OF assms])
  ultimately show ?thesis by metis
qed

theorem syn_refused_witness:
  "\<exists>rd' fs fr reply. handle_tcp_syn sample_link
      (sample_env\<lparr>ev_socks := sample_calls\<lparr>sc_tcp_connect := \<lambda>_. Err (IoError Other [])\<rparr>\<rparr>) sample_redirector
      (sample_segment 6 2) = Some (Err (IoError Other []), rd') \<and> fw_sent (rd_tx rd') = fs @ [fr] \<and>
    bare_segment fr (SocketAddrV4 2 443) (SocketAddrV4 1 80) reply \<and> tcp_acknowledgement (tcp_layer reply) = 8"
proof -
  have "seq_add 7 1 = 8" by (simp add: seq_add_def checked_add_u32_def U32_MAX_def)
  then show ?thesis
    using syn_refused [OF sample_link_ok sample_redirector_inv sample_redirector_free, of "sample_segment 6 2"
        "sample_env\<lparr>ev_socks := sample_calls\<lparr>sc_tcp_connect := \<lambda>_. Err (IoError Other [])\<rparr>\<rparr>" "IoError Other []"]
    by (auto simp: sample_env_def sample_calls_def socks_connect_def first_number_sample)
qed

end
