(* ===== verification/Runs.thy ===== *)
theory Runs
  imports Prelude
begin

text \<open>
  Sequences of events on a state, as both directions of the relay need them: each event may fail to
  return (\<open>None\<close>) and is only expected in some states. The contract \<open>event_safety\<close> holds of events that return and keep an
  invariant, \<open>event_system\<close> of those that also never undo what has been achieved; their clients get that of
  every sequence, and that a run comes to its end when events that achieve something keep happening.
\<close>

section \<open>Runs\<close>

fun run_events :: "('e \<Rightarrow> 's \<Rightarrow> 's option) \<Rightarrow> 'e list \<Rightarrow> 's \<Rightarrow> 's option" where
  "run_events step [] s = Some s"
| "run_events step (e # es) s = do { s \<leftarrow> step e s; run_events step es s }"

text \<open>Each event is expected in the state in which it happens.\<close>

fun events_expected :: "('e \<Rightarrow> 's \<Rightarrow> 's option) \<Rightarrow> ('e \<Rightarrow> 's \<Rightarrow> bool) \<Rightarrow> 'e list \<Rightarrow> 's \<Rightarrow> bool" where
  "events_expected step ok [] s = True"
| "events_expected step ok (e # es) s \<longleftrightarrow> ok e s \<and> (case step e s of Some s' \<Rightarrow> events_expected step ok es s' | None \<Rightarrow> True)"

text \<open>The state after the first \<open>i\<close> events of an endless sequence.\<close>

definition after_events :: "('e \<Rightarrow> 's \<Rightarrow> 's option) \<Rightarrow> (nat \<Rightarrow> 'e) \<Rightarrow> 's \<Rightarrow> nat \<Rightarrow> 's option" where
  "after_events step e s i = run_events step (map e [0..<i]) s"

text \<open>Until the end is reached, an event that achieves something happens again and again.\<close>

definition persistent :: "('e \<Rightarrow> 's \<Rightarrow> 's option) \<Rightarrow> ('s \<Rightarrow> bool) \<Rightarrow> ('s \<Rightarrow> 'e \<Rightarrow> bool) \<Rightarrow> (nat \<Rightarrow> 'e) \<Rightarrow> 's \<Rightarrow> bool" where
  "persistent step fin push e s \<longleftrightarrow>
     (\<forall>i. \<exists>j\<ge>i. case after_events step e s j of Some s' \<Rightarrow> fin s' \<or> push s' (e j) | None \<Rightarrow> True)"

lemma run_events_append: "run_events step (es @ es') s = Option.bind (run_events step es s) (run_events step es')"
proof (induction es arbitrary: s)
  case (Cons e es)
  then show ?case by (cases "step e s") simp_all
qed simp

lemma events_expected_append:
  "events_expected step ok (es @ es') s \<longleftrightarrow> events_expected step ok es s \<and>
     (case run_events step es s of Some s' \<Rightarrow> events_expected step ok es' s' | None \<Rightarrow> True)"
proof (induction es arbitrary: s)
  case (Cons e es)
  then show ?case by (cases "step e s") simp_all
qed simp

section \<open>The contract\<close>

text \<open>Events that return and keep an invariant, wherever they are expected.\<close>

locale event_safety =
  fixes step :: "'e \<Rightarrow> 's \<Rightarrow> 's option" and ok :: "'e \<Rightarrow> 's \<Rightarrow> bool" and inv :: "'s \<Rightarrow> bool"
  assumes step_safe: "inv s \<Longrightarrow> ok e s \<Longrightarrow> \<exists>s'. step e s = Some s' \<and> inv s'"
begin

lemma run_safe: "inv s \<Longrightarrow> events_expected step ok es s \<Longrightarrow> \<exists>s'. run_events step es s = Some s' \<and> inv s'"
proof (induction es arbitrary: s)
  case (Cons e es)
  then obtain s1 where "step e s = Some s1" "inv s1" using step_safe [of s e] by auto
  with Cons.IH [of s1] Cons.prems(2) show ?case by simp
qed simp

end

text \<open>Events that, beyond that, do not undo what has been achieved.\<close>

locale event_system = event_safety step ok inv
  for step :: "'e \<Rightarrow> 's \<Rightarrow> 's option" and ok :: "'e \<Rightarrow> 's \<Rightarrow> bool" and inv :: "'s \<Rightarrow> bool" +
  fixes rel :: "'s \<Rightarrow> 's \<Rightarrow> bool"
    and count :: "'s \<Rightarrow> nat" and push :: "'s \<Rightarrow> 'e \<Rightarrow> bool" and fin :: "'s \<Rightarrow> bool" and bound :: nat
  assumes step_rel: "inv s \<Longrightarrow> ok e s \<Longrightarrow> step e s = Some s' \<Longrightarrow> rel s s' \<and> count s \<le> count s' \<and>
      (push s e \<and> \<not> fin s \<longrightarrow> count s < count s')"
    and rel_refl: "rel s s"
    and rel_trans: "rel s s' \<Longrightarrow> rel s' s'' \<Longrightarrow> rel s s''"
    and fin_count: "inv s \<Longrightarrow> bound \<le> count s \<Longrightarrow> fin s"
begin

lemma run_ok:
  "inv s \<Longrightarrow> events_expected step ok es s \<Longrightarrow> \<exists>s'. run_events step es s = Some s' \<and> inv s' \<and> rel s s' \<and> count s \<le> count s'"
proof (induction es arbitrary: s)
  case (Cons e es)
  then obtain s1 where "step e s = Some s1" "inv s1" "rel s s1" "count s \<le> count s1" using step_safe [of s e] step_rel [of s e] by auto
  with Cons.IH [of s1] Cons.prems(2) show ?case by (auto intro: rel_trans)
qed (simp add: rel_refl)

lemma after_later:
  assumes "\<And>i. events_expected step ok (map e [0..<i]) s" and "after_events step e s i = Some s1" and "i \<le> j"
  shows "after_events step e s j = run_events step (map e [i..<j]) s1" and "events_expected step ok (map e [i..<j]) s1"
proof -
  have split: "map e [0..<j] = map e [0..<i] @ map e [i..<j]"
    using assms(3) upt_add_eq_append [of 0 i "j - i"] by (simp flip: map_append)
  show "after_events step e s j = run_events step (map e [i..<j]) s1"
    using assms(2) unfolding after_events_def split run_events_append by simp
  show "events_expected step ok (map e [i..<j]) s1"
    using assms(1) [of j] assms(2) unfolding after_events_def split events_expected_append by simp
qed

lemma after_ok:
  assumes "inv s" and "\<And>i. events_expected step ok (map e [0..<i]) s"
  shows "\<exists>s'. after_events step e s i = Some s' \<and> inv s' \<and> rel s s'"
  using run_ok [OF assms(1) assms(2) [of i]] unfolding after_events_def by blast

lemma eventually_count:
  assumes inv: "inv s" and ok: "\<And>i. events_expected step ok (map e [0..<i]) s" and per: "persistent step fin push e s"
  shows "\<exists>i s'. after_events step e s i = Some s' \<and> inv s' \<and> (fin s' \<or> m \<le> count s')"
proof (induction m)
  case 0
  show ?case using inv by (intro exI [of _ 0] exI [of _ s]) (simp add: after_events_def)
next
  case (Suc m)
  then obtain i s1 where i: "after_events step e s i = Some s1" "inv s1" "fin s1 \<or> m \<le> count s1" by blast
  obtain j where j: "i \<le> j" "case after_events step e s j of Some s' \<Rightarrow> fin s' \<or> push s' (e j) | None \<Rightarrow> True"
    using per unfolding persistent_def by blast
  obtain s2 where s2: "after_events step e s j = Some s2" "inv s2" "count s1 \<le> count s2"
    using run_ok [OF i(2) after_later(2) [OF ok i(1) j(1)]] after_later(1) [OF ok i(1) j(1)] by auto
  have expected: "ok (e j) s2" using after_later(2) [OF ok s2(1), of "Suc j"] by simp
  obtain s3 where s3: "step (e j) s2 = Some s3" "inv s3" "push s2 (e j) \<and> \<not> fin s2 \<longrightarrow> count s2 < count s3"
    using step_safe [OF s2(2) expected] step_rel [OF s2(2) expected] by blast
  have after3: "after_events step e s (Suc j) = Some s3" using after_later(1) [OF ok s2(1), of "Suc j"] s3(1) by simp
  show ?case
  proof (cases "fin s1 \<or> fin s2")
    case True
    with i s2 show ?thesis by blast
  next
    case False
    with j(2) s2(1) s3(3) i(3) s2(3) have "Suc m \<le> count s3" by simp
    with after3 s3(2) show ?thesis by blast
  qed
qed

lemma eventually_fin:
  assumes "inv s" and "\<And>i. events_expected step ok (map e [0..<i]) s" and "persistent step fin push e s"
  shows "\<exists>i s'. after_events step e s i = Some s' \<and> inv s' \<and> rel s s' \<and> fin s'"
proof -
  obtain i s' where "after_events step e s i = Some s'" "inv s'" "fin s' \<or> bound \<le> count s'"
    using eventually_count [OF assms] by blast
  with after_ok [OF assms(1,2), of i] fin_count show ?thesis by auto
qed

end

end
