(* ===== verification/Progress.thy ===== *)
theory Progress
  imports Uploads Runs
begin

text \<open>
  The upload of a whole stream: segments with data of one connection, in any order and with the
  tasks of the workers running between them, and how many of them it takes until all of the stream has
  been written to the SOCKS server.
\<close>

declare split_paired_All [simp del] split_paired_Ex [simp del]

section \<open>Runs of a device\<close>

text \<open>
  An event: a segment with the bytes of the stream from \<open>q\<close> up to \<open>q + k\<close>, or a step of a task.
\<close>

datatype device_event = Segment env tcp nat nat | Step instant task_step

fun device_step :: "link \<Rightarrow> (nat \<Rightarrow> u8) \<Rightarrow> device_event \<Rightarrow> 'l redirector \<Rightarrow> 'l redirector option" where
  "device_step lk st (Segment ev tcp q k) rd = map_option snd (handle_tcp lk ev rd tcp (map st [q..<q + k]))"
| "device_step lk st (Step now t) rd = task_run lk now t rd"

text \<open>How much of the stream has been written.\<close>

definition written :: "conn_key \<Rightarrow> 'l redirector \<Rightarrow> nat" where
  "written key rd = (case rd_streams rd key of Some w \<Rightarrow> length (sw_written w) | None \<Rightarrow> 0)"

text \<open>
  A segment a device may send while \<open>n\<close> bytes of its stream of \<open>N\<close> bytes are acknowledged: an ACK of
  the connection with at least one byte, not older than that and within the window it has been offered,
  on a socket that takes the bytes.
\<close>

definition device_segment :: "u32 \<Rightarrow> conn_key \<Rightarrow> nat \<Rightarrow> nat \<Rightarrow> env \<Rightarrow> tcp \<Rightarrow> nat \<Rightarrow> nat \<Rightarrow> bool" where
  "device_segment s0 key N n ev tcp q k \<longleftrightarrow>
     (tcp_src_addr tcp, tcp_dst_addr tcp) = key \<and> tcp_is_ack tcp \<and> \<not> tcp_is_rst tcp \<and> \<not> tcp_is_fin tcp \<and>
     tcp_sequence (tcp_layer tcp) = seq_adv s0 q \<and> 0 < k \<and> n \<le> q + k \<and> q + k \<le> N \<and> q + k \<le> n + 65535 \<and>
     (q < n \<longrightarrow> unat s0 + q + k \<le> 4294967295) \<and> ev_write ev = None \<and> list_all task_ok (ev_await ev)"

fun device_event_ok :: "u32 \<Rightarrow> conn_key \<Rightarrow> nat \<Rightarrow> device_event \<Rightarrow> 'l redirector \<Rightarrow> bool" where
  "device_event_ok s0 key N (Segment ev tcp q k) rd \<longleftrightarrow> device_segment s0 key N (written key rd) ev tcp q k"
| "device_event_ok s0 key N (Step now t) rd \<longleftrightarrow> task_ok t"

text \<open>A segment that starts at the byte the connection expects.\<close>

definition at_edge :: "conn_key \<Rightarrow> 'l redirector \<Rightarrow> device_event \<Rightarrow> bool" where
  "at_edge key rd e \<longleftrightarrow> (case e of Segment ev tcp q k \<Rightarrow> q = written key rd | Step _ _ \<Rightarrow> False)"

section \<open>Steps\<close>

lemma uploads_count: "uploads st s0 key n rd \<Longrightarrow> written key rd = n"
  by (auto simp: uploads_def written_def)

lemma uploads_frame:
  assumes "uploads st s0 key n rd" and frame: "rd_frame rd rd'"
  shows "uploads st s0 key n rd'"
proof -
  obtain w x t where c: "rd_streams rd key = Some w" "rd_states rd key = Some x" "fw_states (rd_tx rd) key = Some t"
      "sw_stream_tx w" "rx_fin_sequence x = None" "length (sw_written w) = n" "relays st s0 w x t"
    using assms(1) unfolding uploads_def by blast
  obtain w' where w': "rd_streams rd' key = Some w'" "stream_keeps w w'" by (rule rd_frame_stream [OF frame c(1)])
  have "rel_option tx_keeps (fw_states (rd_tx rd) key) (fw_states (rd_tx rd') key)"
    using rd_frame_fields(4) [OF frame] unfolding fw_frame_def by blast
  with c(3) obtain t' where t': "fw_states (rd_tx rd') key = Some t'" "tx_keeps t t'" by (auto elim: option.rel_cases)
  from relays_keeps [OF c(7) w'(2) t'(2)] w' t' c rd_frame_fields(1) [OF frame] show ?thesis
    unfolding uploads_def stream_keeps_def by auto
qed

lemma device_segment_step:
  assumes lk: "link_ok lk" and inv: "rd_inv rd" and up: "uploads st s0 key n rd"
    and seg: "device_segment s0 key N n ev tcp q k" and N: "N + MAX_U32_WINDOW_SIZE < 4294967295"
  obtains r rd' n' where "handle_tcp lk ev rd tcp (map st [q..<q + k]) = Some (r, rd')" and "rd_inv rd'"
    and "uploads st s0 key n' rd'" and "n \<le> n'" and "q \<le> n \<longrightarrow> q + k \<le> n'" and "q = n \<longrightarrow> n < n'"
proof -
  have "segment_ok st s0 n q (map st [q..<q + k])"
    using seg N by (auto simp: device_segment_def segment_ok_def MAX_U32_WINDOW_SIZE_def)
  then have "\<exists>rd' n'. handle_tcp_ack lk ev rd tcp (map st [q..<q + k]) = Some (Ok (), rd') \<and> rd_inv rd' \<and>
      uploads st s0 key n' rd' \<and> n \<le> n' \<and> (q \<le> n \<longrightarrow> q + k \<le> n')"
    using upload_segment [OF lk inv, of st s0 tcp n q "map st [q..<q + k]" ev] seg up by (auto simp: device_segment_def)
  with seg show ?thesis using that by (auto simp: handle_tcp_def device_segment_def)
qed

text \<open>A redirector during the upload of \<open>N\<close> bytes.\<close>

definition in_upload :: "link \<Rightarrow> (nat \<Rightarrow> u8) \<Rightarrow> u32 \<Rightarrow> conn_key \<Rightarrow> nat \<Rightarrow> 'l redirector \<Rightarrow> bool" where
  "in_upload lk st s0 key N rd \<longleftrightarrow> link_ok lk \<and> N + MAX_U32_WINDOW_SIZE < 4294967295 \<and> rd_inv rd \<and> uploads st s0 key (written key rd) rd"

lemma in_uploadI:
  "link_ok lk \<Longrightarrow> N + MAX_U32_WINDOW_SIZE < 4294967295 \<Longrightarrow> rd_inv rd \<Longrightarrow> uploads st s0 key n rd \<Longrightarrow>
    in_upload lk st s0 key N rd \<and> written key rd = n"
  using uploads_count [of st s0 key n rd] by (simp add: in_upload_def)

lemma device_step_ok:
  assumes "in_upload lk st s0 key N rd" and "device_event_ok s0 key N e rd"
  shows "\<exists>rd'. device_step lk st e rd = Some rd' \<and> in_upload lk st s0 key N rd' \<and> written key rd \<le> written key rd' \<and>
    (at_edge key rd e \<longrightarrow> written key rd < written key rd')"
proof -
  have lk: "link_ok lk" and N: "N + MAX_U32_WINDOW_SIZE < 4294967295" and inv: "rd_inv rd" and up: "uploads st s0 key (written key rd) rd"
    using assms(1) by (simp_all add: in_upload_def)
  show ?thesis
  proof (cases e)
    case (Segment ev tcp q k)
    then have "device_segment s0 key N (written key rd) ev tcp q k" using assms(2) by simp
    then obtain r rd' n' where 1: "handle_tcp lk ev rd tcp (map st [q..<q + k]) = Some (r, rd')" "rd_inv rd'" "uploads st s0 key n' rd'"
        "written key rd \<le> n'" "q = written key rd \<longrightarrow> written key rd < n'"
      by (rule device_segment_step [OF lk inv up _ N])
    with in_uploadI [OF lk N 1(2,3)] Segment show ?thesis by (auto simp: at_edge_def)
  next
    case (Step now t)
    then have t: "task_ok t" and safe: "rd_safe rd" using assms(2) inv by (simp_all add: rd_inv_def)
    obtain rd' where rd': "task_run lk now t rd = Some rd'" "rd_safe rd'" "rd_frame rd rd'" by (rule task_run_ok [OF lk safe t])
    with in_uploadI [OF lk N rd_inv_frame [OF inv rd'(2,3)] uploads_frame [OF up rd'(3)]] Step show ?thesis
      by (auto simp: at_edge_def)
  qed
qed

interpretation upload: event_system "device_step lk st" "device_event_ok s0 key N" "in_upload lk st s0 key N" "\<lambda>_ _. True"
    "written key" "at_edge key" "\<lambda>rd. N \<le> written key rd" N for lk st s0 key N
proof unfold_locales
  fix s s' and e
  assume a: "in_upload lk st s0 key N s" "device_event_ok s0 key N e s"
  then show "\<exists>s'. device_step lk st e s = Some s' \<and> in_upload lk st s0 key N s'" using device_step_ok by blast
  show "device_step lk st e s = Some s' \<Longrightarrow> True \<and> written key s \<le> written key s' \<and>
      (at_edge key s e \<and> \<not> N \<le> written key s \<longrightarrow> written key s < written key s')"
    using device_step_ok [OF a] by auto
qed simp_all

section \<open>Properties\<close>

text \<open>
  C5. The upload makes progress: let a device send segments with data of its stream on one connection, in
  any order, each within the window offered and not ending before the byte expected, on a socket that takes what is written, with nothing
  but steps of the tasks of the workers between them and while the handler waits, and let it
  again and again send a segment at the byte that is expected as long as not all is acknowledged. Then every event is
  handled, and after finitely many of them all of the stream has been written to the SOCKS server, in
  order, and the device has been told so. Segments without data, stale ones and those of other connections are not part of these runs.
\<close>

theorem upload_completes:
  assumes "link_ok lk" and "rd_inv rd" and "uploads st s0 key 0 rd" and "N + MAX_U32_WINDOW_SIZE < 4294967295"
    and "\<And>i. events_expected (device_step lk st) (device_event_ok s0 key N) (map e [0..<i]) rd"
    and "persistent (device_step lk st) (\<lambda>rd. N \<le> written key rd) (at_edge key) e rd"
  shows "\<exists>i rd' n. after_events (device_step lk st) e rd i = Some rd' \<and> rd_inv rd' \<and> N \<le> n \<and>
    map_option sw_written (rd_streams rd' key) = Some (map st [0..<n]) \<and>
    map_option tx_acknowledgement (fw_states (rd_tx rd') key) = Some (seq_adv s0 n)"
proof -
  have "in_upload lk st s0 key N rd" using in_uploadI [OF assms(1,4,2,3)] by simp
  from upload.eventually_fin [OF this assms(5,6)] obtain i rd' where
    i: "after_events (device_step lk st) e rd i = Some rd'" "in_upload lk st s0 key N rd'" "N \<le> written key rd'" by blast
  then have "rd_inv rd'" "uploads st s0 key (written key rd') rd'" by (simp_all add: in_upload_def)
  with i uploads_written [of st s0 key "written key rd'" rd'] show ?thesis
    by (intro exI [of _ i] exI [of _ rd'] exI [of _ "written key rd'"]) simp
qed

text \<open>The sample device sends its three bytes at once; then only the timer of the connection runs.\<close>

definition sample_events :: "nat \<Rightarrow> device_event" where
  "sample_events i = (if i = 0 then Segment sample_env (sample_segment 7 16) 0 3
     else Step 5 (Ticker (SocketAddrV4 1 80, SocketAddrV4 2 443)))"

lemma expected_steps:
  "task_ok t \<Longrightarrow> events_expected (device_step lk st) (device_event_ok s0 key N) (map (\<lambda>_. Step now t) xs) rd"
  by (induction xs arbitrary: rd) (auto split: option.split)

lemma sample_events_split:
  "map sample_events [0..<Suc i] =
     Segment sample_env (sample_segment 7 16) 0 3 # map (\<lambda>_. Step 5 (Ticker (SocketAddrV4 1 80, SocketAddrV4 2 443))) [1..<Suc i]"
  by (simp add: sample_events_def upt_conv_Cons del: upt_Suc)

lemma sample_device_segment:
  "device_segment 7 (SocketAddrV4 1 80, SocketAddrV4 2 443) 3 0 sample_env (sample_segment 7 16) 0 3"
  by (simp add: device_segment_def sample_env_def tcp_is_ack_def tcp_is_rst_def tcp_is_fin_def TcpFlags_ACK_def
      TcpFlags_RST_def TcpFlags_FIN_def)

lemma sample_expected:
  assumes "uploads st 7 (SocketAddrV4 1 80, SocketAddrV4 2 443) 0 rd"
  shows "events_expected (device_step lk st) (device_event_ok 7 (SocketAddrV4 1 80, SocketAddrV4 2 443) 3) (map sample_events [0..<i]) rd"
proof (cases i)
  case (Suc j)
  show ?thesis unfolding Suc sample_events_split using uploads_count [OF assms] sample_device_segment
    by (auto simp: task_ok_def expected_steps simp del: upt_Suc split: option.split)
qed simp

lemma sample_persistent:
  assumes "rd_inv rd" and up: "uploads st 7 (SocketAddrV4 1 80, SocketAddrV4 2 443) 0 rd"
  shows "persistent (device_step sample_link st) (\<lambda>rd. 3 \<le> written (SocketAddrV4 1 80, SocketAddrV4 2 443) rd)
    (at_edge (SocketAddrV4 1 80, SocketAddrV4 2 443)) sample_events rd"
proof -
  let ?key = "(SocketAddrV4 1 80, SocketAddrV4 2 443)" and ?ticks = "\<lambda>i. map (\<lambda>_. Step 5 (Ticker (SocketAddrV4 1 80, SocketAddrV4 2 443))) [1..<Suc i]"
  have N: "3 + MAX_U32_WINDOW_SIZE < 4294967295" by (simp add: MAX_U32_WINDOW_SIZE_def)
  have later: "\<exists>rd'. after_events (device_step sample_link st) sample_events rd (Suc i) = Some rd' \<and> 3 \<le> written ?key rd'" for i
  proof -
    obtain r rd1 n1 where 1: "handle_tcp sample_link sample_env rd (sample_segment 7 16) (map st [0..<0 + 3]) = Some (r, rd1)"
        "rd_inv rd1" "uploads st 7 ?key n1 rd1" "3 \<le> n1"
      by (rule device_segment_step [OF sample_link_ok assms sample_device_segment N]) auto
    have up1: "in_upload sample_link st 7 ?key 3 rd1" "written ?key rd1 = n1" using in_uploadI [OF sample_link_ok N 1(2,3)] by simp_all
    have "events_expected (device_step sample_link st) (device_event_ok 7 ?key 3) (?ticks i) rd1"
      by (rule expected_steps) (simp add: task_ok_def)
    from upload.run_ok [OF up1(1) this] obtain rd2 where
      "run_events (device_step sample_link st) (?ticks i) rd1 = Some rd2" "written ?key rd1 \<le> written ?key rd2" by blast
    with 1 up1(2) show ?thesis unfolding after_events_def sample_events_split
      by (intro exI [of _ rd2]) (simp del: upt_Suc)
  qed
  have "at_edge ?key rd (sample_events 0)" using uploads_count [OF up] by (simp add: at_edge_def sample_events_def)
  then have "case after_events (device_step sample_link st) sample_events rd j of
      Some rd' \<Rightarrow> 3 \<le> written ?key rd' \<or> at_edge ?key rd' (sample_events j) | None \<Rightarrow> True" for j
    using later [of "j - 1"] by (cases j) (auto simp: after_events_def simp del: upt_Suc)
  then show ?thesis unfolding persistent_def by blast
qed

theorem upload_completes_witness:
  "\<exists>rd i rd' n. handle_tcp_syn sample_link sample_env sample_redirector (sample_segment 6 2) = Some (Ok (), rd) \<and>
    after_events (device_step sample_link sample_stream) sample_events rd i = Some rd' \<and> 3 \<le> n \<and>
    map_option sw_written (rd_streams rd' (SocketAddrV4 1 80, SocketAddrV4 2 443)) = Some (map sample_stream [0..<n])"
proof -
  obtain rd where c: "handle_tcp_syn sample_link sample_env sample_redirector (sample_segment 6 2) = Some (Ok (), rd)"
      "rd_inv rd" "uploads sample_stream 7 (SocketAddrV4 1 80, SocketAddrV4 2 443) 0 rd"
    using syn_uploads [OF sample_link_ok sample_redirector_inv sample_redirector_free, of "sample_segment 6 2" sample_env sample_stream]
    by (auto simp: first_number_sample sample_env_def)
  have "3 + MAX_U32_WINDOW_SIZE < 4294967295" by (simp add: MAX_U32_WINDOW_SIZE_def)
  from upload_completes [OF sample_link_ok c(2,3) this sample_expected [OF c(3)] sample_persistent [OF c(2,3)]] c(1)
  show ?thesis by blast
qed

end
