(* ===== verification/Downloads.thy ===== *)
theory Downloads
  imports Uploads
begin

text \<open>
  The other direction of the relay: what the SOCKS server sends is handed to the \<open>Forwarder\<close>, cut into
  segments, cached until the device acknowledges it, and sent again when segments are lost.
  \<open>fetched st s0 a n x\<close> says of the send state \<open>x\<close> of a connection that the first \<open>n\<close> bytes of the
  stream \<open>st\<close>, which is numbered from \<open>s0\<close> on, have been handed over and the first \<open>a\<close> of them acknowledged.
\<close>

declare split_paired_All [simp del] split_paired_Ex [simp del]

section \<open>Segments of a stream\<close>

text \<open>A segment to the device with the bytes of the stream from \<open>q\<close> on, and a stream that has been sent up to \<open>e\<close>.\<close>

definition stream_segment :: "socket_addr_v4 \<Rightarrow> socket_addr_v4 \<Rightarrow> u32 \<Rightarrow> nat \<Rightarrow> sent \<Rightarrow> bool" where
  "stream_segment dst src s0 q s \<longleftrightarrow> (\<exists>t. sent_tcp s = Some t \<and> tcp_sequence (tcp_layer t) = seq_adv s0 q \<and>
     tcp_src_ip t = ip dst \<and> tcp_dst_ip t = ip src \<and> tcp_source (tcp_layer t) = port dst \<and> tcp_destination (tcp_layer t) = port src)"

definition carries_stream :: "(nat \<Rightarrow> u8) \<Rightarrow> u32 \<Rightarrow> nat \<Rightarrow> socket_addr_v4 \<Rightarrow> socket_addr_v4 \<Rightarrow> sent \<Rightarrow> bool" where
  "carries_stream st s0 n dst src s \<longleftrightarrow> (\<exists>q. stream_segment dst src s0 q s \<and> q + length (sent_payload s) \<le> n \<and>
     sent_payload s = map st [q..<q + length (sent_payload s)])"

definition sent_up_to :: "u32 \<Rightarrow> nat \<Rightarrow> socket_addr_v4 \<Rightarrow> socket_addr_v4 \<Rightarrow> sent list \<Rightarrow> bool" where
  "sent_up_to s0 e dst src ss \<longleftrightarrow> (\<forall>i<e. \<exists>s\<in>set ss. \<exists>q. stream_segment dst src s0 q s \<and> q \<le> i \<and> i < q + length (sent_payload s))"

lemma carries_mono: "carries_stream st s0 n dst src s \<Longrightarrow> n \<le> n' \<Longrightarrow> carries_stream st s0 n' dst src s"
  unfolding carries_stream_def by (meson le_trans)

lemma sent_up_to_append:
  "sent_up_to s0 e dst src ss \<Longrightarrow> sent_up_to s0 e dst src (ss @ ss')"
  unfolding sent_up_to_def by (metis Un_iff set_append)

lemma chunks_index: "0 < m \<Longrightarrow> j < length xs \<Longrightarrow> j div m < length (chunks m xs)"
proof (induction m xs arbitrary: j rule: chunks.induct)
  case (1 m xs)
  then have ne: "xs \<noteq> []" by auto
  show ?case
  proof (cases "j < m")
    case False
    then have "j - m < length (drop m xs)" using 1(3) by simp
    with 1 ne have "(j - m) div m < length (chunks m (drop m xs))" by blast
    with False 1(2) ne show ?thesis by (simp add: chunks_step le_div_geq)
  qed (use 1 ne in \<open>simp add: chunks_step\<close>)
qed

text \<open>The segments of a piece of the stream.\<close>

lemma segment_nth:
  assumes seg: "segments dst src ack is_fin (seq_adv s0 p) mss 0 (map st [p..<p + k]) ss" and mss: "0 < mss"
    and less: "p + k < 4294967295" and i_ss: "i < length ss"
  shows "i * mss < k" and "sent_payload (ss ! i) = map st [p + i * mss..<p + min k (i * mss + mss)]"
    and "stream_segment dst src s0 (p + i * mss) (ss ! i)"
proof -
  let ?p = "map st [p..<p + k]"
  have eq: "map sent_payload ss = chunks mss ?p" using seg by (simp add: segments_def)
  then have i: "i < length (chunks mss ?p)" using i_ss by (metis length_map)
  have pay: "sent_payload (ss ! i) = take mss (drop (i * mss) ?p)" using chunks_nth [OF i] eq i_ss by (metis nth_map)
  have "sent_payload (ss ! i) \<in> set (chunks mss ?p)" using eq i i_ss by (metis nth_map nth_mem)
  then have "0 < length (sent_payload (ss ! i))" using chunks_bounded by blast
  then show lt: "i * mss < k" using pay by simp
  then show "sent_payload (ss ! i) = map st [p + i * mss..<p + min k (i * mss + mss)]"
    unfolding pay by (simp add: drop_map take_map min_def add.assoc)
  have "segment_header dst src ack is_fin (seq_adv (seq_adv s0 p) ((0 + i) * mss)) (ss ! i)"
    using seg i_ss by (simp add: segments_def)
  moreover have "seq_adv (seq_adv s0 p) (i * mss) = seq_adv s0 (p + i * mss)" using lt less by (intro seq.adv_adv) simp
  ultimately show "stream_segment dst src s0 (p + i * mss) (ss ! i)" by (auto simp: segment_header_def stream_segment_def)
qed

lemma segments_carry:
  assumes seg: "segments dst src ack is_fin (seq_adv s0 p) mss 0 (map st [p..<p + k]) ss" and mss: "0 < mss"
    and less: "p + k < 4294967295" and n: "p + k \<le> n" and "s \<in> set ss"
  shows "carries_stream st s0 n dst src s"
proof -
  obtain i where i: "i < length ss" "s = ss ! i" using assms(5) by (auto simp: in_set_conv_nth)
  note s = segment_nth [OF seg mss less i(1), folded i(2)]
  have "p + i * mss + (min k (i * mss + mss) - i * mss) = p + min k (i * mss + mss)" using s(1) by simp
  with s n show ?thesis unfolding carries_stream_def by (intro exI [of _ "p + i * mss"]) auto
qed

lemma segments_sent:
  assumes seg: "segments dst src ack is_fin (seq_adv s0 p) mss 0 (map st [p..<p + k]) ss" and mss: "0 < mss"
    and less: "p + k < 4294967295" and old: "sent_up_to s0 p dst src ss'"
  shows "sent_up_to s0 (p + k) dst src (ss' @ ss)"
  unfolding sent_up_to_def
proof (intro allI impI)
  fix j
  assume j: "j < p + k"
  show "\<exists>s\<in>set (ss' @ ss). \<exists>q. stream_segment dst src s0 q s \<and> q \<le> j \<and> j < q + length (sent_payload s)"
  proof (cases "j < p")
    case False
    define i where "i = (j - p) div mss"
    have "i < length (chunks mss (map st [p..<p + k]))" unfolding i_def using False j mss by (intro chunks_index) auto
    then have i: "i < length ss" using seg by (metis length_map segments_def)
    have "i * mss \<le> j - p" "j - p < i * mss + mss"
      unfolding i_def using mss dividend_less_div_times [of mss "j - p"] by (simp_all add: add.commute)
    then have "p + i * mss \<le> j" "j < p + i * mss + length (sent_payload (ss ! i))"
      using segment_nth(2) [OF seg mss less i] False j by auto
    with segment_nth(3) [OF seg mss less i] i show ?thesis
      by (intro bexI [of _ "ss ! i"] exI [of _ "p + i * mss"]) auto
  qed (use sent_up_to_append [OF old, of ss] in \<open>simp add: sent_up_to_def\<close>)
qed

section \<open>The send state\<close>

lemma map_upt_append: "a \<le> b \<Longrightarrow> b \<le> c \<Longrightarrow> map f [a..<b] @ map f [b..<c] = map f [a..<c]"
  using upt_add_eq_append [of a b "c - b"] by (simp flip: map_append)

definition fetched :: "(nat \<Rightarrow> u8) \<Rightarrow> u32 \<Rightarrow> nat \<Rightarrow> nat \<Rightarrow> tcp_tx_state \<Rightarrow> bool" where
  "fetched st s0 a n x \<longleftrightarrow> a \<le> n \<and> tx_bytes x = map st [a..<n] \<and> q_sequence (tx_cache x) = seq_adv s0 a \<and>
     tx_sequence x = seq_adv s0 (a + q_size (tx_cache x)) \<and> tx_cache_syn x = None \<and> tx_cache_fin x = None \<and> \<not> tx_queue_fin x"

lemma fetched_parts:
  assumes "fetched st s0 a n x"
  shows "a + q_size (tx_cache x) + length (tx_queue x) = n"
    and "queue_bytes (tx_cache x) = map st [a..<a + q_size (tx_cache x)]"
    and "tx_queue x = map st [a + q_size (tx_cache x)..<n]"
proof -
  have size: "length (queue_bytes (tx_cache x)) = q_size (tx_cache x)" by (simp add: queue_bytes_def)
  have eq: "queue_bytes (tx_cache x) @ tx_queue x = map st [a..<n]" and le: "a \<le> n"
    using assms by (simp_all add: fetched_def tx_bytes_def)
  from arg_cong [OF eq, of length] le size show n: "a + q_size (tx_cache x) + length (tx_queue x) = n" by simp
  from arg_cong [OF eq, of "take (q_size (tx_cache x))"] n size
  show "queue_bytes (tx_cache x) = map st [a..<a + q_size (tx_cache x)]" by (simp add: take_map)
  from arg_cong [OF eq, of "drop (q_size (tx_cache x))"] n size
  show "tx_queue x = map st [a + q_size (tx_cache x)..<n]" by (simp add: drop_map)
qed

lemma fetchedI:
  assumes "queue_bytes (tx_cache x) = map st [a..<e]" and "tx_queue x = map st [e..<n]" and "a \<le> e" and "e \<le> n"
    and "q_sequence (tx_cache x) = seq_adv s0 a" and "tx_sequence x = seq_adv s0 e"
    and "tx_cache_syn x = None" and "tx_cache_fin x = None" and "\<not> tx_queue_fin x"
  shows "fetched st s0 a n x"
proof -
  have "q_size (tx_cache x) = e - a" using arg_cong [OF assms(1), of length] by (simp add: queue_bytes_def)
  moreover have "map st [a..<e] @ map st [e..<n] = map st [a..<n]" by (rule map_upt_append [OF assms(3,4)])
  ultimately show ?thesis using assms by (simp add: fetched_def tx_bytes_def)
qed

text \<open>What no operation of the download changes.\<close>

lemma fetched_cong:
  "fetched st s0 a n x \<Longrightarrow> queue_bytes (tx_cache x') = queue_bytes (tx_cache x) \<Longrightarrow> q_sequence (tx_cache x') = q_sequence (tx_cache x) \<Longrightarrow>
    tx_queue x' = tx_queue x \<Longrightarrow> tx_sequence x' = tx_sequence x \<Longrightarrow> tx_cache_syn x' = tx_cache_syn x \<Longrightarrow>
    tx_cache_fin x' = tx_cache_fin x \<Longrightarrow> tx_queue_fin x' = tx_queue_fin x \<Longrightarrow> fetched st s0 a n x'"
proof -
  have "length (queue_bytes q) = q_size q" for q by (simp add: queue_bytes_def)
  then show "fetched st s0 a n x \<Longrightarrow> queue_bytes (tx_cache x') = queue_bytes (tx_cache x) \<Longrightarrow> q_sequence (tx_cache x') = q_sequence (tx_cache x) \<Longrightarrow>
    tx_queue x' = tx_queue x \<Longrightarrow> tx_sequence x' = tx_sequence x \<Longrightarrow> tx_cache_syn x' = tx_cache_syn x \<Longrightarrow>
    tx_cache_fin x' = tx_cache_fin x \<Longrightarrow> tx_queue_fin x' = tx_queue_fin x \<Longrightarrow> fetched st s0 a n x'"
    unfolding fetched_def tx_bytes_def by metis
qed

lemma fetched_append_queue: "fetched st s0 a n x \<Longrightarrow> fetched st s0 a (n + k) (append_queue x (map st [n..<n + k]))"
  using map_upt_append [of a n "n + k" st] by (simp add: fetched_def append_queue_def tx_bytes_def flip: append_assoc)

lemma acknowledge_sequence:
  assumes "tx_cache_syn x = None" and "tx_cache_fin x = None" and "acknowledge x s now = Some x'"
  shows "tx_sequence x' = tx_sequence x" and "tx_cache_syn x' = None"
  using assms by (auto simp: acknowledge_def acknowledge_syn_def acknowledge_fin_def update_rto_def set_rto_def Let_def
      split: bind_splits option.splits if_splits)

text \<open>An acknowledgement of a byte that has been sent, or one that is older than the last.\<close>

lemma acknowledge_fetched:
  assumes ok: "tx_ok x" and f: "fetched st s0 a n x" and m: "m \<le> a + q_size (tx_cache x)"
    and size: "q_size (tx_cache x) \<le> MAX_U32_WINDOW_SIZE" and n: "n + MAX_U32_WINDOW_SIZE < 4294967295"
  obtains x' where "acknowledge x (seq_adv s0 m) now = Some x'" and "tx_ok x'" and "fetched st s0 (max a m) n x'"
    and "max a m + q_size (tx_cache x') = a + q_size (tx_cache x)" and "tx_queue x' = tx_queue x"
proof -
  let ?e = "a + q_size (tx_cache x)"
  note p = fetched_parts [OF f]
  have none: "tx_cache_syn x = None" "tx_cache_fin x = None" using f by (simp_all add: fetched_def)
  obtain x' where x': "acknowledge x (seq_adv s0 m) now = Some x'" "tx_ok x'"
      "queue_bytes (tx_cache x') = drop (acked x (seq_adv s0 m)) (queue_bytes (tx_cache x))" "tx_queue x' = tx_queue x"
      "tx_queue_fin x' = tx_queue_fin x" "tx_cache_fin x' = None"
      "q_sequence (tx_cache x') = (if seq_dist (seq_adv s0 m) (q_sequence (tx_cache x)) \<le> MAX_U32_WINDOW_SIZE
        then seq_adv s0 m else q_sequence (tx_cache x))"
    by (rule acknowledge_ok [OF ok, of "seq_adv s0 m" now]) (rule that; simp add: none)
  have dist: "seq_dist (seq_adv s0 m) (seq_adv s0 a) = (if a \<le> m then m - a else 4294967295 - (a - m))"
    using p(1) n m by (intro seq.dist_adv_adv) linarith+
  have within: "seq_dist (seq_adv s0 m) (seq_adv s0 a) \<le> MAX_U32_WINDOW_SIZE \<longleftrightarrow> a \<le> m"
    using p(1) n m size by (subst seq_within_iff) auto
  have acked: "acked x (seq_adv s0 m) = max a m - a"
    using f m within dist by (simp add: acked_def fetched_def Let_def)
  have q: "queue_bytes (tx_cache x') = map st [max a m..<?e]" unfolding x'(3) acked p(2) by (simp add: drop_map)
  have "fetched st s0 (max a m) n x'"
  proof (rule fetchedI [OF q])
    show "tx_queue x' = map st [?e..<n]" using x'(4) p(3) by simp
    show "q_sequence (tx_cache x') = seq_adv s0 (max a m)" using x'(7) f within by (auto simp: fetched_def max_def)
    show "tx_sequence x' = seq_adv s0 ?e" using acknowledge_sequence(1) [OF none x'(1)] f by (simp add: fetched_def)
  qed (use acknowledge_sequence(2) [OF none x'(1)] x' f m p(1) in \<open>auto simp: fetched_def\<close>)
  moreover have "max a m + q_size (tx_cache x') = ?e" using arg_cong [OF q, of length] m by (simp add: queue_bytes_def)
  ultimately show ?thesis by (rule that [OF x'(1,2) _ _ x'(4)])
qed

section \<open>The operations of the \<open>Forwarder\<close>\<close>

text \<open>
  A \<open>Forwarder\<close> in the middle of a download: every byte up to the end of its cache has been in a segment.
  \<open>delivers\<close> says of what an operation sends that every segment with data has bytes of the stream at their number.
\<close>

definition downloads :: "(nat \<Rightarrow> u8) \<Rightarrow> u32 \<Rightarrow> nat \<Rightarrow> nat \<Rightarrow> socket_addr_v4 \<Rightarrow> socket_addr_v4 \<Rightarrow> forwarder \<Rightarrow> bool" where
  "downloads st s0 a n dst src f \<longleftrightarrow> fw_inv f \<and> (\<exists>x. get_state f dst src = Some x \<and> fetched st s0 a n x \<and>
     sent_up_to s0 (a + q_size (tx_cache x)) dst src (fw_sent f))"

definition delivers :: "(nat \<Rightarrow> u8) \<Rightarrow> u32 \<Rightarrow> nat \<Rightarrow> socket_addr_v4 \<Rightarrow> socket_addr_v4 \<Rightarrow> forwarder \<Rightarrow> forwarder \<Rightarrow> bool" where
  "delivers st s0 n dst src f f' \<longleftrightarrow> (\<exists>ss. fw_sent f' = fw_sent f @ ss \<and>
     (\<forall>s\<in>set ss. sent_payload s \<noteq> [] \<longrightarrow> carries_stream st s0 n dst src s))"

text \<open>How many bytes of a connection are in flight.\<close>

definition in_flight :: "forwarder \<Rightarrow> socket_addr_v4 \<Rightarrow> socket_addr_v4 \<Rightarrow> nat" where
  "in_flight f dst src = (case get_state f dst src of Some x \<Rightarrow> q_size (tx_cache x) | None \<Rightarrow> 0)"

lemma delivers_refl [simp]: "fw_sent f' = fw_sent f \<Longrightarrow> delivers st s0 n dst src f f'"
  by (simp add: delivers_def)

lemma delivers_trans: "delivers st s0 n dst src f g \<Longrightarrow> delivers st s0 n dst src g h \<Longrightarrow> delivers st s0 n dst src f h"
proof -
  assume "delivers st s0 n dst src f g" and "delivers st s0 n dst src g h"
  then obtain ss ss' where "fw_sent g = fw_sent f @ ss" "fw_sent h = fw_sent g @ ss'"
      "\<forall>s\<in>set ss \<union> set ss'. sent_payload s \<noteq> [] \<longrightarrow> carries_stream st s0 n dst src s"
    unfolding delivers_def by blast
  then show "delivers st s0 n dst src f h" unfolding delivers_def by (intro exI [of _ "ss @ ss'"]) simp
qed

lemma delivers_mono: "delivers st s0 n dst src f g \<Longrightarrow> n \<le> n' \<Longrightarrow> delivers st s0 n' dst src f g"
  unfolding delivers_def by (meson carries_mono)

lemma delivers_sent: "delivers st s0 n dst src f g \<Longrightarrow> sent_up_to s0 e dst src (fw_sent f) \<Longrightarrow> sent_up_to s0 e dst src (fw_sent g)"
  by (auto simp: delivers_def intro: sent_up_to_append)

lemma delivers_start: "delivers st s0 n dst src f g \<Longrightarrow> fw_sent f = fw_sent f0 \<Longrightarrow> delivers st s0 n dst src f0 g"
  by (simp add: delivers_def)

lemma segments_deliver:
  assumes "segments dst src ack is_fin (seq_adv s0 p) mss 0 (map st [p..<p + k]) ss" and "0 < mss"
    and "p + k \<le> n" and "n + MAX_U32_WINDOW_SIZE < 4294967295" and "fw_sent f' = fw_sent f @ ss"
  shows "delivers st s0 n dst src f f'"
proof -
  have "p + k < 4294967295" using assms(3,4) by linarith
  from segments_carry [OF assms(1,2) this assms(3)] assms(5) show ?thesis unfolding delivers_def by blast
qed

lemma send_queued_fetched:
  assumes lk: "link_ok lk" and inv: "fw_inv f" and x: "get_state f dst src = Some x" and fe: "fetched st s0 a n x"
    and sent: "sent_up_to s0 (a + q_size (tx_cache x)) dst src (fw_sent f)"
    and k: "k \<le> length (tx_queue x)" "k \<le> 65535" "q_size (tx_cache x) + k \<le> q_capacity (tx_cache x)"
    and n: "n + MAX_U32_WINDOW_SIZE < 4294967295"
  obtains f' x' where "send_queued lk f dst src k now = Some (Ok (), f')" and "get_state f' dst src = Some x'"
    and "tx_ok x'" and "fetched st s0 a n x'" and "q_size (tx_cache x') = q_size (tx_cache x) + k"
    and "sent_up_to s0 (a + q_size (tx_cache x')) dst src (fw_sent f')" and "delivers st s0 n dst src f f'"
proof -
  define e where "e = a + q_size (tx_cache x)"
  note p = fetched_parts [OF fe, folded e_def]
  have ok: "tx_ok x" using fw_inv_conn [OF inv x] by (simp add: conn_ok_def)
  obtain cache where cache: "append_cache x k now = Some (Ok (take k (tx_queue x)),
        x\<lparr>tx_queue := drop k (tx_queue x), tx_cache := cache\<rparr>)" "queue_inv cache"
      "queue_bytes cache = queue_bytes (tx_cache x) @ take k (tx_queue x)" "q_sequence cache = q_sequence (tx_cache x)"
    by (rule append_cache_ok [OF ok k(1,3), of now])
  define x1 where "x1 = x\<lparr>tx_queue := drop k (tx_queue x), tx_cache := cache\<rparr>"
  have piece: "take k (tx_queue x) = map st [e..<e + k]" using k(1) p by (simp add: take_map)
  have seq: "tx_sequence x1 = seq_adv s0 e" "\<not> tx_queue_fin x1" using fe by (simp_all add: x1_def fetched_def e_def)
  have run: "send_queued lk f dst src k now = send_tcp_ack_raw lk (set_state f dst src x1) dst src (seq_adv s0 e) (map st [e..<e + k]) False"
    using cache(1) x seq piece by (simp add: send_queued_def x1_def)
  note mtu = fw_inv_mtu [OF inv, of "ip src"]
  have st1: "get_state (set_state f dst src x1) dst src = Some x1" by simp
  have mtu1: "40 < src_mtu_of (set_state f dst src x1) (ip src)" "src_mtu_of (set_state f dst src x1) (ip src) \<le> 65535"
    using mtu by simp_all
  obtain f' ss s where r: "send_tcp_ack_raw lk (set_state f dst src x1) dst src (seq_adv s0 e) (map st [e..<e + k]) False = Some (Ok (), f')"
      "fw_sent f' = fw_sent (set_state f dst src x1) @ ss"
      "segments dst src (tx_acknowledgement x1) False (seq_adv s0 e) (src_mtu_of (set_state f dst src x1) (ip src) - 40) 0 (map st [e..<e + k]) ss"
      "get_state f' dst src = Some (x1\<lparr>tx_sequence := s\<rparr>)" "s = seq_adv (seq_adv s0 e) k"
    by (rule send_tcp_ack_raw_ok [OF lk st1 mtu1, of "seq_adv s0 e" "map st [e..<e + k]" False])
      (rule that; use seq k(2) in \<open>simp add: MAX_U32_WINDOW_SIZE_def\<close>)
  have mss: "0 < src_mtu_of (set_state f dst src x1) (ip src) - 40" and less: "e + k \<le> n" "e + k < 4294967295"
    using mtu1 p(1) k(1) n by linarith+
  let ?x = "x1\<lparr>tx_sequence := s\<rparr>"
  have bytes: "queue_bytes (tx_cache ?x) = map st [a..<e + k]"
    using cache(3) p(2) piece map_upt_append [of a e "e + k" st] by (simp add: x1_def e_def)
  have fe': "fetched st s0 a n ?x"
  proof (rule fetchedI [OF bytes])
    show "tx_queue ?x = map st [e + k..<n]" using p(3) by (simp add: x1_def drop_map)
    show "tx_sequence ?x = seq_adv s0 (e + k)" using r(5) less by (simp add: seq.adv_adv)
  qed (use fe less cache(4) in \<open>simp_all add: fetched_def x1_def e_def\<close>)
  have size: "q_size (tx_cache ?x) = q_size (tx_cache x) + k" using arg_cong [OF bytes, of length] by (simp add: queue_bytes_def e_def)
  have "sent_up_to s0 (e + k) dst src (fw_sent f')"
    using segments_sent [OF r(3) mss less(2) sent [folded e_def]] r(2) by simp
  moreover have "delivers st s0 n dst src f f'"
    by (rule segments_deliver [OF r(3) mss less(1) n]) (use r(2) in simp)
  moreover have "tx_ok ?x" using ok cache(2) by (simp add: tx_ok_def rto_ok_def x1_def)
  ultimately show ?thesis using run r(1,4) fe' size by (intro that [of f' ?x]) (simp_all add: e_def add.assoc)
qed

lemma downloads_at:
  assumes "downloads st s0 a n dst src f"
  obtains x where "fw_inv f" and "get_state f dst src = Some x" and "conn_ok x" and "tx_ok x" and "fetched st s0 a n x"
    and "sent_up_to s0 (a + q_size (tx_cache x)) dst src (fw_sent f)"
  using assms fw_inv_conn [of f dst src] by (auto simp: downloads_def conn_ok_def)

lemma downloadsI:
  assumes "fw_inv f" and "fw_keeps dst src f f'" and "get_state f' dst src = Some x" and "tx_ok x" and "fetched st s0 a n x"
    and "sent_up_to s0 (a + q_size (tx_cache x)) dst src (fw_sent f')"
  shows "downloads st s0 a n dst src f'"
  using assms fw_inv_keeps [OF assms(1,2)] by (auto simp: downloads_def)

lemma send_tcp_ack_downloads:
  assumes lk: "link_ok lk" and d: "downloads st s0 a n dst src f" and x: "get_state f dst src = Some x"
    and n: "n + MAX_U32_WINDOW_SIZE < 4294967295"
  obtains f' x' k where "send_tcp_ack lk f dst src now = Some (Ok (), f')" and "downloads st s0 a n dst src f'"
    and "delivers st s0 n dst src f f'" and "get_state f' dst src = Some x'" and "q_size (tx_cache x') = q_size (tx_cache x) + k"
    and "if 0 < tx_send_window x then send_size f src x = Some k else k = 0"
proof -
  have fs: "fw_inv f" and cok: "conn_ok x" and ok: "tx_ok x" and fe: "fetched st s0 a n x"
    and sent: "sent_up_to s0 (a + q_size (tx_cache x)) dst src (fw_sent f)"
    by (rule downloads_at [OF d]; use x in simp)+
  have syn: "tx_cache_syn x = None" using fe by (simp add: fetched_def)
  have none: "send_queued_fin lk g dst src now = Some (Ok (), g)" if "get_state g dst src = Some y" "fetched st s0 a n y" for g y
    using that by (simp add: send_queued_fin_def fetched_def)
  obtain k where k: "if 0 < tx_send_window x then send_size f src x = Some k else k = 0"
    using send_size_total [OF fw_inv_mtu(1) [OF fs], of src x] by (metis (full_types))
  have run: "send_tcp_ack lk f dst src now = and_then (if 0 < k then send_queued lk f dst src k now else Some (Ok (), f))
      (\<lambda>_ f. send_queued_fin lk f dst src now)"
    using x syn k by (auto simp: send_tcp_ack_def split: if_splits)
  show ?thesis
  proof (cases "0 < k")
    case False
    with run none [OF x fe] show ?thesis using d x k by (intro that [of f x k]) simp_all
  next
    case True
    then have size: "send_size f src x = Some k" using k by (simp split: if_splits)
    note b = send_size_bounds [OF size]
    have fit: "q_size (tx_cache x) + k \<le> q_capacity (tx_cache x)" using b(3) True cok by (simp add: conn_ok_def)
    obtain f' x' where q: "send_queued lk f dst src k now = Some (Ok (), f')" "get_state f' dst src = Some x'" "tx_ok x'"
        "fetched st s0 a n x'" "q_size (tx_cache x') = q_size (tx_cache x) + k"
        "sent_up_to s0 (a + q_size (tx_cache x')) dst src (fw_sent f')" "delivers st s0 n dst src f f'"
      by (rule send_queued_fetched [OF lk fs x fe sent b(1,2) fit n])
    have "downloads st s0 a n dst src f'" by (rule downloadsI [OF fs send_queued_keeps [OF q(1)] q(2-4,6)])
    with run q none [OF q(2,4)] True k show ?thesis by (intro that [of f' x' k]) simp_all
  qed
qed

text \<open>What has been sent is sent again, with the state as it is.\<close>

lemma resend_ok:
  assumes lk: "link_ok lk" and inv: "fw_inv f" and x: "get_state f dst src = Some x" and fe: "fetched st s0 a n x"
    and p: "a \<le> p" "p + k \<le> a + q_size (tx_cache x)" and n: "n + MAX_U32_WINDOW_SIZE < 4294967295"
  obtains f' where "send_tcp_ack_raw lk f dst src (seq_adv s0 p) (map st [p..<p + k]) False = Some (Ok (), f')"
    and "get_state f' dst src = Some x" and "delivers st s0 n dst src f f'" and "same_but_sequence f dst src f'"
proof -
  let ?e = "a + q_size (tx_cache x)"
  have size: "q_size (tx_cache x) \<le> MAX_U32_WINDOW_SIZE" by (rule conn_ok_size [OF fw_inv_conn [OF inv x]])
  have e: "tx_sequence x = seq_adv s0 ?e" "p + length (map st [p..<p + k]) \<le> ?e" "?e \<le> p + MAX_U32_WINDOW_SIZE"
      "?e + MAX_U32_WINDOW_SIZE < 4294967295"
    using fe p size n fetched_parts(1) [OF fe] by (auto simp: fetched_def)
  obtain f' ss where r: "send_tcp_ack_raw lk f dst src (seq_adv s0 p) (map st [p..<p + k]) False = Some (Ok (), f')"
      "fw_sent f' = fw_sent f @ ss"
      "segments dst src (tx_acknowledgement x) False (seq_adv s0 p) (src_mtu_of f (ip src) - 40) 0 (map st [p..<p + k]) ss"
      "same_but_sequence f dst src f'" "get_state f' dst src = Some x"
    by (rule send_tcp_ack_raw_again [OF lk x fw_inv_mtu [OF inv] e])
  have "0 < src_mtu_of f (ip src) - 40" "p + k \<le> n" using fw_inv_mtu [OF inv, of "ip src"] p fetched_parts(1) [OF fe] by auto
  from segments_deliver [OF r(3) this n r(2)] r show ?thesis by (intro that)
qed

lemma resend_downloads:
  assumes d: "downloads st s0 a n dst src f" and f': "get_state f' dst src = get_state f dst src" "fw_keeps dst src f f'"
    and del: "delivers st s0 n dst src f f'"
  shows "downloads st s0 a n dst src f'"
proof -
  from d obtain x where x: "fw_inv f" "get_state f dst src = Some x" "tx_ok x" "fetched st s0 a n x"
      "sent_up_to s0 (a + q_size (tx_cache x)) dst src (fw_sent f)"
    by (rule downloads_at)
  show ?thesis by (rule downloadsI [OF x(1) f'(2) _ x(3,4) delivers_sent [OF del x(5)]]) (use x(2) f'(1) in simp)
qed

lemma retransmit_tcp_ack_downloads:
  assumes lk: "link_ok lk" and d: "downloads st s0 a n dst src f" and n: "n + MAX_U32_WINDOW_SIZE < 4294967295"
  obtains f' where "retransmit_tcp_ack lk f dst src = Some (Ok (), f')" and "get_state f' dst src = get_state f dst src"
    and "downloads st s0 a n dst src f'" and "delivers st s0 n dst src f f'"
proof -
  from d obtain x where x: "fw_inv f" "get_state f dst src = Some x" "tx_ok x" "fetched st s0 a n x"
      "sent_up_to s0 (a + q_size (tx_cache x)) dst src (fw_sent f)"
    by (rule downloads_at)
  have q: "queue_get_all (tx_cache x) = Some (map st [a..<a + q_size (tx_cache x)])"
    using x(3) fetched_parts(2) [OF x(4)] by (simp add: tx_ok_def queue_get_all_ok)
  have f: "q_sequence (tx_cache x) = seq_adv s0 a" "tx_cache_fin x = None" using x(4) by (simp_all add: fetched_def)
  show ?thesis
  proof (cases "q_size (tx_cache x) = 0")
    case True
    with x(2) q d show ?thesis by (intro that [of f]) (simp_all add: retransmit_tcp_ack_def)
  next
    case False
    obtain f' where f': "send_tcp_ack_raw lk f dst src (seq_adv s0 a) (map st [a..<a + q_size (tx_cache x)]) False = Some (Ok (), f')"
        "get_state f' dst src = Some x" "delivers st s0 n dst src f f'"
      by (rule resend_ok [OF lk x(1,2,4) order_refl order_refl n])
    have run: "retransmit_tcp_ack lk f dst src = Some (Ok (), f')" using x(2) q f f'(1) False by (simp add: retransmit_tcp_ack_def)
    show ?thesis using f' x(2) resend_downloads [OF d _ retransmit_tcp_ack_keeps [OF run] f'(3)] by (intro that [OF run]) simp_all
  qed
qed

lemma retransmit_ranges_downloads:
  assumes lk: "link_ok lk" and "downloads st s0 a n dst src f" and x: "get_state f dst src = Some x"
    and n: "n + MAX_U32_WINDOW_SIZE < 4294967295" and "\<forall>r\<in>set rs. fst r \<le> snd r \<and> snd r \<le> q_size (tx_cache x)"
  shows "\<exists>f'. retransmit_ranges lk dst src recv_next (map (at_offsets (seq_adv s0 a)) rs) f = Some (Ok (), f') \<and>
    get_state f' dst src = Some x \<and> downloads st s0 a n dst src f' \<and> delivers st s0 n dst src f f'"
  using assms(2,3,5)
proof (induction rs arbitrary: f)
  case (Cons r rs)
  let ?q = "tx_cache x" and ?p = "a + fst r" and ?k = "snd r - fst r"
  have d: "fw_inv f" "tx_ok x" "conn_ok x" "fetched st s0 a n x"
    by (rule downloads_at [OF Cons.prems(1)]; use Cons.prems(2) in simp)+
  have r: "fst r \<le> snd r" "snd r \<le> q_size ?q" using Cons.prems(3) by simp_all
  have seq: "q_sequence ?q = seq_adv s0 a" "tx_cache_fin x = None" using d(4) by (simp_all add: fetched_def)
  have at: "fst (at_offsets (seq_adv s0 a) r) = seq_adv s0 ?p"
    using r fetched_parts(1) [OF d(4)] n by (simp add: at_offsets_def seq.adv_adv)
  define pl where "pl = map st [?p..<?p + ?k]"
  have piece: "take ?k (drop (fst r) (queue_bytes ?q)) = pl"
    using r fetched_parts(2) [OF d(4)] by (simp add: pl_def drop_map take_map add.assoc)
  have get: "queue_get ?q (seq_adv s0 ?p) (seq_dist (snd (at_offsets (seq_adv s0 a) r)) (seq_adv s0 ?p)) = Some (Ok pl)"
    using queue_get_range [OF _ r conn_ok_size [OF d(3)]] d(2) by (simp add: tx_ok_def seq piece at)
  have "\<exists>f1. (if 0 < length pl then send_tcp_ack_raw lk f dst src (seq_adv s0 ?p) pl False else Some (Ok (), f)) = Some (Ok (), f1) \<and>
      get_state f1 dst src = Some x \<and> downloads st s0 a n dst src f1 \<and> delivers st s0 n dst src f f1"
  proof (cases "0 < length pl")
    case True
    have le: "a \<le> ?p" "?p + ?k \<le> a + q_size ?q" using r by simp_all
    obtain f1 where f1: "send_tcp_ack_raw lk f dst src (seq_adv s0 ?p) pl False = Some (Ok (), f1)"
        "get_state f1 dst src = Some x" "delivers st s0 n dst src f f1"
      unfolding pl_def by (rule resend_ok [OF lk d(1) Cons.prems(2) d(4) le n])
    with True Cons.prems(2) resend_downloads [OF Cons.prems(1) _ send_tcp_ack_raw_keeps [OF f1(1)] f1(3)] show ?thesis by simp
  qed (use Cons.prems in simp)
  then obtain f1 where f1: "(if 0 < length pl then send_tcp_ack_raw lk f dst src (seq_adv s0 ?p) pl False else Some (Ok (), f)) =
      Some (Ok (), f1)" "get_state f1 dst src = Some x" "downloads st s0 a n dst src f1" "delivers st s0 n dst src f f1"
    by (elim exE conjE)
  from Cons.IH [OF f1(3,2)] Cons.prems(3) obtain f' where
    f': "retransmit_ranges lk dst src recv_next (map (at_offsets (seq_adv s0 a)) rs) f1 = Some (Ok (), f')"
    "get_state f' dst src = Some x" "downloads st s0 a n dst src f'" "delivers st s0 n dst src f1 f'" by auto
  then have "retransmit_ranges lk dst src recv_next (map (at_offsets (seq_adv s0 a)) (r # rs)) f = Some (Ok (), f')"
    using Cons.prems(2) get f1(1) seq(2) by (simp add: at split: if_splits)
  with f' delivers_trans [OF f1(4) f'(4)] show ?case by blast
qed (use assms(2) in simp)

lemma retransmit_without_downloads:
  assumes lk: "link_ok lk" and d: "downloads st s0 a n dst src f" and n: "n + MAX_U32_WINDOW_SIZE < 4294967295"
    and sacks: "list_all offsets_ok sacks"
  obtains f' where "retransmit_tcp_ack_without lk f dst src (map (at_offsets (seq_adv s0 a)) sacks) = Some (Ok (), f')"
    and "get_state f' dst src = get_state f dst src" and "downloads st s0 a n dst src f'" and "delivers st s0 n dst src f f'"
proof -
  from d obtain x where x: "fw_inv f" "get_state f dst src = Some x" "conn_ok x" "fetched st s0 a n x" by (rule downloads_at)
  let ?q = "tx_cache x"
  have seq: "q_sequence ?q = seq_adv s0 a" "tx_cache_fin x = None" using x(4) by (simp_all add: fetched_def)
  have asc: "ascending [(0, q_size ?q)]" using conn_ok_size [OF x(3)] by (simp add: ascending_def offsets_ok_def)
  obtain rs where rs: "remove_sacks (map (at_offsets (seq_adv s0 a)) [(0, q_size ?q)]) (map (at_offsets (seq_adv s0 a)) sacks) =
        map (at_offsets (seq_adv s0 a)) rs" "refine_ranges [(0, q_size ?q)] rs"
    by (rule remove_sacks_offsets [OF asc sacks])
  have in_q: "\<forall>r\<in>set rs. fst r \<le> snd r \<and> snd r \<le> q_size ?q"
    using rs(2) by (auto simp: refine_ranges_def ascending_def offsets_ok_def inside_def list_all_iff)
  have "remove_sacks [(seq_adv s0 a, queue_recv_next ?q)] (map (at_offsets (seq_adv s0 a)) sacks) = map (at_offsets (seq_adv s0 a)) rs"
    using rs(1) by (simp add: at_offsets_def queue_recv_next_def seq)
  with retransmit_ranges_downloads [OF lk d x(2) n in_q, of "queue_recv_next ?q"] x(2) seq show ?thesis
    by (auto simp: retransmit_tcp_ack_without_def intro: that)
qed

lemma forward_tick_downloads:
  assumes lk: "link_ok lk" and d: "downloads st s0 a n dst src f" and n: "n + MAX_U32_WINDOW_SIZE < 4294967295"
  obtains f' where "forward_tick lk f dst src now = Some (Ok (), f')" and "downloads st s0 a n dst src f'"
    and "delivers st s0 n dst src f f'" and "in_flight f' dst src = in_flight f dst src"
proof -
  from d obtain x where x: "fw_inv f" "get_state f dst src = Some x" "conn_ok x" "tx_ok x" "fetched st s0 a n x"
      "sent_up_to s0 (a + q_size (tx_cache x)) dst src (fw_sent f)"
    by (rule downloads_at)
  obtain k0 cache where c: "take_timed_out x MAX_RTO now = Some (take k0 (queue_bytes (tx_cache x)), x\<lparr>tx_cache := cache\<rparr>)"
      "queue_inv cache" "queue_bytes cache = queue_bytes (tx_cache x)" "q_sequence cache = q_sequence (tx_cache x)"
      "q_capacity cache = q_capacity (tx_cache x)"
    by (rule take_timed_out_ok [OF x(4), of MAX_RTO now])
  define k where "k = min k0 (q_size (tx_cache x))"
  define y where "y = x\<lparr>tx_cache := cache\<rparr>"
  have size: "q_size cache = q_size (tx_cache x)" using arg_cong [OF c(3), of length] by (simp add: queue_bytes_def)
  have pay: "take k0 (queue_bytes (tx_cache x)) = map st [a..<a + k]"
    using fetched_parts(2) [OF x(5)] by (simp add: k_def take_map min_def)
  have fin: "tx_cache_fin y = None" "q_sequence (tx_cache y) = seq_adv s0 a" "q_size (tx_cache y) = q_size (tx_cache x)"
    using x(5) c(4) size by (simp_all add: y_def fetched_def)
  have ok_y: "tx_ok y" using x(4) c(2) by (simp add: tx_ok_def rto_ok_def y_def)
  have fe: "fetched st s0 a n y" "fetched st s0 a n (double_rto y)"
    by (rule fetched_cong [OF x(5)]; use c in \<open>simp add: y_def double_rto_def set_rto_def\<close>)+
  show ?thesis
  proof (cases "q_size (tx_cache x) = 0")
    case True
    have run: "forward_tick lk f dst src now = Some (Ok (), set_state f dst src y)"
      using x(2) c(1) fin True unfolding forward_tick_def retransmit_tcp_ack_timedout_def
      by (simp add: timed_out_rto Let_def flip: y_def)
    have "downloads st s0 a n dst src (set_state f dst src y)"
      by (rule downloadsI [OF x(1) forward_tick_keeps [OF run] _ ok_y fe(1)]) (use x(6) fin in simp_all)
    moreover have "delivers st s0 n dst src f (set_state f dst src y)" by (rule delivers_refl) simp
    ultimately show ?thesis by (intro that [OF run]) (use x(2) fin in \<open>simp_all add: in_flight_def\<close>)
  next
    case False
    let ?f = "set_state (set_state f dst src y) dst src (double_rto y)"
    have inv: "fw_inv ?f"
      by (intro fw_inv_set_state x(1) conn_ok_keeps [OF x(3)])
        (use ok_y tx_ok_double_rto [OF ok_y] c(5) in \<open>simp_all add: tx_keeps_def y_def double_rto_def set_rto_def\<close>)
    have le: "a + k \<le> a + q_size (tx_cache (double_rto y))" using fin(3) by (simp add: k_def)
    obtain f' where f': "send_tcp_ack_raw lk ?f dst src (seq_adv s0 a) (map st [a..<a + k]) False = Some (Ok (), f')"
        "get_state f' dst src = Some (double_rto y)" "delivers st s0 n dst src ?f f'"
      by (rule resend_ok [OF lk inv _ fe(2) order_refl le n, of dst src]) simp
    have run: "forward_tick lk f dst src now = Some (Ok (), f')"
      using x(2) c(1) fin False f'(1) unfolding forward_tick_def retransmit_tcp_ack_timedout_def
      by (simp add: timed_out_rto Let_def pay flip: y_def)
    have del: "delivers st s0 n dst src f f'" by (rule delivers_start [OF f'(3)]) simp
    have "downloads st s0 a n dst src f'"
      by (rule downloadsI [OF x(1) forward_tick_keeps [OF run] f'(2) tx_ok_double_rto [OF ok_y] fe(2)])
        (use delivers_sent [OF del x(6)] fin in simp)
    then show ?thesis by (intro that [OF run _ del]) (use x(2) f'(2) fin in \<open>simp_all add: in_flight_def\<close>)
  qed
qed

lemma forward_stream_downloads:
  assumes lk: "link_ok lk" and d: "downloads st s0 a n dst src f" and n: "n + k + MAX_U32_WINDOW_SIZE < 4294967295"
  obtains f' where "forward_stream lk f dst src (map st [n..<n + k]) now = Some (Ok (), f')"
    and "downloads st s0 a (n + k) dst src f'" and "delivers st s0 (n + k) dst src f f'"
    and "in_flight f dst src \<le> in_flight f' dst src"
proof -
  from d obtain x where x: "fw_inv f" "get_state f dst src = Some x" "conn_ok x" "tx_ok x" "fetched st s0 a n x"
      "sent_up_to s0 (a + q_size (tx_cache x)) dst src (fw_sent f)"
    by (rule downloads_at)
  define y where "y = append_queue x (map st [n..<n + k])"
  let ?f = "set_state f dst src y"
  have fe: "fetched st s0 a (n + k) y" unfolding y_def by (rule fetched_append_queue [OF x(5)])
  have ok: "tx_ok y" unfolding y_def by (rule tx_ok_simple [OF x(4)])
  have keeps: "tx_keeps x y" by (simp add: y_def)
  have d': "downloads st s0 a (n + k) dst src ?f"
    by (rule downloadsI [OF x(1) fw_keeps_set_state [OF x(2) keeps] _ ok fe]) (use x(6) in \<open>simp_all add: y_def\<close>)
  obtain f' x' j where f': "send_tcp_ack lk ?f dst src now = Some (Ok (), f')" "downloads st s0 a (n + k) dst src f'"
      "delivers st s0 (n + k) dst src ?f f'" "get_state f' dst src = Some x'" "q_size (tx_cache x') = q_size (tx_cache y) + j"
    by (rule send_tcp_ack_downloads [OF lk d' set_state_get(1) n])
  have "forward_stream lk f dst src (map st [n..<n + k]) now = Some (Ok (), f')"
    using x(2,5) f'(1) by (simp add: forward_stream_def append_to_queue_def fetched_def flip: y_def)
  moreover have "in_flight f dst src \<le> in_flight f' dst src" using x(2) f'(4,5) by (simp add: in_flight_def y_def)
  ultimately show ?thesis using f'(2) delivers_start [OF f'(3), of f] by (intro that) simp_all
qed

section \<open>Events\<close>

text \<open>
  A connection of the \<open>Redirector\<close> during a download: the server may send, the device acknowledge, and
  neither has closed its side.
\<close>

definition fetching :: "(nat \<Rightarrow> u8) \<Rightarrow> u32 \<Rightarrow> conn_key \<Rightarrow> nat \<Rightarrow> nat \<Rightarrow> 'l redirector \<Rightarrow> bool" where
  "fetching st s0 key a n rd \<longleftrightarrow> rd_inv rd \<and> downloads st s0 a n (snd key) (fst key) (rd_tx rd) \<and>
     (\<exists>w x. rd_streams rd key = Some w \<and> rd_states rd key = Some x \<and> sw_reader w \<and> \<not> sw_is_read_closed w \<and>
       \<not> sw_is_write_closed w \<and> rx_fin_sequence x = None)"

text \<open>How many bytes have been sent: those that are acknowledged and those in the cache.\<close>

definition sent_count :: "conn_key \<Rightarrow> nat \<Rightarrow> 'l redirector \<Rightarrow> nat" where
  "sent_count key a rd = a + in_flight (rd_tx rd) (snd key) (fst key)"

text \<open>An acknowledgement of the first \<open>m\<close> bytes, with ranges the device has received behind them.\<close>

definition device_ack :: "link \<Rightarrow> u32 \<Rightarrow> conn_key \<Rightarrow> nat \<Rightarrow> nat \<Rightarrow> tcp \<Rightarrow> nat \<Rightarrow> bool" where
  "device_ack lk s0 key a e tcp m \<longleftrightarrow>
     (tcp_src_addr tcp, tcp_dst_addr tcp) = key \<and> tcp_is_ack tcp \<and> \<not> tcp_is_rst tcp \<and> \<not> tcp_is_syn tcp \<and> \<not> tcp_is_fin tcp \<and>
     tcp_acknowledgement (tcp_layer tcp) = seq_adv s0 m \<and> m \<le> e \<and>
     (\<exists>sacks offsets. tcp_sack (lk_pnet lk) tcp = Some sacks \<and> list_all offsets_ok offsets \<and>
       unwrap_or sacks [] = map (at_offsets (seq_adv s0 (max a m))) offsets)"

lemma sent_count_eq: "get_state (rd_tx rd) (snd key) (fst key) = Some x \<Longrightarrow> sent_count key a rd = a + q_size (tx_cache x)"
  by (simp add: sent_count_def in_flight_def)

lemma fetching_at:
  assumes "fetching st s0 (src, dst) a n rd"
  obtains w x t where "rd_inv rd" and "downloads st s0 a n dst src (rd_tx rd)" and "rd_streams rd (src, dst) = Some w"
    and "rd_states rd (src, dst) = Some x" and "get_state (rd_tx rd) dst src = Some t" and "fetched st s0 a n t" and "conn_ok t"
    and "sw_reader w" and "\<not> sw_is_read_closed w" and "\<not> sw_is_write_closed w" and "rx_fin_sequence x = None"
    and "sw_src w = src" and "sw_dst w = dst"
proof -
  from assms obtain w x where *: "rd_inv rd" "downloads st s0 a n dst src (rd_tx rd)" "rd_streams rd (src, dst) = Some w"
      "rd_states rd (src, dst) = Some x" "sw_reader w" "\<not> sw_is_read_closed w" "\<not> sw_is_write_closed w" "rx_fin_sequence x = None"
    by (auto simp: fetching_def)
  obtain t where t: "get_state (rd_tx rd) dst src = Some t" "conn_ok t" "fetched st s0 a n t" by (rule downloads_at [OF *(2)])
  from *(1,3) have "worker_ok (src, dst) w" unfolding rd_inv_def rd_safe_def by blast
  then have "sw_src w = src" "sw_dst w = dst" by (simp_all add: worker_ok_def)
  with * t show ?thesis by (intro that)
qed

lemma task_keeps_inv:
  assumes "link_ok lk" and "rd_inv rd" and "task_ok t" and "task_run lk now t rd = Some rd'"
  shows "rd_inv rd'"
  using task_run_ok [OF assms(1) _ assms(3), of rd now] assms rd_inv_frame [OF assms(2)] by (auto simp: rd_inv_def)

lemma fetch_read_step:
  assumes lk: "link_ok lk" and f: "fetching st s0 key a n rd" and k: "0 < k" and n: "n + k + MAX_U32_WINDOW_SIZE < 4294967295"
  obtains rd' where "task_run lk now (Reader key (Read_ok (map st [n..<n + k]))) rd = Some rd'" and "fetching st s0 key a (n + k) rd'"
    and "delivers st s0 (n + k) (snd key) (fst key) (rd_tx rd) (rd_tx rd')" and "sent_count key a rd \<le> sent_count key a rd'"
proof -
  obtain src dst where key: "key = (src, dst)" by force
  obtain w x t where c: "rd_inv rd" "downloads st s0 a n dst src (rd_tx rd)" "rd_streams rd (src, dst) = Some w"
      "rd_states rd (src, dst) = Some x" "sw_reader w" "\<not> sw_is_read_closed w" "\<not> sw_is_write_closed w" "rx_fin_sequence x = None"
      "sw_src w = src" "sw_dst w = dst"
    by (rule fetching_at [OF f [unfolded key]])
  obtain f' where f': "forward_stream lk (rd_tx rd) dst src (map st [n..<n + k]) now = Some (Ok (), f')"
      "downloads st s0 a (n + k) dst src f'" "delivers st s0 (n + k) dst src (rd_tx rd) f'"
      "in_flight (rd_tx rd) dst src \<le> in_flight f' dst src"
    by (rule forward_stream_downloads [OF lk c(2) n])
  let ?rd = "put_stream (rd\<lparr>rd_tx := f'\<rparr>) key (w\<lparr>sw_recv_zero := 0\<rparr>)"
  have run: "task_run lk now (Reader key (Read_ok (map st [n..<n + k]))) rd = Some ?rd"
    using c k f'(1) by (simp add: task_run_def reader_step_def key forwarder_stream_def)
  have "rd_inv ?rd" by (rule task_keeps_inv [OF lk c(1) _ run]) (simp add: task_ok_def)
  then have "fetching st s0 key a (n + k) ?rd" using c f'(2) by (simp add: fetching_def put_stream_def key)
  with run f'(3,4) show ?thesis by (intro that [of ?rd]) (simp_all add: key put_stream_def sent_count_def)
qed

lemma fetch_tick_step:
  assumes lk: "link_ok lk" and f: "fetching st s0 key a n rd" and n: "n + MAX_U32_WINDOW_SIZE < 4294967295"
  obtains rd' where "task_run lk now (Ticker key) rd = Some rd'" and "fetching st s0 key a n rd'"
    and "delivers st s0 n (snd key) (fst key) (rd_tx rd) (rd_tx rd')" and "sent_count key a rd' = sent_count key a rd"
proof -
  obtain src dst where key: "key = (src, dst)" by force
  obtain w x t where c: "rd_inv rd" "downloads st s0 a n dst src (rd_tx rd)" "rd_streams rd (src, dst) = Some w"
      "rd_states rd (src, dst) = Some x" "sw_reader w" "\<not> sw_is_read_closed w" "\<not> sw_is_write_closed w" "rx_fin_sequence x = None"
      "sw_src w = src" "sw_dst w = dst"
    by (rule fetching_at [OF f [unfolded key]])
  obtain f1 where f1: "forward_tick lk (rd_tx rd) dst src now = Some (Ok (), f1)" "downloads st s0 a n dst src f1"
      "delivers st s0 n dst src (rd_tx rd) f1" "in_flight f1 dst src = in_flight (rd_tx rd) dst src"
    by (rule forward_tick_downloads [OF lk c(2) n])
  define f' where "f' = (if sw_ticker w then f1 else rd_tx rd)"
  have f': "downloads st s0 a n dst src f'" "delivers st s0 n dst src (rd_tx rd) f'"
      "in_flight f' dst src = in_flight (rd_tx rd) dst src" using f1 c(2) by (simp_all add: f'_def)
  let ?rd = "put_stream (rd\<lparr>rd_tx := f'\<rparr>) key w"
  have run: "task_run lk now (Ticker key) rd = Some ?rd"
    using c f1(1) by (simp add: task_run_def ticker_step_def key forwarder_stream_def f'_def)
  have "rd_inv ?rd" by (rule task_keeps_inv [OF lk c(1) _ run]) (simp add: task_ok_def)
  then have "fetching st s0 key a n ?rd" using c f'(1) by (simp add: fetching_def put_stream_def key)
  with run f'(2,3) show ?thesis by (intro that [of ?rd]) (simp_all add: key put_stream_def sent_count_def)
qed

text \<open>The steps of the handler for an acknowledgement without data.\<close>

lemma set_window_downloads:
  assumes "fw_inv f" and "conn_ok t" and "tx_ok t'" and cap: "q_capacity (tx_cache t') = q_capacity (tx_cache t)"
    and "win \<le> q_capacity (tx_cache t)" and "fetched st s0 a n t'" and "sent_up_to s0 (a + q_size (tx_cache t')) dst src (fw_sent f)"
  shows "downloads st s0 a n dst src (set_state f dst src (set_send_window t' win))"
proof -
  let ?t = "set_send_window t' win"
  have "conn_ok ?t" using assms(2-5) tx_ok_simple(1) [OF assms(3)] by (simp add: conn_ok_def set_send_window_def)
  then have "fw_inv (set_state f dst src ?t)" by (rule fw_inv_set_state [OF assms(1)])
  moreover have "fetched st s0 a n ?t" by (rule fetched_cong [OF assms(6)]) (simp_all add: set_send_window_def)
  ultimately show ?thesis using assms(7) by (simp add: downloads_def)
qed

lemma acknowledge_downloads:
  assumes d: "downloads st s0 a n dst src f" and t: "get_state f dst src = Some t" and m: "m \<le> a + q_size (tx_cache t)"
    and n: "n + MAX_U32_WINDOW_SIZE < 4294967295"
  obtains t' where "acknowledge t (seq_adv s0 m) now = Some t'"
    and "max a m + q_size (tx_cache t') = a + q_size (tx_cache t)" and "tx_queue t' = tx_queue t"
    and "\<And>win. win \<le> q_capacity (tx_cache t) \<Longrightarrow> downloads st s0 (max a m) n dst src (set_state f dst src (set_send_window t' win))"
proof -
  have c: "fw_inv f" "conn_ok t" "tx_ok t" "fetched st s0 a n t" "sent_up_to s0 (a + q_size (tx_cache t)) dst src (fw_sent f)"
    by (rule downloads_at [OF d]; use t in simp)+
  obtain t' where t': "acknowledge t (seq_adv s0 m) now = Some t'" "tx_ok t'" "fetched st s0 (max a m) n t'"
      "max a m + q_size (tx_cache t') = a + q_size (tx_cache t)" "tx_queue t' = tx_queue t"
    by (rule acknowledge_fetched [OF c(3,4) m conn_ok_size [OF c(2)] n])
  have cap: "q_capacity (tx_cache t') = q_capacity (tx_cache t)"
    by (rule acknowledge_ok [OF c(3), of "seq_adv s0 m" now]) (use t'(1) in simp)
  have "downloads st s0 (max a m) n dst src (set_state f dst src (set_send_window t' win))" if "win \<le> q_capacity (tx_cache t)" for win
  proof (rule set_window_downloads [OF c(1,2) t'(2) cap that t'(3)])
    show "sent_up_to s0 (max a m + q_size (tx_cache t')) dst src (fw_sent f)" using c(5) t'(4) by simp
  qed
  with t' show ?thesis by (intro that [of t'])
qed

lemma ack_duplicate_downloads:
  assumes lk: "link_ok lk" and d: "downloads st s0 a n (tcp_dst_addr tcp) (tcp_src_addr tcp) (rd_tx rd)"
    and x: "rd_states rd (tcp_src_addr tcp, tcp_dst_addr tcp) = Some x" "rx_fin_sequence x = None"
    and sacks: "tcp_sack (lk_pnet lk) tcp = Some sacks" "list_all offsets_ok offsets" "unwrap_or sacks [] = map (at_offsets (seq_adv s0 a)) offsets"
    and n: "n + MAX_U32_WINDOW_SIZE < 4294967295"
  obtains f y where "ack_duplicate lk ev rd tcp = Some (Ok (), put_rx (rd\<lparr>rd_tx := f\<rparr>) (tcp_src_addr tcp, tcp_dst_addr tcp) y)"
    and "rx_fin_sequence y = None" and "downloads st s0 a n (tcp_dst_addr tcp) (tcp_src_addr tcp) f"
    and "delivers st s0 n (tcp_dst_addr tcp) (tcp_src_addr tcp) (rd_tx rd) f"
    and "get_state f (tcp_dst_addr tcp) (tcp_src_addr tcp) = get_state (rd_tx rd) (tcp_dst_addr tcp) (tcp_src_addr tcp)"
proof -
  let ?src = "tcp_src_addr tcp" and ?dst = "tcp_dst_addr tcp"
  obtain dup y where y: "increase_duplicate x (tcp_acknowledgement (tcp_layer tcp)) (ev_now ev) = (dup, y)" by force
  have fin: "rx_fin_sequence y = None"
    using x(2) y rx_frames(7) [of x "tcp_acknowledgement (tcp_layer tcp)" "ev_now ev"] by simp
  define sk where "sk = (if rx_sack_perm y then unwrap_or sacks [] else [])"
  have "\<exists>f. (if sk \<noteq> [] then retransmit_tcp_ack_without lk (rd_tx rd) ?dst ?src sk else retransmit_tcp_ack lk (rd_tx rd) ?dst ?src) =
      Some (Ok (), f) \<and> get_state f ?dst ?src = get_state (rd_tx rd) ?dst ?src \<and> downloads st s0 a n ?dst ?src f \<and>
      delivers st s0 n ?dst ?src (rd_tx rd) f"
  proof (cases "sk = []")
    case True
    show ?thesis by (rule retransmit_tcp_ack_downloads [OF lk d n]) (use True in auto)
  next
    case False
    then have sk: "sk = map (at_offsets (seq_adv s0 a)) offsets" using sacks(3) by (simp add: sk_def split: if_splits)
    show ?thesis by (rule retransmit_without_downloads [OF lk d n sacks(2)]) (use False sk in auto)
  qed
  then obtain f where f: "(if sk \<noteq> [] then retransmit_tcp_ack_without lk (rd_tx rd) ?dst ?src sk else retransmit_tcp_ack lk (rd_tx rd) ?dst ?src) =
      Some (Ok (), f)" "get_state f ?dst ?src = get_state (rd_tx rd) ?dst ?src" "downloads st s0 a n ?dst ?src f"
      "delivers st s0 n ?dst ?src (rd_tx rd) f"
    by (elim exE conjE)
  let ?z = "set_last_retrans (clear_duplicate y) (ev_now ev)"
  show ?thesis
  proof (cases "dup \<and> \<not> tcp_is_zero_window tcp")
    case True
    have "ack_duplicate lk ev rd tcp = Some (Ok (), put_rx (rd\<lparr>rd_tx := f\<rparr>) (?src, ?dst) ?z)"
      using True x(1) y f(1) sacks(1) by (auto simp: ack_duplicate_def on_tx_def put_rx_def sk_def split: if_splits)
    then show ?thesis by (rule that) (use f fin in \<open>simp_all add: set_last_retrans_def clear_duplicate_def\<close>)
  next
    case False
    then have "ack_duplicate lk ev rd tcp = Some (Ok (), put_rx (rd\<lparr>rd_tx := rd_tx rd\<rparr>) (?src, ?dst) y)"
      using x(1) y by (auto simp: ack_duplicate_def)
    then show ?thesis by (rule that) (use d fin in simp_all)
  qed
qed

text \<open>With nothing in the cache, something of the queue is sent if the window is open.\<close>

lemma send_size_progress:
  assumes "send_size f src x = Some k" and "q_size (tx_cache x) = 0" and "0 < tx_send_window x" and "tx_queue x \<noteq> []"
  shows "0 < k"
  using assms by (auto simp: send_size_def checked_sub_nat_def queue_is_empty_def ENABLE_SEND_SWS_AVOID_def Let_def
      split: bind_splits if_splits)

lemma handle_ack_fetching:
  assumes lk: "link_ok lk" and inv: "rd_inv rd" and fl: "tcp_is_ack tcp" "\<not> tcp_is_rst tcp" "\<not> tcp_is_fin tcp"
    and w: "rd_streams rd (tcp_src_addr tcp, tcp_dst_addr tcp) = Some w" "sw_reader w" "\<not> sw_is_read_closed w" "\<not> sw_is_write_closed w"
    and x: "rd_states rd (tcp_src_addr tcp, tcp_dst_addr tcp) = Some x" "rx_fin_sequence x = None"
    and t: "get_state (rd_tx rd) (tcp_dst_addr tcp) (tcp_src_addr tcp) = Some t"
    and ack: "acknowledge t (tcp_acknowledgement (tcp_layer tcp)) (ev_now ev) = Some t'"
    and d: "\<And>win. win \<le> q_capacity (tx_cache t) \<Longrightarrow> downloads st s0 a n (tcp_dst_addr tcp) (tcp_src_addr tcp)
      (set_state (rd_tx rd) (tcp_dst_addr tcp) (tcp_src_addr tcp) (set_send_window t' win))"
    and sacks: "tcp_sack (lk_pnet lk) tcp = Some sacks" "list_all offsets_ok offsets" "unwrap_or sacks [] = map (at_offsets (seq_adv s0 a)) offsets"
    and n: "n + MAX_U32_WINDOW_SIZE < 4294967295"
  obtains rd' k where "handle_tcp lk ev rd tcp [] = Some (Ok (), rd')" and "fetching st s0 (tcp_src_addr tcp, tcp_dst_addr tcp) a n rd'"
    and "delivers st s0 n (tcp_dst_addr tcp) (tcp_src_addr tcp) (rd_tx rd) (rd_tx rd')"
    and "sent_count (tcp_src_addr tcp, tcp_dst_addr tcp) a rd' = a + q_size (tx_cache t') + k"
    and "q_size (tx_cache t') = 0 \<Longrightarrow> tx_queue t' \<noteq> [] \<Longrightarrow> tcp_window (tcp_layer tcp) \<noteq> 0 \<Longrightarrow> 0 < k"
proof -
  let ?src = "tcp_src_addr tcp" and ?dst = "tcp_dst_addr tcp"
  obtain x0 t0 st0 n0 where at: "at_conn (?src, ?dst) rd w x0 t0" "relays st0 n0 w x0 t0" by (rule rd_inv_at [OF inv w(1)])
  then have eq: "x0 = x" "t0 = t" using x(1) t by (simp_all add: at_conn_def get_state_def)
  let ?win = "unat (tcp_window (tcp_layer tcp)) * 2 ^ unat (rx_wscale x)"
  have ws: "unat (rx_wscale x) \<le> 8" "q_capacity (tx_cache t) = 65535 * 2 ^ unat (rx_wscale x)"
    using at(2) eq by (simp_all add: relays_def)
  have "unat (tcp_window (tcp_layer tcp)) \<le> 65535" using unat_u16_less [of "tcp_window (tcp_layer tcp)"] by simp
  note sh = wscale_shift [OF ws(1) this]
  define u where "u = set_send_window t' ?win"
  define rd1 where "rd1 = rd\<lparr>rd_tx := set_state (rd_tx rd) ?dst ?src u\<rparr>"
  have u: "tx_send_window u = ?win" "tx_cache u = tx_cache t'" "tx_queue u = tx_queue t'" by (simp_all add: u_def set_send_window_def)
  have d1: "downloads st s0 a n ?dst ?src (rd_tx rd1)" using d [of ?win] sh(2) ws(2) by (simp add: rd1_def u_def)
  have x1: "rd_states rd1 (?src, ?dst) = Some x" using x(1) by (simp add: rd1_def)
  obtain f2 y where f2: "ack_duplicate lk ev rd1 tcp = Some (Ok (), put_rx (rd1\<lparr>rd_tx := f2\<rparr>) (?src, ?dst) y)" "rx_fin_sequence y = None"
      "downloads st s0 a n ?dst ?src f2" "delivers st s0 n ?dst ?src (rd_tx rd1) f2" "get_state f2 ?dst ?src = get_state (rd_tx rd1) ?dst ?src"
    by (rule ack_duplicate_downloads [OF lk d1 x1 x(2) sacks n])
  have u2: "get_state f2 ?dst ?src = Some u" using f2(5) by (simp add: rd1_def)
  obtain f3 x3 k where f3: "send_tcp_ack lk f2 ?dst ?src (ev_now ev) = Some (Ok (), f3)" "downloads st s0 a n ?dst ?src f3"
      "delivers st s0 n ?dst ?src f2 f3" "get_state f3 ?dst ?src = Some x3" "q_size (tx_cache x3) = q_size (tx_cache u) + k"
      "if 0 < tx_send_window u then send_size f2 ?src u = Some k else k = 0"
    by (rule send_tcp_ack_downloads [OF lk f2(3) u2 n])
  define rd' where "rd' = put_rx (rd1\<lparr>rd_tx := f3\<rparr>) (?src, ?dst) y"
  have run: "handle_tcp lk ev rd tcp [] = Some (Ok (), rd')"
    using fl w x t ack sh(1) f2(1,2) f3(1) unfolding rd'_def rd1_def u_def
    by (simp add: handle_tcp_def handle_tcp_ack_def ack_end_def update_tx_def get_cache_size_def on_tx_def put_rx_def Let_def)
  obtain r rd'' where "handle_tcp_ack lk ev rd tcp [] = Some (r, rd'')" "rd_inv rd''"
    by (rule handle_tcp_ack_empty [OF lk at]) (use sacks(1) in auto)
  then have "rd_inv rd'" using run fl by (simp add: handle_tcp_def)
  then have fe: "fetching st s0 (?src, ?dst) a n rd'"
    using w f3(2) f2(2) by (simp add: fetching_def rd'_def put_rx_def rd1_def)
  have "fw_sent (rd_tx rd1) = fw_sent (rd_tx rd)" by (simp add: rd1_def)
  from delivers_start [OF delivers_trans [OF f2(4) f3(3)] this]
  have del: "delivers st s0 n ?dst ?src (rd_tx rd) (rd_tx rd')" by (simp add: rd'_def put_rx_def)
  have count: "sent_count (?src, ?dst) a rd' = a + q_size (tx_cache t') + k"
    using f3(4,5) u(2) by (subst sent_count_eq [where x = x3]) (simp_all add: rd'_def put_rx_def)
  have "0 < k" if "q_size (tx_cache t') = 0" "tx_queue t' \<noteq> []" "tcp_window (tcp_layer tcp) \<noteq> 0"
  proof -
    have win: "0 < tx_send_window u" using that(3) u(1) by (simp add: unat_gt_0)
    then have size: "send_size f2 ?src u = Some k" using f3(6) by simp
    show ?thesis by (rule send_size_progress [OF size _ win]) (use that u in simp_all)
  qed
  then show ?thesis by (intro that [OF run fe del count])
qed

lemma fetch_ack_step:
  assumes lk: "link_ok lk" and f: "fetching st s0 key a n rd" and ack: "device_ack lk s0 key a (sent_count key a rd) tcp m"
    and n: "n + MAX_U32_WINDOW_SIZE < 4294967295"
  obtains rd' where "handle_tcp lk ev rd tcp [] = Some (Ok (), rd')" and "fetching st s0 key (max a m) n rd'"
    and "delivers st s0 n (snd key) (fst key) (rd_tx rd) (rd_tx rd')"
    and "sent_count key a rd \<le> sent_count key (max a m) rd'"
    and "m = sent_count key a rd \<Longrightarrow> m < n \<Longrightarrow> tcp_window (tcp_layer tcp) \<noteq> 0 \<Longrightarrow> m < sent_count key (max a m) rd'"
proof -
  let ?src = "tcp_src_addr tcp" and ?dst = "tcp_dst_addr tcp"
  have key: "key = (?src, ?dst)" and fl: "tcp_is_ack tcp" "\<not> tcp_is_rst tcp" "\<not> tcp_is_fin tcp"
    and num: "tcp_acknowledgement (tcp_layer tcp) = seq_adv s0 m" using ack by (auto simp: device_ack_def)
  obtain sacks offsets where sacks: "tcp_sack (lk_pnet lk) tcp = Some sacks" "list_all offsets_ok offsets"
      "unwrap_or sacks [] = map (at_offsets (seq_adv s0 (max a m))) offsets" using ack by (auto simp: device_ack_def)
  obtain w x t where c: "rd_inv rd" "downloads st s0 a n ?dst ?src (rd_tx rd)" "rd_streams rd (?src, ?dst) = Some w"
      "rd_states rd (?src, ?dst) = Some x" "get_state (rd_tx rd) ?dst ?src = Some t" "fetched st s0 a n t"
      "sw_reader w" "\<not> sw_is_read_closed w" "\<not> sw_is_write_closed w" "rx_fin_sequence x = None"
    by (rule fetching_at [OF f [unfolded key]])
  have sent: "sent_count key a rd = a + q_size (tx_cache t)" using c(5) by (intro sent_count_eq) (simp add: key)
  then have m: "m \<le> a + q_size (tx_cache t)" using ack by (simp add: device_ack_def)
  obtain t' where t': "acknowledge t (seq_adv s0 m) (ev_now ev) = Some t'"
      "max a m + q_size (tx_cache t') = a + q_size (tx_cache t)" "tx_queue t' = tx_queue t"
      "\<And>win. win \<le> q_capacity (tx_cache t) \<Longrightarrow>
        downloads st s0 (max a m) n ?dst ?src (set_state (rd_tx rd) ?dst ?src (set_send_window t' win))"
    by (rule acknowledge_downloads [OF c(2,5) m n, of "ev_now ev"]) (rule that; assumption)
  obtain rd' k where r: "handle_tcp lk ev rd tcp [] = Some (Ok (), rd')" "fetching st s0 (?src, ?dst) (max a m) n rd'"
      "delivers st s0 n ?dst ?src (rd_tx rd) (rd_tx rd')" "sent_count (?src, ?dst) (max a m) rd' = max a m + q_size (tx_cache t') + k"
      "q_size (tx_cache t') = 0 \<Longrightarrow> tx_queue t' \<noteq> [] \<Longrightarrow> tcp_window (tcp_layer tcp) \<noteq> 0 \<Longrightarrow> 0 < k"
    by (rule handle_ack_fetching [OF lk c(1) fl c(3,7,8,9,4,10,5) t'(1) [folded num] t'(4) sacks n]; assumption?)
      (rule that; (assumption | blast))
  have "tx_queue t' \<noteq> []" if "m = sent_count key a rd" "m < n" using fetched_parts(1) [OF c(6)] that sent t'(3) by auto
  then show ?thesis using r(3-) sent t'(2) by (intro that [OF r(1) r(2) [folded key]]) (auto simp: key)
qed

section \<open>The handshake\<close>

text \<open>The acknowledgement of the SYN, which ends the handshake.\<close>

lemma acknowledge_opening:
  assumes ok: "tx_ok t" and fresh: "fresh s t"
  obtains t' where "acknowledge (update_syn_timer t at) (seq_adv s 1) now = Some t'" and "tx_ok t'" and "fetched st (seq_adv s 1) 0 0 t'"
    and "q_capacity (tx_cache t') = q_capacity (tx_cache t)"
proof -
  let ?t = "update_syn_timer t at"
  have t: "queue_bytes (tx_cache t) = []" "tx_queue t = []" "tx_sequence t = s" "q_sequence (tx_cache t) = s" "tx_cache_fin t = None" "\<not> tx_queue_fin t"
    using fresh by (simp_all add: fresh_def tx_bytes_def)
  have one: "seq_dist (seq_adv s 1) s = 1" by (rule seq.dist_adv) simp
  have ok': "tx_ok ?t" by (rule tx_ok_simple(6) [OF ok])
  obtain t' where t': "acknowledge ?t (seq_adv s 1) now = Some t'" "tx_ok t'"
      "queue_bytes (tx_cache t') = drop (acked ?t (seq_adv s 1)) (queue_bytes (tx_cache ?t))" "tx_queue t' = tx_queue ?t"
      "q_capacity (tx_cache t') = q_capacity (tx_cache ?t)" "tx_queue_fin t' = tx_queue_fin ?t"
      "tx_cache_fin t' = (if seq_dist (seq_adv s 1) (queue_recv_next (tx_cache t')) \<le> MAX_U32_WINDOW_SIZE then None else tx_cache_fin ?t)"
      "q_sequence (tx_cache t') = (if seq_dist (seq_adv s 1) (q_sequence (tx_cache ?t)) \<le> MAX_U32_WINDOW_SIZE
        then seq_adv s 1 else q_sequence (tx_cache ?t))"
    by (rule acknowledge_ok [OF ok', of "seq_adv s 1" now])
  have num: "q_sequence (tx_cache t') = seq_adv s 1" "tx_cache_fin t' = None"
    using t'(7,8) one t by (simp_all add: MAX_U32_WINDOW_SIZE_def update_syn_timer_def split: if_splits)
  have "tx_sequence t' = seq_adv s 1" "tx_cache_syn t' = None"
    using t'(1) one t by (auto simp: acknowledge_def acknowledge_syn_def acknowledge_fin_def update_rto_def set_rto_def
        update_syn_timer_def add_sequence_def seq_adv_def MAX_U32_WINDOW_SIZE_def Let_def split: bind_splits option.splits if_splits)
  then have "fetched st (seq_adv s 1) 0 0 t'"
    by (intro fetchedI [where e = 0]) (use t' t num in \<open>simp_all add: update_syn_timer_def\<close>)
  then show ?thesis by (rule that [OF t'(1,2)]) (use t'(5) in simp)
qed

lemma handshake_fetching:
  assumes lk: "link_ok lk" and inv: "rd_inv rd" and free: "rd_streams rd (tcp_src_addr syn, tcp_dst_addr syn) = None"
    and syn: "syn_ok (lk_pnet lk) syn" and ts: "list_all task_ok (ev_await ev)" and conn: "connect_result ev rd (tcp_dst_addr syn) = Ok ()"
    and key: "(tcp_src_addr tcp, tcp_dst_addr tcp) = (tcp_src_addr syn, tcp_dst_addr syn)"
    and fl: "tcp_is_ack tcp" "\<not> tcp_is_rst tcp" "\<not> tcp_is_fin tcp" and num: "tcp_acknowledgement (tcp_layer tcp) = seq_adv (ev_rng ev) 1"
    and sack: "tcp_sack (lk_pnet lk) tcp = Some None"
  shows "\<exists>rd1 rd2. handle_tcp_syn lk ev rd syn = Some (Ok (), rd1) \<and> handle_tcp lk ev' rd1 tcp [] = Some (Ok (), rd2) \<and>
    fetching st (seq_adv (ev_rng ev) 1) (tcp_src_addr syn, tcp_dst_addr syn) 0 0 rd2"
proof -
  let ?src = "tcp_src_addr syn" and ?dst = "tcp_dst_addr syn" and ?s0 = "seq_adv (ev_rng ev) 1"
  have addr: "tcp_src_addr tcp = ?src" "tcp_dst_addr tcp = ?dst" using key by simp_all
  obtain rd1 x t where s1: "handle_tcp_syn lk ev rd syn = do {
      rd \<leftarrow> tasks_run lk (ev_now ev) (ev_await ev) rd1; syn_connect lk ev (?src, ?dst) x rd }"
    "rd_inv rd1" "rd_streams rd1 (?src, ?dst) = None" "get_state (rd_tx rd1) ?dst ?src = Some t"
    and rel: "\<And>st w t'. sw_written w = [] \<Longrightarrow> tx_keeps t t' \<Longrightarrow> relays st (first_number syn) w x t'"
    and fin: "rx_fin_sequence x = None" and fresh: "fresh (ev_rng ev) t"
    and server: "connect_result ev rd1 ?dst = connect_result ev rd ?dst"
    by (rule handle_tcp_syn_eq [OF inv free syn, of ev]) (rule that; (assumption | blast))
  obtain rd2 t2 where s2: "tasks_run lk (ev_now ev) (ev_await ev) rd1 = Some rd2" "rd_inv rd2" "rd_streams rd2 (?src, ?dst) = None"
      "get_state (rd_tx rd2) ?dst ?src = Some t2" "tx_keeps t t2" "connect_result ev rd2 ?dst = connect_result ev rd1 ?dst"
    by (rule tasks_run_free [OF lk s1(2,3,4) ts])
  have safe: "rd_safe rd1" using s1(2) by (simp add: rd_inv_def)
  have "t2 = t" using tasks_run_other [OF lk safe ts s1(3) s2(1)] s1(4) s2(4) by (simp add: get_state_def)
  obtain rd3 w t3 where s3: "syn_connect lk ev (?src, ?dst) x rd2 = Some (Ok (), rd3)" "at_conn (?src, ?dst) rd3 w x t3"
      "sw_written w = []" "tx_keeps t2 t3" "t3 = update_syn_timer t2 (ev_now ev)" "sw_reader w" "\<not> sw_is_read_closed w" "\<not> sw_is_write_closed w"
    by (rule syn_connect_accept [OF lk s2(2,3,4) conn [folded server s2(6)]])
  have inv3: "rd_inv rd3" by (rule at_conn_inv [OF s3(2) rel [OF s3(3) tx_keeps_trans [OF s2(5) s3(4)]]])
  note d3 = at_connD [OF s3(2)]
  have "tx_ok t" using s1(2,4) fw_inv_conn by (auto simp: rd_inv_def rd_safe_def conn_ok_def)
  then obtain t4 where t4: "acknowledge t3 ?s0 (ev_now ev') = Some t4" "tx_ok t4" "fetched st ?s0 0 0 t4"
      "q_capacity (tx_cache t4) = q_capacity (tx_cache t)"
    unfolding s3(5) \<open>t2 = t\<close> by (rule acknowledge_opening [OF _ fresh])
  have cap: "q_capacity (tx_cache t4) = q_capacity (tx_cache t3)" using t4(4) s3(4) \<open>t2 = t\<close> by (simp add: tx_keeps_def)
  have d: "downloads st ?s0 0 0 ?dst ?src (set_state (rd_tx rd3) ?dst ?src (set_send_window t4 win))"
    if "win \<le> q_capacity (tx_cache t3)" for win
    by (rule set_window_downloads [OF d3(2,7) t4(2) cap that t4(3)])
      (use fetched_parts(1) [OF t4(3)] in \<open>simp add: sent_up_to_def\<close>)
  obtain rd4 where "handle_tcp lk ev' rd3 tcp [] = Some (Ok (), rd4)" "fetching st ?s0 (?src, ?dst) 0 0 rd4"
    by (rule handle_ack_fetching [where tcp = tcp, unfolded addr, OF lk inv3 fl d3(3) s3(6-8) d3(4) fin d3(5) _ d sack, of ev' "[]"])
      (use t4(1) num in \<open>simp_all add: MAX_U32_WINDOW_SIZE_def\<close>)
  then show ?thesis using s1(1) s2(1) s3(1) by auto
qed

end
