(* ===== verification/Fetches.thy ===== *)
theory Fetches
  imports Downloads Runs
begin

text \<open>
  The download of a whole stream: the server sends its bytes in pieces of any size, the timer of the
  connection ticks, and the device acknowledges what it has received, in any order of these events. What
  is sent, and how many events it takes until the device has acknowledged all of it.
\<close>

declare split_paired_All [simp del] split_paired_Ex [simp del]

section \<open>Runs\<close>

text \<open>
  An event: the reader of the connection gets the next \<open>k\<close> bytes, its ticker runs, or the device
  acknowledges the first \<open>m\<close> bytes. Beside the \<open>Redirector\<close>, the number of acknowledged bytes and that
  of the bytes read are kept.
\<close>

datatype fetch_event = Server_data nat instant | Timer_tick instant | Device_ack env tcp nat

fun fetch_event_run :: "link \<Rightarrow> (nat \<Rightarrow> u8) \<Rightarrow> conn_key \<Rightarrow> fetch_event \<Rightarrow> nat \<times> nat \<times> 'l redirector \<Rightarrow> (nat \<times> nat \<times> 'l redirector) option" where
  "fetch_event_run lk st key (Server_data k now) (a, n, rd) =
     map_option (\<lambda>rd. (a, n + k, rd)) (task_run lk now (Reader key (Read_ok (map st [n..<n + k]))) rd)"
| "fetch_event_run lk st key (Timer_tick now) (a, n, rd) = map_option (\<lambda>rd. (a, n, rd)) (task_run lk now (Ticker key) rd)"
| "fetch_event_run lk st key (Device_ack ev tcp m) (a, n, rd) = map_option (\<lambda>(_, rd). (max a m, n, rd)) (handle_tcp lk ev rd tcp [])"

text \<open>The events of a stream of \<open>N\<close> bytes; the device acknowledges only what has been sent.\<close>

fun fetch_event_ok :: "link \<Rightarrow> u32 \<Rightarrow> conn_key \<Rightarrow> nat \<Rightarrow> fetch_event \<Rightarrow> nat \<times> nat \<times> 'l redirector \<Rightarrow> bool" where
  "fetch_event_ok lk s0 key N (Server_data k now) (a, n, rd) \<longleftrightarrow> 0 < k \<and> n + k \<le> N"
| "fetch_event_ok lk s0 key N (Timer_tick now) (a, n, rd) \<longleftrightarrow> True"
| "fetch_event_ok lk s0 key N (Device_ack ev tcp m) (a, n, rd) \<longleftrightarrow> device_ack lk s0 key a (sent_count key a rd) tcp m"

text \<open>The number of bytes sent, and an acknowledgement of all of them that leaves the window open.\<close>

definition sent_of :: "conn_key \<Rightarrow> nat \<times> nat \<times> 'l redirector \<Rightarrow> nat" where
  "sent_of key s = sent_count key (fst s) (snd (snd s))"

definition acks_all :: "conn_key \<Rightarrow> nat \<times> nat \<times> 'l redirector \<Rightarrow> fetch_event \<Rightarrow> bool" where
  "acks_all key s e \<longleftrightarrow>
     (case e of Device_ack ev tcp m \<Rightarrow> m = sent_of key s \<and> tcp_window (tcp_layer tcp) \<noteq> 0 | _ \<Rightarrow> False)"

text \<open>What is kept of a run: the connection and that it has read no more than there is.\<close>

definition in_fetch :: "(nat \<Rightarrow> u8) \<Rightarrow> u32 \<Rightarrow> conn_key \<Rightarrow> nat \<Rightarrow> nat \<times> nat \<times> 'l redirector \<Rightarrow> bool" where
  "in_fetch st s0 key N s \<longleftrightarrow> (case s of (a, n, rd) \<Rightarrow> fetching st s0 key a n rd \<and> n \<le> N)"

lemma sent_of_bounds:
  assumes "in_fetch st s0 key N (a, n, rd)"
  shows "a \<le> sent_of key (a, n, rd)" and "sent_of key (a, n, rd) \<le> n"
proof -
  obtain src dst where key: "key = (src, dst)" by force
  obtain t where t: "get_state (rd_tx rd) dst src = Some t" "fetched st s0 a n t"
    using assms fetching_at [of st s0 src dst a n rd] by (auto simp: in_fetch_def key)
  have "sent_count key a rd = a + q_size (tx_cache t)" using t(1) by (intro sent_count_eq) (simp add: key)
  with fetched_parts(1) [OF t(2)] show "a \<le> sent_of key (a, n, rd)" "sent_of key (a, n, rd) \<le> n" by (simp_all add: sent_of_def)
qed

lemma fetch_event_step:
  assumes lk: "link_ok lk" and N: "N + MAX_U32_WINDOW_SIZE < 4294967295" and s: "in_fetch st s0 key N s" and ok: "fetch_event_ok lk s0 key N e s"
  obtains s' where "fetch_event_run lk st key e s = Some s'" and "in_fetch st s0 key N s'"
    and "delivers st s0 N (snd key) (fst key) (rd_tx (snd (snd s))) (rd_tx (snd (snd s')))"
    and "fst s \<le> fst s'" and "fst (snd s) \<le> fst (snd s')" and "sent_of key s \<le> sent_of key s'"
    and "acks_all key s e \<Longrightarrow> fst s' = sent_of key s \<and> (sent_of key s < fst (snd s) \<longrightarrow> sent_of key s < sent_of key s')"
proof -
  obtain a n rd where eq: "s = (a, n, rd)" by (cases s) auto
  then have f: "fetching st s0 key a n rd" "n \<le> N" using s by (simp_all add: in_fetch_def)
  show ?thesis
  proof (cases e)
    case (Server_data k now)
    then have k: "0 < k" "n + k \<le> N" "n + k + MAX_U32_WINDOW_SIZE < 4294967295" using ok eq N by simp_all
    obtain rd' where r: "task_run lk now (Reader key (Read_ok (map st [n..<n + k]))) rd = Some rd'" "fetching st s0 key a (n + k) rd'"
        "delivers st s0 (n + k) (snd key) (fst key) (rd_tx rd) (rd_tx rd')" "sent_count key a rd \<le> sent_count key a rd'"
      by (rule fetch_read_step [OF lk f(1) k(1,3)])
    show ?thesis
      by (rule that [of "(a, n + k, rd')"])
        (use r k eq Server_data delivers_mono [OF r(3) k(2)] in \<open>simp_all add: in_fetch_def sent_of_def acks_all_def\<close>)
  next
    case (Timer_tick now)
    have n: "n + MAX_U32_WINDOW_SIZE < 4294967295" using f(2) N by simp
    obtain rd' where r: "task_run lk now (Ticker key) rd = Some rd'" "fetching st s0 key a n rd'"
        "delivers st s0 n (snd key) (fst key) (rd_tx rd) (rd_tx rd')" "sent_count key a rd' = sent_count key a rd"
      by (rule fetch_tick_step [OF lk f(1) n])
    show ?thesis
      by (rule that [of "(a, n, rd')"])
        (use r f eq Timer_tick delivers_mono [OF r(3) f(2)] in \<open>simp_all add: in_fetch_def sent_of_def acks_all_def\<close>)
  next
    case (Device_ack ev tcp m)
    then have ack: "device_ack lk s0 key a (sent_count key a rd) tcp m" using ok eq by simp
    have n: "n + MAX_U32_WINDOW_SIZE < 4294967295" using f(2) N by simp
    obtain rd' where r: "handle_tcp lk ev rd tcp [] = Some (Ok (), rd')" "fetching st s0 key (max a m) n rd'"
        "delivers st s0 n (snd key) (fst key) (rd_tx rd) (rd_tx rd')" "sent_count key a rd \<le> sent_count key (max a m) rd'"
        "m = sent_count key a rd \<Longrightarrow> m < n \<Longrightarrow> tcp_window (tcp_layer tcp) \<noteq> 0 \<Longrightarrow> m < sent_count key (max a m) rd'"
      by (rule fetch_ack_step [OF lk f(1) ack n, of ev]) (rule that; (assumption | blast))
    have "a \<le> sent_count key a rd" using sent_of_bounds(1) [of st s0 key N a n rd] s eq by (simp add: sent_of_def)
    with r f eq Device_ack delivers_mono [OF r(3) f(2)] show ?thesis
      by (intro that [of "(max a m, n, rd')"]) (auto simp: in_fetch_def sent_of_def acks_all_def)
  qed
qed

text \<open>
  The contract of the events. What is kept from one state to the next: only bytes of the stream have been sent,
  and nothing that was acknowledged is taken back. Data from the server and an acknowledgement of all that has been sent,
  while not all of what was read is acknowledged, bring the download forward.
\<close>

definition fetch_rel :: "(nat \<Rightarrow> u8) \<Rightarrow> u32 \<Rightarrow> conn_key \<Rightarrow> nat \<Rightarrow> nat \<times> nat \<times> 'l redirector \<Rightarrow> nat \<times> nat \<times> 'l redirector \<Rightarrow> bool" where
  "fetch_rel st s0 key N s s' \<longleftrightarrow> fst s \<le> fst s' \<and>
     delivers st s0 N (snd key) (fst key) (rd_tx (snd (snd s))) (rd_tx (snd (snd s')))"

definition fetch_push :: "conn_key \<Rightarrow> nat \<times> nat \<times> 'l redirector \<Rightarrow> fetch_event \<Rightarrow> bool" where
  "fetch_push key s e \<longleftrightarrow> (case e of Server_data _ _ \<Rightarrow> True | _ \<Rightarrow> acks_all key s e \<and> fst s < fst (snd s))"

definition fetch_count :: "conn_key \<Rightarrow> nat \<times> nat \<times> 'l redirector \<Rightarrow> nat" where
  "fetch_count key s = fst s + fst (snd s) + sent_of key s"

lemma fetch_step_ok:
  assumes "link_ok lk \<and> N + MAX_U32_WINDOW_SIZE < 4294967295 \<and> in_fetch st s0 key N s" and ok: "fetch_event_ok lk s0 key N e s"
  shows "\<exists>s'. fetch_event_run lk st key e s = Some s' \<and>
    (link_ok lk \<and> N + MAX_U32_WINDOW_SIZE < 4294967295 \<and> in_fetch st s0 key N s') \<and> fetch_rel st s0 key N s s' \<and>
    fetch_count key s \<le> fetch_count key s' \<and> (fetch_push key s e \<and> \<not> N \<le> fst s \<longrightarrow> fetch_count key s < fetch_count key s')"
proof -
  have lk: "link_ok lk" and N: "N + MAX_U32_WINDOW_SIZE < 4294967295" and f: "in_fetch st s0 key N s" using assms(1) by simp_all
  obtain a n rd where s: "s = (a, n, rd)" by (cases s) auto
  obtain s' where s': "fetch_event_run lk st key e s = Some s'" "in_fetch st s0 key N s'"
      "delivers st s0 N (snd key) (fst key) (rd_tx (snd (snd s))) (rd_tx (snd (snd s')))"
      "fst s \<le> fst s'" "fst (snd s) \<le> fst (snd s')" "sent_of key s \<le> sent_of key s'"
      "acks_all key s e \<Longrightarrow> fst s' = sent_of key s \<and> (sent_of key s < fst (snd s) \<longrightarrow> sent_of key s < sent_of key s')"
    by (rule fetch_event_step [OF lk N f ok]) (rule that; (assumption | blast))
  have "fetch_count key s < fetch_count key s'" if push: "fetch_push key s e"
  proof (cases "acks_all key s e")
    case True
    then have "fst s < fst (snd s)" using push by (auto simp: fetch_push_def acks_all_def split: fetch_event.splits)
    with s'(4-7) True sent_of_bounds [OF f [unfolded s]] s show ?thesis by (cases "sent_of key s < fst (snd s)") (simp_all add: fetch_count_def)
  next
    case False
    then obtain k now where e: "e = Server_data k now" using push by (auto simp: fetch_push_def split: fetch_event.splits)
    then have "fst (snd s) < fst (snd s')" using s'(1) ok s by auto
    with s'(4,6) show ?thesis by (simp add: fetch_count_def)
  qed
  with s' lk N show ?thesis by (intro exI [of _ s']) (auto simp: fetch_rel_def fetch_count_def)
qed

interpretation download: event_system "fetch_event_run lk st key" "fetch_event_ok lk s0 key N"
    "\<lambda>s. link_ok lk \<and> N + MAX_U32_WINDOW_SIZE < 4294967295 \<and> in_fetch st s0 key N s" "fetch_rel st s0 key N"
    "fetch_count key" "fetch_push key" "\<lambda>s. N \<le> fst s" "3 * N" for lk st s0 key N
proof unfold_locales
  fix s s' s'' :: "nat \<times> nat \<times> 'a redirector" and e :: fetch_event
  show "fetch_rel st s0 key N s s" by (simp add: fetch_rel_def)
  show "fetch_rel st s0 key N s s' \<Longrightarrow> fetch_rel st s0 key N s' s'' \<Longrightarrow> fetch_rel st s0 key N s s''"
    by (auto simp: fetch_rel_def intro: delivers_trans)
  assume inv: "link_ok lk \<and> N + MAX_U32_WINDOW_SIZE < 4294967295 \<and> in_fetch st s0 key N s"
  obtain a n rd where s: "s = (a, n, rd)" by (cases s) auto
  then have "n \<le> N" "sent_of key s \<le> n" using inv sent_of_bounds(2) [of st s0 key N a n rd] by (simp_all add: in_fetch_def)
  then show "3 * N \<le> fetch_count key s \<Longrightarrow> N \<le> fst s" using s by (simp add: fetch_count_def)
  assume "fetch_event_ok lk s0 key N e s"
  note step = fetch_step_ok [OF inv this]
  then show "\<exists>s'. fetch_event_run lk st key e s = Some s' \<and> link_ok lk \<and> N + MAX_U32_WINDOW_SIZE < 4294967295 \<and> in_fetch st s0 key N s'"
    by blast
  show "fetch_event_run lk st key e s = Some s' \<Longrightarrow> fetch_rel st s0 key N s s' \<and> fetch_count key s \<le> fetch_count key s' \<and>
      (fetch_push key s e \<and> \<not> N \<le> fst s \<longrightarrow> fetch_count key s < fetch_count key s')" using step by auto
qed

section \<open>Properties\<close>

text \<open>What the device can see of a state of the download.\<close>

lemma in_fetch_sent:
  assumes "in_fetch st s0 key N (a, n, rd)"
  shows "rd_inv rd" and "a \<le> n" and "n \<le> N" and "map_option tx_bytes (fw_states (rd_tx rd) key) = Some (map st [a..<n])"
    and "sent_up_to s0 (sent_of key (a, n, rd)) (snd key) (fst key) (fw_sent (rd_tx rd))"
proof -
  have f: "fetching st s0 key a n rd" using assms by (simp add: in_fetch_def)
  then show "rd_inv rd" by (simp add: fetching_def)
  show "n \<le> N" using assms by (simp add: in_fetch_def)
  show "a \<le> n" using sent_of_bounds [OF assms] by simp
  have d: "downloads st s0 a n (snd key) (fst key) (rd_tx rd)" using f by (simp add: fetching_def)
  obtain x where x: "get_state (rd_tx rd) (snd key) (fst key) = Some x" "fetched st s0 a n x"
      "sent_up_to s0 (a + q_size (tx_cache x)) (snd key) (fst key) (fw_sent (rd_tx rd))"
    by (rule downloads_at [OF d])
  then show "map_option tx_bytes (fw_states (rd_tx rd) key) = Some (map st [a..<n])" by (simp add: get_state_def fetched_def)
  show "sent_up_to s0 (sent_of key (a, n, rd)) (snd key) (fst key) (fw_sent (rd_tx rd))"
    using x sent_count_eq [OF x(1), of a] by (simp add: sent_of_def)
qed

text \<open>The acknowledgements of the sample device, and a connection it has opened.\<close>

definition sample_key :: conn_key where
  "sample_key = (SocketAddrV4 1 80, SocketAddrV4 2 443)"

definition sample_ack :: "u32 \<Rightarrow> tcp" where
  "sample_ack number = (tcp_new_ack 80 443 7 number 1000 None None)\<lparr>tcp_src_ip := 1, tcp_dst_ip := 2\<rparr>"

lemma sample_ack_simps:
  "(tcp_src_addr (sample_ack number), tcp_dst_addr (sample_ack number)) = sample_key" "tcp_window (tcp_layer (sample_ack number)) = 1000"
  "tcp_is_ack (sample_ack number)" "\<not> tcp_is_rst (sample_ack number)" "\<not> tcp_is_syn (sample_ack number)"
  "\<not> tcp_is_fin (sample_ack number)" "tcp_acknowledgement (tcp_layer (sample_ack number)) = number"
  "tcp_sack pn (sample_ack number) = Some None"
  by (simp_all add: sample_ack_def sample_key_def tcp_new_ack_def tcp_from_def tcp_src_addr_def tcp_dst_addr_def tcp_is_ack_def tcp_is_rst_def
      tcp_is_syn_def tcp_is_fin_def TcpFlags_ACK_def TcpFlags_RST_def TcpFlags_SYN_def TcpFlags_FIN_def tcp_sack_def
      tcp_option_buffer_def Let_def)

lemma sample_ack_ok: "m \<le> n \<Longrightarrow> device_ack lk s0 sample_key a n (sample_ack (seq_adv s0 m)) m"
  unfolding device_ack_def by (auto simp: sample_ack_simps intro: exI [of _ "[]"])

lemma sample_fetching:
  obtains rd1 rd where "handle_tcp_syn sample_link sample_env sample_redirector (sample_segment 6 2) = Some (Ok (), rd1)"
    and "handle_tcp sample_link sample_env rd1 (sample_ack (seq_adv 100 1)) [] = Some (Ok (), rd)"
    and "fetching st (seq_adv 100 1) sample_key 0 0 rd"
  using handshake_fetching [OF sample_link_ok sample_redirector_inv sample_redirector_free, of "sample_segment 6 2" sample_env
      "sample_ack (seq_adv 100 1)" sample_env st] sample_ack_simps
  by (auto simp: sample_env_def sample_key_def)

text \<open>
  C4. The download of a stream: whatever the order of data from the server, ticks of the timer and
  acknowledgements of the device, also duplicate ones and ones with selective ranges, each event is handled; every segment that is sent
  carries bytes of the stream at the number they have in it; each byte that is counted as sent has been in
  a segment; and what is acknowledged, what waits for an acknowledgement and what has not been sent yet are
  together exactly what the server has sent.
\<close>

theorem download_run:
  assumes "link_ok lk" and "fetching st s0 key 0 0 rd" and "N + MAX_U32_WINDOW_SIZE < 4294967295"
    and "events_expected (fetch_event_run lk st key) (fetch_event_ok lk s0 key N) es (0, 0, rd)"
  shows "\<exists>a n rd' ss. run_events (fetch_event_run lk st key) es (0, 0, rd) = Some (a, n, rd') \<and> rd_inv rd' \<and> a \<le> n \<and> n \<le> N \<and>
    map_option tx_bytes (fw_states (rd_tx rd') key) = Some (map st [a..<n]) \<and>
    fw_sent (rd_tx rd') = fw_sent (rd_tx rd) @ ss \<and>
    (\<forall>s\<in>set ss. sent_payload s \<noteq> [] \<longrightarrow> carries_stream st s0 N (snd key) (fst key) s) \<and>
    a \<le> sent_of key (a, n, rd') \<and> sent_up_to s0 (sent_of key (a, n, rd')) (snd key) (fst key) (fw_sent (rd_tx rd'))"
proof -
  have start: "link_ok lk \<and> N + MAX_U32_WINDOW_SIZE < 4294967295 \<and> in_fetch st s0 key N (0, 0, rd)"
    using assms(1-3) by (simp add: in_fetch_def)
  obtain s' where r: "run_events (fetch_event_run lk st key) es (0, 0, rd) = Some s'" "in_fetch st s0 key N s'"
      "fetch_rel st s0 key N (0, 0, rd) s'"
    using download.run_ok [OF start assms(4)] by blast
  obtain a n rd' where s': "s' = (a, n, rd')" by (cases s') auto
  note f = in_fetch_sent [OF r(2) [unfolded s']] sent_of_bounds(1) [OF r(2) [unfolded s']]
  obtain ss where "fw_sent (rd_tx rd') = fw_sent (rd_tx rd) @ ss"
      "\<forall>s\<in>set ss. sent_payload s \<noteq> [] \<longrightarrow> carries_stream st s0 N (snd key) (fst key) s"
    using r(3) s' by (auto simp: fetch_rel_def delivers_def)
  with r(1) s' f show ?thesis by (intro exI [of _ a] exI [of _ n] exI [of _ rd'] exI [of _ ss]) simp
qed

theorem download_run_witness:
  "\<exists>rd1 rd a n rd'. handle_tcp_syn sample_link sample_env sample_redirector (sample_segment 6 2) = Some (Ok (), rd1) \<and>
    handle_tcp sample_link sample_env rd1 (sample_ack (seq_adv 100 1)) [] = Some (Ok (), rd) \<and>
    run_events (fetch_event_run sample_link sample_stream sample_key)
      [Server_data 2 5, Timer_tick 6, Device_ack sample_env (sample_ack (seq_adv 100 1)) 0] (0, 0, rd) = Some (a, n, rd') \<and>
    map_option tx_bytes (fw_states (rd_tx rd') sample_key) = Some (map sample_stream [a..<n])"
proof -
  obtain rd1 rd where c: "handle_tcp_syn sample_link sample_env sample_redirector (sample_segment 6 2) = Some (Ok (), rd1)"
      "handle_tcp sample_link sample_env rd1 (sample_ack (seq_adv 100 1)) [] = Some (Ok (), rd)"
      "fetching sample_stream (seq_adv 100 1) sample_key 0 0 rd" by (rule sample_fetching)
  have N: "2 + MAX_U32_WINDOW_SIZE < 4294967295" by (simp add: MAX_U32_WINDOW_SIZE_def)
  have "events_expected (fetch_event_run sample_link sample_stream sample_key) (fetch_event_ok sample_link (seq_adv 100 1) sample_key 2)
      [Server_data 2 5, Timer_tick 6, Device_ack sample_env (sample_ack (seq_adv 100 1)) 0] (0, 0, rd)"
    using sample_ack_ok [of 0 _ sample_link "seq_adv 100 1"] by (auto split: option.split)
  from download_run [OF sample_link_ok c(3) N this] c(1,2) show ?thesis by blast
qed

text \<open>
  C6. The download makes progress: as long as the device has not acknowledged all of a stream of \<open>N\<close> bytes,
  let it happen again and again that the server sends more of it or that the device acknowledges all that has
  been sent with an open window while something is outstanding. Then after finitely many events the device has
  acknowledged the whole stream, which has been sent to it completely and with no byte in a wrong place.
\<close>

theorem download_completes:
  assumes "link_ok lk" and "fetching st s0 key 0 0 rd" and "N + MAX_U32_WINDOW_SIZE < 4294967295"
    and "\<And>i. events_expected (fetch_event_run lk st key) (fetch_event_ok lk s0 key N) (map e [0..<i]) (0, 0, rd)"
    and "persistent (fetch_event_run lk st key) (\<lambda>s. N \<le> fst s) (fetch_push key) e (0, 0, rd)"
  shows "\<exists>i rd' ss. after_events (fetch_event_run lk st key) e (0, 0, rd) i = Some (N, N, rd') \<and> rd_inv rd' \<and>
    map_option tx_bytes (fw_states (rd_tx rd') key) = Some [] \<and> fw_sent (rd_tx rd') = fw_sent (rd_tx rd) @ ss \<and>
    (\<forall>s\<in>set ss. sent_payload s \<noteq> [] \<longrightarrow> carries_stream st s0 N (snd key) (fst key) s) \<and>
    sent_up_to s0 N (snd key) (fst key) (fw_sent (rd_tx rd'))"
proof -
  have start: "link_ok lk \<and> N + MAX_U32_WINDOW_SIZE < 4294967295 \<and> in_fetch st s0 key N (0, 0, rd)"
    using assms(1-3) by (simp add: in_fetch_def)
  obtain i s' where r: "after_events (fetch_event_run lk st key) e (0, 0, rd) i = Some s'" "in_fetch st s0 key N s'"
      "fetch_rel st s0 key N (0, 0, rd) s'" "N \<le> fst s'"
    using download.eventually_fin [OF start assms(4,5)] by blast
  obtain a n rd' where s': "s' = (a, n, rd')" by (cases s') auto
  note f = in_fetch_sent [OF r(2) [unfolded s']] sent_of_bounds [OF r(2) [unfolded s']]
  have eq: "a = N" "n = N" "sent_of key (a, n, rd') = N" using f r(4) s' by auto
  obtain ss where "fw_sent (rd_tx rd') = fw_sent (rd_tx rd) @ ss"
      "\<forall>s\<in>set ss. sent_payload s \<noteq> [] \<longrightarrow> carries_stream st s0 N (snd key) (fst key) s"
    using r(3) s' by (auto simp: fetch_rel_def delivers_def)
  with r(1) s' f eq show ?thesis by (intro exI [of _ i] exI [of _ rd'] exI [of _ ss]) simp
qed

text \<open>
  The sample server sends one byte; the device first acknowledges what has been sent then, which may be
  nothing, and from then on the byte.
\<close>

definition sample_fetch :: "nat \<Rightarrow> nat \<Rightarrow> fetch_event" where
  "sample_fetch k i = (if i = 0 then Server_data 1 4
     else Device_ack sample_env (sample_ack (seq_adv (seq_adv 100 1) (if i = 1 then k else 1))) (if i = 1 then k else 1))"

text \<open>Once the byte has been sent, each acknowledgement of it is expected and completes the download.\<close>

definition byte_sent :: "(nat \<Rightarrow> u8) \<Rightarrow> nat \<times> nat \<times> 'l redirector \<Rightarrow> bool" where
  "byte_sent st s \<longleftrightarrow> in_fetch st (seq_adv 100 1) sample_key 1 s \<and> fst (snd s) = 1 \<and> sent_of sample_key s = 1"

lemma byte_sentI:
  assumes "in_fetch st (seq_adv 100 1) sample_key 1 s" and "1 \<le> sent_of sample_key s"
  shows "byte_sent st s"
proof -
  obtain a n rd where s: "s = (a, n, rd)" by (cases s) auto
  with assms sent_of_bounds(2) [of st "seq_adv 100 1" sample_key 1 a n rd] show ?thesis by (auto simp: byte_sent_def in_fetch_def)
qed

lemma byte_acked:
  assumes "byte_sent st s" and "e = Device_ack sample_env (sample_ack (seq_adv (seq_adv 100 1) 1)) 1"
  shows "fetch_event_ok sample_link (seq_adv 100 1) sample_key 1 e s" and "1 \<le> fst s \<or> fetch_push sample_key s e"
    and "\<exists>s'. fetch_event_run sample_link st sample_key e s = Some s' \<and> byte_sent st s'"
proof -
  obtain a n rd where s: "s = (a, n, rd)" by (cases s) auto
  have N: "1 + MAX_U32_WINDOW_SIZE < 4294967295" by (simp add: MAX_U32_WINDOW_SIZE_def)
  have f: "in_fetch st (seq_adv 100 1) sample_key 1 s" "n = 1" "sent_of sample_key s = 1" using assms(1) s by (auto simp: byte_sent_def)
  then show ok: "fetch_event_ok sample_link (seq_adv 100 1) sample_key 1 e s" using s assms(2) by (simp add: sent_of_def sample_ack_ok)
  show "1 \<le> fst s \<or> fetch_push sample_key s e"
    using f s assms(2) by (auto simp: fetch_push_def acks_all_def sample_ack_simps)
  obtain s' where "fetch_event_run sample_link st sample_key e s = Some s'" "in_fetch st (seq_adv 100 1) sample_key 1 s'"
      "sent_of sample_key s \<le> sent_of sample_key s'"
    by (rule fetch_event_step [OF sample_link_ok N f(1) ok])
  with f(3) byte_sentI [of st s'] show "\<exists>s'. fetch_event_run sample_link st sample_key e s = Some s' \<and> byte_sent st s'" by simp
qed

lemma bytes_acked:
  assumes "byte_sent st s" and "e = Device_ack sample_env (sample_ack (seq_adv (seq_adv 100 1) 1)) 1"
  shows "events_expected (fetch_event_run sample_link st sample_key) (fetch_event_ok sample_link (seq_adv 100 1) sample_key 1) (map (\<lambda>_. e) xs) s \<and>
    (\<exists>s'. run_events (fetch_event_run sample_link st sample_key) (map (\<lambda>_. e) xs) s = Some s' \<and> byte_sent st s')"
  using assms(1)
proof (induction xs arbitrary: s)
  case (Cons x xs)
  from byte_acked [OF Cons.prems assms(2)] Cons.IH show ?case by fastforce
qed simp

lemma sample_fetch_start:
  assumes f: "fetching st (seq_adv 100 1) sample_key 0 0 rd"
  obtains k s2 where "events_expected (fetch_event_run sample_link st sample_key) (fetch_event_ok sample_link (seq_adv 100 1) sample_key 1)
      (map (sample_fetch k) [0..<2]) (0, 0, rd)"
    and "run_events (fetch_event_run sample_link st sample_key) (map (sample_fetch k) [0..<2]) (0, 0, rd) = Some s2" and "byte_sent st s2"
proof -
  let ?run = "fetch_event_run sample_link st sample_key" and ?ok = "fetch_event_ok sample_link (seq_adv 100 1) sample_key 1"
  have N: "1 + MAX_U32_WINDOW_SIZE < 4294967295" by (simp add: MAX_U32_WINDOW_SIZE_def)
  have start: "in_fetch st (seq_adv 100 1) sample_key 1 (0, 0, rd)" "?ok (Server_data 1 4) (0, 0, rd)" using f by (simp_all add: in_fetch_def)
  obtain s1 where s1: "?run (Server_data 1 4) (0, 0, rd) = Some s1" "in_fetch st (seq_adv 100 1) sample_key 1 s1"
    by (rule fetch_event_step [OF sample_link_ok N start])
  obtain a n rd1 where s: "s1 = (a, n, rd1)" by (cases s1) auto
  have n: "n = 1" using s1(1) s by auto
  define k where "k = sent_of sample_key s1"
  define e where "e = Device_ack sample_env (sample_ack (seq_adv (seq_adv 100 1) k)) k"
  have e: "?ok e s1" "acks_all sample_key s1 e"
    using s by (simp_all add: e_def acks_all_def sample_ack_simps sample_ack_ok k_def sent_of_def)
  obtain s2 where s2: "?run e s1 = Some s2" "in_fetch st (seq_adv 100 1) sample_key 1 s2" "k \<le> sent_of sample_key s2"
      "k < fst (snd s1) \<longrightarrow> k < sent_of sample_key s2"
    by (rule fetch_event_step [OF sample_link_ok N s1(2) e(1)]) (use e(2) that k_def in blast)
  have "1 \<le> sent_of sample_key s2" using s2(3,4) s n by auto
  moreover have "map (sample_fetch k) [0..<2] = [Server_data 1 4, e]" by (simp add: sample_fetch_def e_def upt_rec)
  ultimately show ?thesis using that [of k s2] byte_sentI [OF s2(2)] start(2) e(1) s1(1) s2(1)
    by (simp del: fetch_event_run.simps fetch_event_ok.simps)
qed

theorem download_completes_witness:
  "\<exists>rd1 rd k i rd'. handle_tcp_syn sample_link sample_env sample_redirector (sample_segment 6 2) = Some (Ok (), rd1) \<and>
    handle_tcp sample_link sample_env rd1 (sample_ack (seq_adv 100 1)) [] = Some (Ok (), rd) \<and>
    after_events (fetch_event_run sample_link sample_stream sample_key) (sample_fetch k) (0, 0, rd) i = Some (1, 1, rd') \<and>
    map_option tx_bytes (fw_states (rd_tx rd') sample_key) = Some [] \<and>
    sent_up_to (seq_adv 100 1) 1 (snd sample_key) (fst sample_key) (fw_sent (rd_tx rd'))"
proof -
  let ?run = "fetch_event_run sample_link sample_stream sample_key" and ?ok = "fetch_event_ok sample_link (seq_adv 100 1) sample_key 1"
    and ?e = "Device_ack sample_env (sample_ack (seq_adv (seq_adv 100 1) 1)) 1"
  obtain rd1 rd where c: "handle_tcp_syn sample_link sample_env sample_redirector (sample_segment 6 2) = Some (Ok (), rd1)"
      "handle_tcp sample_link sample_env rd1 (sample_ack (seq_adv 100 1)) [] = Some (Ok (), rd)"
      "fetching sample_stream (seq_adv 100 1) sample_key 0 0 rd" by (rule sample_fetching)
  obtain k s2 where k: "events_expected ?run ?ok (map (sample_fetch k) [0..<2]) (0, 0, rd)"
      "run_events ?run (map (sample_fetch k) [0..<2]) (0, 0, rd) = Some s2" "byte_sent sample_stream s2"
    by (rule sample_fetch_start [OF c(3)])
  have N: "1 + MAX_U32_WINDOW_SIZE < 4294967295" by (simp add: MAX_U32_WINDOW_SIZE_def)
  have split: "map (sample_fetch k) [0..<2 + i] = map (sample_fetch k) [0..<2] @ map (\<lambda>_. ?e) [2..<2 + i]" for i
    unfolding upt_add_eq_append [OF le0] map_append by (auto simp: sample_fetch_def)
  have long: "events_expected ?run ?ok (map (sample_fetch k) [0..<2 + i]) (0, 0, rd)" for i
    unfolding split events_expected_append k(2) option.case using k(1) bytes_acked [OF k(3) refl] by blast
  have expected: "events_expected ?run ?ok (map (sample_fetch k) [0..<i]) (0, 0, rd)" for i
    using long [of i] unfolding add.commute [of 2 i] upt_add_eq_append [OF le0] map_append events_expected_append by simp
  have "case after_events ?run (sample_fetch k) (0, 0, rd) (2 + i) of
      Some s' \<Rightarrow> 1 \<le> fst s' \<or> fetch_push sample_key s' (sample_fetch k (2 + i)) | None \<Rightarrow> True" for i
  proof -
    have e: "sample_fetch k (2 + i) = ?e" by (simp add: sample_fetch_def)
    obtain s' where s': "after_events ?run (sample_fetch k) (0, 0, rd) (2 + i) = Some s'" "byte_sent sample_stream s'"
      unfolding after_events_def split run_events_append k(2) Option.bind.bind_lunit using bytes_acked [OF k(3) refl] by blast
    show ?thesis unfolding s'(1) option.case by (rule byte_acked(2) [OF s'(2) e])
  qed
  then have "persistent ?run (\<lambda>s. 1 \<le> fst s) (fetch_push sample_key) (sample_fetch k) (0, 0, rd)"
    unfolding persistent_def using le_add2 by blast
  from download_completes [OF sample_link_ok c(3) N expected this] c(1,2) show ?thesis by blast
qed

end
