(* ===== verification/Closing.thy ===== *)
theory Closing
  imports Fetches
begin

text \<open>
  The end of a connection. A FIN of the device all of whose data has arrived is acknowledged and ends the
  writing to the SOCKS server. The other two ways in which the handlers end a connection take more with them
  than they should: data for the device that waits in the queue, and a stream that is only half closed.
\<close>

declare split_paired_All [simp del] split_paired_Ex [simp del]

section \<open>Handlers\<close>

text \<open>The acknowledgement without data that the handlers send.\<close>

lemma send_tcp_ack_0_frame:
  assumes lk: "link_ok lk" and x: "get_state f dst src = Some x"
  obtains f' fr tcp where "send_tcp_ack_0 lk f dst src = Some (Ok (), f')" and "fw_sent f' = fw_sent f @ [fr]"
    and "bare_segment fr dst src tcp" and "tcp_is_ack tcp"
    and "tcp_sequence (tcp_layer tcp) = tx_sequence x" and "tcp_acknowledgement (tcp_layer tcp) = tx_acknowledgement x"
proof -
  obtain win where win: "get_tcp_window f dst src = Some win" using x by (auto simp: get_tcp_window_def)
  define u where "u = tcp_new_ack (port dst) (port src) (tx_sequence x) (tx_acknowledgement x) win (tx_sacks x) None"
  obtain fr j where fr: "send_ipv4_with_transport lk f (ip dst) (ip src) (LTcp u) None =
        Some (Ok (), after_send f (ip dst) (ip src) fr)" "sent_payload fr = []"
      "ind_transport (fst fr) = Some (LTcp (tcp_set_ipv4_layer u j))" "ip_source j = ip dst" "ip_destination j = ip src"
    by (rule control_send_ok [OF lk disjI1 [OF u_def] disjI1 [OF refl], of f "ip dst" "ip src"]) blast
  have fields: "tcp_source (tcp_layer u) = port dst" "tcp_destination (tcp_layer u) = port src" "tcp_is_ack u"
      "tcp_sequence (tcp_layer u) = tx_sequence x" "tcp_acknowledgement (tcp_layer u) = tx_acknowledgement x"
    by (auto simp: u_def tcp_new_ack_def tcp_from_def tcp_is_ack_def TcpFlags_ACK_def Let_def)
  show ?thesis
    by (rule that [of "after_send f (ip dst) (ip src) fr" fr "tcp_set_ipv4_layer u j"])
      (use fr fields x win in \<open>simp_all add: send_tcp_ack_0_def u_def [symmetric] bare_segment_def
        sent_tcp_def indicator_tcp_def tcp_src_addr_def tcp_dst_addr_def tcp_set_ipv4_layer_def tcp_is_ack_def\<close>)
qed

text \<open>A FIN at the number that is expected next, up to what depends on the reader.\<close>

lemma fin_at_end:
  assumes lk: "link_ok lk" and inv: "rd_inv rd" and w: "rd_streams rd (tcp_src_addr tcp, tcp_dst_addr tcp) = Some w"
    and x: "rd_states rd (tcp_src_addr tcp, tcp_dst_addr tcp) = Some x" and t: "fw_states (rd_tx rd) (tcp_src_addr tcp, tcp_dst_addr tcp) = Some t"
    and fin: "tcp_is_fin tcp" "seq_adv (tcp_sequence (tcp_layer tcp)) (length payload) = rx_recv_next x"
  obtains rd' x' fr reply where "at_conn (tcp_src_addr tcp, tcp_dst_addr tcp) rd' w x' (add_acknowledgement t 1)"
    and "rx_recv_next x' = seq_adv (rx_recv_next x) 1" and "rx_fin_sequence x' = None"
    and "fw_sent (rd_tx rd') = fw_sent (rd_tx rd) @ [fr]" and "bare_segment fr (tcp_dst_addr tcp) (tcp_src_addr tcp) reply"
    and "tcp_is_ack reply" and "tcp_acknowledgement (tcp_layer reply) = seq_adv (rx_recv_next x) 1"
    and "handle_tcp_fin lk rd tcp payload =
      (if \<not> sw_is_read_closed w then do {
         stream \<leftarrow> stream_shutdown_write w;
         Some (Ok (), put_stream rd' (tcp_src_addr tcp, tcp_dst_addr tcp) stream)
       } else do { rd \<leftarrow> clean_up rd' (tcp_src_addr tcp) (tcp_dst_addr tcp); Some (Ok (), rd) })"
proof -
  let ?src = "tcp_src_addr tcp" and ?dst = "tcp_dst_addr tcp"
  obtain sm s0 where at: "at_conn (?src, ?dst) rd w x t" and rel: "relays sm s0 w x t"
    using rd_inv_at [OF inv w] x t by (metis at_conn_def option.inject)
  note d = at_connD [OF at]
  define y where "y = set_fin_sequence x (rx_recv_next x)"
  define x' where "x' = add_recv_next (admit_fin y) 1"
  let ?t = "add_acknowledgement t 1"
  have y: "rx_fin_sequence y = Some (rx_recv_next y)" by (simp add: y_def set_fin_sequence_def)
  obtain rd1 where rd1: "update_tx (put_rx (put_rx rd (?src, ?dst) y) (?src, ?dst) x') ?dst ?src (\<lambda>x. Some (add_acknowledgement x 1)) = Some rd1"
      "at_conn (?src, ?dst) rd1 w x' ?t"
    by (rule at_conn_update_tx [where g = "\<lambda>x. Some (add_acknowledgement x 1)",
          OF at_conn_put_rx [OF at_conn_put_rx [OF at]] refl conn_ok_simple(1) [OF d(7)]])
  obtain f fr reply where f: "send_tcp_ack_0 lk (rd_tx rd1) ?dst ?src = Some (Ok (), f)" "fw_sent f = fw_sent (rd_tx rd1) @ [fr]"
      "bare_segment fr ?dst ?src reply" "tcp_is_ack reply" "tcp_acknowledgement (tcp_layer reply) = tx_acknowledgement ?t"
    by (rule send_tcp_ack_0_frame [OF lk at_connD(5) [OF rd1(2)]])
  define rd2 where "rd2 = rd1\<lparr>rd_tx := f\<rparr>"
  have q: "fw_quiet (rd_tx rd1) f" by (rule send_tcp_quiet(1) [OF f(1)])
  have inv1: "fw_inv f" by (rule fw_inv_quiet [OF at_connD(2) [OF rd1(2)] q])
  have states: "fw_states f = fw_states (rd_tx rd1)" using q by (simp add: fw_quiet_def)
  have at2: "at_conn (?src, ?dst) rd2 w x' ?t"
    using rd1(2) inv1 states conn_inv_cong [of rd2 _ rd1]
    by (auto simp: at_conn_def rd2_def rd_safe_def)
  have run: "handle_tcp_fin lk rd tcp payload = admit_tcp_fin lk (put_rx rd (?src, ?dst) y) ?src ?dst (\<not> sw_is_read_closed w)"
    using w x fin y by (simp add: handle_tcp_fin_def Let_def flip: y_def)
  have sent: "fw_sent (rd_tx rd1) = fw_sent (rd_tx rd)"
    using rd1(1) by (auto simp: update_tx_def put_rx_def set_state_def split: bind_splits)
  have num: "tx_acknowledgement ?t = seq_adv (rx_recv_next x) 1"
    using relaysD(4) [OF rel] by (simp add: add_acknowledgement_def seq_adv_def)
  show ?thesis
  proof (rule that [OF at2])
    show "rx_recv_next x' = seq_adv (rx_recv_next x) 1" "rx_fin_sequence x' = None"
      by (simp_all add: x'_def y_def add_recv_next_def admit_fin_def set_fin_sequence_def seq_adv_def)
    show "fw_sent (rd_tx rd2) = fw_sent (rd_tx rd) @ [fr]" using f(2) sent by (simp add: rd2_def)
    show "handle_tcp_fin lk rd tcp payload =
      (if \<not> sw_is_read_closed w then do {
         stream \<leftarrow> stream_shutdown_write w;
         Some (Ok (), put_stream rd2 (?src, ?dst) stream)
       } else do { rd \<leftarrow> clean_up rd2 ?src ?dst; Some (Ok (), rd) })"
      unfolding run using rd1(1) f(1) at_connD(3) [OF at2]
      by (simp add: admit_tcp_fin_def put_rx_def on_tx_def rd2_def flip: x'_def)
  qed (use f num in simp_all)
qed

section \<open>Properties\<close>

text \<open>A connection of the sample device, a FIN of it, and the same connection after an error of the SOCKS stream.\<close>

definition sample_fin :: "u32 \<Rightarrow> tcp" where
  "sample_fin number = sample_segment number 17"

lemma sample_fin_simps:
  "(tcp_src_addr (sample_fin number), tcp_dst_addr (sample_fin number)) = sample_key" "tcp_is_fin (sample_fin number)"
  "tcp_sequence (tcp_layer (sample_fin number)) = number"
  by (simp_all add: sample_fin_def sample_key_def tcp_is_fin_def TcpFlags_FIN_def)

lemma sample_connection:
  assumes "fetching sample_stream (seq_adv 100 1) sample_key 0 n rd"
  obtains w x t where "rd_inv rd" and "rd_streams rd sample_key = Some w" and "\<not> sw_is_read_closed w"
    and "rd_states rd sample_key = Some x" and "fw_states (rd_tx rd) sample_key = Some t"
    and "fetched sample_stream (seq_adv 100 1) 0 n t" and "sw_reader w"
proof -
  obtain t where "get_state (rd_tx rd) (snd sample_key) (fst sample_key) = Some t" "fetched sample_stream (seq_adv 100 1) 0 n t"
    using assms downloads_at [of sample_stream "seq_adv 100 1" 0 n "snd sample_key" "fst sample_key" "rd_tx rd"] by (auto simp: fetching_def)
  with assms show ?thesis by (auto simp: fetching_def get_state_def intro: that)
qed

lemma sample_queued:
  obtains rd where "fetching sample_stream (seq_adv 100 1) sample_key 0 2 (rd :: unit redirector)"
proof -
  have small: "0 + 2 + MAX_U32_WINDOW_SIZE < (4294967295 :: nat)" by (simp add: MAX_U32_WINDOW_SIZE_def)
  obtain rd0 :: "unit redirector" where "fetching sample_stream (seq_adv 100 1) sample_key 0 0 rd0"
    by (rule sample_fetching [where st = sample_stream]) (rule that)
  then obtain rd :: "unit redirector" where "fetching sample_stream (seq_adv 100 1) sample_key 0 (0 + 2) rd"
    by (rule fetch_read_step [OF sample_link_ok _ zero_less_numeral small, where now = 0])
  then show ?thesis by (intro that) (simp only: add_0)
qed

text \<open>A FIN of a device whose server has not closed.\<close>

lemma fin_half:
  assumes "link_ok lk" and "rd_inv rd" and "rd_streams rd (tcp_src_addr tcp, tcp_dst_addr tcp) = Some w" and "\<not> sw_is_read_closed w"
    and "rd_states rd (tcp_src_addr tcp, tcp_dst_addr tcp) = Some x" and "fw_states (rd_tx rd) (tcp_src_addr tcp, tcp_dst_addr tcp) = Some t"
    and "tcp_is_fin tcp" and "seq_adv (tcp_sequence (tcp_layer tcp)) (length payload) = rx_recv_next x"
  obtains rd' w' x' fr reply where "handle_tcp_fin lk rd tcp payload = Some (Ok (), rd')"
    and "rd_inv rd'"
    and "rd_streams rd' (tcp_src_addr tcp, tcp_dst_addr tcp) = Some w'"
    and "sw_is_write_closed w'"
    and "\<not> sw_stream_tx w'"
    and "sw_written w' = sw_written w"
    and "sw_is_read_closed w' = sw_is_read_closed w"
    and "rd_states rd' (tcp_src_addr tcp, tcp_dst_addr tcp) = Some x'"
    and "rx_recv_next x' = seq_adv (rx_recv_next x) 1"
    and "rx_fin_sequence x' = None"
    and "fw_states (rd_tx rd') (tcp_src_addr tcp, tcp_dst_addr tcp) = Some (add_acknowledgement t 1)"
    and "fw_sent (rd_tx rd') = fw_sent (rd_tx rd) @ [fr]"
    and "bare_segment fr (tcp_dst_addr tcp) (tcp_src_addr tcp) reply"
    and "tcp_is_ack reply"
    and "tcp_acknowledgement (tcp_layer reply) = seq_adv (rx_recv_next x) 1"
proof -
  let ?src = "tcp_src_addr tcp" and ?dst = "tcp_dst_addr tcp"
  obtain rd1 x' fr reply where f: "at_conn (?src, ?dst) rd1 w x' (add_acknowledgement t 1)"
      "rx_recv_next x' = seq_adv (rx_recv_next x) 1" "rx_fin_sequence x' = None"
      "fw_sent (rd_tx rd1) = fw_sent (rd_tx rd) @ [fr]" "bare_segment fr ?dst ?src reply"
      "tcp_is_ack reply" "tcp_acknowledgement (tcp_layer reply) = seq_adv (rx_recv_next x) 1"
      "handle_tcp_fin lk rd tcp payload =
        (if \<not> sw_is_read_closed w then do {
           stream \<leftarrow> stream_shutdown_write w;
           Some (Ok (), put_stream rd1 (?src, ?dst) stream)
         } else do { rd \<leftarrow> clean_up rd1 ?src ?dst; Some (Ok (), rd) })"
    by (rule fin_at_end [OF assms(1,2,3,5,6,7,8)]) (rule that; (assumption | blast))
  obtain w' where w': "stream_shutdown_write w = Some w'" "worker_ok (?src, ?dst) w'" "\<not> sw_stream_tx w'" "sw_written w' = sw_written w"
    by (rule stream_shutdown_ok [OF at_connD(6) [OF f(1)] assms(4)])
  have closed: "sw_is_write_closed w'" "sw_is_read_closed w' = sw_is_read_closed w"
    using w'(1) by (auto simp: stream_shutdown_write_def split: if_splits)
  have at: "at_conn (?src, ?dst) (put_stream rd1 (?src, ?dst) w') w' x' (add_acknowledgement t 1)"
    by (rule at_conn_put_stream [OF f(1) w'(2)])
  obtain rd2 where fin: "handle_tcp_fin lk rd tcp payload = Some (Ok (), rd2)" "rd_inv rd2" by (rule handle_tcp_fin_ok [OF assms(1,2)])
  have rd2: "rd2 = put_stream rd1 (?src, ?dst) w'" using fin(1) f(8) w'(1) assms(4) by simp
  show ?thesis
    by (rule that [OF fin, of w' x' fr reply]) (use f(2-7) w' closed at rd2 in \<open>auto simp: at_conn_def put_stream_def\<close>)
qed

text \<open>
  C19. A device closes its half: a FIN behind the last byte of its stream is acknowledged with the number behind
  the FIN, the stream to the SOCKS server is closed for writing with all that was written to it, and the
  other direction stays as it is: the connection remains, with every byte that is on its way to the device.
\<close>

theorem fin_closes_half:
  assumes "link_ok lk" and "rd_inv rd" and "rd_streams rd (tcp_src_addr tcp, tcp_dst_addr tcp) = Some w" and "\<not> sw_is_read_closed w"
    and "rd_states rd (tcp_src_addr tcp, tcp_dst_addr tcp) = Some x" and "fw_states (rd_tx rd) (tcp_src_addr tcp, tcp_dst_addr tcp) = Some t"
    and "tcp_is_fin tcp" and "seq_adv (tcp_sequence (tcp_layer tcp)) (length payload) = rx_recv_next x"
  shows "\<exists>rd' w' x' fr reply. handle_tcp_fin lk rd tcp payload = Some (Ok (), rd') \<and> rd_inv rd' \<and>
    rd_streams rd' (tcp_src_addr tcp, tcp_dst_addr tcp) = Some w' \<and> sw_is_write_closed w' \<and> \<not> sw_stream_tx w' \<and>
    sw_written w' = sw_written w \<and> sw_is_read_closed w' = sw_is_read_closed w \<and>
    rd_states rd' (tcp_src_addr tcp, tcp_dst_addr tcp) = Some x' \<and> rx_recv_next x' = seq_adv (rx_recv_next x) 1 \<and>
    rx_fin_sequence x' = None \<and>
    fw_states (rd_tx rd') (tcp_src_addr tcp, tcp_dst_addr tcp) = Some (add_acknowledgement t 1) \<and>
    fw_sent (rd_tx rd') = fw_sent (rd_tx rd) @ [fr] \<and> bare_segment fr (tcp_dst_addr tcp) (tcp_src_addr tcp) reply \<and>
    tcp_is_ack reply \<and> tcp_acknowledgement (tcp_layer reply) = seq_adv (rx_recv_next x) 1"
  by (rule fin_half [OF assms]) blast

theorem fin_closes_half_witness:
  "\<exists>(rd :: unit redirector) number rd' w'. rd_inv rd \<and> handle_tcp_fin sample_link rd (sample_fin number) [] = Some (Ok (), rd') \<and>
    rd_streams rd' sample_key = Some w' \<and> sw_is_write_closed w' \<and>
    map_option tx_bytes (fw_states (rd_tx rd') sample_key) = Some [sample_stream 0, sample_stream 1]"
proof -
  obtain rd :: "unit redirector" where "fetching sample_stream (seq_adv 100 1) sample_key 0 2 rd"
    by (rule sample_queued)
  then obtain w x t where c: "rd_inv rd" "rd_streams rd sample_key = Some w" "\<not> sw_is_read_closed w" "rd_states rd sample_key = Some x"
      "fw_states (rd_tx rd) sample_key = Some t" "fetched sample_stream (seq_adv 100 1) 0 2 t" by (rule sample_connection)
  have bytes: "tx_bytes (add_acknowledgement t 1) = [sample_stream 0, sample_stream 1]"
    using c(6) by (simp add: fetched_def add_acknowledgement_def upt_rec tx_bytes_def)
  have behind: "seq_adv (tcp_sequence (tcp_layer (sample_fin (rx_recv_next x)))) (length []) = rx_recv_next x" by (simp add: sample_fin_simps)
  note half = fin_closes_half [OF sample_link_ok c(1), of "sample_fin (rx_recv_next x)", unfolded sample_fin_simps(1), OF c(2-5) sample_fin_simps(2) behind]
  then obtain rd' w' where "handle_tcp_fin sample_link rd (sample_fin (rx_recv_next x)) [] = Some (Ok (), rd')" "rd_streams rd' sample_key = Some w'"
      "sw_is_write_closed w'" "fw_states (rd_tx rd') sample_key = Some (add_acknowledgement t 1)" by blast
  with c(1) bytes show ?thesis by (intro exI [of _ rd] exI [of _ "rx_recv_next x"] exI [of _ rd'] exI [of _ w']) simp
qed

text \<open>
  C39. A FIN of the device drops data: once the SOCKS server has closed its half, a FIN removes the connection at
  once. What is still in the queue or the cache is neither sent nor kept; the only segment that is
  sent is the acknowledgement of the FIN.
\<close>

theorem fin_drops_queue:
  assumes "link_ok lk" and "rd_inv rd" and "rd_streams rd (tcp_src_addr tcp, tcp_dst_addr tcp) = Some w" and "sw_is_read_closed w"
    and "rd_states rd (tcp_src_addr tcp, tcp_dst_addr tcp) = Some x" and "fw_states (rd_tx rd) (tcp_src_addr tcp, tcp_dst_addr tcp) = Some t"
    and "tcp_is_fin tcp" and "seq_adv (tcp_sequence (tcp_layer tcp)) (length payload) = rx_recv_next x"
  shows "\<exists>rd' fr reply. handle_tcp_fin lk rd tcp payload = Some (Ok (), rd') \<and>
    rd_streams rd' (tcp_src_addr tcp, tcp_dst_addr tcp) = None \<and> fw_states (rd_tx rd') (tcp_src_addr tcp, tcp_dst_addr tcp) = None \<and>
    fw_sent (rd_tx rd') = fw_sent (rd_tx rd) @ [fr] \<and> bare_segment fr (tcp_dst_addr tcp) (tcp_src_addr tcp) reply"
proof -
  let ?src = "tcp_src_addr tcp" and ?dst = "tcp_dst_addr tcp"
  obtain rd1 x' fr reply where f: "at_conn (?src, ?dst) rd1 w x' (add_acknowledgement t 1)"
      "fw_sent (rd_tx rd1) = fw_sent (rd_tx rd) @ [fr]" "bare_segment fr ?dst ?src reply"
      "handle_tcp_fin lk rd tcp payload =
        (if \<not> sw_is_read_closed w then do {
           stream \<leftarrow> stream_shutdown_write w;
           Some (Ok (), put_stream rd1 (?src, ?dst) stream)
         } else do { rd \<leftarrow> clean_up rd1 ?src ?dst; Some (Ok (), rd) })"
    by (rule fin_at_end [OF assms(1,2,3,5,6,7,8)]) (rule that; (assumption | blast))
  obtain rd2 where "clean_up rd1 ?src ?dst = Some rd2" using at_conn_clean_up [OF f(1)] by blast
  moreover from this have "rd_streams rd2 (?src, ?dst) = None" "fw_states (rd_tx rd2) (?src, ?dst) = None" "fw_sent (rd_tx rd2) = fw_sent (rd_tx rd1)"
    by (auto simp: clean_up_def fw_clean_up_def split: bind_splits)
  ultimately show ?thesis using f(2-4) assms(4) by auto
qed

theorem fin_drops_queue_witness:
  "\<exists>(rd :: unit redirector) number rd' t. fw_states (rd_tx rd) sample_key = Some t \<and> tx_bytes t = [sample_stream 0, sample_stream 1] \<and>
    handle_tcp_fin sample_link rd (sample_fin number) [] = Some (Ok (), rd') \<and> fw_states (rd_tx rd') sample_key = None"
proof -
  obtain rd0 :: "unit redirector" where "fetching sample_stream (seq_adv 100 1) sample_key 0 2 rd0"
    by (rule sample_queued)
  then obtain w0 x t where c: "rd_inv rd0" "rd_streams rd0 sample_key = Some w0" "\<not> sw_is_read_closed w0" "rd_states rd0 sample_key = Some x"
      "fw_states (rd_tx rd0) sample_key = Some t" "fetched sample_stream (seq_adv 100 1) 0 2 t" "sw_reader w0" by (rule sample_connection)
  define w where "w = w0\<lparr>sw_is_read_closed := True, sw_is_write_closed := True, sw_reader := False\<rparr>"
  define rd where "rd = put_stream (rd0\<lparr>rd_tx := rd_tx rd0\<rparr>) sample_key w"
  have run: "task_run sample_link 5 (Reader sample_key (Read_err (IoError Other []))) rd0 = Some rd"
    using c(2,3,7) by (simp add: task_run_def reader_step_def rd_def w_def error_kind_def)
  have safe: "rd_safe rd0" using c(1) by (simp add: rd_inv_def)
  have "rd_safe rd" "rd_frame rd0 rd" using task_run_ok [OF sample_link_ok safe, of "Reader sample_key (Read_err (IoError Other []))" 5] run
    by (auto simp: task_ok_def)
  then have d: "rd_inv rd" "rd_streams rd sample_key = Some w" "sw_is_read_closed w" "rd_states rd sample_key = Some x" "fw_states (rd_tx rd) sample_key = Some t"
    using rd_inv_frame [OF c(1)] c(4,5) by (simp_all add: rd_def put_stream_def w_def)
  have behind: "seq_adv (tcp_sequence (tcp_layer (sample_fin (rx_recv_next x)))) (length []) = rx_recv_next x" by (simp add: sample_fin_simps)
  note dropped = fin_drops_queue [OF sample_link_ok d(1), of "sample_fin (rx_recv_next x)", unfolded sample_fin_simps(1), OF d(2-5) sample_fin_simps(2) behind]
  have "tx_bytes t = [sample_stream 0, sample_stream 1]" using c(6) by (simp add: fetched_def upt_rec)
  with dropped d(5) show ?thesis by blast
qed

text \<open>
  C40. A half-closed connection is cut: when the device has closed its half and acknowledges all it has been sent so far,
  the connection is removed although the SOCKS server may still be sending. Whatever the server sends from then on is dropped.
\<close>

theorem half_close_cut:
  assumes "rd_inv rd" and "rd_streams rd (tcp_src_addr tcp, tcp_dst_addr tcp) = Some w"
    and "sw_is_write_closed w" and "\<not> sw_is_read_closed w" and "fw_states (rd_tx rd) (tcp_src_addr tcp, tcp_dst_addr tcp) = Some t"
    and "acknowledge t (tcp_acknowledgement (tcp_layer tcp)) (ev_now ev) = Some t'" and "q_size (tx_cache t') = 0" and "tx_queue t' = []"
  shows "\<exists>rd'. handle_tcp_ack lk ev rd tcp [] = Some (Ok (), rd') \<and>
    rd_streams rd' (tcp_src_addr tcp, tcp_dst_addr tcp) = None \<and> fw_states (rd_tx rd') (tcp_src_addr tcp, tcp_dst_addr tcp) = None \<and>
    (\<forall>now bytes. task_run lk now (Reader (tcp_src_addr tcp, tcp_dst_addr tcp) (Read_ok bytes)) rd' = Some rd')"
proof -
  let ?src = "tcp_src_addr tcp" and ?dst = "tcp_dst_addr tcp"
  obtain x t0 sm s0 where at: "at_conn (?src, ?dst) rd w x t0" and rel: "relays sm s0 w x t0" by (rule rd_inv_at [OF assms(1,2)])
  note d = at_connD [OF at]
  have t: "get_state (rd_tx rd) ?dst ?src = Some t" using assms(5) by (simp add: get_state_def)
  have "unat (tcp_window (tcp_layer tcp)) \<le> 65535" using unat_u16_less [of "tcp_window (tcp_layer tcp)"] by simp
  note win = wscale_shift(1) [OF relaysD(6) [OF rel] this]
  obtain v where v: "stream_close w = Some v" using stream_close_ok [OF d(6)] by blast
  define t2 where "t2 = set_send_window t' (unat (tcp_window (tcp_layer tcp)) * 2 ^ unat (rx_wscale x))"
  define rd1 where "rd1 = rd\<lparr>rd_tx := set_state (rd_tx rd) ?dst ?src t2\<rparr>"
  have upd: "update_tx rd ?dst ?src (\<lambda>x'. do {
        x' \<leftarrow> acknowledge x' (tcp_acknowledgement (tcp_layer tcp)) (ev_now ev);
        window \<leftarrow> ushl (unat (tcp_window (tcp_layer tcp))) (unat (rx_wscale x));
        Some (set_send_window x' window)
      }) = Some rd1"
    using t assms(6) win by (simp add: update_tx_def rd1_def t2_def)
  have "get_cache_size (rd_tx rd1) ?dst ?src = Some 0"
    using assms(7,8) by (simp add: rd1_def get_cache_size_def t2_def set_send_window_def)
  with upd assms(2,3) d(4) have run: "handle_tcp_ack lk ev rd tcp [] = do { rd \<leftarrow> clean_up rd1 ?src ?dst; Some (Ok (), rd) }"
    by (simp add: handle_tcp_ack_def Let_def)
  obtain rd2 where rd2: "clean_up rd1 ?src ?dst = Some rd2" using v assms(2) by (simp add: clean_up_def rd1_def)
  then have "rd_streams rd2 (?src, ?dst) = None" "fw_states (rd_tx rd2) (?src, ?dst) = None"
    by (auto simp: clean_up_def fw_clean_up_def split: bind_splits)
  then show ?thesis using run rd2 by (simp add: task_run_def)
qed

theorem half_close_cut_witness:
  "\<exists>(rd :: unit redirector) number rd1 rd' w. handle_tcp_fin sample_link rd (sample_fin number) [] = Some (Ok (), rd1) \<and>
    rd_streams rd1 sample_key = Some w \<and> \<not> sw_is_read_closed w \<and>
    handle_tcp_ack sample_link sample_env rd1 (sample_ack (seq_adv (seq_adv 100 1) 0)) [] = Some (Ok (), rd') \<and>
    rd_streams rd' sample_key = None"
proof -
  obtain rd :: "unit redirector" where "fetching sample_stream (seq_adv 100 1) sample_key 0 0 rd"
    by (rule sample_fetching [where st = sample_stream]) (rule that)
  then obtain w0 x t where c: "rd_inv rd" "rd_streams rd sample_key = Some w0" "\<not> sw_is_read_closed w0" "rd_states rd sample_key = Some x"
      "fw_states (rd_tx rd) sample_key = Some t" "fetched sample_stream (seq_adv 100 1) 0 0 t" by (rule sample_connection)
  have behind: "seq_adv (tcp_sequence (tcp_layer (sample_fin (rx_recv_next x)))) (length []) = rx_recv_next x" by (simp add: sample_fin_simps)
  obtain rd1 w where d: "handle_tcp_fin sample_link rd (sample_fin (rx_recv_next x)) [] = Some (Ok (), rd1)" "rd_inv rd1"
      "rd_streams rd1 sample_key = Some w" "sw_is_write_closed w" "sw_is_read_closed w = sw_is_read_closed w0"
      "fw_states (rd_tx rd1) sample_key = Some (add_acknowledgement t 1)"
    by (rule fin_half [OF sample_link_ok c(1), of "sample_fin (rx_recv_next x)", unfolded sample_fin_simps(1), OF c(2-5) sample_fin_simps(2) behind])
      (rule that)
  let ?t = "add_acknowledgement t 1"
  have "fetched sample_stream (seq_adv 100 1) 0 0 ?t" using c(6) by (simp add: fetched_def add_acknowledgement_def tx_bytes_def)
  moreover from fetched_parts(1) [OF this] have "q_size (tx_cache ?t) = 0" by simp
  moreover have "tx_ok ?t" using d(2,6) fw_inv_conn [of "rd_tx rd1" "snd sample_key" "fst sample_key" ?t]
    by (simp add: rd_inv_def rd_safe_def get_state_def conn_ok_def)
  ultimately obtain t' where t': "acknowledge ?t (seq_adv (seq_adv 100 1) 0) (ev_now sample_env) = Some t'"
      "fetched sample_stream (seq_adv 100 1) (max 0 0) 0 t'"
    by (elim acknowledge_fetched [of ?t sample_stream "seq_adv 100 1" 0 0 0]) (simp_all add: MAX_U32_WINDOW_SIZE_def)
  have empty: "q_size (tx_cache t') = 0" "tx_queue t' = []" using fetched_parts [OF t'(2)] by simp_all
  have closed: "\<not> sw_is_read_closed w" using c(3) d(5) by simp
  note cut = half_close_cut [OF d(2), of "sample_ack (seq_adv (seq_adv 100 1) 0)", unfolded sample_ack_simps(1,7), OF d(3,4) closed d(6) t'(1) empty]
  obtain rd' where "handle_tcp_ack sample_link sample_env rd1 (sample_ack (seq_adv (seq_adv 100 1) 0)) [] = Some (Ok (), rd')"
      "rd_streams rd' sample_key = None" using cut [of sample_link] by blast
  with d(1,3) closed show ?thesis
    by (intro exI [of _ rd] exI [of _ "rx_recv_next x"] exI [of _ rd1] exI [of _ rd'] exI [of _ w]) simp
qed

end
