(* ===== verification/Ports.thy ===== *)
theory Ports
  imports Uploads
begin

text \<open>
  The UDP ports of the \<open>Redirector\<close>: the map from sources to local ports, the workers of the ports and
  the LRU order agree, so that a datagram of a device always finds its worker.

  \<open>lru_ok\<close> states what the crate \<open>lru\<close> documents of \<open>LruCache\<close>: \<open>entries\<close> are the pairs of a cache, the
  most recently used one first.
\<close>

section \<open>The LRU cache\<close>

definition lru_ok :: "'l lru_ops \<Rightarrow> ('l \<Rightarrow> (u16 \<times> socket_addr_v4) list) \<Rightarrow> bool" where
  "lru_ok ops entries \<longleftrightarrow>
     (\<forall>n. entries (lru_new ops n) = [] \<and> lru_cap ops (lru_new ops n) = n) \<and>
     (\<forall>l. lru_len ops l = length (entries l)) \<and>
     (\<forall>l p. lru_cap ops (lru_get ops l p) = lru_cap ops l \<and>
       entries (lru_get ops l p) = filter (\<lambda>e. fst e = p) (entries l) @ filter (\<lambda>e. fst e \<noteq> p) (entries l)) \<and>
     (\<forall>l p a. lru_cap ops (lru_put ops l p a) = lru_cap ops l \<and>
       entries (lru_put ops l p a) = take (lru_cap ops l) ((p, a) # filter (\<lambda>e. fst e \<noteq> p) (entries l))) \<and>
     (\<forall>l. case lru_pop_lru ops l of
        None \<Rightarrow> entries l = []
      | Some (e, l') \<Rightarrow> entries l = entries l' @ [e] \<and> lru_cap ops l' = lru_cap ops l) \<and>
     (\<forall>l p. lru_cap ops (lru_pop ops l p) = lru_cap ops l \<and>
       entries (lru_pop ops l p) = filter (\<lambda>e. fst e \<noteq> p) (entries l))"

lemma lru_okD:
  assumes "lru_ok ops entries"
  shows "entries (lru_new ops n) = []" and "lru_cap ops (lru_new ops n) = n"
    and "lru_len ops l = length (entries l)"
    and "entries (lru_get ops l p) = filter (\<lambda>e. fst e = p) (entries l) @ filter (\<lambda>e. fst e \<noteq> p) (entries l)"
    and "lru_cap ops (lru_get ops l p) = lru_cap ops l"
    and "entries (lru_put ops l p a) = take (lru_cap ops l) ((p, a) # filter (\<lambda>e. fst e \<noteq> p) (entries l))"
    and "lru_cap ops (lru_put ops l p a) = lru_cap ops l"
    and "entries (lru_pop ops l p) = filter (\<lambda>e. fst e \<noteq> p) (entries l)"
    and "lru_cap ops (lru_pop ops l p) = lru_cap ops l"
    and "entries l \<noteq> [] \<Longrightarrow> \<exists>l'. lru_pop_lru ops l = Some (last (entries l), l') \<and> entries l' = butlast (entries l) \<and>
      lru_cap ops l' = lru_cap ops l"
proof -
  show "entries l \<noteq> [] \<Longrightarrow> \<exists>l'. lru_pop_lru ops l = Some (last (entries l), l') \<and> entries l' = butlast (entries l) \<and>
      lru_cap ops l' = lru_cap ops l"
    using assms unfolding lru_ok_def by (cases "lru_pop_lru ops l") (fastforce dest: spec [of _ l])+
qed (use assms in \<open>simp_all add: lru_ok_def\<close>)

section \<open>The tables\<close>

definition ports_ok :: "(u16 \<times> socket_addr_v4) list \<Rightarrow> (u16 \<rightharpoonup> datagram_worker) \<Rightarrow> (socket_addr_v4 \<rightharpoonup> u16) \<Rightarrow> bool" where
  "ports_ok es workers m \<longleftrightarrow> distinct (map fst es) \<and> dom workers = fst ` set es \<and> (\<forall>a p. m a = Some p \<longleftrightarrow> (p, a) \<in> set es)"

definition ports_inv :: "'l lru_ops \<Rightarrow> ('l \<Rightarrow> (u16 \<times> socket_addr_v4) list) \<Rightarrow> 'l redirector \<Rightarrow> bool" where
  "ports_inv ops entries rd \<longleftrightarrow> ports_ok (entries (rd_udp_lru rd)) (rd_datagrams rd) (rd_datagram_map rd) \<and>
     length (entries (rd_udp_lru rd)) \<le> lru_cap ops (rd_udp_lru rd)"

lemma ports_ok_touch:
  assumes "ports_ok es workers m"
  shows "ports_ok (filter (\<lambda>e. fst e = p) es @ filter (\<lambda>e. fst e \<noteq> p) es) workers m"
proof -
  have "set (filter (\<lambda>e. fst e = p) es @ filter (\<lambda>e. fst e \<noteq> p) es) = set es" by auto
  moreover have "distinct (map fst (filter (\<lambda>e. fst e = p) es @ filter (\<lambda>e. fst e \<noteq> p) es))"
    using assms by (auto simp: ports_ok_def distinct_map_filter)
  ultimately show ?thesis using assms unfolding ports_ok_def by simp
qed

lemma ports_ok_sources:
  assumes "ports_ok es workers m" and "(p, a) \<in> set es" and "(q, a) \<in> set es"
  shows "p = q"
  using assms unfolding ports_ok_def by (metis option.inject)

lemma ports_ok_insert:
  assumes "ports_ok es workers m" and "p \<notin> dom workers" and "m a = None"
  shows "ports_ok ((p, a) # es) (workers(p \<mapsto> w)) (m(a \<mapsto> p))"
proof -
  have "p \<notin> fst ` set es" using assms by (simp add: ports_ok_def)
  moreover have "(q, a) \<notin> set es" for q using assms unfolding ports_ok_def by (metis option.distinct(1))
  ultimately show ?thesis using assms by (auto simp: ports_ok_def)
qed

lemma ports_ok_remove:
  assumes ok: "ports_ok es workers m" and pa: "(p, a) \<in> set es"
  shows "ports_ok (filter (\<lambda>e. fst e \<noteq> p) es) (workers(p := None)) (m(a := None))"
proof -
  have same: "b = a" if "(p, b) \<in> set es" for b
    using that pa ok unfolding ports_ok_def by (metis eq_key_imp_eq_value)
  have src: "q = p" if "(q, a) \<in> set es" for q by (rule ports_ok_sources [OF ok that pa])
  have "(m(a := None)) b = Some q \<longleftrightarrow> (q, b) \<in> set (filter (\<lambda>e. fst e \<noteq> p) es)" for b q
    using ok same [of b] src [of q] by (cases "b = a") (auto simp: ports_ok_def)
  moreover have "dom (workers(p := None)) = fst ` set (filter (\<lambda>e. fst e \<noteq> p) es)"
    using ok by (force simp: ports_ok_def)
  ultimately show ?thesis using ok by (simp add: ports_ok_def distinct_map_filter)
qed

text \<open>A port changes its source.\<close>

lemma ports_ok_reuse:
  assumes ok: "ports_ok (es @ [(p, old)]) workers m" and new: "m a = None"
  shows "ports_ok ((p, a) # es) workers ((m(old := None))(a \<mapsto> p))"
proof -
  have p: "p \<notin> fst ` set es" using ok by (simp add: ports_ok_def)
  have "(q, a) \<notin> set (es @ [(p, old)])" for q using ok new unfolding ports_ok_def by (metis option.distinct(1))
  moreover have "(q, old) \<notin> set es" for q
    using ports_ok_sources [OF ok, of q old p] p by (auto simp: image_iff)
  ultimately show ?thesis using ok p by (auto simp: ports_ok_def)
qed


section \<open>Binding and unbinding\<close>

lemma rd_inv_tables:
  assumes inv: "rd_inv rd" and d: "\<And>p w. d p = Some w \<Longrightarrow> datagram_ok w"
  shows "rd_inv (rd\<lparr>rd_datagrams := d, rd_datagram_map := m, rd_udp_lru := l\<rparr>)"
proof -
  let ?rd = "rd\<lparr>rd_datagrams := d, rd_datagram_map := m, rd_udp_lru := l\<rparr>"
  have "conn_inv ?rd k" for k
    using inv conn_inv_cong [of ?rd k rd] unfolding rd_inv_def by simp
  moreover have "rd_safe ?rd" using inv d unfolding rd_inv_def rd_safe_def by simp
  ultimately show ?thesis unfolding rd_inv_def by blast
qed

lemma rd_inv_datagrams: "rd_inv rd \<Longrightarrow> rd_datagrams rd p = Some w \<Longrightarrow> datagram_ok w"
  unfolding rd_inv_def rd_safe_def by blast

lemma ports_frame:
  assumes "ports_inv ops entries rd" and "rd_frame rd rd'"
  shows "ports_inv ops entries rd'" and "dom (rd_datagrams rd') = dom (rd_datagrams rd)"
proof -
  have rel: "rel_option datagram_keeps (rd_datagrams rd p) (rd_datagrams rd' p)" for p
    using assms(2) unfolding rd_frame_def by blast
  show "dom (rd_datagrams rd') = dom (rd_datagrams rd)"
    unfolding dom_def using rel by (metis option.rel_distinct option.exhaust)
  then show "ports_inv ops entries rd'"
    using assms rd_frame_fields [OF assms(2)] by (simp add: ports_inv_def ports_ok_def)
qed

text \<open>A server whose relay can be handled, and a system that binds no port twice.\<close>

definition bind_fresh :: "env \<Rightarrow> 'l redirector \<Rightarrow> bool" where
  "bind_fresh ev rd \<longleftrightarrow> relay_ok (ev_socks ev) (rd_options rd) \<and>
     (\<forall>rx tx p. socks_bind (ev_socks ev) (rd_remote rd) (rd_options rd) = Some (Ok (rx, tx, p)) \<longrightarrow> rd_datagrams rd p = None)"

lemma lru_put_new:
  assumes lru: "lru_ok ops entries" and ok: "ports_ok ((p, a) # entries l) workers m"
    and room: "Suc (length (entries l)) \<le> lru_cap ops l"
  shows "entries (lru_put ops l p a) = (p, a) # entries l"
proof -
  have "filter (\<lambda>e. fst e \<noteq> p) (entries l) = entries l"
    using ok by (intro filter_True) (auto simp: ports_ok_def image_iff)
  with room show ?thesis
    using lru_okD(6) [OF lru, of l p a] by (cases "lru_cap ops l") simp_all
qed

lemma reuse_port:
  assumes lru: "lru_ok ops entries" and ports: "ports_inv ops entries rd" and src: "rd_datagram_map rd src = None"
    and ne: "entries (rd_udp_lru rd) \<noteq> []"
  obtains p prev l where "last (entries (rd_udp_lru rd)) = (p, prev)" and "lru_pop_lru ops (rd_udp_lru rd) = Some ((p, prev), l)"
    and "ports_inv ops entries (rd\<lparr>rd_datagram_map := ((rd_datagram_map rd)(prev := None))(src \<mapsto> p),
      rd_udp_lru := lru_put ops l p src\<rparr>)"
proof -
  obtain p prev where e: "last (entries (rd_udp_lru rd)) = (p, prev)" by force
  obtain l where l: "lru_pop_lru ops (rd_udp_lru rd) = Some ((p, prev), l)" "entries l = butlast (entries (rd_udp_lru rd))"
      "lru_cap ops l = lru_cap ops (rd_udp_lru rd)"
    using lru_okD(10) [OF lru ne] e by auto
  have split: "entries (rd_udp_lru rd) = entries l @ [(p, prev)]" using ne e l(2) by (metis append_butlast_last_id)
  then have ok: "ports_ok ((p, src) # entries l) (rd_datagrams rd) (((rd_datagram_map rd)(prev := None))(src \<mapsto> p))"
    using ports src by (intro ports_ok_reuse) (simp_all add: ports_inv_def)
  have "Suc (length (entries l)) \<le> lru_cap ops l" using ports split l(3) by (simp add: ports_inv_def)
  then have "entries (lru_put ops l p src) = (p, src) # entries l" by (rule lru_put_new [OF lru ok])
  with ok ports split l(3) show ?thesis
    by (intro that [OF e l(1)]) (simp add: ports_inv_def lru_okD(7) [OF lru])
qed

lemma bind_new_udp_port_ok:
  assumes lk: "link_ok lk" and lru: "lru_ok ops entries" and inv: "rd_inv rd" and ports: "ports_inv ops entries rd"
    and ts: "list_all task_ok (ev_await ev)" and fresh: "bind_fresh ev rd" and none: "rd_datagram_map rd src = None"
  obtains r rd' where "bind_new_udp_port ops lk ev rd src = Some (r, rd')" and "rd_inv rd'" and "ports_inv ops entries rd'"
    and "rd_datagram_map rd' src = (case r of Inr p \<Rightarrow> Some p | Inl _ \<Rightarrow> None)"
proof (cases "lru_len ops (rd_udp_lru rd) < lru_cap ops (rd_udp_lru rd)")
  case False
  with inv ports none show ?thesis
    by (intro that [of "Err (IoError Other ''cannot bind UDP port'')" rd]) (simp_all add: bind_new_udp_port_def)
next
  case True
  from inv have safe: "rd_safe rd" by (simp add: rd_inv_def)
  obtain rd1 where rd1: "tasks_run lk (ev_now ev) (ev_await ev) rd = Some rd1" "rd_safe rd1" "rd_frame rd rd1"
    using tasks_run_ok [OF lk safe ts] by blast
  have inv1: "rd_inv rd1" by (rule rd_inv_frame [OF inv rd1(2,3)])
  note ports1 = ports_frame [OF ports rd1(3)] and fields = rd_frame_fields [OF rd1(3)]
  obtain bound where bound: "socks_bind (ev_socks ev) (rd_remote rd) (rd_options rd) = Some bound"
    using fresh socks_bind_returns [of "ev_socks ev" "rd_options rd" "rd_remote rd"] by (auto simp: bind_fresh_def)
  show ?thesis
  proof (cases bound)
    case (Inl e)
    with True rd1(1) inv1 ports1 none fields bound show ?thesis
      by (intro that [of "Err e" rd1]) (simp_all add: bind_new_udp_port_def datagram_bind_def)
  next
    case (Inr b)
    obtain rx tx p where b: "b = (rx, tx, p)" by (rule prod_cases3)
    note Inr = Inr [unfolded b]
    have buffer: "rh_buffer rx = replicate 65535 0" using bound Inr socks_bind_bound(2) by blast
    define w where "w = \<lparr>dw_src = socket_addr_v4_to_u64 src, dw_local_port = p, dw_is_closed = False, dw_receiver = True,
      dw_recv_buffer = replicate 65535 0, dw_buffer = replicate 65535 0, dw_sent = []\<rparr>"
    let ?rd = "rd1\<lparr>rd_datagrams := (rd_datagrams rd1)(p \<mapsto> w), rd_datagram_map := (rd_datagram_map rd1)(src \<mapsto> p),
      rd_udp_lru := lru_put ops (rd_udp_lru rd1) p src\<rparr>"
    have run: "bind_new_udp_port ops lk ev rd src = Some (Ok p, ?rd)"
      using True rd1(1) bound Inr unfolding w_def by (simp add: bind_new_udp_port_def datagram_bind_def fields buffer)
    have new: "p \<notin> dom (rd_datagrams rd1)" using fresh bound Inr ports1(2) by (auto simp: bind_fresh_def)
    have "datagram_ok w" unfolding w_def datagram_ok_def by simp
    then have inv2: "rd_inv ?rd"
      using rd_inv_datagrams [OF inv1] by (intro rd_inv_tables [OF inv1]) (metis fun_upd_apply option.inject)
    have ok: "ports_ok ((p, src) # entries (rd_udp_lru rd1)) ((rd_datagrams rd1)(p \<mapsto> w)) ((rd_datagram_map rd1)(src \<mapsto> p))"
      using ports1(1) new none fields(2) by (intro ports_ok_insert) (simp_all add: ports_inv_def)
    have "Suc (length (entries (rd_udp_lru rd1))) \<le> lru_cap ops (rd_udp_lru rd1)"
      using True fields(3) by (simp add: lru_okD(3) [OF lru])
    then have "entries (lru_put ops (rd_udp_lru rd1) p src) = (p, src) # entries (rd_udp_lru rd1)"
      by (rule lru_put_new [OF lru ok])
    then have "ports_inv ops entries ?rd"
      using ok \<open>Suc _ \<le> _\<close> by (simp add: ports_inv_def lru_okD(7) [OF lru])
    with run inv2 show ?thesis by (intro that [of "Ok p" ?rd]) simp_all
  qed
qed

lemma bind_local_udp_port_ok:
  assumes lk: "link_ok lk" and lru: "lru_ok ops entries" and inv: "rd_inv rd" and ports: "ports_inv ops entries rd"
    and ts: "list_all task_ok (ev_await ev)" and fresh: "bind_fresh ev rd"
  obtains r rd' where "bind_local_udp_port ops lk ev rd src = Some (r, rd')" and "rd_inv rd'" and "ports_inv ops entries rd'"
    and "rd_datagram_map rd' src = (case r of Inr p \<Rightarrow> Some p | Inl _ \<Rightarrow> None)"
    and "isl r \<Longrightarrow> entries (rd_udp_lru rd') = []"
proof (cases "rd_datagram_map rd src")
  case (Some p)
  let ?rd = "rd\<lparr>rd_udp_lru := lru_get ops (rd_udp_lru rd) p\<rparr>"
  have "ports_inv ops entries ?rd"
    using ports ports_ok_touch [of "entries (rd_udp_lru rd)" _ _ p]
      sum_length_filter_compl [of "\<lambda>e. fst e = p" "entries (rd_udp_lru rd)"]
    by (simp add: ports_inv_def lru_okD(4,5) [OF lru])
  moreover have "rd_inv ?rd"
    using rd_inv_tables [OF inv, where d = "rd_datagrams rd" and m = "rd_datagram_map rd" and l = "lru_get ops (rd_udp_lru rd) p"]
      rd_inv_datagrams [OF inv] by simp
  ultimately show ?thesis using Some by (intro that [of "Ok p" ?rd]) (simp_all add: bind_local_udp_port_def)
next
  case None
  obtain r rd1 where f: "bind_new_udp_port ops lk ev rd src = Some (r, rd1)" "rd_inv rd1" "ports_inv ops entries rd1"
      "rd_datagram_map rd1 src = (case r of Inr p \<Rightarrow> Some p | Inl _ \<Rightarrow> None)"
    by (rule bind_new_udp_port_ok [OF lk lru inv ports ts fresh None])
  show ?thesis
  proof (cases r)
    case (Inr p)
    with f None show ?thesis by (intro that [of r rd1]) (simp_all add: bind_local_udp_port_def)
  next
    case (Inl e)
    then have none: "rd_datagram_map rd1 src = None" using f(4) by simp
    show ?thesis
    proof (cases "entries (rd_udp_lru rd1) = []")
      case True
      with f Inl None none show ?thesis
        by (intro that [of r rd1]) (simp_all add: bind_local_udp_port_def lru_okD(3) [OF lru])
    next
      case False
      obtain p prev l where u: "lru_pop_lru ops (rd_udp_lru rd1) = Some ((p, prev), l)"
          "ports_inv ops entries (rd1\<lparr>rd_datagram_map := ((rd_datagram_map rd1)(prev := None))(src \<mapsto> p),
            rd_udp_lru := lru_put ops l p src\<rparr>)"
        by (rule reuse_port [OF lru f(3) none False])
      let ?rd = "rd1\<lparr>rd_datagram_map := ((rd_datagram_map rd1)(prev := None))(src \<mapsto> p), rd_udp_lru := lru_put ops l p src\<rparr>"
      have "rd_inv ?rd"
        using rd_inv_tables [OF f(2), where d = "rd_datagrams rd1" and m = "((rd_datagram_map rd1)(prev := None))(src \<mapsto> p)" and l = "lru_put ops l p src"]
          rd_inv_datagrams [OF f(2)] by simp
      with f(1) Inl None False u show ?thesis
        by (intro that [of "Ok p" ?rd]) (simp_all add: bind_local_udp_port_def lru_okD(3) [OF lru])
    qed
  qed
qed


lemma unbind_local_udp_port_ok:
  assumes lru: "lru_ok ops entries" and inv: "rd_inv rd" and ports: "ports_inv ops entries rd"
  shows "rd_inv (unbind_local_udp_port ops rd a)" and "ports_inv ops entries (unbind_local_udp_port ops rd a)"
    and "rd_datagram_map (unbind_local_udp_port ops rd a) a = None"
proof -
  have "rd_inv (unbind_local_udp_port ops rd a) \<and> ports_inv ops entries (unbind_local_udp_port ops rd a) \<and>
      rd_datagram_map (unbind_local_udp_port ops rd a) a = None"
  proof (cases "rd_datagram_map rd a")
    case (Some p)
    let ?rd = "rd\<lparr>rd_datagrams := (rd_datagrams rd)(p := None), rd_datagram_map := (rd_datagram_map rd)(a := None),
      rd_udp_lru := lru_pop ops (rd_udp_lru rd) p\<rparr>"
    have eq: "unbind_local_udp_port ops rd a = ?rd" using Some by (simp add: unbind_local_udp_port_def)
    have "(p, a) \<in> set (entries (rd_udp_lru rd))" using ports Some by (simp add: ports_inv_def ports_ok_def)
    then have "ports_inv ops entries ?rd"
      using ports ports_ok_remove [of "entries (rd_udp_lru rd)"]
        le_trans [OF length_filter_le, of "entries (rd_udp_lru rd)" "lru_cap ops (rd_udp_lru rd)" "\<lambda>e. fst e \<noteq> p"]
      by (simp add: ports_inv_def lru_okD(8,9) [OF lru])
    moreover have "rd_inv ?rd"
      using rd_inv_datagrams [OF inv] by (intro rd_inv_tables [OF inv]) (metis fun_upd_apply option.distinct(1))
    ultimately show ?thesis unfolding eq by simp
  qed (use inv ports in \<open>simp add: unbind_local_udp_port_def\<close>)
  then show "rd_inv (unbind_local_udp_port ops rd a)" "ports_inv ops entries (unbind_local_udp_port ops rd a)"
      "rd_datagram_map (unbind_local_udp_port ops rd a) a = None" by simp_all
qed

section \<open>Datagrams\<close>

abbreviation udp_src_addr :: "udp \<Rightarrow> socket_addr_v4" where
  "udp_src_addr udp \<equiv> SocketAddrV4 (udp_src_ip udp) (udp_source (udp_layer udp))"

abbreviation udp_dst_addr :: "udp \<Rightarrow> socket_addr_v4" where
  "udp_dst_addr udp \<equiv> SocketAddrV4 (udp_dst_ip udp) (udp_destination (udp_layer udp))"

text \<open>The datagram has been handed to the port of the source, behind the header for its destination.\<close>

definition relayed :: "'l redirector \<Rightarrow> udp \<Rightarrow> u8 list \<Rightarrow> bool" where
  "relayed rd udp payload \<longleftrightarrow>
     (\<exists>p w d ds. rd_datagram_map rd (udp_src_addr udp) = Some p \<and> rd_datagrams rd p = Some w \<and>
       socks_datagram payload (udp_dst_addr udp) = Some d \<and> dw_sent w = ds @ [d])"

definition udp_env_ok :: "env \<Rightarrow> 'l redirector \<Rightarrow> bool" where
  "udp_env_ok ev rd \<longleftrightarrow> list_all task_ok (ev_await ev) \<and> list_all task_ok (ev_await_send_to ev) \<and> bind_fresh ev rd"

lemma handle_udp_ok:
  assumes lk: "link_ok lk" and lru: "lru_ok ops entries" and inv: "rd_inv rd" and ports: "ports_inv ops entries rd"
    and env: "udp_env_ok ev rd"
  shows "\<exists>r rd'. handle_udp ops lk ev rd udp payload = Some (r, rd') \<and> rd_inv rd' \<and> ports_inv ops entries rd' \<and>
    (relayed rd' udp payload \<or> isl r \<and> entries (rd_udp_lru rd') = [])"
proof -
  let ?src = "udp_src_addr udp"
  have ts: "list_all task_ok (ev_await ev)" "list_all task_ok (ev_await_send_to ev)" "bind_fresh ev rd"
    using env by (simp_all add: udp_env_ok_def)
  obtain r rd1 where b: "bind_local_udp_port ops lk ev rd ?src = Some (r, rd1)" "rd_inv rd1" "ports_inv ops entries rd1"
      "rd_datagram_map rd1 ?src = (case r of Inr p \<Rightarrow> Some p | Inl _ \<Rightarrow> None)" "isl r \<Longrightarrow> entries (rd_udp_lru rd1) = []"
    by (rule bind_local_udp_port_ok [OF lk lru inv ports ts(1,3), where src = ?src]) (rule that; (assumption | blast))
  show ?thesis
  proof (cases r)
    case (Inl e)
    with b show ?thesis by (simp add: handle_udp_def)
  next
    case (Inr p)
    then have map: "rd_datagram_map rd1 ?src = Some p" using b(4) by simp
    then have "(p, ?src) \<in> set (entries (rd_udp_lru rd1))" using b(3) by (simp add: ports_inv_def ports_ok_def)
    then have "p \<in> dom (rd_datagrams rd1)" using b(3) by (force simp: ports_inv_def ports_ok_def)
    then obtain w where w: "rd_datagrams rd1 p = Some w" by blast
    obtain d where d: "socks_datagram payload (udp_dst_addr udp) = Some d" using socks_datagram_eq by blast
    define w1 where "w1 = w\<lparr>dw_sent := dw_sent w @ [d]\<rparr>"
    let ?rd = "rd1\<lparr>rd_datagrams := (rd_datagrams rd1)(p \<mapsto> w1)\<rparr>"
    have "datagram_ok w1" using rd_inv_datagrams [OF b(2) w] by (simp add: w1_def datagram_ok_def)
    then have "datagram_ok v" if "((rd_datagrams rd1)(p \<mapsto> w1)) q = Some v" for q v
      using that rd_inv_datagrams [OF b(2)] by (cases "q = p") simp_all
    then have "rd_inv (rd1\<lparr>rd_datagrams := (rd_datagrams rd1)(p \<mapsto> w1), rd_datagram_map := rd_datagram_map rd1,
        rd_udp_lru := rd_udp_lru rd1\<rparr>)" by (rule rd_inv_tables [OF b(2)])
    then have inv2: "rd_inv ?rd" by simp
    have ports2: "ports_inv ops entries ?rd" using b(3) w by (auto simp: ports_inv_def ports_ok_def)
    from inv2 have safe: "rd_safe ?rd" by (simp add: rd_inv_def)
    obtain rd3 where rd3: "tasks_run lk (ev_now ev) (ev_await_send_to ev) ?rd = Some rd3" "rd_safe rd3" "rd_frame ?rd rd3"
      using tasks_run_ok [OF lk safe ts(2)] by blast
    have "rel_option datagram_keeps (rd_datagrams ?rd p) (rd_datagrams rd3 p)" using rd3(3) unfolding rd_frame_def by blast
    then obtain w3 where w3: "rd_datagrams rd3 p = Some w3" "dw_sent w3 = dw_sent w @ [d]"
      by (auto simp: w1_def datagram_keeps_def elim: option.rel_cases)
    have run: "handle_udp ops lk ev rd udp payload = Some (map_sum id (\<lambda>_. ()) (ev_send_to ev), rd3)"
      using b(1) Inr w d rd3(1) unfolding w1_def
      by (cases "ev_send_to ev") (simp_all add: handle_udp_def datagram_send_to_def)
    have "relayed rd3 udp payload"
      unfolding relayed_def using w3 d map rd_frame_fields(2) [OF rd3(3)] by auto
    with run rd_inv_frame [OF inv2 rd3(2,3)] ports_frame(1) [OF ports2 rd3(3)] show ?thesis by blast
  qed
qed

text \<open>A \<open>Redirector\<close> that has relayed datagrams, and dropped ports the devices reported as unreachable.\<close>

inductive serving :: "'l lru_ops \<Rightarrow> link \<Rightarrow> 'l redirector \<Rightarrow> bool" for ops lk where
  serving_new: "\<lbrakk>fw_states f = Map.empty; fw_src_mtu f = Map.empty; 40 < fw_local_mtu f; fw_local_mtu f \<le> 65535\<rbrakk> \<Longrightarrow>
    serving ops lk (redirector_new ops f contains local_ip gw remote force_dst force_bind auth)"
| serving_datagram: "\<lbrakk>serving ops lk rd; udp_env_ok ev rd; handle_udp ops lk ev rd udp payload = Some (r, rd')\<rbrakk> \<Longrightarrow>
    serving ops lk rd'"
| serving_unreachable: "serving ops lk rd \<Longrightarrow> serving ops lk (unbind_local_udp_port ops rd a)"
| serving_task: "\<lbrakk>serving ops lk rd; task_ok t; task_run lk now t rd = Some rd'\<rbrakk> \<Longrightarrow> serving ops lk rd'"

lemma serving_inv:
  assumes "serving ops lk rd" and lk: "link_ok lk" and lru: "lru_ok ops entries"
  shows "rd_inv rd \<and> ports_inv ops entries rd"
  using assms(1)
proof (induction rule: serving.induct)
  case (serving_new f contains local_ip gw remote force_dst force_bind auth)
  then have "rd_inv (redirector_new ops f contains local_ip gw remote force_dst force_bind auth)" by (intro rd_inv_new)
  then show ?case by (simp add: ports_inv_def ports_ok_def redirector_new_def lru_okD(1,2) [OF lru])
next
  case (serving_datagram rd ev udp payload r rd')
  then show ?case using handle_udp_ok [OF lk lru, of rd ev udp payload] by auto
next
  case (serving_unreachable rd a)
  then show ?case using unbind_local_udp_port_ok [OF lru] by blast
next
  case (serving_task rd t now rd')
  then have inv: "rd_inv rd" and ports: "ports_inv ops entries rd" by blast+
  from inv have safe: "rd_safe rd" by (simp add: rd_inv_def)
  obtain rd'' where "task_run lk now t rd = Some rd''" "rd_safe rd''" "rd_frame rd rd''"
    by (rule task_run_ok [OF lk safe serving_task.hyps(2)])
  with serving_task.hyps(3) rd_inv_frame [OF inv] ports_frame(1) [OF ports] show ?case by simp
qed


section \<open>Properties\<close>

text \<open>An LRU cache for the witnesses: its capacity and its entries.\<close>

definition sample_lru :: "(usize \<times> (u16 \<times> socket_addr_v4) list) lru_ops" where
  "sample_lru = \<lparr>lru_new = \<lambda>n. (n, []),
     lru_get = \<lambda>(n, es) p. (n, filter (\<lambda>e. fst e = p) es @ filter (\<lambda>e. fst e \<noteq> p) es),
     lru_put = \<lambda>(n, es) p a. (n, take n ((p, a) # filter (\<lambda>e. fst e \<noteq> p) es)),
     lru_len = \<lambda>(n, es). length es, lru_cap = fst,
     lru_pop_lru = \<lambda>(n, es). if es = [] then None else Some (last es, (n, butlast es)),
     lru_pop = \<lambda>(n, es) p. (n, filter (\<lambda>e. fst e \<noteq> p) es)\<rparr>"

lemma sample_lru_ok: "lru_ok sample_lru snd"
  by (auto simp: lru_ok_def sample_lru_def split: prod.split)

definition sample_udp_redirector :: "(usize \<times> (u16 \<times> socket_addr_v4) list) redirector" where
  "sample_udp_redirector = redirector_new sample_lru (sample_forwarder\<lparr>fw_states := Map.empty\<rparr>) (\<lambda>_. True) 9 None
     (SocketAddrV4 3 1080) False False None"

definition sample_udp :: udp where
  "sample_udp = (udp_new 5353 53)\<lparr>udp_src_ip := 1, udp_dst_ip := 2\<rparr>"

lemma sample_serving: "serving sample_lru lk sample_udp_redirector"
  unfolding sample_udp_redirector_def by (rule serving_new) (simp_all add: sample_forwarder_def)

lemma sample_relay_ok: "relay_ok sample_calls options"
  by (simp add: relay_ok_def sample_calls_def)

lemma sample_bind_fresh: "rd_datagrams rd = Map.empty \<Longrightarrow> bind_fresh sample_env rd"
  by (simp add: bind_fresh_def sample_env_def sample_relay_ok)

text \<open>
  C13. The UDP tables stay consistent and a datagram always finds its worker: in every state reached by
  relaying datagrams, unreachable ports and steps of the tasks, the ports with a worker are those in
  the LRU cache, each source maps to the port whose entry names it and to no other, and there are at
  most as many as the cache holds. The next datagram of a device is sent through the port of its
  source with the header of its destination; it fails only if no port can be bound and none reused.
\<close>

theorem udp_ports_consistent:
  assumes "link_ok lk" and "lru_ok ops entries" and "serving ops lk rd" and "udp_env_ok ev rd"
  shows "ports_inv ops entries rd \<and>
    (\<exists>r rd'. handle_udp ops lk ev rd udp payload = Some (r, rd') \<and> rd_inv rd' \<and> ports_inv ops entries rd' \<and>
      (relayed rd' udp payload \<or> isl r \<and> entries (rd_udp_lru rd') = []))"
  using serving_inv [OF assms(3,1,2)] handle_udp_ok [OF assms(1,2) _ _ assms(4), of udp payload] by blast

theorem udp_ports_consistent_witness:
  "\<exists>r rd'. handle_udp sample_lru sample_link sample_env sample_udp_redirector sample_udp [1, 2, 3] = Some (r, rd') \<and>
    ports_inv sample_lru snd rd'"
proof -
  have "udp_env_ok sample_env sample_udp_redirector"
    using sample_bind_fresh [of sample_udp_redirector]
    by (simp add: udp_env_ok_def sample_udp_redirector_def redirector_new_def) (simp add: sample_env_def)
  then show ?thesis
    using udp_ports_consistent [OF sample_link_ok sample_lru_ok sample_serving, of sample_env sample_udp "[1, 2, 3]"] by blast
qed

text \<open>
  C35. A reused port keeps the source it was bound for: when the cache is full, the datagrams of a new
  source go out through the port used longest ago, but the worker of that port is not told
  (\<open>set_src\<close> is never called), so that it still delivers the replies to the old source.
\<close>

theorem udp_reuse_keeps_source:
  assumes "lru_ok ops entries" and "ports_inv ops entries rd" and "rd_datagram_map rd src = None"
    and "length (entries (rd_udp_lru rd)) = lru_cap ops (rd_udp_lru rd)" and "last (entries (rd_udp_lru rd)) = (p, prev)"
    and "entries (rd_udp_lru rd) \<noteq> []" and "rd_datagrams rd p = Some w" and "datagram_src w = prev"
  shows "\<exists>rd' w'. bind_local_udp_port ops lk ev rd src = Some (Ok p, rd') \<and> rd_datagram_map rd' src = Some p \<and>
    rd_datagrams rd' p = Some w' \<and> datagram_src w' = prev \<and> prev \<noteq> src"
proof -
  obtain l where l: "lru_pop_lru ops (rd_udp_lru rd) = Some ((p, prev), l)"
    by (rule reuse_port [OF assms(1,2,3,6)]) (use assms(5) in auto)
  have "bind_local_udp_port ops lk ev rd src = Some (Ok p, rd\<lparr>rd_datagram_map := ((rd_datagram_map rd)(prev := None))(src \<mapsto> p),
      rd_udp_lru := lru_put ops l p src\<rparr>)"
    using assms(3,4,6) l by (simp add: bind_local_udp_port_def bind_new_udp_port_def lru_okD(3) [OF assms(1)])
  moreover have "(p, prev) \<in> set (entries (rd_udp_lru rd))" using assms(5,6) last_in_set by metis
  then have "rd_datagram_map rd prev = Some p" using assms(2) by (simp add: ports_inv_def ports_ok_def)
  then have "prev \<noteq> src" using assms(3) by auto
  ultimately show ?thesis using assms(7,8) by simp
qed

theorem udp_reuse_keeps_source_witness:
  "\<exists>rd' w'. bind_local_udp_port sample_lru sample_link sample_env
      (sample_udp_redirector\<lparr>rd_udp_lru := (1, [(5000, SocketAddrV4 1 5353)]),
        rd_datagrams := [5000 \<mapsto> \<lparr>dw_src = socket_addr_v4_to_u64 (SocketAddrV4 1 5353), dw_local_port = 5000, dw_is_closed = False,
          dw_receiver = True, dw_recv_buffer = [], dw_buffer = [], dw_sent = []\<rparr>],
        rd_datagram_map := [SocketAddrV4 1 5353 \<mapsto> 5000]\<rparr>) (SocketAddrV4 1 6000) = Some (Ok 5000, rd') \<and>
    rd_datagram_map rd' (SocketAddrV4 1 6000) = Some 5000 \<and>
    rd_datagrams rd' 5000 = Some w' \<and> datagram_src w' = SocketAddrV4 1 5353"
proof -
  let ?w = "\<lparr>dw_src = socket_addr_v4_to_u64 (SocketAddrV4 1 5353), dw_local_port = 5000, dw_is_closed = False,
    dw_receiver = True, dw_recv_buffer = [], dw_buffer = [], dw_sent = []\<rparr>"
  let ?rd = "sample_udp_redirector\<lparr>rd_udp_lru := (1, [(5000, SocketAddrV4 1 5353)]), rd_datagrams := [5000 \<mapsto> ?w],
    rd_datagram_map := [SocketAddrV4 1 5353 \<mapsto> 5000]\<rparr>"
  have "ports_inv sample_lru snd ?rd" by (auto simp: ports_inv_def ports_ok_def sample_lru_def)
  moreover have "datagram_src ?w = SocketAddrV4 1 5353"
    by (simp add: datagram_src_def u64_to_socket_addr_v4_def socket_addr_v4_to_u64_def)
  ultimately show ?thesis
    using udp_reuse_keeps_source [OF sample_lru_ok, of ?rd "SocketAddrV4 1 6000" 5000 "SocketAddrV4 1 5353" ?w sample_link sample_env]
    by (simp add: sample_lru_def)
qed

end
