(* ===== verification/Exchange.thy ===== *)
theory Exchange
  imports Ports
begin

text \<open>
  A UDP exchange from end to end: the datagram of a device goes through a new port to the SOCKS server, and
  an answer that arrives on that port goes back to the device, in one frame or in fragments.
\<close>

section \<open>Answers\<close>

text \<open>A frame that carries a UDP datagram.\<close>

definition udp_frame :: "sent \<Rightarrow> socket_addr_v4 \<Rightarrow> socket_addr_v4 \<Rightarrow> u8 list \<Rightarrow> bool" where
  "udp_frame fr from_addr to_addr payload \<longleftrightarrow>
     (\<exists>udp. indicator_udp (fst fr) = Some udp \<and> udp_src_addr udp = from_addr \<and> udp_dst_addr udp = to_addr) \<and> sent_payload fr = payload"

lemma send_udp_whole:
  assumes lk: "link_ok lk" and mtu: "28 + length payload \<le> src_mtu_of f (ip src)" "src_mtu_of f (ip src) \<le> 65535"
  obtains f' fr where "send_udp lk f dst src payload = Some (Ok (), f')" and "fw_sent f' = fw_sent f @ [fr]" and "udp_frame fr dst src payload"
proof -
  have fits: "transport_fits (lk_pnet lk) (Some (LUdp (udp_new (port dst) (port src)))) 8 (length (unwrap_or (Some payload) []))"
    using mtu by (simp add: transport_fits_def)
  obtain fr i where fr: "send_ipv4_with_transport lk f (ip dst) (ip src) (LUdp (udp_new (port dst) (port src))) (Some payload) =
      Some (Ok (), after_send f (ip dst) (ip src) fr)" "sent_payload fr = unwrap_or (Some payload) []"
      "ind_transport (fst fr) = Some (set_ipv4_layer (LUdp (udp_new (port dst) (port src))) i)" "ip_source i = ip dst" "ip_destination i = ip src"
    by (rule send_ipv4_with_transport_ok [OF lk fits, of f "ip dst" "ip src"])
  have "8 + length payload \<le> src_mtu_of f (ip src) - 20" using mtu(1) by linarith
  with fr(1) mtu have "send_udp lk f dst src payload = Some (Ok (), after_send f (ip dst) (ip src) fr)"
    by (simp add: send_udp_def send_udp_raw_def usub_def udp_minimum_len_def ipv4_minimum_len_def Let_def)
  then show ?thesis
    by (rule that [where fr = fr]) (use fr(2-5) in \<open>simp_all add: after_send_def udp_frame_def indicator_udp_def set_ipv4_layer_def
        udp_set_ipv4_layer_def udp_new_def udp_from_def increase_ipv4_identification_def Let_def\<close>)
qed

text \<open>What reaches the device of an answer: one frame if it fits the path MTU, and otherwise fragments that make up its datagram.\<close>

definition answered :: "link \<Rightarrow> socket_addr_v4 \<Rightarrow> socket_addr_v4 \<Rightarrow> u8 list \<Rightarrow> forwarder \<Rightarrow> forwarder \<Rightarrow> bool" where
  "answered lk dst src payload f f' \<longleftrightarrow>
     (if 28 + length payload \<le> src_mtu_of f (ip src)
      then \<exists>fr. fw_sent f' = fw_sent f @ [fr] \<and> udp_frame fr dst src payload
      else \<exists>ss buffer. fw_sent f' = fw_sent f @ ss \<and> udp_datagram (lk_pnet lk) dst src payload = Some buffer \<and>
        fragments_of buffer (map sent_part ss) \<and>
        (\<forall>s\<in>set ss. length (sent_payload s) \<le> src_mtu_of f (ip src) - 20 \<and>
          fragment_header (ip dst) (ip src) (ipv4_identification_of f (ip dst) (ip src)) s))"

lemma send_udp_answered:
  assumes lk: "link_ok lk" and inv: "fw_inv f" and len: "8 + length payload \<le> 65535"
  obtains f' where "send_udp lk f dst src payload = Some (Ok (), f')" and "answered lk dst src payload f f'"
proof (cases "28 + length payload \<le> src_mtu_of f (ip src)")
  case True
  note mtu = fw_inv_mtu [OF inv, of "ip src"]
  show ?thesis by (rule send_udp_whole [OF lk True mtu(2), of dst]) (rule that; use True in \<open>auto simp: answered_def\<close>)
next
  case False
  note mtu = fw_inv_mtu [OF inv, of "ip src"]
  then have m: "36 \<le> src_mtu_of f (ip src)" "src_mtu_of f (ip src) < 28 + length payload" using False by simp_all
  show ?thesis
    by (rule send_udp_fragments [OF lk m(1) mtu(2) m(2) len, of dst]) (rule that; use False in \<open>auto simp: answered_def\<close>)
qed

lemma receiver_answered:
  assumes lk: "link_ok lk" and safe: "rd_safe rd" and w: "rd_datagrams rd p = Some w" "dw_receiver w" "\<not> dw_is_closed w"
    and len: "8 + length payload \<le> 65535" "length payload \<le> 65525" and d: "socks_datagram payload from_addr = Some d"
  obtains rd' where "task_run lk now (Receiver p (Ok d)) rd = Some rd'"
    and "answered lk from_addr (datagram_src w) payload (rd_tx rd) (rd_tx rd')"
proof -
  have inv: "fw_inv (rd_tx rd)" and ok: "datagram_ok w" using safe w(1) by (auto simp: rd_safe_def)
  then have bufs: "length (dw_recv_buffer w) = 65535" "length (dw_buffer w) = 65535" by (simp_all add: datagram_ok_def)
  obtain f' where f': "send_udp lk (rd_tx rd) from_addr (datagram_src w) payload = Some (Ok (), f')"
      "answered lk from_addr (datagram_src w) payload (rd_tx rd) f'" by (rule send_udp_answered [OF lk inv len(1)])
  have "subslice (payload @ drop (length payload) (dw_buffer w)) 0 (length payload) = Some payload"
    by (simp add: subslice_def)
  with recv_from_datagram [OF bufs len(2) d] w f' show ?thesis
    by (intro that [of "rd\<lparr>rd_tx := f', rd_datagrams := (rd_datagrams rd)(p \<mapsto> w\<lparr>dw_recv_buffer := d @ drop (10 + length payload) (dw_recv_buffer w),
          dw_buffer := payload @ drop (length payload) (dw_buffer w)\<rparr>)\<rparr>"])
      (simp_all add: task_run_def receiver_step_def forwarder_datagram_def forward_datagram_def datagram_src_def Let_def)
qed

section \<open>Requests\<close>

lemma request_bound:
  assumes lk: "link_ok lk" and lru: "lru_ok ops entries" and inv: "rd_inv rd" and ports: "ports_inv ops entries rd"
    and new: "rd_datagram_map rd (udp_src_addr udp) = None" and room: "lru_len ops (rd_udp_lru rd) < lru_cap ops (rd_udp_lru rd)"
    and bind: "socks_bind (ev_socks ev) (rd_remote rd) (rd_options rd) = Some (Ok (rx, tx, p))" "rd_datagrams rd p = None" and ts: "list_all task_ok (ev_await ev)" "ev_await_send_to ev = []"
    and d: "socks_datagram payload (udp_dst_addr udp) = Some d"
  obtains rd' w where "handle_udp ops lk ev rd udp payload = Some (map_sum id (\<lambda>_. ()) (ev_send_to ev), rd')" and "rd_inv rd'"
    and "ports_inv ops entries rd'" and "rd_datagram_map rd' (udp_src_addr udp) = Some p" and "rd_datagrams rd' p = Some w" and "dw_sent w = [d]"
    and "datagram_src w = udp_src_addr udp" and "dw_receiver w" and "\<not> dw_is_closed w"
proof -
  let ?src = "udp_src_addr udp"
  have safe: "rd_safe rd" using inv by (simp add: rd_inv_def)
  obtain rd1 where rd1: "tasks_run lk (ev_now ev) (ev_await ev) rd = Some rd1" "rd_frame rd rd1" using tasks_run_ok [OF lk safe ts(1)] by blast
  define w where "w = \<lparr>dw_src = socket_addr_v4_to_u64 ?src, dw_local_port = p, dw_is_closed = False, dw_receiver = True,
    dw_recv_buffer = replicate 65535 0, dw_buffer = replicate 65535 0, dw_sent = [d]\<rparr>"
  define rd' where "rd' = rd1\<lparr>rd_datagrams := (rd_datagrams rd1)(p \<mapsto> w), rd_datagram_map := (rd_datagram_map rd1)(?src \<mapsto> p),
    rd_udp_lru := lru_put ops (rd_udp_lru rd1) p ?src\<rparr>"
  have run: "handle_udp ops lk ev rd udp payload = Some (map_sum id (\<lambda>_. ()) (ev_send_to ev), rd')"
    using new room bind rd1 ts(2) d
    by (cases "ev_send_to ev") (simp_all add: handle_udp_def bind_local_udp_port_def bind_new_udp_port_def datagram_bind_def
        datagram_send_to_def w_def rd'_def rd_frame_fields(5,6) [OF rd1(2)] socks_bind_bound(2) [OF bind(1)])
  have "udp_env_ok ev rd" using ts bind socks_bind_bound(1) [OF bind(1)] by (simp add: udp_env_ok_def bind_fresh_def)
  with handle_udp_ok [OF lk lru inv ports, of ev udp payload] run have "rd_inv rd'" "ports_inv ops entries rd'" by auto
  moreover have "datagram_src w = ?src" using socket_addr_u64_roundtrip [of ?src 0] by (simp add: w_def datagram_src_def)
  ultimately show ?thesis by (intro that [OF run, of w]) (simp_all add: rd'_def w_def)
qed

section \<open>Properties\<close>

text \<open>
  C14. A UDP exchange: the first datagram of a source is sent to the SOCKS server through a new port, with the header of its
  destination; and every answer on that port that fits into IPv4 is sent to the source, from the address in the header of the answer and
  with its payload, whole or as fragments that make up its datagram.
\<close>

theorem udp_exchange:
  assumes "link_ok lk" and "lru_ok ops entries" and "rd_inv rd" and "ports_inv ops entries rd"
    and "rd_datagram_map rd (udp_src_addr udp) = None" and "lru_len ops (rd_udp_lru rd) < lru_cap ops (rd_udp_lru rd)"
    and "socks_bind (ev_socks ev) (rd_remote rd) (rd_options rd) = Some (Ok (rx, tx, p))" and "rd_datagrams rd p = None" and "list_all task_ok (ev_await ev)" and "ev_await_send_to ev = []"
  shows "\<exists>r rd1 w d. handle_udp ops lk ev rd udp payload = Some (r, rd1) \<and> rd_inv rd1 \<and> ports_inv ops entries rd1 \<and>
    rd_datagrams rd1 p = Some w \<and> socks_datagram payload (udp_dst_addr udp) = Some d \<and> dw_sent w = [d] \<and>
    (\<forall>answer from_addr reply now. length answer \<le> 65525 \<longrightarrow> socks_datagram answer from_addr = Some reply \<longrightarrow>
      (\<exists>rd2. task_run lk now (Receiver p (Ok reply)) rd1 = Some rd2 \<and>
        answered lk from_addr (udp_src_addr udp) answer (rd_tx rd1) (rd_tx rd2)))"
proof -
  obtain d where d: "socks_datagram payload (udp_dst_addr udp) = Some d" using socks_datagram_eq by blast
  obtain rd1 w where r: "handle_udp ops lk ev rd udp payload = Some (map_sum id (\<lambda>_. ()) (ev_send_to ev), rd1)" "rd_inv rd1"
      "ports_inv ops entries rd1" "rd_datagrams rd1 p = Some w" "dw_sent w = [d]" "datagram_src w = udp_src_addr udp"
      "dw_receiver w" "\<not> dw_is_closed w"
    by (rule request_bound [OF assms d])
  have "\<exists>rd2. task_run lk now (Receiver p (Ok reply)) rd1 = Some rd2 \<and> answered lk from_addr (udp_src_addr udp) answer (rd_tx rd1) (rd_tx rd2)"
    if fits: "length answer \<le> 65525" and reply: "socks_datagram answer from_addr = Some reply" for answer from_addr reply now
  proof -
    have len: "8 + length answer \<le> 65535" and safe: "rd_safe rd1" using fits r(2) by (simp_all add: rd_inv_def)
    obtain rd2 where "task_run lk now (Receiver p (Ok reply)) rd1 = Some rd2" "answered lk from_addr (datagram_src w) answer (rd_tx rd1) (rd_tx rd2)"
      by (rule receiver_answered [OF assms(1) safe r(4,7,8) len fits reply])
    with r(6) show ?thesis by auto
  qed
  with r d show ?thesis by blast
qed

theorem udp_exchange_witness:
  "\<exists>r rd1 d fr rd2. handle_udp sample_lru sample_link sample_env sample_udp_redirector sample_udp [1, 2, 3] = Some (r, rd1) \<and>
    socks_datagram [4, 5] (SocketAddrV4 2 53) = Some d \<and> task_run sample_link 9 (Receiver 5000 (Ok d)) rd1 = Some rd2 \<and>
    fw_sent (rd_tx rd2) = fw_sent (rd_tx rd1) @ [fr] \<and> udp_frame fr (SocketAddrV4 2 53) (SocketAddrV4 1 5353) [4, 5]"
proof -
  obtain d where d: "socks_datagram [4, 5] (SocketAddrV4 2 53) = Some d" using socks_datagram_eq by blast
  have inv: "rd_inv sample_udp_redirector" "ports_inv sample_lru snd sample_udp_redirector"
    using serving_inv [OF sample_serving sample_link_ok sample_lru_ok] by simp_all
  have new: "rd_datagram_map sample_udp_redirector k = None" "rd_datagrams sample_udp_redirector p = None" for k p
    by (simp_all add: sample_udp_redirector_def redirector_new_def)
  have room: "lru_len sample_lru (rd_udp_lru sample_udp_redirector) < lru_cap sample_lru (rd_udp_lru sample_udp_redirector)"
    by (simp add: sample_udp_redirector_def redirector_new_def sample_lru_def MAX_UDP_PORT_def)
  obtain rx tx where bind: "socks_bind (ev_socks sample_env) (rd_remote sample_udp_redirector) (rd_options sample_udp_redirector) = Some (Ok (rx, tx, 5000))"
    using sample_calls_bind [of "SocketAddrV4 3 1080" False None] by (auto simp: sample_env_def sample_udp_redirector_def redirector_new_def)
  have env: "list_all task_ok (ev_await sample_env)" "ev_await_send_to sample_env = []" by (simp_all add: sample_env_def)
  obtain r rd1 where x: "handle_udp sample_lru sample_link sample_env sample_udp_redirector sample_udp [1, 2, 3] = Some (r, rd1)" "rd_inv rd1"
      "\<forall>answer from_addr reply now. length answer \<le> 65525 \<longrightarrow> socks_datagram answer from_addr = Some reply \<longrightarrow>
        (\<exists>rd2. task_run sample_link now (Receiver 5000 (Ok reply)) rd1 = Some rd2 \<and>
          answered sample_link from_addr (udp_src_addr sample_udp) answer (rd_tx rd1) (rd_tx rd2))"
    using udp_exchange [OF sample_link_ok sample_lru_ok inv new(1) room bind new(2) env, of "sample_udp" "[1, 2, 3]"] by blast
  have "length [4 :: u8, 5] \<le> 65525" by simp
  from x(3) [rule_format, OF this d] obtain rd2 where rd2: "task_run sample_link 9 (Receiver 5000 (Ok d)) rd1 = Some rd2"
      "answered sample_link (SocketAddrV4 2 53) (udp_src_addr sample_udp) [4, 5] (rd_tx rd1) (rd_tx rd2)" by blast
  have "fw_inv (rd_tx rd1)" using x(2) by (simp add: rd_inv_def rd_safe_def)
  then have "40 < src_mtu_of (rd_tx rd1) (ip (udp_src_addr sample_udp))" by (rule fw_inv_mtu(1))
  moreover have "28 + length [4 :: u8, 5] = 30" by simp
  ultimately have "28 + length [4 :: u8, 5] \<le> src_mtu_of (rd_tx rd1) (ip (udp_src_addr sample_udp))" by linarith
  with rd2(2) obtain fr where "fw_sent (rd_tx rd2) = fw_sent (rd_tx rd1) @ [fr]" "udp_frame fr (SocketAddrV4 2 53) (udp_src_addr sample_udp) [4, 5]"
    unfolding answered_def by (simp only: if_True) blast
  moreover have "udp_src_addr sample_udp = SocketAddrV4 1 5353" by (simp add: sample_udp_def udp_new_def udp_from_def)
  ultimately show ?thesis using x(1) d rd2(1) by auto
qed

end
