(* ===== verification/Faults.thy ===== *)
theory Faults
  imports Ports
begin

text \<open>
  Faults of the relay that its handlers lead to: frames that the device refuses, path MTUs that a device announces, and the end of the
  retransmission when the remote side closes.
\<close>

text \<open>
  When the device refuses a frame, the bytes have left the queue for the cache and the number of the next byte
  stays before them: what is sent next carries the number of bytes that were never sent.
\<close>

lemma refused_frame:
  assumes "\<And>frames frame. lk_send lk frames frame = Some (Err e)"
    and "send_ipv4_with_transport lk f dst src l payload = Some (r, f')"
  shows "\<exists>e. r = Err e"
proof -
  have "\<exists>e. r = Err e" if "fw_send_frame lk f ind payload = Some (r, f')" for ind payload r f'
    using that assms(1) by (auto simp: fw_send_frame_def Let_def split: bind_splits sum.splits)
  then show ?thesis using assms(2)
    by (fastforce simp: send_ipv4_with_transport_def send_ethernet_def fw_send_with_payload_def fw_send_def Let_def
        split: bind_splits option.splits elim!: and_then_Some)
qed

lemma refused_send_keeps_number:
  assumes refused: "\<And>frames frame. lk_send lk frames frame = Some (Err e)"
    and x: "get_state f dst src = Some x" and y: "append_cache x n now = Some (Ok payload, y)" "payload \<noteq> []" "\<not> tx_queue_fin y"
    and run: "send_queued lk f dst src n now = Some (r, f')"
  shows "(\<exists>e. r = Err e) \<and> get_state f' dst src = Some y \<and> tx_sequence y = tx_sequence x \<and> tx_queue y = drop n (tx_queue x)"
proof -
  let ?f = "set_state f dst src y"
  obtain mss where "ack_raw_loop lk dst src (tx_sequence y) payload False mss (length payload) 0 ?f = Some (r, f')"
    using run x y by (auto simp: send_queued_def send_tcp_ack_raw_def split: bind_splits)
  then obtain k where "and_then (ack_raw_iteration lk dst src (tx_sequence y) payload False mss 0 ?f) k = Some (r, f')"
    using y(2) by (subst (asm) ack_raw_loop.simps) (auto split: nat.splits)
  moreover have "\<exists>tcp part. send_ipv4_with_transport lk ?f (ip dst) (ip src) (LTcp tcp) (Some part) = Some (r1, f1)"
    if "ack_raw_iteration lk dst src (tx_sequence y) payload False mss 0 ?f = Some (r1, f1)" for r1 f1
    using that by (auto simp: ack_raw_iteration_def Let_def split: bind_splits elim!: and_then_Some dest: refused_frame [OF refused])
  ultimately obtain tcp part where sent: "send_ipv4_with_transport lk ?f (ip dst) (ip src) (LTcp tcp) (Some part) = Some (r, f')"
    by (elim and_then_Some) (use refused_frame [OF refused] in blast)+
  then have "get_state f' dst src = Some y" using send_ipv4_with_transport_quiet [OF sent] by (simp add: fw_quiet_def get_state_def set_state_def)
  moreover have "tx_sequence y = tx_sequence x" "tx_queue y = drop n (tx_queue x)"
    using y(1) by (auto simp: append_cache_def Let_def split: if_splits bind_splits sum.splits)
  ultimately show ?thesis using refused_frame [OF refused sent] by simp
qed

text \<open>
  C36. An ICMP message of a device that announces a path MTU below 40 bytes is accepted, and the next
  attempt to send on a connection of that device whose window is open panics.
\<close>

theorem icmp_small_mtu_panics:
  assumes "icmpv4_is_fragmentation_required icmpv4" and "icmpv4_next_hop_mtu icmpv4 = Some (Some mtu)" and "unat mtu < 40"
    and "icmpv4_dst_ip_addr (lk_pnet lk) icmpv4 = Some (Some (ip src))"
    and "get_state (rd_tx rd) dst src = Some x" and "tx_cache_syn x = None" and "0 < tx_send_window x"
  shows "\<exists>rd'. handle_icmpv4 ops lk rd icmpv4 = Some (Ok (), rd') \<and> send_tcp_ack lk (rd_tx rd') dst src now = None"
proof -
  let ?f = "snd (set_src_mtu (rd_tx rd) (ip src) (unat mtu))"
  have "\<not> icmpv4_is_destination_port_unreachable icmpv4"
    using assms(1) by (simp add: icmpv4_is_fragmentation_required_def icmpv4_is_destination_port_unreachable_def
        IcmpCodes_PortUnreachable_def IcmpCodes_FragmentationRequired_def)
  then have run: "handle_icmpv4 ops lk rd icmpv4 = Some (Ok (), rd\<lparr>rd_tx := ?f\<rparr>)"
    using assms(1,2,4) by (simp add: handle_icmpv4_def)
  have "src_mtu_of ?f (ip src) < 40" using assms(3) by (simp add: set_src_mtu_def src_mtu_of_def Let_def)
  then have "send_size ?f src x = None"
    by (simp add: send_size_def ENABLE_SEND_SWS_AVOID_def usub_def ipv4_minimum_len_def tcp_minimum_len_def Let_def)
  moreover have "get_state ?f dst src = Some x" using assms(5) by (simp add: get_state_def set_src_mtu_def Let_def)
  ultimately have "send_tcp_ack lk ?f dst src now = None" using assms(6,7) by (simp add: send_tcp_ack_def)
  with run show ?thesis by simp
qed

theorem icmp_small_mtu_panics_witness:
  "\<exists>rd'. handle_icmpv4 sample_lru
      (sample_link\<lparr>lk_pnet := (lk_pnet sample_link)\<lparr>pn_get_ipv4 := \<lambda>_. Some ((sample_ipv4 1 0)\<lparr>ip_destination := 1\<rparr>, [])\<rparr>\<rparr>)
      (sample_udp_redirector\<lparr>rd_tx := sample_forwarder\<rparr>)
      \<lparr>icmp_type = IcmpTypes_DestinationUnreachable, icmp_code = IcmpCodes_FragmentationRequired, icmp_checksum = 0,
       icmp_payload = [0, 0, 0, 0]\<rparr> = Some (Ok (), rd') \<and>
    send_tcp_ack (sample_link\<lparr>lk_pnet := (lk_pnet sample_link)\<lparr>pn_get_ipv4 := \<lambda>_. Some ((sample_ipv4 1 0)\<lparr>ip_destination := 1\<rparr>, [])\<rparr>\<rparr>)
      (rd_tx rd') (SocketAddrV4 2 443) (SocketAddrV4 1 80) 4 = None"
  by (rule icmp_small_mtu_panics [where mtu = 0 and x = "sample_tx\<lparr>tx_cache_fin := None\<rparr>"])
    (simp_all add: icmpv4_is_fragmentation_required_def icmpv4_next_hop_mtu_def subslice_def from_port_bytes_def be_value_def
      icmpv4_dst_ip_addr_def icmpv4_parse_payload_def sample_forwarder_state sample_tx_def)

text \<open>
  C37. When the remote side closes its half, the reader marks the stream as closed for reading after the
  fourth empty read; from then on neither the reader nor the ticker of the connection calls the
  forwarder again, so that data and a FIN the device has not acknowledged yet are never sent again.
\<close>

theorem remote_close_stops_retransmission:
  assumes "rd_streams rd key = Some w" and "sw_reader w" and "\<not> sw_is_read_closed w" and "3 \<le> sw_recv_zero w"
    and "task_run lk now (Reader key (Read_ok [])) rd = Some rd'"
    and "\<forall>t\<in>set ts. t = Ticker key \<or> (\<exists>ev. t = Reader key ev)"
  shows "\<exists>rd''. tasks_run lk later ts rd' = Some rd'' \<and> rd_tx rd'' = rd_tx rd'"
proof -
  have closed: "\<exists>w'. rd_streams rd' key = Some w' \<and> sw_is_read_closed w'"
    using assms(1-5) by (auto simp: task_run_def reader_step_def MAX_RECV_ZERO_def put_stream_def Let_def split: bind_splits)
  have "\<exists>rd''. tasks_run lk later ts rd' = Some rd'' \<and> rd_tx rd'' = rd_tx rd'"
    if "\<exists>w'. rd_streams rd' key = Some w' \<and> sw_is_read_closed w'" "\<forall>t\<in>set ts. t = Ticker key \<or> (\<exists>ev. t = Reader key ev)" for rd'
    using that
  proof (induction ts arbitrary: rd')
    case (Cons t ts)
    then obtain w' where w': "rd_streams rd' key = Some w'" "sw_is_read_closed w'" by blast
    have "\<exists>rd1. task_run lk later t rd' = Some rd1 \<and> rd_tx rd1 = rd_tx rd' \<and>
        (\<exists>w'. rd_streams rd1 key = Some w' \<and> sw_is_read_closed w')"
      using Cons.prems(2) w' by (auto simp: task_run_def reader_step_def ticker_step_def put_stream_def)
    then obtain rd1 where rd1: "task_run lk later t rd' = Some rd1" "rd_tx rd1 = rd_tx rd'"
        "\<exists>w'. rd_streams rd1 key = Some w' \<and> sw_is_read_closed w'" by blast
    with Cons.IH [OF rd1(3)] Cons.prems(2) show ?case by simp
  qed simp
  from this [OF closed assms(6)] show ?thesis .
qed


definition sample_stream_worker :: stream_worker where
  "sample_stream_worker = \<lparr>sw_src = SocketAddrV4 1 80, sw_dst = SocketAddrV4 2 443, sw_stream_tx = True, sw_is_write_closed = False,
     sw_is_read_closed = False, sw_reader = True, sw_recv_zero = 3, sw_ticker = True, sw_written = []\<rparr>"

text \<open>A connection with two bytes in its send cache.\<close>

definition sample_closing :: "(usize \<times> (u16 \<times> socket_addr_v4) list) redirector" where
  "sample_closing = sample_udp_redirector\<lparr>
     rd_tx := sample_forwarder\<lparr>fw_states := [(SocketAddrV4 1 80, SocketAddrV4 2 443) \<mapsto> sample_tx\<lparr>tx_send_window := 0\<rparr>]\<rparr>,
     rd_streams := [(SocketAddrV4 1 80, SocketAddrV4 2 443) \<mapsto> sample_stream_worker]\<rparr>"

theorem remote_close_stops_retransmission_witness:
  "\<exists>rd' rd''. task_run sample_link 5 (Reader (SocketAddrV4 1 80, SocketAddrV4 2 443) (Read_ok [])) sample_closing = Some rd' \<and>
    tasks_run sample_link 9 [Ticker (SocketAddrV4 1 80, SocketAddrV4 2 443), Ticker (SocketAddrV4 1 80, SocketAddrV4 2 443)] rd' = Some rd'' \<and>
    rd_tx rd'' = rd_tx rd'"
proof -
  let ?key = "(SocketAddrV4 1 80, SocketAddrV4 2 443)"
  have w: "rd_streams sample_closing ?key = Some sample_stream_worker" by (simp add: sample_closing_def)
  have "\<exists>f. forward_close sample_link (rd_tx sample_closing) (SocketAddrV4 2 443) (SocketAddrV4 1 80) 5 = Some (Ok (), f)"
    by (simp add: sample_closing_def forward_close_def get_state_def set_state_def send_tcp_ack_def send_queued_fin_def
        append_queue_fin_def sample_tx_def queue_is_empty_def sample_queue_1_def)
  then obtain rd' where rd': "task_run sample_link 5 (Reader ?key (Read_ok [])) sample_closing = Some rd'"
    using w by (auto simp: task_run_def reader_step_def forwarder_stream_def sample_stream_worker_def MAX_RECV_ZERO_def Let_def)
  show ?thesis
    using remote_close_stops_retransmission [OF w _ _ _ rd', of "[Ticker ?key, Ticker ?key]" 9] rd'
    by (auto simp: sample_stream_worker_def)
qed

end
