(* ===== verification/Startup.thy ===== *)
theory Startup
  imports Interfaces Endpoint Ports
begin

unbundle bit_operations_syntax

text \<open>
  The command line and the start of the program (\<open>main.rs\<close>): the choice of the interface, the MTU, the
  source network and the gateway, the instructions printed for the device, and the \<open>Redirector\<close> that is
  started with them. The networks of the crate ipnetwork are a parameter (\<open>net_ops\<close>, with its documented
  behaviour as \<open>net_ok\<close>), and so are the devices and the channel that is opened. \<open>None\<close> is a panic.
\<close>

section \<open>Networks\<close>

record 'n net_ops =
  net_new :: "ipv4_addr \<Rightarrow> u8 \<Rightarrow> 'n option"
  net_size :: "'n \<Rightarrow> nat option"
  net_network :: "'n \<Rightarrow> ipv4_addr"
  net_mask :: "'n \<Rightarrow> ipv4_addr"
  net_nth :: "'n \<Rightarrow> nat \<Rightarrow> ipv4_addr option"
  net_contains :: "'n \<Rightarrow> ipv4_addr \<Rightarrow> bool"

text \<open>
  \<open>size\<close> is a power of two computed as a \<open>u32\<close>, and \<open>None\<close> the panic of its overflow, for a network of all addresses. A network of one
  address has the size 1, and \<open>nth\<close> is defined below the size.
\<close>

definition net_ok :: "'n net_ops \<Rightarrow> bool" where
  "net_ok ops \<longleftrightarrow>
     (\<forall>a. \<exists>n. net_new ops a 32 = Some n \<and> net_size ops n = Some 1 \<and> net_network ops n = a) \<and>
     (\<forall>n s. net_size ops n = Some s \<longrightarrow> 0 < s \<and> (\<forall>i < s. net_nth ops n i \<noteq> None))"

section \<open>Flags and logging\<close>

record 'n flags =
  fl_verbose :: usize
  fl_inter :: "string option"
  fl_mtu :: "usize option"
  fl_preset :: "string option"
  fl_src :: "'n option"
  fl_publish :: "ipv4_addr option"
  fl_dst :: resolvable_addr
  fl_force_associate_dst :: bool
  fl_force_associate_bind_addr :: bool
  fl_username :: "string option"
  fl_password :: "string option"

text \<open>The constraints between the options, which the parser of the arguments enforces.\<close>

definition flags_ok :: "'n flags \<Rightarrow> bool" where
  "flags_ok fl \<longleftrightarrow>
     (fl_preset fl = None \<longrightarrow> fl_src fl \<noteq> None) \<and>
     \<not> (fl_force_associate_dst fl \<and> fl_force_associate_bind_addr fl) \<and>
     (fl_username fl = None \<longleftrightarrow> fl_password fl = None)"

text \<open>The network the user has given, if it counts, is not that of all addresses.\<close>

definition src_sized :: "'n net_ops \<Rightarrow> 'n flags \<Rightarrow> bool" where
  "src_sized ops fl \<longleftrightarrow> (\<forall>src. fl_preset fl = None \<and> fl_src fl = Some src \<longrightarrow> net_size ops src \<noteq> None)"

datatype level = Level_error | Level_warn | Level_info | Level_debug | Level_trace

datatype target = Stderr | Stdout

definition set_logger :: "usize \<Rightarrow> level" where
  "set_logger verbose = (if verbose = 0 then Level_info else if verbose = 1 then Level_debug else Level_trace)"

definition logger_target :: "level \<Rightarrow> target" where
  "logger_target l = (case l of Level_error \<Rightarrow> Stderr | _ \<Rightarrow> Stdout)"

section \<open>Instructions for the device\<close>

text \<open>The loop that clears every octet of the mask from the first that is not full.\<close>

fun align_mask :: "bool \<Rightarrow> u8 list \<Rightarrow> u8 list" where
  "align_mask is_zero [] = []"
| "align_mask is_zero (b # bs) =
     (if is_zero \<or> b \<noteq> 255 then 0 # align_mask True bs else b # align_mask is_zero bs)"

definition device_mask :: "ipv4_addr \<Rightarrow> ipv4_addr \<Rightarrow> ipv4_addr \<Rightarrow> ipv4_addr" where
  "device_mask network net gw =
     from_octets (align_mask False
       (map2 (AND) (map NOT (map2 (XOR) (octets network) (octets gw))) (octets net)))"

record instructions =
  in_first :: ipv4_addr
  in_last :: "ipv4_addr option"
  in_mask :: ipv4_addr
  in_gateway :: ipv4_addr
  in_mtu :: usize
  in_warning :: bool

definition show_info :: "'n net_ops \<Rightarrow> 'n \<Rightarrow> ipv4_addr \<Rightarrow> usize \<Rightarrow> instructions option" where
  "show_info ops src gw mtu = do {
     s \<leftarrow> net_size ops src;
     final \<leftarrow> (if s = 1 then Some None
       else do { n \<leftarrow> usub s 1; a \<leftarrow> net_nth ops src n; Some (Some a) });
     let mask = device_mask (net_network ops src) (net_mask ops src) gw;
     Some \<lparr>in_first = net_network ops src, in_last = final, in_mask = mask, in_gateway = gw, in_mtu = mtu,
       in_warning = (mask = UNSPECIFIED)\<rparr>
   }"

section \<open>The start\<close>

text \<open>The messages with which \<open>main\<close> returns early.\<close>

datatype main_error = Interface_undetermined | Mtu_unknown | Preset_unavailable string | Source_is_gateway
  | Open_error io_error

definition or_return :: "(main_error + 'a) option \<Rightarrow> ('a \<Rightarrow> (main_error + 'b) option) \<Rightarrow> (main_error + 'b) option" where
  "or_return m k = (case m of None \<Rightarrow> None | Some (Inl e) \<Rightarrow> Some (Inl e) | Some (Inr a) \<Rightarrow> k a)"

definition choose_mtu :: "'n flags \<Rightarrow> interface \<Rightarrow> main_error + usize" where
  "choose_mtu fl i = (case fl_mtu fl of
      Some mtu \<Rightarrow> Inr mtu
    | None \<Rightarrow> if if_mtu i \<le> 0 then Inl Mtu_unknown else Inr (if_mtu i))"

text \<open>The octets of the gateway and of the source under the presets for Netease UU.\<close>

definition preset_octets :: "ipv4_addr \<Rightarrow> u8 list" where
  "preset_octets addr = (octets addr)[0 := 172, 1 := 24]"

definition preset_src_octets :: "ipv4_addr \<Rightarrow> u8 list" where
  "preset_src_octets addr =
     (let ip_octets = preset_octets addr; third = ip_octets ! 2
      in ip_octets[2 := if third = 255 then 0 else third + 1])"

definition choose_src :: "'n net_ops \<Rightarrow> 'n flags \<Rightarrow> interface \<Rightarrow> (main_error + 'n) option" where
  "choose_src ops fl i = (case fl_preset fl of
      Some preset \<Rightarrow>
        if preset = ''t'' \<or> preset = ''tencent'' then do {
          n \<leftarrow> net_new ops (from_octets [10, 6, 0, 1]) 32;
          Some (Inr n)
        }
        else if preset = ''n'' \<or> preset = ''netease'' \<or> preset = ''u'' \<or> preset = ''uu'' then do {
          addr \<leftarrow> interface_ip_addr i;
          n \<leftarrow> net_new ops (from_octets (preset_src_octets addr)) 32;
          Some (Inr n)
        }
        else Some (Inl (Preset_unavailable preset))
    | None \<Rightarrow> do { n \<leftarrow> fl_src fl; Some (Inr n) })"

definition choose_publish :: "'n flags \<Rightarrow> interface \<Rightarrow> (main_error + ipv4_addr option) option" where
  "choose_publish fl i = (case fl_preset fl of
      Some preset \<Rightarrow>
        if preset = ''t'' \<or> preset = ''tencent'' then Some (Inr (Some (from_octets [10, 6, 0, 2])))
        else if preset = ''n'' \<or> preset = ''netease'' \<or> preset = ''u'' \<or> preset = ''uu'' then do {
          addr \<leftarrow> interface_ip_addr i;
          Some (Inr (Some (from_octets (preset_octets addr))))
        }
        else Some (Inl (Preset_unavailable preset))
    | None \<Rightarrow> Some (Inr (fl_publish fl)))"

text \<open>
  \<open>main\<close> from the choice of the gateway to the call of \<open>redirector.open\<close>, and from its beginning. The
  devices are read for the choice of the interface and again when it is opened. The \<open>unwrap_or\<close> of the
  gateway evaluates its argument first.
\<close>

definition start_with :: "'n net_ops \<Rightarrow> 'l lru_ops \<Rightarrow> (interface \<Rightarrow> 'c io_result) \<Rightarrow> 'n flags \<Rightarrow> interface \<Rightarrow> usize
    \<Rightarrow> 'n \<Rightarrow> ipv4_addr option \<Rightarrow> (main_error + 'c \<times> instructions \<times> 'l redirector) option" where
  "start_with ops lru inter_open fl i mtu src publish = do {
     addr \<leftarrow> interface_ip_addr i;
     let gw = unwrap_or publish addr;
     s \<leftarrow> net_size ops src;
     if s = 1 \<and> net_network ops src = gw then Some (Inl Source_is_gateway)
     else do {
       info \<leftarrow> show_info ops src gw mtu;
       (case inter_open i of
          Inl e \<Rightarrow> Some (Inl (Open_error e))
        | Inr c \<Rightarrow> do {
            let forwarder = forwarder_new mtu (if_hardware_addr i) addr;
            auth \<leftarrow> (case fl_username fl of
                Some username \<Rightarrow> do { password \<leftarrow> fl_password fl; Some (Some (username, password)) }
              | None \<Rightarrow> Some None);
            Some (Inr (c, info, redirector_new lru forwarder (net_contains ops src) gw publish (ra_addr (fl_dst fl))
              (fl_force_associate_dst fl) (fl_force_associate_bind_addr fl) auth))
          })
     }
   }"

definition start :: "'n net_ops \<Rightarrow> 'l lru_ops \<Rightarrow> network_interface list \<Rightarrow> system_interfaces \<Rightarrow> network_interface list
    \<Rightarrow> (network_interface \<Rightarrow> usize \<Rightarrow> usize \<Rightarrow> 'c channel io_result) \<Rightarrow> 'n flags
    \<Rightarrow> (main_error + 'c \<times> instructions \<times> 'l redirector) option" where
  "start ops lru devs sys devs' datalink_channel fl = (case interface_named devs sys (fl_inter fl) of
      None \<Rightarrow> Some (Inl Interface_undetermined)
    | Some i \<Rightarrow>
        or_return (Some (choose_mtu fl i)) (\<lambda>mtu.
        or_return (choose_src ops fl i) (\<lambda>src.
        or_return (choose_publish fl i) (\<lambda>publish.
          start_with ops lru (interface_open devs' datalink_channel) fl i mtu src publish))))"

text \<open>
  The whole of \<open>main\<close>, on a channel that is the device that sends and what arrives through it, with the
  steps of the tasks in between.
\<close>

definition main_run :: "'n net_ops \<Rightarrow> 'l lru_ops \<Rightarrow> network_interface list \<Rightarrow> system_interfaces \<Rightarrow> network_interface list
    \<Rightarrow> (network_interface \<Rightarrow> usize \<Rightarrow> usize \<Rightarrow> (link \<times> rx_event list) channel io_result) \<Rightarrow> 'n flags
    \<Rightarrow> (main_error + unit io_result \<times> 'l redirector) option" where
  "main_run ops lru devs sys devs' datalink_channel fl =
     or_return (start ops lru devs sys devs' datalink_channel fl) (\<lambda>((lk, events), info, rd). do {
       result \<leftarrow> redirector_open lru lk events rd;
       Some (Inr result)
     })"

section \<open>The mask\<close>

lemma octet_and_full:
  "NOT (a XOR b) AND (c :: u8) = 255 \<longleftrightarrow> a = b \<and> c = 255"
proof -
  have full: "(255 :: u8) = - 1" by simp
  have "(NOT (a XOR b) AND c = - 1) = (\<forall>n < 8. (bit a n = bit b n) \<and> bit c n)"
    by (auto simp: bit_eq_iff bit_simps)
  also have "\<dots> = (a = b \<and> c = - 1)" by (auto simp: bit_eq_iff bit_simps)
  finally show ?thesis by (simp only: full)
qed

lemma align_mask_zero [simp]: "align_mask True bs = replicate (length bs) 0"
  by (induction bs) simp_all

text \<open>The octets before the first that is not full.\<close>

lemma align_mask_split:
  "\<exists>k \<le> length bs. align_mask False bs = replicate k 255 @ replicate (length bs - k) 0 \<and>
     take k bs = replicate k 255 \<and> (k < length bs \<longrightarrow> bs ! k \<noteq> 255)"
proof (induction bs)
  case (Cons b bs)
  show ?case
  proof (cases "b = 255")
    case True
    from Cons obtain k where "k \<le> length bs" "align_mask False bs = replicate k 255 @ replicate (length bs - k) 0"
      "take k bs = replicate k 255" "k < length bs \<longrightarrow> bs ! k \<noteq> 255" by blast
    then show ?thesis using True by (intro exI [of _ "Suc k"]) simp
  next
    case False
    then show ?thesis by (intro exI [of _ 0]) simp
  qed
qed simp

lemma take_replicate_iff: "length xs = n \<Longrightarrow> k \<le> n \<Longrightarrow> take k xs = replicate k x \<longleftrightarrow> (\<forall>j < k. xs ! j = x)"
  by (auto simp: list_eq_iff_nth_eq)

lemma device_mask_octets:
  "\<exists>k \<le> 4. octets (device_mask network net gw) = replicate k 255 @ replicate (4 - k) 0 \<and>
     take k (octets network) = take k (octets gw) \<and> take k (octets net) = replicate k 255 \<and>
     (k < 4 \<longrightarrow> octets network ! k \<noteq> octets gw ! k \<or> octets net ! k \<noteq> 255)"
proof -
  let ?bs = "map2 (AND) (map NOT (map2 (XOR) (octets network) (octets gw))) (octets net)"
  have len: "length ?bs = 4" by simp
  have full: "?bs ! j = 255 \<longleftrightarrow> octets network ! j = octets gw ! j \<and> octets net ! j = 255" if "j < 4" for j
    using that by (simp add: octet_and_full)
  obtain k where k: "k \<le> 4" "align_mask False ?bs = replicate k 255 @ replicate (4 - k) 0"
    "take k ?bs = replicate k 255" "k < 4 \<longrightarrow> ?bs ! k \<noteq> 255"
    using align_mask_split [of ?bs] unfolding len by blast
  have "octets (device_mask network net gw) = replicate k 255 @ replicate (4 - k) 0"
    unfolding device_mask_def k(2) using k(1) by (intro octets_from_octets) simp
  moreover have agree: "octets network ! j = octets gw ! j \<and> octets net ! j = 255" if "j < k" for j
    using that k(1,3) full [of j] take_replicate_iff [OF len k(1), of 255] by auto
  moreover have "take k (octets network) = take k (octets gw)" "take k (octets net) = replicate k 255"
    using agree k(1) by (auto simp: list_eq_iff_nth_eq)
  ultimately show ?thesis using k(1,4) full [of k] by blast
qed

lemma be_bytes_zero: "be_bytes k 0 = replicate k 0"
  by (induction k) (simp_all add: replicate_append_same)

lemma octets_unspecified: "a = UNSPECIFIED \<longleftrightarrow> octets a = replicate 4 0"
proof -
  have "octets UNSPECIFIED = replicate 4 0" by (simp add: octets_def UNSPECIFIED_def be_bytes_zero)
  then show ?thesis by (metis from_octets_octets)
qed

lemma full_octets_zero:
  assumes "k \<le> n"
  shows "replicate k (255 :: u8) @ replicate (n - k) 0 = replicate n 0 \<longleftrightarrow> k = 0"
proof (cases "k = 0")
  case False
  then have "hd (replicate k (255 :: u8) @ replicate (n - k) 0) \<noteq> hd (replicate n 0)" using assms by (simp add: hd_append)
  with False show ?thesis by metis
qed simp

lemma show_info_some:
  assumes "net_ok ops" and size: "net_size ops src = Some s"
  obtains final where "show_info ops src gw mtu = Some \<lparr>in_first = net_network ops src, in_last = final,
      in_mask = device_mask (net_network ops src) (net_mask ops src) gw, in_gateway = gw, in_mtu = mtu,
      in_warning = (device_mask (net_network ops src) (net_mask ops src) gw = UNSPECIFIED)\<rparr>"
    and "final = None \<longleftrightarrow> s = 1"
proof (cases "s = 1")
  case False
  have "0 < s" using assms by (simp add: net_ok_def)
  moreover from this have "net_nth ops src (s - 1) \<noteq> None" using assms by (simp add: net_ok_def)
  ultimately show ?thesis using False size that by (auto simp: show_info_def usub_def Let_def)
qed (use size that in \<open>simp add: show_info_def Let_def\<close>)

section \<open>The start\<close>

lemma or_return_ok:
  assumes "m = Some x" and "\<And>e. x = Inl e \<Longrightarrow> Q (Inl e)" and "\<And>a. x = Inr a \<Longrightarrow> \<exists>r. k a = Some r \<and> Q r"
  shows "\<exists>r. or_return m k = Some r \<and> Q r"
  using assms by (cases x) (auto simp: or_return_def)

lemma net_new_32:
  assumes "net_ok ops"
  obtains n where "net_new ops a 32 = Some n" and "net_size ops n = Some 1" and "net_network ops n = a"
  using assms unfolding net_ok_def by blast

lemma preset_octets_differ: "from_octets (preset_src_octets addr) \<noteq> from_octets (preset_octets addr)"
proof -
  have differ: "third \<noteq> (if third = 255 then 0 else third + 1)" for third :: u8 by auto
  have "preset_src_octets addr ! 2 \<noteq> preset_octets addr ! 2"
    using differ [of "preset_octets addr ! 2"] by (simp add: preset_src_octets_def preset_octets_def Let_def)
  moreover have "octets (from_octets (preset_src_octets addr)) = preset_src_octets addr"
    "octets (from_octets (preset_octets addr)) = preset_octets addr"
    by (simp_all add: octets_from_octets preset_src_octets_def preset_octets_def Let_def)
  ultimately show ?thesis by metis
qed

text \<open>The source and the address published for a preset, which differ in their last or third octet.\<close>

lemma preset_chosen:
  assumes "net_ok ops" and "fl_preset fl = Some preset" and "interface_ip_addr i = Some addr"
  shows "choose_src ops fl i = Some (Inl (Preset_unavailable preset)) \<and>
      choose_publish fl i = Some (Inl (Preset_unavailable preset)) \<or>
    (\<exists>src publish. choose_src ops fl i = Some (Inr src) \<and> choose_publish fl i = Some (Inr (Some publish)) \<and>
      net_network ops src \<noteq> publish \<and> net_size ops src = Some 1)"
proof -
  have tencent: "from_octets [10, 6, 0, 1] \<noteq> from_octets [10, 6, 0, 2]"
    by (simp add: from_octets_def be_value_def)
  obtain n where "net_new ops (from_octets [10, 6, 0, 1]) 32 = Some n" "net_size ops n = Some 1" "net_network ops n = from_octets [10, 6, 0, 1]"
    by (rule net_new_32 [OF assms(1)])
  moreover obtain m where "net_new ops (from_octets (preset_src_octets addr)) 32 = Some m" "net_size ops m = Some 1"
    "net_network ops m = from_octets (preset_src_octets addr)"
    by (rule net_new_32 [OF assms(1)])
  ultimately show ?thesis using assms(2,3) tencent preset_octets_differ [of addr]
    by (simp add: choose_src_def choose_publish_def)
qed

lemma choose_ok:
  assumes "net_ok ops" and "flags_ok fl" and "interface_ip_addr i = Some addr" and "src_sized ops fl"
  shows "\<exists>s p. choose_src ops fl i = Some s \<and> choose_publish fl i = Some p \<and>
    s \<noteq> Inl Source_is_gateway \<and> p \<noteq> Inl Source_is_gateway \<and>
    (\<forall>src publish. fl_preset fl \<noteq> None \<and> s = Inr src \<and> p = Inr publish \<longrightarrow>
      net_network ops src \<noteq> unwrap_or publish addr) \<and>
    (\<forall>src. s = Inr src \<longrightarrow> net_size ops src \<noteq> None)"
proof (cases "fl_preset fl")
  case None
  then show ?thesis using assms(2,4) by (auto simp: choose_src_def choose_publish_def flags_ok_def src_sized_def)
next
  case (Some preset)
  from preset_chosen [OF assms(1) Some assms(3)] show ?thesis by (auto simp: unwrap_or_def)
qed

text \<open>The state that is started: what the parts agree on, and that the relay may run from it.\<close>

definition start_agrees :: "link \<Rightarrow> 'l lru_ops \<Rightarrow> interface \<Rightarrow> instructions \<Rightarrow> 'l redirector \<Rightarrow> bool" where
  "start_agrees lk lru i info rd \<longleftrightarrow>
     fw_local_hardware_addr (rd_tx rd) = if_hardware_addr i \<and>
     fw_local_ip_addr (rd_tx rd) = rd_local_ip_addr rd \<and> in_gateway info = rd_local_ip_addr rd \<and>
     fw_local_mtu (rd_tx rd) = in_mtu info \<and>
     (in_last info = None \<longrightarrow> in_first info \<noteq> in_gateway info) \<and>
     (40 < in_mtu info \<and> in_mtu info \<le> 65535 \<longrightarrow> relaying lk rd \<and> serving lru lk rd) \<and>
     rd_defrag rd = defraggler_new"

lemma start_agrees_new:
  assumes "in_gateway info = unwrap_or publish addr" and "in_mtu info = mtu"
    and "in_last info = None \<longrightarrow> in_first info \<noteq> in_gateway info"
  shows "start_agrees lk lru i info (redirector_new lru (forwarder_new mtu (if_hardware_addr i) addr) contains
    (unwrap_or publish addr) publish remote force_dst force_bind auth)"
proof -
  let ?f = "forwarder_new mtu (if_hardware_addr i) addr"
  let ?rd = "redirector_new lru ?f contains (unwrap_or publish addr) publish remote force_dst force_bind auth"
  have "relaying lk ?rd \<and> serving lru lk ?rd" if "40 < mtu" "mtu \<le> 65535"
    using that by (intro conjI relaying_new serving_new) (simp_all add: forwarder_new_def)
  then show ?thesis using assms
    by (cases publish) (simp_all add: start_agrees_def redirector_new_def forwarder_new_def set_local_ip_addr_def unwrap_or_def)
qed

lemma start_with_ok:
  assumes "net_ok ops" and "flags_ok fl" and addr: "interface_ip_addr i = Some addr"
    and "fl_preset fl \<noteq> None \<Longrightarrow> net_network ops src \<noteq> unwrap_or publish addr" and "net_size ops src \<noteq> None"
  shows "\<exists>r. start_with ops lru inter_open fl i mtu src publish = Some r \<and>
    (fl_preset fl \<noteq> None \<longrightarrow> r \<noteq> Inl Source_is_gateway) \<and>
    (\<forall>c info rd. r = Inr (c, info, rd) \<longrightarrow> inter_open i = Ok c \<and> start_agrees lk lru i info rd)"
proof -
  let ?gw = "unwrap_or publish addr"
  obtain auth where auth: "(case fl_username fl of
      Some username \<Rightarrow> do { password \<leftarrow> fl_password fl; Some (Some (username, password)) } | None \<Rightarrow> Some None) = Some auth"
    using assms(2) by (auto simp: flags_ok_def split: option.split)
  obtain s where size: "net_size ops src = Some s" using assms(5) by blast
  obtain final where info: "show_info ops src ?gw mtu = Some \<lparr>in_first = net_network ops src, in_last = final,
      in_mask = device_mask (net_network ops src) (net_mask ops src) ?gw, in_gateway = ?gw, in_mtu = mtu,
      in_warning = (device_mask (net_network ops src) (net_mask ops src) ?gw = UNSPECIFIED)\<rparr>"
    and final: "final = None \<longleftrightarrow> s = 1"
    by (rule show_info_some [OF assms(1) size])
  show ?thesis
  proof (cases "s = 1 \<and> net_network ops src = ?gw")
    case True
    moreover from this have "fl_preset fl = None" using assms(4) by blast
    ultimately show ?thesis by (simp add: start_with_def addr size)
  next
    case False
    then show ?thesis using final
      by (cases "inter_open i") (auto simp: start_with_def addr size info auth Let_def intro!: start_agrees_new)
  qed
qed

lemma start_ok:
  assumes "net_ok ops" and "flags_ok fl" and "src_sized ops fl"
  shows "\<exists>r. start ops lru devs sys devs' datalink_channel fl = Some r \<and>
    (fl_preset fl \<noteq> None \<longrightarrow> r \<noteq> Inl Source_is_gateway) \<and>
    (\<forall>c info rd. r = Inr (c, info, rd) \<longrightarrow>
      (\<exists>i \<in> set (interfaces devs sys). interface_open devs' datalink_channel i = Ok c \<and> start_agrees lk lru i info rd))"
proof (cases "interface_named devs sys (fl_inter fl)")
  case (Some i)
  note device = interface_named_device [OF Some]
  note addr = of_device_ip_addr [OF device(2)]
  obtain s p where sp: "choose_src ops fl i = Some s" "choose_publish fl i = Some p"
    and early: "s \<noteq> Inl Source_is_gateway" "p \<noteq> Inl Source_is_gateway"
    and differ: "\<And>src publish. fl_preset fl \<noteq> None \<Longrightarrow> s = Inr src \<Longrightarrow> p = Inr publish \<Longrightarrow>
      net_network ops src \<noteq> unwrap_or publish (hd (if_ip_addrs i))"
    and sized: "\<And>src. s = Inr src \<Longrightarrow> net_size ops src \<noteq> None"
    using choose_ok [OF assms(1,2) addr assms(3)] by blast
  have mtu: "choose_mtu fl i \<noteq> Inl Source_is_gateway" by (simp add: choose_mtu_def split: option.split)
  have rest: "\<exists>r. start_with ops lru (interface_open devs' datalink_channel) fl i mtu src publish = Some r \<and>
      (fl_preset fl \<noteq> None \<longrightarrow> r \<noteq> Inl Source_is_gateway) \<and>
      (\<forall>c info rd. r = Inr (c, info, rd) \<longrightarrow>
        (\<exists>i \<in> set (interfaces devs sys). interface_open devs' datalink_channel i = Ok c \<and> start_agrees lk lru i info rd))"
    if "s = Inr src" "p = Inr publish" for mtu src publish
    using start_with_ok [OF assms(1,2) addr differ [OF _ that] sized [OF that(1)]] device(1) by fast
  show ?thesis unfolding start_def Some option.case sp
    by (intro or_return_ok [OF refl], (use early mtu in auto)[3]) (rule rest; assumption)
qed (simp add: start_def)

text \<open>
  C15. The program starts consistently or says why it does not: with flags that the argument parser
  accepts, and a source network whose size is representable (any but that of all addresses), \<open>main\<close> does not panic before
  the relay runs. When it runs, it is on an interface that is up
  and no loopback, the address it answers ARP and IP for is the gateway announced to the user and is
  not the only source, and the MTU is the one announced. If that MTU, which neither the parser nor \<open>main\<close> checks, is
  from 41 to 65535 bytes, the initial state is one from which the
  relay is safe. A preset never fails for a source that is the gateway.
\<close>

theorem start_consistent:
  assumes "net_ok ops" and "flags_ok fl" and "src_sized ops fl"
  shows "\<exists>r. start ops lru devs sys devs' datalink_channel fl = Some r \<and>
    (fl_preset fl \<noteq> None \<longrightarrow> r \<noteq> Inl Source_is_gateway) \<and>
    (\<forall>c info rd. r = Inr (c, info, rd) \<longrightarrow>
      (\<exists>i \<in> set (interfaces devs sys). interface_open devs' datalink_channel i = Ok c \<and> start_agrees lk lru i info rd))"
  by (rule start_ok [OF assms])

text \<open>
  The mask printed for the device: it consists of full octets and then zeros. On the full octets
  the source network and the gateway agree and the network's own mask is full, and the octet after
  them is the first for which this fails. The user is warned exactly when there is no full octet.
\<close>

theorem device_mask_correct:
  assumes "net_ok ops" and "net_size ops src = Some s"
  shows "\<exists>info k. show_info ops src gw mtu = Some info \<and> k \<le> 4 \<and>
    octets (in_mask info) = replicate k 255 @ replicate (4 - k) 0 \<and>
    take k (octets (net_network ops src)) = take k (octets gw) \<and> take k (octets (net_mask ops src)) = replicate k 255 \<and>
    (k < 4 \<longrightarrow> octets (net_network ops src) ! k \<noteq> octets gw ! k \<or> octets (net_mask ops src) ! k \<noteq> 255) \<and>
    (in_warning info \<longleftrightarrow> k = 0)"
proof -
  obtain k where k: "k \<le> 4" "octets (device_mask (net_network ops src) (net_mask ops src) gw) =
      replicate k 255 @ replicate (4 - k) 0" and agree: "take k (octets (net_network ops src)) = take k (octets gw)"
    "take k (octets (net_mask ops src)) = replicate k 255"
    "k < 4 \<longrightarrow> octets (net_network ops src) ! k \<noteq> octets gw ! k \<or> octets (net_mask ops src) ! k \<noteq> 255"
    using device_mask_octets by blast
  have "device_mask (net_network ops src) (net_mask ops src) gw = UNSPECIFIED \<longleftrightarrow> k = 0"
    unfolding octets_unspecified k(2) by (rule full_octets_zero [OF k(1)])
  moreover obtain info where "show_info ops src gw mtu = Some info"
    "in_mask info = device_mask (net_network ops src) (net_mask ops src) gw"
    "in_warning info \<longleftrightarrow> device_mask (net_network ops src) (net_mask ops src) gw = UNSPECIFIED"
    by (rule show_info_some [OF assms, of gw mtu]) (rule that, assumption, simp_all)
  ultimately show ?thesis using k agree by (intro exI [of _ info] exI [of _ k]) simp
qed

text \<open>Networks as an address and a prefix length.\<close>

definition sample_mask :: "ipv4_addr \<times> u8 \<Rightarrow> ipv4_addr" where
  "sample_mask n = NOT (mask (32 - unat (snd n)))"

definition sample_nets :: "(ipv4_addr \<times> u8) net_ops" where
  "sample_nets = \<lparr>net_new = \<lambda>a p. if p \<le> 32 then Some (a, p) else None,
     net_size = \<lambda>n. if snd n = 0 then None else Some (2 ^ (32 - unat (snd n))), net_network = \<lambda>n. fst n AND sample_mask n, net_mask = sample_mask,
     net_nth = \<lambda>n i. if i < 2 ^ (32 - unat (snd n)) then Some ((fst n AND sample_mask n) + of_nat i) else None,
     net_contains = \<lambda>n a. a AND sample_mask n = fst n AND sample_mask n\<rparr>"

lemma sample_nets_ok: "net_ok sample_nets"
  by (simp add: net_ok_def sample_nets_def sample_mask_def)

definition sample_flags :: "(ipv4_addr \<times> u8) flags" where
  "sample_flags = \<lparr>fl_verbose = 0, fl_inter = None, fl_mtu = None, fl_preset = Some ''t'', fl_src = None,
     fl_publish = None, fl_dst = \<lparr>ra_addr = SocketAddrV4 (from_octets [127, 0, 0, 1]) 1080, ra_alias = None\<rparr>,
     fl_force_associate_dst = False, fl_force_associate_bind_addr = False, fl_username = None, fl_password = None\<rparr>"

definition sample_device :: network_interface where
  "sample_device = \<lparr>ni_name = ''eth0'', ni_mac = Some [2, 0, 0, 0, 0, 1],
     ni_ips = [V6, V4 (from_octets [192, 168, 1, 5])], ni_is_up = True, ni_is_loopback = False\<rparr>"

theorem device_mask_correct_witness:
  "\<exists>info. show_info sample_nets (from_octets [10, 6, 0, 1], 32) (from_octets [10, 6, 0, 2]) 1500 = Some info \<and>
     octets (in_mask info) = [255, 255, 255, 0]"
proof -
  let ?src = "(from_octets [10, 6, 0, 1], 32 :: u8)"
  have size: "net_size sample_nets ?src = Some 1" by (simp add: sample_nets_def)
  have full: "from_octets [255, 255, 255, 255] = - 1" by (simp add: from_octets_def be_value_def)
  have net: "octets (net_network sample_nets ?src) = [10, 6, 0, 1]" "octets (net_mask sample_nets ?src) = [255, 255, 255, 255]"
    using octets_from_octets [of "[255, 255, 255, 255]"] full
    by (simp_all add: sample_nets_def sample_mask_def octets_from_octets)
  obtain info k where info: "show_info sample_nets ?src (from_octets [10, 6, 0, 2]) 1500 = Some info" "k \<le> 4"
    "octets (in_mask info) = replicate k 255 @ replicate (4 - k) 0"
    and k: "take k [10, 6, 0, 1 :: u8] = take k [10, 6, 0, 2]"
      "k < 4 \<longrightarrow> [10, 6, 0, 1 :: u8] ! k \<noteq> [10, 6, 0, 2] ! k \<or> [255, 255, 255, 255 :: u8] ! k \<noteq> 255"
    using device_mask_correct [OF sample_nets_ok size, of "from_octets [10, 6, 0, 2]" 1500]
    unfolding net octets_from_octets [of "[10, 6, 0, 2]", simplified] by (elim exE conjE) (rule that)
  have "k \<in> {0, 1, 2, 3, 4}" using info(2) by auto
  then have "k = 3" using k by auto
  with info show ?thesis by (simp add: numeral_3_eq_3)
qed

definition sample_started :: "(usize \<times> (u16 \<times> socket_addr_v4) list) redirector" where
  "sample_started = redirector_new sample_lru (forwarder_new 1500 [2, 0, 0, 0, 0, 1] (from_octets [192, 168, 1, 5]))
     (net_contains sample_nets (from_octets [10, 6, 0, 1], 32)) (from_octets [10, 6, 0, 2]) (Some (from_octets [10, 6, 0, 2]))
     (SocketAddrV4 (from_octets [127, 0, 0, 1]) 1080) False False None"

lemma sample_start:
  "\<exists>info. start sample_nets sample_lru [sample_device] (C_interfaces (Ok [(''eth0'', Ok 1500)])) [sample_device]
     (\<lambda>_ _ _. Ok (Ethernet_channel c)) sample_flags = Some (Inr (c, info, sample_started)) \<and> in_mtu info = 1500"
  by (simp add: sample_started_def start_def start_with_def interface_named_def interfaces_def pcap_interfaces_def mark_interfaces_def
      mark_c_interface_def interface_of_def sample_device_def map_filter_def interface_new_def sample_flags_def choose_mtu_def
      or_return_def choose_src_def choose_publish_def sample_nets_def show_info_def sample_mask_def interface_ip_addr_def interface_open_def
      Let_def unwrap_or_def from_octets_def be_value_def)

lemma sample_flags_ok: "flags_ok sample_flags" "src_sized sample_nets sample_flags"
  by (simp_all add: flags_ok_def src_sized_def sample_flags_def)

text \<open>
  The network of all addresses is a source the parser accepts, and \<open>main\<close> panics on it once the interface and the MTU are known: its
  size does not fit into the \<open>u32\<close> of \<open>size\<close>.
\<close>

theorem unsized_source_panics:
  assumes "interface_named devs sys (fl_inter fl) = Some i" and "choose_mtu fl i = Inr mtu"
    and "fl_preset fl = None" and "fl_src fl = Some src" and "net_size ops src = None"
  shows "start ops lru devs sys devs' datalink_channel fl = None"
  using assms by (cases "interface_ip_addr i") (simp_all add: start_def or_return_def choose_src_def choose_publish_def start_with_def)

theorem unsized_source_panics_witness:
  "start sample_nets sample_lru [sample_device] (C_interfaces (Ok [(''eth0'', Ok 1500)])) [sample_device]
     (\<lambda>_ _ _. Ok (Ethernet_channel ())) (sample_flags\<lparr>fl_preset := None, fl_src := Some (0, 0)\<rparr>) = None"
proof -
  let ?fl = "sample_flags\<lparr>fl_preset := None, fl_src := Some (0, 0)\<rparr>" and ?sys = "C_interfaces (Ok [(''eth0'', Ok 1500)])"
  have "\<exists>i. interface_named [sample_device] ?sys (fl_inter ?fl) = Some i \<and> choose_mtu ?fl i = Inr 1500"
    by (simp add: interface_named_def interfaces_def pcap_interfaces_def mark_interfaces_def mark_c_interface_def interface_of_def
        sample_device_def map_filter_def interface_new_def sample_flags_def choose_mtu_def)
  then obtain i where i: "interface_named [sample_device] ?sys (fl_inter ?fl) = Some i" "choose_mtu ?fl i = Inr 1500" by blast
  have "net_size sample_nets (0, 0) = None" by (simp add: sample_nets_def)
  then show ?thesis by (intro unsized_source_panics [OF i]) simp_all
qed

theorem start_consistent_witness:
  "\<exists>c info rd. start sample_nets sample_lru [sample_device] (C_interfaces (Ok [(''eth0'', Ok 1500)])) [sample_device]
       (\<lambda>_ _ _. Ok (Ethernet_channel ())) sample_flags = Some (Inr (c, info, rd)) \<and>
     relaying sample_link rd \<and> serving sample_lru sample_link rd"
  using sample_start [of "()"]
    start_consistent [OF sample_nets_ok sample_flags_ok, of sample_lru "[sample_device]"
      "C_interfaces (Ok [(''eth0'', Ok 1500)])" "[sample_device]" "\<lambda>_ _ _. Ok (Ethernet_channel ())" sample_link]
  by (auto simp: start_agrees_def)

end
