(* ===== verification/Texts.thy ===== *)
theory Texts
  imports Queue Window Endpoint
begin

text \<open>
  The text forms of the caches (\<open>Display\<close> of \<open>Queue\<close> and \<open>Window\<close> in \<open>cache/mod.rs\<close>), which show the whole
  buffer with the marks of the head and the tail, and the unit tests of that file, which compare these
  texts: run on the model, each of them gives the text the test expects.
\<close>

section \<open>The text of a cache\<close>

text \<open>The position of the last byte before \<open>tail\<close>, as both \<open>fmt\<close> compute it; nothing is subtracted from 0.\<close>

definition last_pos :: "usize \<Rightarrow> usize \<Rightarrow> usize" where
  "last_pos len tail = unwrap_or (checked_sub_nat tail 1) (unwrap_or (checked_sub_nat len 1) 0)"

text \<open>The loop over the buffer, with the marks before and after each byte.\<close>

definition bytes_string :: "(usize \<Rightarrow> string) \<Rightarrow> (usize \<Rightarrow> string) \<Rightarrow> u8 list \<Rightarrow> string" where
  "bytes_string left right buf =
     ''['' @ concat (map (\<lambda>(i, b). (if i \<noteq> 0 then '', '' else []) @ left i @ dec (unat b) @ right i) (enumerate 0 buf)) @ '']''"

definition queue_string :: "queue \<Rightarrow> string" where
  "queue_string q =
     (let tail = last_pos (length (q_buffer q)) (queue_tail q)
      in bytes_string (\<lambda>i. if i = q_head q then ''<'' else []) (\<lambda>i. if i = tail then ''>'' else []) (q_buffer q))"

text \<open>
  The first and the last position of a range in the buffer of a \<open>Window\<close>. Where the sum wraps, it is
  computed as for the positions in the ring; \<open>None\<close> is the panic of \<open>buffer.len() - 1\<close> on an empty buffer.
\<close>

definition wrapping_add_usize :: "usize \<Rightarrow> usize \<Rightarrow> usize" where
  "wrapping_add_usize a b = (case checked_add_usize a b of Some t \<Rightarrow> t | None \<Rightarrow> b - (USIZE_MAX - a))"

definition edge_positions :: "window \<Rightarrow> u64 \<times> usize \<Rightarrow> (usize \<times> usize) option" where
  "edge_positions w = (\<lambda>(edge_sequence, size). do {
     last \<leftarrow> usub (length (w_buffer w)) 1;
     let begin = unwrap_or (checked_sub_nat edge_sequence (unat (w_sequence w))) (edge_sequence + (4294967295 - unat (w_sequence w)));
     let begin = wrapping_add_usize begin (w_head w);
     let end = wrapping_add_usize begin size;
     let end = unwrap_or (checked_sub_nat end (length (w_buffer w))) end;
     let end = unwrap_or (checked_sub_nat end 1) last;
     Some (begin, end)
   })"

definition window_string :: "window \<Rightarrow> string option" where
  "window_string w = do {
     edges \<leftarrow> those (map (edge_positions w) (w_edges w));
     let tail = last_pos (length (w_buffer w)) (window_tail w);
     Some (bytes_string
       (\<lambda>i. (if i = w_head w then ''<'' else []) @ (if i \<in> set (map fst edges) then ''<'' else []))
       (\<lambda>i. (if i \<in> set (map snd edges) then ''>'' else []) @ (if i = tail then ''>'' else [])) (w_buffer w))
   }"

section \<open>The unit tests\<close>

text \<open>
  A test is a sequence of calls that end with \<open>unwrap\<close>, and the text of the cache at its end. The clock is read in each call of
  the queue.
\<close>

datatype queue_call = Append "u8 list" | Invalidate_to u32

fun queue_test_call :: "queue_call \<Rightarrow> instant \<Rightarrow> queue \<Rightarrow> queue option" where
  "queue_test_call (Append v) now q = do { (r, q) \<leftarrow> queue_append q v 0 now; (case r of Inr _ \<Rightarrow> Some q | Inl _ \<Rightarrow> None) }"
| "queue_test_call (Invalidate_to s) now q = map_option snd (queue_invalidate_to q s now)"

fun queue_test :: "(queue_call \<times> instant) list \<Rightarrow> queue \<Rightarrow> string option" where
  "queue_test [] q = Some (queue_string q)"
| "queue_test ((c, now) # cs) q = do { q \<leftarrow> queue_test_call c now q; queue_test cs q }"

fun window_test :: "(u32 \<times> u8 list) list \<Rightarrow> window \<Rightarrow> string option" where
  "window_test [] w = window_string w"
| "window_test ((s, v) # cs) w = do { (r, w) \<leftarrow> window_append w s v; (case r of Inr _ \<Rightarrow> window_test cs w | Inl _ \<Rightarrow> None) }"

text \<open>\<open>(a..b).collect::<Vec<_>>()\<close>.\<close>

definition collect_range :: "nat \<Rightarrow> nat \<Rightarrow> u8 list" where
  "collect_range a b = map of_nat [a..<b]"

definition test_queue_append_overflow :: "(nat \<Rightarrow> instant) \<Rightarrow> string option" where
  "test_queue_append_overflow now = do {
     q \<leftarrow> queue_with_capacity 9 0;
     queue_test [(Append (collect_range 0 8), now 0), (Invalidate_to 2, now 1), (Append (collect_range 8 10), now 2),
       (Invalidate_to 6, now 3), (Append (collect_range 10 15), now 4)] q
   }"

definition test_queue_append_overflow_overlapped :: "(nat \<Rightarrow> instant) \<Rightarrow> string option" where
  "test_queue_append_overflow_overlapped now = do {
     q \<leftarrow> queue_with_capacity 9 0;
     queue_test [(Append (collect_range 0 8), now 0), (Invalidate_to 3, now 1), (Append (collect_range 8 11), now 2),
       (Invalidate_to 6, now 3), (Append (collect_range 11 15), now 4)] q
   }"

definition test_queue_append_overflow_overlapped_2 :: "(nat \<Rightarrow> instant) \<Rightarrow> string option" where
  "test_queue_append_overflow_overlapped_2 now = do {
     q \<leftarrow> queue_with_capacity 9 0;
     queue_test [(Append (collect_range 0 8), now 0), (Invalidate_to 6, now 1), (Append (collect_range 8 14), now 2),
       (Append (collect_range 14 15), now 3)] q
   }"

definition test_window_append :: "string option" where
  "test_window_append =
     window_test [(0, collect_range 0 8), (12, collect_range 12 14), (8, collect_range 8 12), (15, collect_range 15 16)]
       (window_with_capacity 9 0)"

definition test_window_append_overflow :: "string option" where
  "test_window_append_overflow =
     window_test [(6, collect_range 6 8), (0, collect_range 0 5), (8, collect_range 8 10), (10, collect_range 10 14)]
       (window_with_capacity 9 0)"

definition test_window_append_overflow_overlapped :: "string option" where
  "test_window_append_overflow_overlapped =
     window_test [(6, collect_range 6 8), (0, collect_range 0 5), (8, collect_range 8 11), (11, collect_range 11 14)]
       (window_with_capacity 9 0)"

definition test_window_append_overflow_overlapped_2 :: "string option" where
  "test_window_append_overflow_overlapped_2 =
     window_test [(7, collect_range 7 8), (0, collect_range 0 6), (8, collect_range 8 14), (14, collect_range 14 15)]
       (window_with_capacity 9 0)"

definition test_window_append_prev_and_next :: "string option" where
  "test_window_append_prev_and_next =
     window_test [(4, collect_range 4 6), (0, collect_range 0 2), (0, collect_range 0 3), (1, collect_range 11 13)]
       (window_with_capacity 8 0)"

section \<open>Evaluation\<close>

lemma collect_range_simps:
  "collect_range 0 2 = [0, 1]"
  "collect_range 0 3 = [0, 1, 2]"
  "collect_range 0 5 = [0, 1, 2, 3, 4]"
  "collect_range 0 6 = [0, 1, 2, 3, 4, 5]"
  "collect_range 0 8 = [0, 1, 2, 3, 4, 5, 6, 7]"
  "collect_range 4 6 = [4, 5]"
  "collect_range 6 8 = [6, 7]"
  "collect_range 7 8 = [7]"
  "collect_range 8 10 = [8, 9]"
  "collect_range 8 11 = [8, 9, 10]"
  "collect_range 8 12 = [8, 9, 10, 11]"
  "collect_range 8 14 = [8, 9, 10, 11, 12, 13]"
  "collect_range 10 14 = [10, 11, 12, 13]"
  "collect_range 10 15 = [10, 11, 12, 13, 14]"
  "collect_range 11 13 = [11, 12]"
  "collect_range 11 14 = [11, 12, 13]"
  "collect_range 11 15 = [11, 12, 13, 14]"
  "collect_range 12 14 = [12, 13]"
  "collect_range 14 15 = [14]"
  "collect_range 15 16 = [15]"
  by (simp_all add: collect_range_def upt_rec)

text \<open>A call is evaluated before what follows it, and lengths as numerals.\<close>

lemma bind_weak_cong: "m = m' \<Longrightarrow> Option.bind m f = Option.bind m' f"
  by simp

lemma replicate_eval: "replicate (numeral k) x = x # replicate (pred_numeral k) x" "replicate 1 x = [x]"
  by (simp_all add: numeral_eq_Suc)

lemmas test_eval = window_eval queue_append_def queue_remaining_def queue_tail_def queue_invalidate_to_def queue_next_head_def
  queue_recv_next_def queue_with_capacity_def vec_deque_with_capacity_def collect_range_simps replicate_eval U32_MAX_def
  checked_sub_u32_def One_nat_def [symmetric]

lemma digit_chars:
  "char_of (48 :: nat) = CHR ''0''"
  "char_of (49 :: nat) = CHR ''1''"
  "char_of (50 :: nat) = CHR ''2''"
  "char_of (51 :: nat) = CHR ''3''"
  "char_of (52 :: nat) = CHR ''4''"
  "char_of (53 :: nat) = CHR ''5''"
  "char_of (54 :: nat) = CHR ''6''"
  "char_of (55 :: nat) = CHR ''7''"
  "char_of (56 :: nat) = CHR ''8''"
  "char_of (57 :: nat) = CHR ''9''"
  by (simp_all add: char_of_def bit_iff_odd)

lemmas text_eval = digit_chars queue_string_def window_string_def bytes_string_def last_pos_def edge_positions_def wrapping_add_usize_def
  dec.simps digit_char_def queue_tail_def window_tail_def ring_pos_def checked_add_usize_def checked_sub_nat_def usub_def USIZE_MAX_def Let_def

lemma queue_tests:
  "test_queue_append_overflow now = Some ''[9, 10, 11, 12, 13, 14>, <6, 7, 8]''"
  "test_queue_append_overflow_overlapped now = Some ''[9, 10, 11, 12, 13, 14>, <6, 7, 8]''"
  "test_queue_append_overflow_overlapped_2 now = Some ''[9, 10, 11, 12, 13, 14>, <6, 7, 8]''"
  by (simp_all add: test_queue_append_overflow_def test_queue_append_overflow_overlapped_def
      test_queue_append_overflow_overlapped_2_def test_eval del: One_nat_def cong: bind_weak_cong)
    (simp_all add: text_eval)

lemma window_tests:
  "test_window_append = Some ''[8, 9, 10, 11, 12, 13, <6, <15>>]''"
  "test_window_append_overflow = Some ''[9, 10, 11, 12, 13>>, <0, <6, 7, 8]''"
  "test_window_append_overflow_overlapped = Some ''[9, 10, 11, 12, 13>>, <0, <6, 7, 8]''"
  "test_window_append_overflow_overlapped_2 = Some ''[9, 10, 11, 12, 13, 14>>, <0, <7, 8]''"
  "test_window_append_prev_and_next = Some ''[0, 1, 2, <0, <4, 5>>]''"
  by (simp_all add: test_window_append_def test_window_append_overflow_def test_window_append_overflow_overlapped_def
      test_window_append_overflow_overlapped_2_def test_window_append_prev_and_next_def test_eval
      del: One_nat_def cong: bind_weak_cong)
    (simp_all add: text_eval)

text \<open>
  The unit tests of \<open>cache/mod.rs\<close> hold of the model: for whatever the clock shows during a test, no call of
  it fails or panics, and the text of the cache at its end is the one the test states. The texts
  show the whole ring buffer, so that the positions in the buffer, and how it grows, are those of the program.
\<close>

theorem cache_unit_tests:
  "test_queue_append_overflow now = Some ''[9, 10, 11, 12, 13, 14>, <6, 7, 8]'' \<and>
   test_queue_append_overflow_overlapped now = Some ''[9, 10, 11, 12, 13, 14>, <6, 7, 8]'' \<and>
   test_queue_append_overflow_overlapped_2 now = Some ''[9, 10, 11, 12, 13, 14>, <6, 7, 8]'' \<and>
   test_window_append = Some ''[8, 9, 10, 11, 12, 13, <6, <15>>]'' \<and>
   test_window_append_overflow = Some ''[9, 10, 11, 12, 13>>, <0, <6, 7, 8]'' \<and>
   test_window_append_overflow_overlapped = Some ''[9, 10, 11, 12, 13>>, <0, <6, 7, 8]'' \<and>
   test_window_append_overflow_overlapped_2 = Some ''[9, 10, 11, 12, 13, 14>>, <0, <7, 8]'' \<and>
   test_window_append_prev_and_next = Some ''[0, 1, 2, <0, <4, 5>>]''"
  by (simp add: queue_tests window_tests)

end
