(* ===== verification/Logs.thy ===== *)
theory Logs
  imports Startup Briefs "HOL-Library.Sublist"
begin

text \<open>
  What \<open>main\<close> says: the instructions for the device as a table, the messages of the start, and the logger that
  writes them. A text is a list of code points, since the table is drawn with characters beyond ASCII. The text of a
  network belongs to the crate \<open>ipnetwork\<close>, that of a hardware address to \<open>pnet\<close> and that of an I/O error to the system; they are
  arguments, and so is the filter of the crate \<open>env_logger\<close>.
\<close>

type_synonym message = "level \<times> nat list"

definition chars :: "string \<Rightarrow> nat list" where
  "chars s = map of_char s"

lemma chars_simps [simp]: "chars (s @ t) = chars s @ chars t" "length (chars s) = length s" "chars [] = []"
  by (simp_all add: chars_def)

section \<open>The table\<close>

text \<open>\<open>{:>w$}\<close> with a fill character.\<close>

definition pad_left :: "nat \<Rightarrow> nat \<Rightarrow> nat list \<Rightarrow> nat list" where
  "pad_left fill w s = replicate (w - length s) fill @ s"

definition src_text :: "instructions \<Rightarrow> string" where
  "src_text info = ipv4_addr_string (in_first info) @
     (case in_last info of None \<Rightarrow> [] | Some a \<Rightarrow> '' - '' @ ipv4_addr_string a)"

definition mtu_text :: "instructions \<Rightarrow> string" where
  "mtu_text info = ''<='' @ dec (in_mtu info)"

definition info_width :: "instructions \<Rightarrow> nat" where
  "info_width info = max (length (src_text info)) (max (length (ipv4_addr_string (in_mask info)))
     (max (length (ipv4_addr_string (in_gateway info))) (length (mtu_text info))))"

text \<open>A line of the frame with its two ends, and a line with a label of 13 characters.\<close>

definition frame_row :: "nat \<Rightarrow> nat \<Rightarrow> nat \<Rightarrow> nat list" where
  "frame_row left right w = chars ''    '' @ [left] @ replicate 13 0x2500 @ pad_left 0x2500 w [] @ [0x2500, right]"

definition value_row :: "string \<Rightarrow> string \<Rightarrow> nat \<Rightarrow> nat list" where
  "value_row label val w = chars ''    '' @ [0x2502] @ chars label @ pad_left 0x20 w (chars val) @ [0x20, 0x2502]"

definition info_table :: "instructions \<Rightarrow> nat list list" where
  "info_table info =
     (let w = info_width info
      in [frame_row 0x250C 0x2510 w,
          value_row '' IP Address  '' (src_text info) w,
          value_row '' Mask        '' (ipv4_addr_string (in_mask info)) w,
          value_row '' Gateway     '' (ipv4_addr_string (in_gateway info)) w,
          frame_row 0x2502 0x2502 w,
          value_row '' MTU         '' (mtu_text info) w,
          frame_row 0x2514 0x2518 w])"

definition info_messages :: "instructions \<Rightarrow> message list" where
  "info_messages info =
     (Level_info, chars ''Please set the network of your device which is going to be proxied with the following parameters:'') #
     map (Pair Level_info) (info_table info) @
     (if in_warning info then [(Level_warn, chars ''The mask is all zeros, which may cause potential problems'')] else [])"

section \<open>The messages of the start\<close>

text \<open>A message before what follows, and an error message with which \<open>main\<close> returns.\<close>

definition say :: "message list \<Rightarrow> (message list \<times> main_error option) option \<Rightarrow> (message list \<times> main_error option) option" where
  "say ms r = map_option (\<lambda>(ms', e). (ms @ ms', e)) r"

definition stop :: "main_error \<Rightarrow> string \<Rightarrow> (message list \<times> main_error option) option" where
  "stop e text = Some ([(Level_error, chars text)], Some e)"

definition proxy_text :: "('n \<Rightarrow> string) \<Rightarrow> 'n flags \<Rightarrow> 'n \<Rightarrow> string" where
  "proxy_text net_string fl src = ''Proxy '' @ net_string src @ '' to '' @
     (case fl_username fl of Some username \<Rightarrow> username @ ''@'' | None \<Rightarrow> []) @ resolvable_string (fl_dst fl)"

text \<open>
  The messages of \<open>main\<close> from the choice of the gateway on, and from its beginning. \<open>None\<close> is a panic, as in \<open>start\<close>.
\<close>

definition start_with_log :: "'n net_ops \<Rightarrow> ('n \<Rightarrow> string) \<Rightarrow> (io_error \<Rightarrow> string) \<Rightarrow> (interface \<Rightarrow> 'c io_result) \<Rightarrow> 'n flags \<Rightarrow> interface
    \<Rightarrow> usize \<Rightarrow> 'n \<Rightarrow> ipv4_addr option \<Rightarrow> (message list \<times> main_error option) option" where
  "start_with_log ops net_string err_string inter_open fl i mtu src publish =
     say (case publish of Some a \<Rightarrow> [(Level_info, chars (''Publish for '' @ ipv4_addr_string a))] | None \<Rightarrow> []) (do {
       addr \<leftarrow> interface_ip_addr i;
       let gw = unwrap_or publish addr;
       s \<leftarrow> net_size ops src;
       if s = 1 \<and> net_network ops src = gw
       then stop Source_is_gateway ''The source cannot be the same with the gateway (publish)''
       else do {
         info \<leftarrow> show_info ops src gw mtu;
         say (info_messages info) (case inter_open i of
             Inl e \<Rightarrow> stop (Open_error e) (err_string e)
           | Inr _ \<Rightarrow> do {
               auth \<leftarrow> (case fl_username fl of Some _ \<Rightarrow> map_option (\<lambda>_. ()) (fl_password fl) | None \<Rightarrow> Some ());
               Some ([(Level_info, chars (proxy_text net_string fl src))], None)
             })
       }
     })"

definition start_log :: "'n net_ops \<Rightarrow> ('n \<Rightarrow> string) \<Rightarrow> (hardware_addr \<Rightarrow> string) \<Rightarrow> (io_error \<Rightarrow> string) \<Rightarrow> network_interface list
    \<Rightarrow> system_interfaces \<Rightarrow> network_interface list \<Rightarrow> (network_interface \<Rightarrow> usize \<Rightarrow> usize \<Rightarrow> 'c channel io_result) \<Rightarrow> 'n flags
    \<Rightarrow> (message list \<times> main_error option) option" where
  "start_log ops net_string mac err_string devs sys devs' datalink_channel fl =
     (case interface_named devs sys (fl_inter fl) of
        None \<Rightarrow> Some ((Level_error, chars (''Cannot determine the interface. Available interfaces are listed below, '' @
            ''and please use -i <INTERFACE> to designate:'')) #
            map (\<lambda>i. (Level_info, chars (''    '' @ interface_string mac i))) (interfaces devs' sys), Some Interface_undetermined)
      | Some i \<Rightarrow> say [(Level_info, chars (''Listen on '' @ interface_string mac i))]
          (case choose_mtu fl i of
             Inl e \<Rightarrow> stop e ''Cannot obtain the MTU. Please use --mtu <VALUE> to set''
           | Inr mtu \<Rightarrow> say [(Level_info, chars (''Use MTU '' @ dec mtu))] (do {
               src \<leftarrow> choose_src ops fl i;
               (case src of
                  Inl e \<Rightarrow> stop e (''The preset '' @ unwrap_or (fl_preset fl) [] @ '' is not available'')
                | Inr src \<Rightarrow> do {
                    publish \<leftarrow> choose_publish fl i;
                    (case publish of
                       Inl e \<Rightarrow> stop e (''The preset '' @ unwrap_or (fl_preset fl) [] @ '' is not available'')
                     | Inr publish \<Rightarrow> start_with_log ops net_string err_string (interface_open devs' datalink_channel) fl i mtu src publish)
                  })
             })))"

section \<open>The logger\<close>

definition level_prefix :: "level \<Rightarrow> string" where
  "level_prefix l = (case l of Level_error \<Rightarrow> ''error: '' | Level_warn \<Rightarrow> ''warning: '' | _ \<Rightarrow> [])"

text \<open>The format of \<open>Logger::init\<close> less its colours.\<close>

definition log_line :: "message \<Rightarrow> nat list" where
  "log_line m = chars (level_prefix (fst m)) @ snd m @ [0x0A]"

text \<open>
  \<open>Logger::log\<close>: the record goes to one of the two loggers, which writes the line if its filter, built
  for the level of \<open>set_logger\<close>, lets it pass.
\<close>

definition logger_log :: "(level \<Rightarrow> level \<Rightarrow> bool) \<Rightarrow> level \<Rightarrow> message \<Rightarrow> (target \<times> nat list) list" where
  "logger_log passes level m = (if passes level (fst m) then [(logger_target (fst m), log_line m)] else [])"

definition logger_enabled :: "(level \<Rightarrow> level \<Rightarrow> bool) \<Rightarrow> level \<Rightarrow> level \<Rightarrow> bool" where
  "logger_enabled passes level l = (case l of Level_error \<Rightarrow> passes level l | _ \<Rightarrow> passes level l)"

definition logger_output :: "(level \<Rightarrow> level \<Rightarrow> bool) \<Rightarrow> usize \<Rightarrow> message list \<Rightarrow> (target \<times> nat list) list" where
  "logger_output passes verbose ms = concat (map (logger_log passes (set_logger verbose)) ms)"

text \<open>The documented behaviour of \<open>filter_level\<close>: a record passes if its level is at most the one that is set.\<close>

definition level_rank :: "level \<Rightarrow> nat" where
  "level_rank l = (case l of Level_error \<Rightarrow> 1 | Level_warn \<Rightarrow> 2 | Level_info \<Rightarrow> 3 | Level_debug \<Rightarrow> 4 | Level_trace \<Rightarrow> 5)"

definition filter_ok :: "(level \<Rightarrow> level \<Rightarrow> bool) \<Rightarrow> bool" where
  "filter_ok passes \<longleftrightarrow> (\<forall>level l. passes level l \<longleftrightarrow> level_rank l \<le> level_rank level)"

text \<open>The text of an address that cannot be read, over that of the error of the standard library.\<close>

definition resolvable_error_string :: "string \<Rightarrow> (io_error \<Rightarrow> string) \<Rightarrow> resolvable_error \<Rightarrow> string" where
  "resolvable_error_string parse_string err_string e =
     (case e of AddrParseError \<Rightarrow> parse_string | ResolveError e \<Rightarrow> err_string e)"

section \<open>Lemmas\<close>

lemma length_pad_left [simp]: "length (pad_left fill w s) = max w (length s)"
  by (simp add: pad_left_def)

lemma length_rows:
  "length (frame_row left right w) = 20 + w"
  "length label = 13 \<Longrightarrow> length val \<le> w \<Longrightarrow> length (value_row label val w) = 20 + w"
  by (simp_all add: frame_row_def value_row_def)

lemma fits_info_width:
  "length (src_text info) \<le> info_width info" "length (ipv4_addr_string (in_mask info)) \<le> info_width info"
  "length (ipv4_addr_string (in_gateway info)) \<le> info_width info" "length (mtu_text info) \<le> info_width info"
  by (simp_all add: info_width_def)

lemma info_messages_quiet: "filter (\<lambda>m. fst m = Level_error) (info_messages info) = []"
  by (auto simp: info_messages_def filter_empty_conv)

text \<open>The logger is enabled for exactly what it writes.\<close>

lemma logger_enabled_iff: "logger_enabled passes level (fst m) \<longleftrightarrow> logger_log passes level m \<noteq> []"
  by (simp add: logger_enabled_def logger_log_def split: level.split)

text \<open>Only error messages go to the standard error, whatever the level.\<close>

lemma stderr_lines:
  assumes "filter_ok passes"
  shows "filter (\<lambda>l. fst l = Stderr) (logger_output passes verbose ms) =
    map (\<lambda>m. (Stderr, log_line m)) (filter (\<lambda>m. fst m = Level_error) ms)"
proof -
  have "passes (set_logger verbose) Level_error"
    using assms by (simp add: filter_ok_def level_rank_def set_logger_def)
  moreover have "logger_target l = Stderr \<longleftrightarrow> l = Level_error" for l by (cases l) (simp_all add: logger_target_def)
  ultimately show ?thesis
    by (induction ms) (auto simp: logger_output_def logger_log_def)
qed

text \<open>A result that agrees with that of the start: the same error with one message about it, or none and the announcement of the relay.\<close>

definition reports :: "('n \<Rightarrow> string) \<Rightarrow> 'n flags \<Rightarrow> (main_error + 'c \<times> instructions \<times> 'l redirector) option
    \<Rightarrow> (message list \<times> main_error option) option \<Rightarrow> bool" where
  "reports net_string fl r log \<longleftrightarrow>
     (case r of
        None \<Rightarrow> log = None
      | Some (Inl e) \<Rightarrow> \<exists>ms text. log = Some (ms, Some e) \<and> filter (\<lambda>m. fst m = Level_error) ms = [(Level_error, text)]
      | Some (Inr (c, info, rd)) \<Rightarrow> \<exists>ms src. log = Some (ms @ info_messages info @ [(Level_info, chars (proxy_text net_string fl src))], None) \<and>
          filter (\<lambda>m. fst m = Level_error) ms = [])"

lemma reports_say:
  assumes "reports net_string fl r log" and "filter (\<lambda>m. fst m = Level_error) ms = []"
  shows "reports net_string fl r (say ms log)"
  using assms unfolding reports_def say_def
  by (auto split: option.splits sum.splits)

lemma reports_stop [simp]: "reports net_string fl (Some (Inl e)) (stop e text)"
  by (simp add: reports_def stop_def)

lemma reports_None [simp]: "reports net_string fl None None"
  by (simp add: reports_def)

lemma reports_info:
  "reports net_string fl (Some (Inl e)) (say (info_messages info) (stop e text))"
  "reports net_string fl None (say (info_messages info) None)"
  "reports net_string fl (Some (Inr (c, info, rd))) (say (info_messages info) (Some ([(Level_info, chars (proxy_text net_string fl src))], None)))"
  by (rule reports_say [OF reports_stop info_messages_quiet], rule reports_say [OF reports_None info_messages_quiet])
    (auto simp: reports_def say_def)

lemma start_with_reports:
  "reports net_string fl (start_with ops lru inter_open fl i mtu src publish)
     (start_with_log ops net_string err_string inter_open fl i mtu src publish)"
proof -
  have publish: "filter (\<lambda>m. fst m = Level_error)
      (case publish of Some a \<Rightarrow> [(Level_info, chars (''Publish for '' @ ipv4_addr_string a))] | None \<Rightarrow> []) = []"
    by (simp split: option.split)
  show ?thesis
    unfolding start_with_def start_with_log_def
  proof (rule reports_say [OF _ publish], goal_cases)
    case 1
    show ?case
    proof (cases "interface_ip_addr i")
      case (Some a)
      show ?thesis
      proof (cases "show_info ops src (unwrap_or publish a) mtu")
        case (Some info)
        with \<open>interface_ip_addr i = Some a\<close> show ?thesis
          by (cases "net_size ops src"; cases "inter_open i"; cases "fl_username fl"; cases "fl_password fl") (simp_all add: Let_def reports_info)
      qed (use Some in \<open>cases "net_size ops src"; simp add: Let_def\<close>)
    qed simp
  qed
qed

lemma start_reports:
  "reports net_string fl (start ops lru devs sys devs' datalink_channel fl)
     (start_log ops net_string mac err_string devs sys devs' datalink_channel fl)"
proof (cases "interface_named devs sys (fl_inter fl)")
  case None
  then show ?thesis by (auto simp: start_def start_log_def reports_def filter_empty_conv)
next
  case (Some i)
  have quiet: "filter (\<lambda>m. fst m = Level_error) [(Level_info, t)] = []" for t :: "nat list" by simp
  note sw = start_with_reports [of net_string fl ops lru "interface_open devs' datalink_channel" i _ _ _ err_string]
  show ?thesis
    unfolding start_def start_log_def Some option.case
    by (rule reports_say [OF _ quiet])
      (use sw in \<open>auto simp: or_return_def intro!: reports_say [OF _ quiet] split: sum.split option.split bind_splits\<close>)
qed

section \<open>Properties\<close>

text \<open>
  C16. Every early return of \<open>main\<close> is reported: whatever the level of the log, exactly one line goes to the standard error when the start fails, marked as an error;
  when it succeeds there is none, and the instructions for the device and the announcement of the relay come last. The start panics
  where its messages do.
\<close>

theorem start_reported:
  assumes "filter_ok passes"
  shows "case start ops lru devs sys devs' datalink_channel fl of
      None \<Rightarrow> start_log ops net_string mac err_string devs sys devs' datalink_channel fl = None
    | Some (Inl e) \<Rightarrow> \<exists>ms text. start_log ops net_string mac err_string devs sys devs' datalink_channel fl = Some (ms, Some e) \<and>
        filter (\<lambda>l. fst l = Stderr) (logger_output passes (fl_verbose fl) ms) = [(Stderr, chars ''error: '' @ text @ [0x0A])]
    | Some (Inr (c, info, rd)) \<Rightarrow> \<exists>ms src. start_log ops net_string mac err_string devs sys devs' datalink_channel fl = Some (ms, None) \<and>
        suffix (info_messages info @ [(Level_info, chars (proxy_text net_string fl src))]) ms \<and>
        filter (\<lambda>l. fst l = Stderr) (logger_output passes (fl_verbose fl) ms) = []"
proof -
  note r = start_reports [of net_string fl ops lru devs sys devs' datalink_channel mac err_string, unfolded reports_def]
  show ?thesis
  proof (cases "start ops lru devs sys devs' datalink_channel fl")
    case (Some x)
    show ?thesis
    proof (cases x)
      case (Inl e)
      with r Some show ?thesis by (auto simp: stderr_lines [OF assms] log_line_def level_prefix_def)
    next
      case (Inr y)
      obtain c info rd where y: "y = (c, info, rd)" by (cases y) auto
      from r obtain ms src where "start_log ops net_string mac err_string devs sys devs' datalink_channel fl =
          Some (ms @ info_messages info @ [(Level_info, chars (proxy_text net_string fl src))], None)"
          "filter (\<lambda>m. fst m = Level_error) ms = []"
        unfolding Some Inr y by auto
      then show ?thesis unfolding Some Inr y by (auto simp: stderr_lines [OF assms] info_messages_quiet suffix_def)
    qed
  qed (use r in simp)
qed

theorem start_reported_witness:
  "\<exists>ms src. start_log sample_nets (\<lambda>_. []) (\<lambda>_. []) (\<lambda>_. []) [sample_device] (C_interfaces (Ok [(''eth0'', Ok 1500)])) [sample_device]
      (\<lambda>_ _ _. Ok (Ethernet_channel ())) sample_flags = Some (ms, None) \<and>
    suffix [(Level_info, chars (proxy_text (\<lambda>_. []) sample_flags src))] ms"
proof -
  have ok: "filter_ok (\<lambda>level l. level_rank l \<le> level_rank level)" by (simp add: filter_ok_def)
  obtain info where start: "start sample_nets sample_lru [sample_device] (C_interfaces (Ok [(''eth0'', Ok 1500)])) [sample_device]
      (\<lambda>_ _ _. Ok (Ethernet_channel ())) sample_flags = Some (Inr ((), info, sample_started))"
    using sample_start [of "()"] by (elim exE conjE) (rule that)
  note r = start_reported [OF ok, where ops = sample_nets and lru = sample_lru and devs = "[sample_device]" and devs' = "[sample_device]"
      and sys = "C_interfaces (Ok [(''eth0'', Ok 1500)])" and datalink_channel = "\<lambda>_ _ _. Ok (Ethernet_channel ())" and fl = sample_flags
      and net_string = "\<lambda>_. []" and mac = "\<lambda>_. []" and err_string = "\<lambda>_. []", unfolded start option.case sum.case prod.case]
  then obtain ms src where m: "start_log sample_nets (\<lambda>_. []) (\<lambda>_. []) (\<lambda>_. []) [sample_device] (C_interfaces (Ok [(''eth0'', Ok 1500)])) [sample_device]
      (\<lambda>_ _ _. Ok (Ethernet_channel ())) sample_flags = Some (ms, None)"
      "suffix (info_messages info @ [(Level_info, chars (proxy_text (\<lambda>_. []) sample_flags src))]) ms" by blast
  from m(2) have "suffix [(Level_info, chars (proxy_text (\<lambda>_. []) sample_flags src))] ms" using suffix_order.trans suffixI by blast
  with m(1) show ?thesis by blast
qed

text \<open>The table of the instructions is aligned: its lines have one width, that of the longest value and 20 more.\<close>

theorem table_aligned: "map length (info_table info) = replicate 7 (20 + info_width info)"
  by (simp add: info_table_def Let_def length_rows fits_info_width numeral_eq_Suc del: add_Suc add_Suc_right)

end
