(* ===== verification/Frames.thy ===== *)
theory Frames
  imports Startup Briefs
begin

text \<open>
  The loop of \<open>open\<close> as a whole: which frames the \<open>Redirector\<close> is safe for, that each of them and each step
  of a task keeps the invariants of the TCP connections and of the UDP ports together, and what follows
  for a run of the program.
\<close>

declare split_paired_All [simp del] split_paired_Ex [simp del]

section \<open>What the TCP handlers leave alone\<close>

text \<open>Everything but the connections, with the parts of a UDP worker its task does not change.\<close>

definition udp_side :: "'l redirector \<Rightarrow> 'l redirector" where
  "udp_side rd = rd\<lparr>rd_tx := undefined, rd_streams := Map.empty, rd_states := Map.empty,
     rd_datagrams := \<lambda>p. map_option (\<lambda>w. w\<lparr>dw_is_closed := False, dw_receiver := False, dw_recv_buffer := [],
       dw_buffer := []\<rparr>) (rd_datagrams rd p)\<rparr>"

lemma udp_side_tcp [simp]:
  "udp_side (rd\<lparr>rd_tx := f\<rparr>) = udp_side rd" "udp_side (rd\<lparr>rd_streams := s\<rparr>) = udp_side rd"
  "udp_side (rd\<lparr>rd_states := x\<rparr>) = udp_side rd"
  by (simp_all add: udp_side_def)

lemma udp_side_put [simp]: "udp_side (put_stream rd k w) = udp_side rd" "udp_side (put_rx rd k x) = udp_side rd"
  by (simp_all add: put_stream_def put_rx_def)

lemma receiver_step_keeps:
  "receiver_step tx f w r = Some (w', f') \<Longrightarrow> datagram_keeps w w'"
  by (auto simp: receiver_step_def datagram_keeps_def Let_def split: if_splits bind_splits sum.splits)

lemma task_run_udp_side: "task_run lk now t rd = Some rd' \<Longrightarrow> udp_side rd' = udp_side rd"
proof (cases t)
  case (Receiver p r)
  assume run: "task_run lk now t rd = Some rd'"
  show ?thesis
  proof (cases "rd_datagrams rd p")
    case (Some w)
    with run Receiver obtain w' f where "receiver_step (forwarder_datagram lk) (rd_tx rd) w r = Some (w', f)"
        "rd' = rd\<lparr>rd_tx := f, rd_datagrams := (rd_datagrams rd)(p \<mapsto> w')\<rparr>"
      by (auto simp: task_run_def split: bind_splits)
    with Some receiver_step_keeps show ?thesis
      by (fastforce simp: udp_side_def datagram_keeps_def intro!: redirector.equality datagram_worker.equality)
  qed (use run Receiver in \<open>simp add: task_run_def\<close>)
qed (auto simp: task_run_def split: option.splits bind_splits)

lemma tasks_run_udp_side: "tasks_run lk now ts rd = Some rd' \<Longrightarrow> udp_side rd' = udp_side rd"
  by (induction ts arbitrary: rd) (auto dest: task_run_udp_side split: bind_splits)

lemma on_tx_udp_side: "on_tx rd g = Some (r, rd') \<Longrightarrow> udp_side rd' = udp_side rd"
  by (auto simp: on_tx_def split: bind_splits)

lemma update_tx_udp_side: "update_tx rd dst src g = Some rd' \<Longrightarrow> udp_side rd' = udp_side rd"
  by (auto simp: update_tx_def split: bind_splits)

lemma clean_up_udp_side: "clean_up rd src dst = Some rd' \<Longrightarrow> udp_side rd' = udp_side rd"
  by (auto simp: clean_up_def split: bind_splits)

lemmas udp_side_steps = tasks_run_udp_side on_tx_udp_side update_tx_udp_side clean_up_udp_side

lemma admit_tcp_fin_udp_side: "admit_tcp_fin lk rd src dst b = Some (r, rd') \<Longrightarrow> udp_side rd' = udp_side rd"
  by (auto simp: admit_tcp_fin_def split: bind_splits if_splits elim!: and_then_Some dest!: udp_side_steps)

lemma handle_tcp_fin_udp_side: "handle_tcp_fin lk rd tcp payload = Some (r, rd') \<Longrightarrow> udp_side rd' = udp_side rd"
  by (auto simp: handle_tcp_fin_def Let_def split: bind_splits if_splits option.splits
      dest!: udp_side_steps admit_tcp_fin_udp_side)

lemma ack_deliver_udp_side: "ack_deliver lk ev rd src dst payload = Some (r, rd') \<Longrightarrow> udp_side rd' = udp_side rd"
  by (auto simp: ack_deliver_def Let_def split: bind_splits prod.splits sum.splits elim!: and_then_Some dest!: udp_side_steps)

lemma ack_data_udp_side: "ack_data lk ev rd src dst s payload = Some (r, rd') \<Longrightarrow> udp_side rd' = udp_side rd"
  by (auto simp: ack_data_def Let_def split: bind_splits if_splits option.splits sum.splits
      dest!: udp_side_steps ack_deliver_udp_side)

lemma ack_duplicate_udp_side: "ack_duplicate lk ev rd tcp = Some (r, rd') \<Longrightarrow> udp_side rd' = udp_side rd"
  by (auto simp: ack_duplicate_def Let_def split: bind_splits if_splits prod.splits elim!: and_then_Some dest!: udp_side_steps)

lemma ack_end_udp_side: "ack_end lk ev tcp payload rd = Some (r, rd') \<Longrightarrow> udp_side rd' = udp_side rd"
  by (auto simp: ack_end_def split: bind_splits if_splits elim!: and_then_Some dest!: udp_side_steps handle_tcp_fin_udp_side)

lemma handle_tcp_ack_udp_side: "handle_tcp_ack lk ev rd tcp payload = Some (r, rd') \<Longrightarrow> udp_side rd' = udp_side rd"
  by (auto simp: handle_tcp_ack_def Let_def split: bind_splits if_splits option.splits elim!: and_then_Some
      dest!: udp_side_steps ack_data_udp_side ack_duplicate_udp_side ack_end_udp_side)

lemma syn_connect_udp_side: "syn_connect lk ev key x rd = Some (r, rd') \<Longrightarrow> udp_side rd' = udp_side rd"
  by (auto simp: syn_connect_def split: bind_splits prod.splits sum.splits elim!: and_then_Some dest!: udp_side_steps)

lemma handle_tcp_syn_udp_side: "handle_tcp_syn lk ev rd tcp = Some (r, rd') \<Longrightarrow> udp_side rd' = udp_side rd"
  by (auto simp: handle_tcp_syn_def Let_def split: bind_splits option.splits dest!: udp_side_steps syn_connect_udp_side)

lemma handle_tcp_udp_side: "handle_tcp lk ev rd tcp payload = Some (r, rd') \<Longrightarrow> udp_side rd' = udp_side rd"
  by (auto simp: handle_tcp_def handle_tcp_rst_def split: bind_splits if_splits
      dest!: udp_side_steps handle_tcp_ack_udp_side handle_tcp_syn_udp_side handle_tcp_fin_udp_side)

lemma udp_side_defrag: "udp_side rd' = udp_side rd \<Longrightarrow> rd_defrag rd' = rd_defrag rd"
  by (cases rd; cases rd') (simp add: udp_side_def)

lemma handle_udp_defrag: "handle_udp ops lk ev rd udp payload = Some (r, rd') \<Longrightarrow> rd_defrag rd' = rd_defrag rd"
  by (auto simp: handle_udp_def bind_local_udp_port_def bind_new_udp_port_def split: bind_splits if_splits sum.splits option.splits prod.splits
      elim!: and_then_Some dest!: tasks_run_udp_side udp_side_defrag)

section \<open>Replies to ARP\<close>

lemma arp_serialize_ok:
  assumes "pnet_ok pn" and "28 \<le> length buf"
  obtains b where "arp_serialize pn a buf = Some (Ok 28, b)" and "length b = length buf"
proof -
  have "keeps (pn_put_arp pn a buf) buf" "pn_arp_size pn a = 28"
    using assms by (simp_all add: pnet_ok_def pnet_puts_def pnet_sizes_def)
  then show ?thesis by (auto simp: keeps_def arp_serialize_def intro: that)
qed

lemma arp_frame_serialize:
  assumes pn: "pnet_ok pn"
  obtains b where "indicator_serialize pn (indicator_new (LEthernet e) (Some (LArp a)) None) None (replicate 42 0) = Some (Ok 42, b)"
proof -
  have sizes: "pn_ethernet_size pn e = 14" "pn_arp_size pn a = 28" using pn by (simp_all add: pnet_ok_def pnet_sizes_def)
  obtain b1 where b1: "ethernet_serialize pn e (replicate 42 0) = Some (Ok 14, b1)" "length b1 = 42"
    by (rule ethernet_serialize_ok [OF pn, of "replicate 42 0" e]) simp_all
  obtain b2 where b2: "arp_serialize pn a (drop 14 b1) = Some (Ok 28, b2)"
    by (rule arp_serialize_ok [OF pn, of "drop 14 b1" a]) (use b1 in simp_all)
  show ?thesis
    by (rule that [of "take 14 b1 @ b2"])
      (use b1 b2 in \<open>simp add: indicator_serialize_def indicator_len_def indicator_new_def sizes serialize_step_def subslice_def usub_def\<close>)
qed

lemma send_arp_reply_ok:
  assumes lk: "link_ok lk"
  obtains f' where "send_arp_reply lk f src = Some (Ok (), f')" and "fw_quiet f f'"
proof -
  let ?pn = "lk_pnet lk"
  define arp where "arp = arp_new_reply (fw_local_hardware_addr f) (fw_local_ip_addr f) (src_hardware_addr_of f src) src"
  obtain e where e: "ethernet_new (layers_kind (LArp arp)) (arp_sender_hw_addr arp) (arp_target_hw_addr arp) = Some e"
    by (simp add: ethernet_new_def)
  define ind where "ind = indicator_new (LEthernet e) (Some (LArp arp)) None"
  have pn: "pnet_ok ?pn" using lk by (simp add: link_ok_def)
  then have len: "indicator_len ?pn ind = Some 42"
    by (simp add: indicator_len_def ind_def indicator_new_def pnet_ok_def pnet_sizes_def)
  obtain b where b: "indicator_serialize ?pn ind None (replicate 42 0) = Some (Ok 42, b)"
    unfolding ind_def by (rule arp_frame_serialize [OF pn])
  have "unwrap_or (lk_send lk h frame) (Ok ()) = Ok ()" for h frame using lk by (metis link_ok_def unwrap_or_simps)
  then have "\<exists>f'. send_arp_reply lk f src = Some (Ok (), f')"
    using b len e unfolding send_arp_reply_def arp_def [symmetric] fw_send_def fw_send_frame_def Let_def
    by (simp add: ind_def MINIMUM_FRAME_SIZE_def)
  then obtain f' where f': "send_arp_reply lk f src = Some (Ok (), f')" by blast
  then have "fw_quiet f f'"
    by (auto simp: send_arp_reply_def fw_send_def Let_def split: bind_splits dest: fw_send_frame_quiet)
  with f' show ?thesis by (rule that)
qed

section \<open>The invariant of a run\<close>

definition defrag_inv :: "defraggler \<Rightarrow> bool" where
  "defrag_inv d \<longleftrightarrow> (\<forall>k f. frags d k = Some f \<longrightarrow> length (frag_buffer f) = 65535)"

definition run_inv :: "'l lru_ops \<Rightarrow> ('l \<Rightarrow> (u16 \<times> socket_addr_v4) list) \<Rightarrow> 'l redirector \<Rightarrow> bool" where
  "run_inv ops entries rd \<longleftrightarrow> rd_inv rd \<and> ports_inv ops entries rd \<and> defrag_inv (rd_defrag rd)"

lemma run_inv_udp_side:
  assumes "run_inv ops entries rd" and "rd_inv rd'" and "udp_side rd' = udp_side rd"
  shows "run_inv ops entries rd'"
proof -
  have "dom (rd_datagrams (udp_side x)) = dom (rd_datagrams x)" for x :: "'a redirector"
    by (auto simp: udp_side_def dom_def)
  then have "dom (rd_datagrams rd') = dom (rd_datagrams rd)" using assms(3) by metis
  moreover have "rd_defrag rd' = rd_defrag rd" "rd_udp_lru rd' = rd_udp_lru rd" "rd_datagram_map rd' = rd_datagram_map rd"
    using assms(3) by (cases rd; cases rd'; simp add: udp_side_def)+
  ultimately show ?thesis using assms(1,2) by (simp add: run_inv_def ports_inv_def ports_ok_def)
qed

lemma rd_inv_rest: "rd_inv (rd\<lparr>rd_defrag := d\<rparr>) = rd_inv rd" "rd_inv (rd\<lparr>rd_is_tx_src_hardware_addr_set := b\<rparr>) = rd_inv rd"
proof -
  have "conn_inv (rd\<lparr>rd_defrag := d\<rparr>) k = conn_inv rd k" "conn_inv (rd\<lparr>rd_is_tx_src_hardware_addr_set := b\<rparr>) k = conn_inv rd k" for k
    by (rule conn_inv_cong; simp)+
  then show "rd_inv (rd\<lparr>rd_defrag := d\<rparr>) = rd_inv rd" "rd_inv (rd\<lparr>rd_is_tx_src_hardware_addr_set := b\<rparr>) = rd_inv rd"
    by (simp_all add: rd_inv_def rd_safe_def)
qed

lemma run_inv_quiet:
  assumes "run_inv ops entries rd" and "fw_quiet (rd_tx rd) f"
  shows "run_inv ops entries (rd\<lparr>rd_tx := f\<rparr>)"
  by (rule run_inv_udp_side [OF assms(1) rd_inv_quiet]) (use assms in \<open>simp_all add: run_inv_def\<close>)

lemma run_inv_learn:
  assumes "run_inv ops entries rd"
  shows "run_inv ops entries (learn_hardware_addr rd src addr)"
proof -
  have "fw_quiet (rd_tx rd) (set_src_hardware_addr (rd_tx rd) src addr)"
    by (simp add: fw_quiet_def set_src_hardware_addr_def)
  from run_inv_quiet [OF assms this] assms show ?thesis
    by (simp add: learn_hardware_addr_def run_inv_def rd_inv_rest ports_inv_def)
qed

lemma run_inv_defrag: "run_inv ops entries rd \<Longrightarrow> defrag_inv d \<Longrightarrow> run_inv ops entries (rd\<lparr>rd_defrag := d\<rparr>)"
  by (simp add: run_inv_def rd_inv_rest ports_inv_def)

lemma run_inv_set_src_mtu:
  assumes "run_inv ops entries rd" and "40 < mtu"
  shows "run_inv ops entries (rd\<lparr>rd_tx := snd (set_src_mtu (rd_tx rd) a mtu)\<rparr>)"
proof -
  let ?f = "snd (set_src_mtu (rd_tx rd) a mtu)"
  have inv: "rd_inv rd" using assms(1) by (simp add: run_inv_def)
  then have f: "fw_inv ?f" "fw_states ?f = fw_states (rd_tx rd)"
    using fw_inv_set_src_mtu [of "rd_tx rd" mtu a] assms(2) by (simp_all add: rd_inv_def rd_safe_def)
  have "conn_inv (rd\<lparr>rd_tx := ?f\<rparr>) k" for k
    using inv f(2) conn_inv_cong [of "rd\<lparr>rd_tx := ?f\<rparr>" k rd] by (simp add: rd_inv_def)
  moreover have "rd_safe (rd\<lparr>rd_tx := ?f\<rparr>)" using inv f by (simp add: rd_inv_def rd_safe_def)
  ultimately have "rd_inv (rd\<lparr>rd_tx := ?f\<rparr>)" by (simp add: rd_inv_def)
  then show ?thesis by (rule run_inv_udp_side [OF assms(1)]) simp
qed

section \<open>Transport layers\<close>

text \<open>
  The ICMP messages the handler is safe for: the datagram they quote can be read, and a path MTU is
  above 40 bytes.
\<close>

definition icmp_input_ok :: "pnet \<Rightarrow> icmpv4 \<Rightarrow> bool" where
  "icmp_input_ok pn i \<longleftrightarrow>
     (icmpv4_is_destination_port_unreachable i \<longrightarrow> (case icmpv4_parse_payload pn i of
        None \<Rightarrow> False
      | Some (ipv4, transport) \<Rightarrow> ipv4_next_level_layer_kind ipv4 = Some Udp_kind \<longrightarrow>
          (case transport of Some (LUdp _) \<Rightarrow> True | _ \<Rightarrow> False))) \<and>
     (icmpv4_is_fragmentation_required i \<longrightarrow> icmpv4_parse_payload pn i \<noteq> None \<and>
        (case icmpv4_next_hop_mtu i of Some (Some mtu) \<Rightarrow> 40 < unat mtu | _ \<Rightarrow> False))"

text \<open>A layer with the payload behind it, if that could be cut out of the frame.\<close>

definition transport_ok :: "link \<Rightarrow> env \<Rightarrow> 'l redirector \<Rightarrow> layers \<Rightarrow> u8 list option \<Rightarrow> bool" where
  "transport_ok lk ev rd transport rest \<longleftrightarrow> (case transport of
      LIcmpv4 i \<Rightarrow> icmp_input_ok (lk_pnet lk) i
    | LTcp tcp \<Rightarrow> list_all task_ok (ev_await ev) \<and> (case rest of Some payload \<Rightarrow> tcp_input_ok lk rd tcp payload | None \<Rightarrow> False)
    | LUdp udp \<Rightarrow> udp_env_ok ev rd \<and> rest \<noteq> None
    | _ \<Rightarrow> False)"

lemma handle_icmpv4_ok:
  assumes lru: "lru_ok ops entries" and inv: "run_inv ops entries rd" and i: "icmp_input_ok (lk_pnet lk) i"
  shows "\<exists>rd'. handle_icmpv4 ops lk rd i = Some (Ok (), rd') \<and> run_inv ops entries rd'"
proof -
  consider (unreachable) "icmpv4_is_destination_port_unreachable i"
    | (mtu) "\<not> icmpv4_is_destination_port_unreachable i" "icmpv4_is_fragmentation_required i"
    | (other) "\<not> icmpv4_is_destination_port_unreachable i" "\<not> icmpv4_is_fragmentation_required i" by blast
  then show ?thesis
  proof cases
    case unreachable
    obtain ipv4 transport where parse: "icmpv4_parse_payload (lk_pnet lk) i = Some (ipv4, transport)"
        "ipv4_next_level_layer_kind ipv4 = Some Udp_kind \<longrightarrow> (case transport of Some (LUdp _) \<Rightarrow> True | _ \<Rightarrow> False)"
      using i unreachable by (auto simp: icmp_input_ok_def split: option.splits)
    have "run_inv ops entries (unbind_local_udp_port ops rd a)" for a
    proof -
      have "rd_defrag (unbind_local_udp_port ops rd a) = rd_defrag rd"
        by (simp add: unbind_local_udp_port_def split: option.split)
      with unbind_local_udp_port_ok [OF lru] inv show ?thesis by (simp add: run_inv_def)
    qed
    with parse inv unreachable show ?thesis
      by (auto simp: handle_icmpv4_def icmpv4_next_level_layer_kind_def icmpv4_dst_def split: option.splits layers.splits)
  next
    case mtu
    obtain ipv4 transport m where "icmpv4_parse_payload (lk_pnet lk) i = Some (ipv4, transport)"
        "icmpv4_next_hop_mtu i = Some (Some m)" "40 < unat m"
      using i mtu by (auto simp: icmp_input_ok_def split: option.splits)
    with run_inv_set_src_mtu [OF inv] mtu show ?thesis by (simp add: handle_icmpv4_def icmpv4_dst_ip_addr_def)
  qed (use inv in \<open>simp add: handle_icmpv4_def\<close>)
qed

lemma handle_transport_ok:
  assumes lk: "link_ok lk" and lru: "lru_ok ops entries" and inv: "run_inv ops entries rd"
    and ok: "transport_ok lk ev rd transport rest"
  shows "\<exists>r rd'. handle_transport ops lk ev rd transport rest = Some (r, rd') \<and> run_inv ops entries rd'"
proof (cases transport)
  case (LIcmpv4 i)
  with handle_icmpv4_ok [OF lru inv, of lk i] ok show ?thesis by (auto simp: transport_ok_def handle_transport_def)
next
  case (LTcp tcp)
  then obtain payload where rest: "rest = Some payload" and tcp: "tcp_input_ok lk rd tcp payload" "list_all task_ok (ev_await ev)"
    using ok by (auto simp: transport_ok_def split: option.splits)
  have "rd_inv rd" using inv by (simp add: run_inv_def)
  then obtain r rd' where h: "handle_tcp lk ev rd tcp payload = Some (r, rd')" "rd_inv rd'"
    using handle_tcp_ok [OF lk _ tcp] by blast
  with run_inv_udp_side [OF inv h(2) handle_tcp_udp_side [OF h(1)]] LTcp rest show ?thesis
    by (simp add: handle_transport_def)
next
  case (LUdp udp)
  then obtain payload where rest: "rest = Some payload" and env: "udp_env_ok ev rd" using ok by (auto simp: transport_ok_def)
  obtain r rd' where h: "handle_udp ops lk ev rd udp payload = Some (r, rd')" "rd_inv rd'" "ports_inv ops entries rd'"
    using handle_udp_ok [OF lk lru _ _ env, of udp payload] inv by (auto simp: run_inv_def)
  moreover have "rd_defrag rd' = rd_defrag rd" by (rule handle_udp_defrag [OF h(1)])
  ultimately show ?thesis using LUdp rest inv by (simp add: handle_transport_def run_inv_def)
qed (use ok in \<open>simp_all add: transport_ok_def\<close>)

section \<open>Frames\<close>

text \<open>
  A fragment the \<open>Defraggler\<close> is safe for: its headers lie in the frame, it ends within 65535 bytes, no
  more than 65535 bytes of its datagram have been counted yet, and when it completes the datagram, the
  transport layer can be read and handled.
\<close>

definition fragment_ok :: "link \<Rightarrow> env \<Rightarrow> 'l redirector \<Rightarrow> indicator \<Rightarrow> ipv4 \<Rightarrow> u8 list \<Rightarrow> bool" where
  "fragment_ok lk ev rd ind ipv4 content \<longleftrightarrow>
     (case ipv4_len (lk_pnet lk) ipv4 of
        None \<Rightarrow> False
      | Some n \<Rightarrow> 14 + n \<le> length content \<and> unat (ip_fragment_offset ipv4) * 8 + (length content - (14 + n)) \<le> 65535) \<and>
     (case frags (rd_defrag rd) (frag_key_of ipv4) of Some f \<Rightarrow> frag_length f \<le> 65535 | None \<Rightarrow> True) \<and>
     (case defraggler_add (lk_pnet lk) (rd_defrag rd) ind content (ev_now ev) of
        Some (Some frag, _) \<Rightarrow> (case fragmentation_concatenate (lk_pnet lk) frag of
            Some (Some transport, payload) \<Rightarrow> transport_ok lk ev rd transport (Some payload)
          | Some (None, _) \<Rightarrow> True
          | None \<Rightarrow> False)
      | _ \<Rightarrow> True)"

text \<open>
  The frames of the devices that are relayed: the length in the IPv4 header is not more than that of the frame and, if the
  debug message is made, not less than that of the headers; the offset is one of 13 bits; and what the frame carries can be handled.
  All other frames are ignored.
\<close>

definition datagram_in :: "link \<Rightarrow> env \<Rightarrow> 'l redirector \<Rightarrow> indicator \<Rightarrow> ipv4 \<Rightarrow> u8 list \<Rightarrow> bool" where
  "datagram_in lk ev rd ind ipv4 frame \<longleftrightarrow>
     (case indicator_content_len (lk_pnet lk) ind of
        None \<Rightarrow> False
      | Some n \<Rightarrow> n \<le> length frame \<and> unat (ip_fragment_offset ipv4) < 8192 \<and>
          (ev_debug ev \<longrightarrow> (case indicator_len (lk_pnet lk) ind of Some k \<Rightarrow> k \<le> n | None \<Rightarrow> False)) \<and>
          (if ipv4_is_fragment ipv4 then fragment_ok lk ev rd ind ipv4 (take n frame)
           else (case ind_transport ind of
               None \<Rightarrow> True
             | Some transport \<Rightarrow> transport_ok lk ev rd transport
                 (do { k \<leftarrow> indicator_len (lk_pnet lk) ind; subslice (take n frame) k n }))))"

definition frame_ok :: "link \<Rightarrow> env \<Rightarrow> 'l redirector \<Rightarrow> u8 list \<Rightarrow> bool" where
  "frame_ok lk ev rd frame \<longleftrightarrow>
     (case indicator_from (lk_pnet lk) frame of
        None \<Rightarrow> True
      | Some ind \<Rightarrow> (case indicator_ipv4 ind of
            None \<Rightarrow> True
          | Some ipv4 \<Rightarrow> ip_source ipv4 \<noteq> rd_local_ip_addr rd \<and> rd_src_contains rd (ip_source ipv4) \<longrightarrow>
              datagram_in lk ev rd ind ipv4 frame))"

lemma indicator_from_layers:
  assumes "indicator_from pn frame = Some ind"
  shows "\<exists>e. ind_link ind = LEthernet e \<and> (ind_network ind = None \<or> (\<exists>arp. ind_network ind = Some (LArp arp)) \<or>
    (\<exists>ipv4. ind_network ind = Some (LIpv4 ipv4)))"
  using assms by (auto simp: indicator_from_def indicator_parse_def indicator_new_def split: option.splits if_splits)

text \<open>The text of a captured frame is defined if the offset of a fragment has 13 bits.\<close>

lemma indicator_from_brief:
  assumes "indicator_from pn frame = Some ind"
    and "\<And>ipv4. indicator_ipv4 ind = Some ipv4 \<Longrightarrow> unat (ip_fragment_offset ipv4) < 8192"
  shows "indicator_brief mac ind \<noteq> None"
  using assms ipv4_string_total
  by (auto simp: indicator_from_def indicator_parse_def indicator_new_def parse_transport_def indicator_brief_def
      indicator_ipv4_def transport_brief_def split: option.splits if_splits)

text \<open>What a layer needs of the state is not changed by what happens before the layer is handled.\<close>

lemma transport_ok_cong:
  assumes "rd_streams rd' = rd_streams rd" and "rd_states rd' = rd_states rd" and "rd_datagrams rd' = rd_datagrams rd"
    and "fw_states (rd_tx rd') = fw_states (rd_tx rd)" and "rd_remote rd' = rd_remote rd" and "rd_options rd' = rd_options rd"
  shows "transport_ok lk ev rd' transport rest = transport_ok lk ev rd transport rest"
  using assms by (simp add: transport_ok_def tcp_input_ok_def udp_env_ok_def bind_fresh_def cong: layers.case_cong option.case_cong sum.case_cong)

lemma learn_fields [simp]:
  "rd_streams (learn_hardware_addr rd a h) = rd_streams rd" "rd_states (learn_hardware_addr rd a h) = rd_states rd"
  "rd_datagrams (learn_hardware_addr rd a h) = rd_datagrams rd" "rd_defrag (learn_hardware_addr rd a h) = rd_defrag rd"
  "fw_states (rd_tx (learn_hardware_addr rd a h)) = fw_states (rd_tx rd)" "rd_remote (learn_hardware_addr rd a h) = rd_remote rd"
  "rd_options (learn_hardware_addr rd a h) = rd_options rd"
  by (simp_all add: learn_hardware_addr_def set_src_hardware_addr_def)

lemma defraggler_add_total:
  assumes e: "ind_link ind = LEthernet e" and i: "indicator_ipv4 ind = Some ipv4" and inv: "defrag_inv d"
    and eth: "pn_ethernet_size pn e = 14" and n: "ipv4_len pn ipv4 = Some n" "14 + n \<le> length content"
    and fit: "unat (ip_fragment_offset ipv4) * 8 + (length content - (14 + n)) \<le> 65535"
    and counted: "case frags d (frag_key_of ipv4) of Some f \<Rightarrow> frag_length f \<le> 65535 | None \<Rightarrow> True"
  shows "\<exists>frag d'. defraggler_add pn d ind content now = Some (frag, d') \<and> defrag_inv d'"
proof -
  have eth': "indicator_ethernet ind = Some e" using e by (simp add: indicator_ethernet_def)
  have new: "\<exists>f. fragmentation_new ind now = Some f \<and> length (frag_buffer f) = 65535 \<and> frag_length f \<le> 65535"
    using i eth' by (simp add: fragmentation_new_def)
  then have "\<exists>f. defraggler_entry d (frag_key_of ipv4) ind now = Some f \<and> length (frag_buffer f) = 65535 \<and> frag_length f \<le> 65535"
    using inv counted by (auto simp: defraggler_entry_def defrag_inv_def split: option.split)
  then obtain f where f: "defraggler_entry d (frag_key_of ipv4) ind now = Some f" "length (frag_buffer f) = 65535" "frag_length f \<le> 65535"
    by blast
  let ?p = "drop (14 + n) content"
  have "\<exists>f'. fragmentation_add f ind ?p = Some f' \<and> length (frag_buffer f') = 65535"
    using f fit i by (cases "ipv4_is_more_fragment ipv4") (simp_all add: fragmentation_add_def write_slice_def uadd_def USIZE_MAX_def Let_def)
  then show ?thesis
    using f n i eth eth' inv by (auto simp: defraggler_add_def subslice_def defrag_inv_def Let_def)
qed

lemma handle_fragment_ok:
  assumes lk: "link_ok lk" and lru: "lru_ok ops entries" and inv: "run_inv ops entries rd"
    and e: "ind_link ind = LEthernet e" and i: "indicator_ipv4 ind = Some ipv4" and ok: "fragment_ok lk ev rd ind ipv4 content"
  shows "\<exists>r rd'. handle_fragment ops lk ev rd ind content = Some (r, rd') \<and> run_inv ops entries rd'"
proof -
  have eth: "pn_ethernet_size (lk_pnet lk) e = 14" using lk by (simp add: link_ok_def pnet_ok_def pnet_sizes_def)
  obtain n where n: "ipv4_len (lk_pnet lk) ipv4 = Some n" "14 + n \<le> length content"
      "unat (ip_fragment_offset ipv4) * 8 + (length content - (14 + n)) \<le> 65535"
      "case frags (rd_defrag rd) (frag_key_of ipv4) of Some f \<Rightarrow> frag_length f \<le> 65535 | None \<Rightarrow> True"
    using ok by (auto simp: fragment_ok_def split: option.splits)
  have "defrag_inv (rd_defrag rd)" using inv by (simp add: run_inv_def)
  then obtain frag d where add: "defraggler_add (lk_pnet lk) (rd_defrag rd) ind content (ev_now ev) = Some (frag, d)" "defrag_inv d"
    using defraggler_add_total [OF e i _ eth n] by blast
  note inv' = run_inv_defrag [OF inv add(2)]
  show ?thesis
  proof (cases frag)
    case None
    with add(1) inv' show ?thesis by (simp add: handle_fragment_def)
  next
    case (Some fr)
    with ok add(1) obtain transport payload where c: "fragmentation_concatenate (lk_pnet lk) fr = Some (transport, payload)"
        "\<And>t. transport = Some t \<Longrightarrow> transport_ok lk ev rd t (Some payload)"
      by (auto simp: fragment_ok_def split: option.splits)
    have "transport_ok lk ev (rd\<lparr>rd_defrag := d\<rparr>) t (Some payload)" if "transport = Some t" for t
      using c(2) [OF that] by (subst transport_ok_cong [where rd = rd]) simp_all
    with handle_transport_ok [OF lk lru inv'] inv' c(1) Some add(1) show ?thesis
      by (cases transport) (simp_all add: handle_fragment_def)
  qed
qed

lemma warn_error_ok:
  assumes "\<exists>r rd'. handled = Some (r, rd') \<and> P rd'" and "indicator_brief (pn_mac_string pn) ind \<noteq> None"
  shows "\<exists>rd'. warn_error pn ind handled = Some rd' \<and> P rd'"
  using assms by (auto simp: warn_error_def split: sum.split)

lemma handle_ipv4_ok:
  assumes lk: "link_ok lk" and lru: "lru_ok ops entries" and inv: "run_inv ops entries rd"
    and e: "ind_link ind = LEthernet e" and i: "ind_network ind = Some (LIpv4 ipv4)"
    and brief: "unat (ip_fragment_offset ipv4) < 8192 \<Longrightarrow> indicator_brief (pn_mac_string (lk_pnet lk)) ind \<noteq> None"
    and ok: "ip_source ipv4 \<noteq> rd_local_ip_addr rd \<and> rd_src_contains rd (ip_source ipv4) \<Longrightarrow> datagram_in lk ev rd ind ipv4 frame"
  shows "\<exists>rd'. warn_error (lk_pnet lk) ind (handle_ipv4 ops lk ev rd ind frame) = Some rd' \<and> run_inv ops entries rd'"
proof (cases "ip_source ipv4 \<noteq> rd_local_ip_addr rd \<and> rd_src_contains rd (ip_source ipv4)")
  case True
  have ip: "indicator_ipv4 ind = Some ipv4" and eth: "indicator_ethernet ind = Some e"
    using e i by (simp_all add: indicator_ipv4_def indicator_ethernet_def)
  obtain n where n: "indicator_content_len (lk_pnet lk) ind = Some n" "n \<le> length frame"
      "ipv4_is_fragment ipv4 \<Longrightarrow> fragment_ok lk ev rd ind ipv4 (take n frame)"
      "\<And>t. \<not> ipv4_is_fragment ipv4 \<Longrightarrow> ind_transport ind = Some t \<Longrightarrow>
        transport_ok lk ev rd t (do { k \<leftarrow> indicator_len (lk_pnet lk) ind; subslice (take n frame) k n })"
      "unat (ip_fragment_offset ipv4) < 8192" "ev_debug ev \<Longrightarrow> \<exists>k. indicator_len (lk_pnet lk) ind = Some k \<and> k \<le> n"
    using ok [OF True] by (auto simp: datagram_in_def split: option.splits if_splits)
  note brief = brief [OF n(5)]
  have msg: "\<exists>t. (if ev_debug ev then receive_text (pn_mac_string (lk_pnet lk)) (lk_pnet lk) ind else Some []) = Some t"
    using receive_text_total [OF brief _ n(1)] n(6) by (cases "ev_debug ev") fastforce+
  define rd1 where "rd1 = learn_hardware_addr rd (ip_source ipv4) (eth_source e)"
  have inv1: "run_inv ops entries rd1" unfolding rd1_def by (rule run_inv_learn [OF inv])
  have cong: "transport_ok lk ev rd1 t rest = transport_ok lk ev rd t rest" for t rest
    by (rule transport_ok_cong) (simp_all add: rd1_def)
  have cut: "subslice frame 0 n = Some (take n frame)" "length (take n frame) = n" using n(2) by (simp_all add: subslice_def)
  have eq: "handle_ipv4 ops lk ev rd ind frame =
      (if ipv4_is_fragment ipv4 then handle_fragment ops lk ev rd1 ind (take n frame)
       else (case ind_transport ind of None \<Rightarrow> Some (Ok (), rd1)
         | Some t \<Rightarrow> handle_transport ops lk ev rd1 t (do { k \<leftarrow> indicator_len (lk_pnet lk) ind; subslice (take n frame) k n })))"
    using True n(1) ip eth cut msg unfolding rd1_def
    by (elim exE, cases "rd_is_tx_src_hardware_addr_set rd"; cases "ind_transport ind") (simp_all add: handle_ipv4_def learn_hardware_addr_def Let_def del: length_take)
  have "fragment_ok lk ev rd1 ind ipv4 (take n frame)" if "ipv4_is_fragment ipv4"
    using n(3) [OF that] unfolding fragment_ok_def cong by (simp add: rd1_def)
  with handle_fragment_ok [OF lk lru inv1 e ip] handle_transport_ok [OF lk lru inv1, of ev, unfolded cong] n(4) inv1
  have "\<exists>r rd'. handle_ipv4 ops lk ev rd ind frame = Some (r, rd') \<and> run_inv ops entries rd'"
    unfolding eq by (auto split: option.splits)
  then show ?thesis using brief by (rule warn_error_ok)
qed (use assms in \<open>auto simp: warn_error_def handle_ipv4_def indicator_ipv4_def Let_def\<close>)

lemma handle_arp_ok:
  assumes "link_ok lk" and "run_inv ops entries rd"
  shows "\<exists>r rd'. handle_arp lk rd ind = Some (r, rd') \<and> run_inv ops entries rd'"
proof -
  have "\<exists>r rd'. on_tx (learn_hardware_addr rd src h) (\<lambda>f. send_arp_reply lk f src) = Some (r, rd') \<and> run_inv ops entries rd'" for src h
  proof -
    obtain f where f: "send_arp_reply lk (rd_tx (learn_hardware_addr rd src h)) src = Some (Ok (), f)"
        "fw_quiet (rd_tx (learn_hardware_addr rd src h)) f" by (rule send_arp_reply_ok [OF assms(1)])
    with run_inv_quiet [OF run_inv_learn [OF assms(2)] f(2)] show ?thesis by (simp add: on_tx_def)
  qed
  with assms(2) show ?thesis by (auto simp: handle_arp_def Let_def split: option.split)
qed

lemma redirect_frame_ok:
  assumes lk: "link_ok lk" and lru: "lru_ok ops entries" and inv: "run_inv ops entries rd" and ok: "frame_ok lk ev rd frame"
  shows "\<exists>rd'. redirect_frame ops lk ev rd frame = Some rd' \<and> run_inv ops entries rd'"
proof (cases "indicator_from (lk_pnet lk) frame")
  case (Some ind)
  obtain e where e: "ind_link ind = LEthernet e" and network: "ind_network ind = None \<or>
      (\<exists>arp. ind_network ind = Some (LArp arp)) \<or> (\<exists>ipv4. ind_network ind = Some (LIpv4 ipv4))"
    using indicator_from_layers [OF Some] by blast
  from network consider "ind_network ind = None" | arp where "ind_network ind = Some (LArp arp)"
    | ipv4 where "ind_network ind = Some (LIpv4 ipv4)" by (elim disjE exE)
  then show ?thesis
  proof cases
    case 2
    then have "indicator_brief (pn_mac_string (lk_pnet lk)) ind \<noteq> None" by (simp add: indicator_brief_def)
    from warn_error_ok [OF handle_arp_ok [OF lk inv, of ind] this] Some 2 show ?thesis
      by (simp add: redirect_frame_def indicator_network_kind_def)
  next
    case (3 ipv4)
    then have "datagram_in lk ev rd ind ipv4 frame"
      if "ip_source ipv4 \<noteq> rd_local_ip_addr rd \<and> rd_src_contains rd (ip_source ipv4)"
      using ok that Some by (simp add: frame_ok_def indicator_ipv4_def)
    moreover have "indicator_brief mac ind \<noteq> None" if "unat (ip_fragment_offset ipv4) < 8192" for mac
      using indicator_from_brief [OF Some] that 3 by (simp add: indicator_ipv4_def)
    ultimately show ?thesis using handle_ipv4_ok [OF lk lru inv e 3, of ev frame] Some 3
      by (auto simp: redirect_frame_def indicator_network_kind_def Ipv4_kind_def Arp_kind_def)
  qed (use Some inv in \<open>simp add: redirect_frame_def indicator_network_kind_def\<close>)
qed (use inv in \<open>simp add: redirect_frame_def\<close>)

section \<open>Runs\<close>

text \<open>A sequence of events each of which is safe in the state it meets.\<close>

fun events_ok :: "'l lru_ops \<Rightarrow> link \<Rightarrow> rx_event list \<Rightarrow> 'l redirector \<Rightarrow> bool" where
  "events_ok ops lk [] rd = True"
| "events_ok ops lk (Rx_frame ev frame # es) rd \<longleftrightarrow> frame_ok lk ev rd frame \<and>
     (case redirect_frame ops lk ev rd frame of Some rd' \<Rightarrow> events_ok ops lk es rd' | None \<Rightarrow> True)"
| "events_ok ops lk (Rx_err e # es) rd \<longleftrightarrow> (error_kind e = TimedOut \<longrightarrow> events_ok ops lk es rd)"
| "events_ok ops lk (Rx_task now t # es) rd \<longleftrightarrow> task_ok t \<and>
     (case task_run lk now t rd of Some rd' \<Rightarrow> events_ok ops lk es rd' | None \<Rightarrow> True)"

lemma task_run_inv:
  assumes "link_ok lk" and "run_inv ops entries rd" and "task_ok t"
  shows "\<exists>rd'. task_run lk now t rd = Some rd' \<and> run_inv ops entries rd'"
proof -
  have inv: "rd_inv rd" and safe: "rd_safe rd" using assms(2) by (simp_all add: run_inv_def rd_inv_def)
  obtain rd' where rd': "task_run lk now t rd = Some rd'" "rd_safe rd'" "rd_frame rd rd'"
    by (rule task_run_ok [OF assms(1) safe assms(3)])
  from run_inv_udp_side [OF assms(2) rd_inv_frame [OF inv rd'(2,3)] task_run_udp_side [OF rd'(1)]] rd'(1)
  show ?thesis by blast
qed

lemma redirector_open_ok:
  assumes lk: "link_ok lk" and lru: "lru_ok ops entries"
  shows "run_inv ops entries rd \<Longrightarrow> events_ok ops lk es rd \<Longrightarrow>
    \<exists>r rd'. redirector_open ops lk es rd = Some (r, rd') \<and> run_inv ops entries rd'"
proof (induction es arbitrary: rd)
  case (Cons e es)
  show ?case
  proof (cases e)
    case (Rx_frame ev frame)
    with Cons.prems redirect_frame_ok [OF lk lru, of rd ev frame] Cons.IH show ?thesis by auto
  next
    case (Rx_task now t)
    with Cons.prems task_run_inv [OF lk, of ops entries rd t now] Cons.IH show ?thesis by auto
  qed (use Cons in auto)
qed simp

text \<open>
  C1. The program as a whole does not panic, from the parsed flags to the end of the device, under these conditions: the flags
  are ones the parser accepts and the source network is not that of all addresses; the MTU, which nothing checks, is from 41 to 65535
  bytes; the device takes what is sent; and each frame of a relayed source has right lengths and carries what the handlers are
  safe for (\<open>frame_ok\<close>: TCP segments that \<open>tcp_input_ok\<close> admits, so not stale ones, ICMP messages that can be read and announce a path MTU above 40 bytes,
  fragments that fit, UDP while the SOCKS server offers a relay that \<open>bind\<close> can handle and the system binds no port twice), and each step
  of a task meets a reply with an IPv4 header (\<open>task_ok\<close>). Then, with
  the tasks of all workers running between the frames and while a handler waits for a socket, \<open>main\<close> ends only with an error
  of the device or one of its messages, and the tables of connections and ports are consistent at the end.
\<close>

theorem main_run_safe:
  assumes "net_ok ops" and "lru_ok lru entries" and "flags_ok fl" and "src_sized ops fl"
    and "\<And>lk es info rd. start ops lru devs sys devs' datalink_channel fl = Some (Inr ((lk, es), info, rd)) \<Longrightarrow>
      link_ok lk \<and> events_ok lru lk es rd \<and> 40 < in_mtu info \<and> in_mtu info \<le> 65535"
  shows "\<exists>r. main_run ops lru devs sys devs' datalink_channel fl = Some r \<and>
    (\<forall>result rd. r = Inr (result, rd) \<longrightarrow> run_inv lru entries rd)"
proof -
  note started = start_ok [OF assms(1,3,4), of lru devs sys devs' datalink_channel]
  obtain r where r: "start ops lru devs sys devs' datalink_channel fl = Some r" using started by blast
  have agrees: "\<exists>i. start_agrees lk lru i info rd" if "r = Inr (c, info, rd)" for lk c info rd
    using started [of lk] r that by auto
  show ?thesis
  proof (cases r)
    case (Inl e)
    with r show ?thesis by (simp add: main_run_def or_return_def)
  next
    case (Inr s)
    obtain lk es info rd where s: "s = ((lk, es), info, rd)" by (metis prod.exhaust)
    note in_ok = assms(5) [OF r [unfolded Inr s]]
    have "serving lru lk rd" "rd_defrag rd = defraggler_new"
      using agrees [OF Inr [unfolded s], of lk] in_ok by (auto simp: start_agrees_def)
    then have "run_inv lru entries rd"
      using serving_inv [OF _ _ assms(2)] in_ok by (simp add: run_inv_def defrag_inv_def defraggler_new_def)
    then obtain res rd' where "redirector_open lru lk es rd = Some (res, rd')" "run_inv lru entries rd'"
      using redirector_open_ok [OF _ assms(2)] in_ok by blast
    with r Inr s show ?thesis by (simp add: main_run_def or_return_def)
  qed
qed

text \<open>A device that delivers every frame as a UDP datagram of the source, with the ports of its payload.\<close>

definition frame_link :: link where
  "frame_link = sample_link\<lparr>lk_pnet := (lk_pnet sample_link)\<lparr>
     pn_get_ethernet := \<lambda>b. Some (\<lparr>eth_destination = [], eth_source = [2, 0, 0, 0, 0, 9], eth_ethertype = EtherTypes_Ipv4\<rparr>, drop 14 b),
     pn_get_ipv4 := \<lambda>b. Some ((sample_ipv4 2 0)\<lparr>ip_source := from_octets [10, 6, 0, 1], ip_total_length := 31\<rparr>, drop 20 b)\<rparr>\<rparr>"

lemma frame_link_ok: "link_ok frame_link"
  using sample_link_ok
  by (simp add: frame_link_def link_ok_def pnet_ok_def pnet_sizes_def pnet_puts_def pnet_setters_def pnet_payloads_def tcp_sizes_ok_def)

definition sample_frame :: "u8 list" where
  "sample_frame = replicate 34 0 @ [20, 233, 0, 53, 0, 0, 0, 0, 1, 2, 3] @ replicate 15 0"

definition frame_ipv4 :: ipv4 where
  "frame_ipv4 = (sample_ipv4 2 0)\<lparr>ip_source := from_octets [10, 6, 0, 1], ip_total_length := 31\<rparr>"

lemma frame_ipv4_whole: "\<not> ipv4_is_fragment frame_ipv4" "ip_total_length frame_ipv4 = 31"
  by (simp_all add: frame_ipv4_def sample_ipv4_def ipv4_is_fragment_def ipv4_is_more_fragment_def MoreFragments_def)

lemma frame_parsed:
  assumes "42 \<le> length frame"
  obtains e u where "indicator_from (lk_pnet frame_link) frame =
      Some (indicator_new (LEthernet e) (Some (LIpv4 frame_ipv4)) (Some (LUdp (udp_parse u frame_ipv4))))"
proof -
  have "8 \<le> length frame - 34" using assms by simp
  then obtain u where "pn_get_udp (lk_pnet frame_link) (drop 34 frame) = Some u"
    by (simp add: frame_link_def sample_link_def sample_pnet_def)
  with that show ?thesis using frame_ipv4_whole(1)
    by (simp add: indicator_from_def indicator_parse_def parse_transport_def frame_link_def frame_ipv4_def sample_ipv4_def
        EtherTypes_Arp_def EtherTypes_Ipv4_def Protocols_Udp_def Protocols_Tcp_def Protocols_Icmp_def)
qed

lemma frame_lens:
  "pn_ethernet_size (lk_pnet frame_link) e = 14" "ipv4_len (lk_pnet frame_link) frame_ipv4 = Some 20" "pn_udp_size (lk_pnet frame_link) f = 8"
  by (simp_all add: frame_link_def sample_link_def sample_pnet_def ipv4_len_def frame_ipv4_def sample_ipv4_def)

lemma sample_frame_ok: "frame_ok frame_link sample_env sample_started sample_frame"
proof -
  have frame: "length sample_frame = 60" by (simp add: sample_frame_def)
  then obtain e u where ind: "indicator_from (lk_pnet frame_link) sample_frame =
      Some (indicator_new (LEthernet e) (Some (LIpv4 frame_ipv4)) (Some (LUdp (udp_parse u frame_ipv4))))"
    using frame_parsed [of sample_frame] by auto
  have env: "udp_env_ok sample_env sample_started"
    using sample_bind_fresh [of sample_started] by (simp add: udp_env_ok_def sample_started_def redirector_new_def) (simp add: sample_env_def)
  have offset: "unat (ip_fragment_offset frame_ipv4) < 8192" by (simp add: frame_ipv4_def sample_ipv4_def)
  have "datagram_in frame_link sample_env sample_started
      (indicator_new (LEthernet e) (Some (LIpv4 frame_ipv4)) (Some (LUdp (udp_parse u frame_ipv4)))) frame_ipv4 sample_frame"
    using frame env offset by (simp add: datagram_in_def frame_ipv4_whole indicator_content_len_def indicator_new_def frame_lens indicator_len_def
        subslice_def transport_ok_def)
  then show ?thesis by (simp add: frame_ok_def ind indicator_ipv4_def indicator_new_def)
qed

theorem main_run_safe_witness:
  "\<exists>result rd. main_run sample_nets sample_lru [sample_device] (C_interfaces (Ok [(''eth0'', Ok 1500)])) [sample_device]
      (\<lambda>_ _ _. Ok (Ethernet_channel (frame_link, [Rx_frame sample_env sample_frame, Rx_err (IoError Other [])]))) sample_flags =
    Some (Inr (result, rd)) \<and> run_inv sample_lru snd rd"
proof -
  let ?es = "[Rx_frame sample_env sample_frame, Rx_err (IoError Other [])]"
  let ?ch = "\<lambda>_ _ _. Ok (Ethernet_channel (frame_link, ?es))" and ?sys = "C_interfaces (Ok [(''eth0'', Ok 1500)])"
  obtain info where start: "start sample_nets sample_lru [sample_device] ?sys [sample_device] ?ch sample_flags =
      Some (Inr ((frame_link, ?es), info, sample_started))" "in_mtu info = 1500"
    using sample_start [of "(frame_link, ?es)"] by (elim exE conjE) (rule that)
  have "events_ok sample_lru frame_link ?es sample_started"
    using sample_frame_ok by (simp add: error_kind_def split: option.split)
  then have "link_ok lk \<and> events_ok sample_lru lk es rd \<and> 40 < in_mtu info' \<and> in_mtu info' \<le> 65535"
    if "start sample_nets sample_lru [sample_device] ?sys [sample_device] ?ch sample_flags = Some (Inr ((lk, es), info', rd))"
    for lk es info' rd
    using that start frame_link_ok by (simp only: option.inject sum.inject prod.inject) simp
  from main_run_safe [OF sample_nets_ok sample_lru_ok sample_flags_ok this]
  obtain r where r: "main_run sample_nets sample_lru [sample_device] ?sys [sample_device] ?ch sample_flags = Some r"
      "\<forall>result rd. r = Inr (result, rd) \<longrightarrow> run_inv sample_lru snd rd" by blast
  have "\<not> isl r"
    using r(1) unfolding main_run_def start(1) by (auto simp: or_return_def split: bind_splits)
  with r show ?thesis by (metis prod.exhaust sum.collapse(2))
qed

text \<open>
  C24. The layers of a captured frame fit together: the link layer is Ethernet; the network layer is that of
  its EtherType, if it can be read; and a transport layer belongs to an IPv4 datagram that is not a fragment, is of
  the kind the datagram names and, for TCP and UDP, has its addresses. So the \<open>unreachable!\<close> of \<open>content_len\<close> is not
  reached for a frame, nor is that of \<open>brief\<close>, whose text is defined provided the offset of a fragment is below 8192, as in the 13 bits
  of the header.
\<close>

theorem frame_layers_typed:
  assumes "indicator_from pn frame = Some ind"
  shows "\<exists>e. ind_link ind = LEthernet e \<and> indicator_content_len pn ind \<noteq> None \<and>
    ((\<forall>ipv4. indicator_ipv4 ind = Some ipv4 \<longrightarrow> unat (ip_fragment_offset ipv4) < 8192) \<longrightarrow> indicator_brief mac ind \<noteq> None) \<and>
    (case ind_network ind of
       None \<Rightarrow> ind_transport ind = None
     | Some (LArp arp) \<Rightarrow> eth_ethertype e = EtherTypes_Arp \<and> ind_transport ind = None
     | Some (LIpv4 ipv4) \<Rightarrow> eth_ethertype e = EtherTypes_Ipv4 \<and>
         (case ind_transport ind of
            None \<Rightarrow> True
          | Some t \<Rightarrow> \<not> ipv4_is_fragment ipv4 \<and> ipv4_next_level_layer_kind ipv4 = Some (layers_kind t) \<and>
              (case t of LIcmpv4 icmpv4 \<Rightarrow> True
               | LTcp tcp \<Rightarrow> tcp_src_ip tcp = ip_source ipv4 \<and> tcp_dst_ip tcp = ip_destination ipv4
               | LUdp udp \<Rightarrow> udp_src_ip udp = ip_source ipv4 \<and> udp_dst_ip udp = ip_destination ipv4
               | _ \<Rightarrow> False))
     | Some _ \<Rightarrow> False)"
  using assms indicator_from_brief [OF assms]
  by (auto simp: indicator_from_def indicator_parse_def indicator_new_def indicator_content_len_def parse_transport_def
      ipv4_next_level_layer_kind_def tcp_parse_def udp_parse_def tcp_set_ipv4_layer_def udp_set_ipv4_layer_def
      Protocols_Icmp_def Protocols_Tcp_def Protocols_Udp_def indicator_ipv4_def split: option.splits if_splits)

theorem frame_layers_typed_witness:
  "\<exists>ind e ipv4 udp. indicator_from (lk_pnet frame_link) sample_frame = Some ind \<and> ind_link ind = LEthernet e \<and>
    ind_network ind = Some (LIpv4 ipv4) \<and> ind_transport ind = Some (LUdp udp) \<and> udp_src_ip udp = ip_source ipv4 \<and>
    indicator_brief (\<lambda>_. []) ind \<noteq> None"
proof -
  obtain e u where ind: "indicator_from (lk_pnet frame_link) sample_frame =
      Some (indicator_new (LEthernet e) (Some (LIpv4 frame_ipv4)) (Some (LUdp (udp_parse u frame_ipv4))))"
    by (rule frame_parsed [of sample_frame]) (simp add: sample_frame_def)
  have "unat (ip_fragment_offset frame_ipv4) < 8192" by (simp add: frame_ipv4_def sample_ipv4_def)
  with frame_layers_typed [OF ind, of "\<lambda>_. []"] ind show ?thesis by (auto simp: indicator_new_def indicator_ipv4_def)
qed

text \<open>
  C34. A frame of a relayed device that is shorter than the total length in its IPv4 header panics: the frame
  is cut to that length without a check, before anything else is looked at.
\<close>

theorem truncated_frame_panics:
  assumes "indicator_from (lk_pnet lk) frame = Some ind" and "indicator_ipv4 ind = Some ipv4"
    and "ip_source ipv4 \<noteq> rd_local_ip_addr rd" and "rd_src_contains rd (ip_source ipv4)"
    and "indicator_content_len (lk_pnet lk) ind = Some n" and "length frame < n"
  shows "redirect_frame ops lk ev rd frame = None"
proof -
  obtain e where e: "ind_link ind = LEthernet e" using indicator_from_layers [OF assms(1)] by blast
  have "indicator_network_kind ind = Some Ipv4_kind"
    using assms(2) by (auto simp: indicator_ipv4_def indicator_network_kind_def split: option.splits layers.splits)
  moreover have "handle_ipv4 ops lk ev rd ind frame = None"
    using assms(2-6) by (auto simp: handle_ipv4_def subslice_def indicator_ethernet_def e split: bind_splits)
  ultimately show ?thesis using assms(1) by (simp add: redirect_frame_def warn_error_def Arp_kind_def Ipv4_kind_def)
qed

theorem truncated_frame_panics_witness:
  "redirect_frame sample_lru frame_link sample_env sample_started (take 44 sample_frame) = None"
proof -
  obtain e u where ind: "indicator_from (lk_pnet frame_link) (take 44 sample_frame) =
      Some (indicator_new (LEthernet e) (Some (LIpv4 frame_ipv4)) (Some (LUdp (udp_parse u frame_ipv4))))"
    by (rule frame_parsed [of "take 44 sample_frame"]) (simp add: sample_frame_def)
  show ?thesis
    by (rule truncated_frame_panics [OF ind, of frame_ipv4 _ 45])
      (simp_all add: indicator_new_def indicator_ipv4_def indicator_content_len_def frame_lens frame_ipv4_whole sample_frame_def
        sample_started_def redirector_new_def frame_ipv4_def sample_nets_def from_octets_def be_value_def)
qed

end
