(* ===== verification/Races.thy ===== *)
theory Races
  imports Frames Fetches Faults
begin

text \<open>
  The tasks of a stream on several threads. In the model of \<open>Workers\<close> an iteration of a task is one step; here it
  is two: the task checks the flag of its worker and decides what to ask of the forwarder, and later, when it has
  got the lock, it makes the call. Between the two, frames may be handled and other tasks may run. What such
  an interleaving can do, and which ones are safe. The handling of a frame is one step, with the tasks running only where the handler
  awaits a socket: the schedules in which a task gets the lock between two of a handler's own uses of it are not among these.
\<close>

declare split_paired_All [simp del] split_paired_Ex [simp del]

section \<open>Calls\<close>

text \<open>A call of the forwarder for which a task waits for the lock. It names its connection by the key the task was started with.\<close>

datatype stream_call = Call_forward conn_key "u8 list" | Call_close conn_key | Call_tick conn_key

fun call_key :: "stream_call \<Rightarrow> conn_key" where
  "call_key (Call_forward key bytes) = key"
| "call_key (Call_close key) = key"
| "call_key (Call_tick key) = key"

text \<open>The task that waits: the reader or the ticker of a connection.\<close>

fun call_of_reader :: "stream_call \<Rightarrow> bool" where
  "call_of_reader (Call_tick key) = False"
| "call_of_reader _ = True"

text \<open>An iteration of the reader up to the call.\<close>

definition reader_check :: "stream_worker \<Rightarrow> read_event \<Rightarrow> stream_worker \<times> stream_call option" where
  "reader_check w ev =
     (if \<not> sw_reader w then (w, None)
      else if sw_is_read_closed w then (w\<lparr>sw_reader := False\<rparr>, None)
      else case ev of
          Read_ok bytes \<Rightarrow>
            if length bytes = 0 then
              (let w = w\<lparr>sw_recv_zero := sw_recv_zero w + 1\<rparr>
               in (w, if sw_recv_zero w > MAX_RECV_ZERO then Some (Call_close (sw_src w, sw_dst w)) else None))
            else (w\<lparr>sw_recv_zero := 0\<rparr>, Some (Call_forward (sw_src w, sw_dst w) bytes))
        | Read_err e \<Rightarrow>
            if error_kind e = TimedOut then (w, None)
            else (w\<lparr>sw_is_read_closed := True, sw_is_write_closed := True, sw_reader := False\<rparr>, None))"

text \<open>An iteration of the ticker up to the call.\<close>

definition ticker_check :: "stream_worker \<Rightarrow> stream_worker \<times> stream_call option" where
  "ticker_check w =
     (if \<not> sw_ticker w then (w, None)
      else if sw_is_read_closed w then (w\<lparr>sw_ticker := False\<rparr>, None)
      else (w, Some (Call_tick (sw_src w, sw_dst w))))"

text \<open>The rest of an iteration. An error of the call is only logged; after \<open>close\<close> the reader sets the flag and ends.\<close>

definition mark_read_closed :: "'l redirector \<Rightarrow> conn_key \<Rightarrow> 'l redirector" where
  "mark_read_closed rd key =
     (case rd_streams rd key of
        None \<Rightarrow> rd
      | Some w \<Rightarrow> put_stream rd key (w\<lparr>sw_is_read_closed := True, sw_reader := False\<rparr>))"

fun call_run :: "link \<Rightarrow> instant \<Rightarrow> stream_call \<Rightarrow> 'l redirector \<Rightarrow> 'l redirector option" where
  "call_run lk now (Call_forward (src, dst) bytes) rd = do {
     (r, f) \<leftarrow> fs_forward (forwarder_stream lk) (rd_tx rd) dst src bytes now;
     Some (rd\<lparr>rd_tx := f\<rparr>)
   }"
| "call_run lk now (Call_close (src, dst)) rd = do {
     (r, f) \<leftarrow> fs_close (forwarder_stream lk) (rd_tx rd) dst src now;
     Some (mark_read_closed (rd\<lparr>rd_tx := f\<rparr>) (src, dst))
   }"
| "call_run lk now (Call_tick (src, dst)) rd = do {
     (r, f) \<leftarrow> fs_tick (forwarder_stream lk) (rd_tx rd) dst src now;
     Some (rd\<lparr>rd_tx := f\<rparr>)
   }"

section \<open>The shared state\<close>

text \<open>
  The \<open>Redirector\<close> with the calls that wait, and what can happen: a frame is handled, the reader of a
  connection gets an event of its socket and checks its flag, the ticker checks its flag, the receiver of a port gets a
  reply, or the task of the \<open>i\<close>th waiting call gets the lock. A task whose call waits does nothing else. \<open>None\<close> is a panic; one
  of a task with the lock poisons the lock, so that every later \<open>lock().unwrap()\<close>, also of the main loop, panics too. These are the
  schedules of the program in which no handler is interrupted at one of its own uses of the lock.
\<close>

record 'l shared =
  sh_rd :: "'l redirector"
  sh_calls :: "stream_call list"

datatype shared_event = Frame env "u8 list" | Read conn_key read_event | Tick conn_key | Receive u16 "u8 list io_result" instant
  | Call instant nat

definition call_waits :: "'l shared \<Rightarrow> conn_key \<Rightarrow> bool \<Rightarrow> bool" where
  "call_waits s key reader \<longleftrightarrow> list_ex (\<lambda>c. call_key c = key \<and> call_of_reader c = reader) (sh_calls s)"

definition task_check :: "'l shared \<Rightarrow> conn_key \<Rightarrow> bool \<Rightarrow> (stream_worker \<Rightarrow> stream_worker \<times> stream_call option) \<Rightarrow> 'l shared" where
  "task_check s key reader check =
     (case rd_streams (sh_rd s) key of
        None \<Rightarrow> s
      | Some w \<Rightarrow>
          if call_waits s key reader then s
          else (let (w, c) = check w
                in \<lparr>sh_rd = put_stream (sh_rd s) key w, sh_calls = sh_calls s @ (case c of None \<Rightarrow> [] | Some c \<Rightarrow> [c])\<rparr>))"

fun shared_step :: "'l lru_ops \<Rightarrow> link \<Rightarrow> shared_event \<Rightarrow> 'l shared \<Rightarrow> 'l shared option" where
  "shared_step ops lk (Frame ev frame) s = map_option (\<lambda>rd. s\<lparr>sh_rd := rd\<rparr>) (redirect_frame ops lk ev (sh_rd s) frame)"
| "shared_step ops lk (Read key ev) s = Some (task_check s key True (\<lambda>w. reader_check w ev))"
| "shared_step ops lk (Tick key) s = Some (task_check s key False ticker_check)"
| "shared_step ops lk (Receive p r now) s = map_option (\<lambda>rd. s\<lparr>sh_rd := rd\<rparr>) (task_run lk now (Receiver p r) (sh_rd s))"
| "shared_step ops lk (Call now i) s =
     (if i < length (sh_calls s)
      then map_option (\<lambda>rd. \<lparr>sh_rd = rd, sh_calls = take i (sh_calls s) @ drop (Suc i) (sh_calls s)\<rparr>) (call_run lk now (sh_calls s ! i) (sh_rd s))
      else Some s)"

section \<open>Two steps and one\<close>

text \<open>When nothing comes between its two steps, an iteration is the one of \<open>task_run\<close>.\<close>

lemma reader_step_split:
  assumes "rd_streams rd key = Some w" and "(sw_src w, sw_dst w) = key"
  shows "task_run lk now (Reader key ev) rd =
    (case reader_check w ev of
       (w', None) \<Rightarrow> Some (put_stream rd key w')
     | (w', Some c) \<Rightarrow> call_run lk now c (put_stream rd key w'))"
proof -
  have key: "key = (sw_src w, sw_dst w)" using assms(2) by simp
  show ?thesis
    using assms(1) unfolding key
    by (cases ev) (auto simp: task_run_def reader_step_def reader_check_def mark_read_closed_def put_stream_def Let_def split: bind_splits)
qed

lemma ticker_step_split:
  assumes "rd_streams rd key = Some w" and "(sw_src w, sw_dst w) = key"
  shows "task_run lk now (Ticker key) rd =
    (case ticker_check w of
       (w', None) \<Rightarrow> Some (put_stream rd key w')
     | (w', Some c) \<Rightarrow> call_run lk now c (put_stream rd key w'))"
proof -
  have key: "key = (sw_src w, sw_dst w)" using assms(2) by simp
  show ?thesis
    using assms(1) unfolding key by (auto simp: task_run_def ticker_step_def ticker_check_def put_stream_def split: bind_splits)
qed

section \<open>Which calls are safe\<close>

lemma mark_read_closed_ok:
  assumes safe: "rd_safe rd"
  shows "rd_safe (mark_read_closed rd key)" and "rd_frame rd (mark_read_closed rd key)"
proof -
  have "rd_safe (mark_read_closed rd key) \<and> rd_frame rd (mark_read_closed rd key)"
  proof (cases "rd_streams rd key")
    case (Some w)
    have "fw_inv (rd_tx rd)" using safe by (simp add: rd_safe_def)
    with rd_safe_put_stream [OF safe, of "fst key" "snd key" w "rd_tx rd" "w\<lparr>sw_is_read_closed := True, sw_reader := False\<rparr>"] Some
    show ?thesis by (simp add: mark_read_closed_def stream_keeps_def)
  qed (use safe in \<open>simp add: mark_read_closed_def\<close>)
  then show "rd_safe (mark_read_closed rd key)" and "rd_frame rd (mark_read_closed rd key)" by simp_all
qed

lemma rd_safe_put_tx:
  assumes safe: "rd_safe rd" and f: "fw_inv f" "fw_keeps dst src (rd_tx rd) f"
  shows "rd_safe (rd\<lparr>rd_tx := f\<rparr>)" and "rd_frame rd (rd\<lparr>rd_tx := f\<rparr>)"
proof -
  note frame = fw_keeps_frame [OF f(2)]
  then have some: "fw_states f k \<noteq> None" if "fw_states (rd_tx rd) k \<noteq> None" for k
    using that unfolding fw_frame_def by (metis option.rel_distinct(2) option.exhaust)
  with safe f(1) show "rd_safe (rd\<lparr>rd_tx := f\<rparr>)" unfolding rd_safe_def by simp
  show "rd_frame rd (rd\<lparr>rd_tx := f\<rparr>)" using frame by (simp add: rd_frame_def option.rel_refl)
qed

lemma call_run_safe:
  assumes lk: "link_ok lk" and safe: "rd_safe rd" and conn: "fw_states (rd_tx rd) (call_key c) \<noteq> None"
  obtains rd' where "call_run lk now c rd = Some rd'" and "rd_safe rd'" and "rd_frame rd rd'" and "udp_side rd' = udp_side rd"
proof -
  obtain src dst where key: "call_key c = (src, dst)" by force
  have inv: "link_ok lk \<and> fw_inv (rd_tx rd)" using lk safe by (simp add: rd_safe_def)
  have st: "get_state (rd_tx rd) dst src \<noteq> None" using conn key by (simp add: get_state_def)
  define bytes where "bytes = (case c of Call_forward _ b \<Rightarrow> b | _ \<Rightarrow> [])"
  have side: "udp_side (mark_read_closed rd0 k) = udp_side rd0" for rd0 :: "'a redirector" and k
    by (simp add: mark_read_closed_def put_stream_def split: option.split)
  obtain r1 f1 where 1: "fs_forward (forwarder_stream lk) (rd_tx rd) dst src bytes now = Some (r1, f1)" "fw_inv f1" "fw_keeps dst src (rd_tx rd) f1"
    using fwd.forward_ok [OF inv st] by blast
  obtain f2 where 2: "fs_close (forwarder_stream lk) (rd_tx rd) dst src now = Some (Ok (), f2)" "fw_inv f2" "fw_keeps dst src (rd_tx rd) f2"
    using fwd.close_ok [OF inv st] by blast
  obtain f3 where 3: "fs_tick (forwarder_stream lk) (rd_tx rd) dst src now = Some (Ok (), f3)" "fw_inv f3" "fw_keeps dst src (rd_tx rd) f3"
    using fwd.tick_ok [OF inv st] by blast
  show ?thesis
  proof (cases c)
    case (Call_forward k b)
    with key 1 bytes_def rd_safe_put_tx [OF safe 1(2,3)] show ?thesis by (intro that [of "rd\<lparr>rd_tx := f1\<rparr>"]) simp_all
  next
    case (Call_close k)
    note rd2 = rd_safe_put_tx [OF safe 2(2,3)]
    with key 2 Call_close side mark_read_closed_ok [OF rd2(1), of "(src, dst)"] show ?thesis
      by (intro that [of "mark_read_closed (rd\<lparr>rd_tx := f2\<rparr>) (src, dst)"]) (auto intro: rd_frame_trans)
  next
    case (Call_tick k)
    with key 3 rd_safe_put_tx [OF safe 3(2,3)] show ?thesis by (intro that [of "rd\<lparr>rd_tx := f3\<rparr>"]) simp_all
  qed
qed

lemma call_run_stale: "fw_states (rd_tx rd) (call_key c) = None \<Longrightarrow> call_run lk now c rd = None"
proof -
  assume a: "fw_states (rd_tx rd) (call_key c) = None"
  obtain src dst where key: "call_key c = (src, dst)" by force
  with a show ?thesis
    by (cases c) (simp_all add: forwarder_stream_def forward_stream_def forward_close_def forward_tick_def
        retransmit_tcp_ack_timedout_def get_state_def)
qed

lemma call_run_inv:
  assumes lk: "link_ok lk" and inv: "run_inv ops entries rd" and conn: "fw_states (rd_tx rd) (call_key c) \<noteq> None"
  shows "\<exists>rd'. call_run lk now c rd = Some rd' \<and> run_inv ops entries rd'"
proof -
  have rd: "rd_inv rd" "rd_safe rd" using inv by (simp_all add: run_inv_def rd_inv_def)
  obtain rd' where rd': "call_run lk now c rd = Some rd'" "rd_safe rd'" "rd_frame rd rd'" "udp_side rd' = udp_side rd"
    by (rule call_run_safe [OF lk rd(2) conn])
  with run_inv_udp_side [OF inv rd_inv_frame [OF rd(1) rd'(2,3)] rd'(4)] show ?thesis by blast
qed

text \<open>The checks change flags and counters only.\<close>

lemma check_keeps: "stream_keeps w (fst (reader_check w ev))" "stream_keeps w (fst (ticker_check w))"
  by (auto simp: reader_check_def ticker_check_def stream_keeps_def Let_def split: read_event.split)

lemma task_check_inv:
  assumes inv: "run_inv ops entries (sh_rd s)" and keeps: "\<And>w. stream_keeps w (fst (check w))"
  shows "run_inv ops entries (sh_rd (task_check s key reader check))"
proof (cases "rd_streams (sh_rd s) key")
  case (Some w)
  have rd: "rd_inv (sh_rd s)" "rd_safe (sh_rd s)" "fw_inv (rd_tx (sh_rd s))" using inv by (simp_all add: run_inv_def rd_inv_def rd_safe_def)
  let ?rd = "put_stream (sh_rd s) key (fst (check w))"
  have "rd_safe ?rd" "rd_frame (sh_rd s) ?rd"
    using rd_safe_put_stream [OF rd(2), of "fst key" "snd key" w "rd_tx (sh_rd s)" "fst (check w)"] Some rd(3) keeps by simp_all
  then have "run_inv ops entries ?rd"
    by (intro run_inv_udp_side [OF inv rd_inv_frame [OF rd(1)]]) (simp_all add: put_stream_def)
  with Some inv show ?thesis by (cases "check w") (simp add: task_check_def)
qed (use inv in \<open>simp add: task_check_def\<close>)

text \<open>The connections with a send state, and that each call that waits is of one of them.\<close>

definition live :: "'l redirector \<Rightarrow> conn_key set" where
  "live rd = dom (fw_states (rd_tx rd))"

definition calls_live :: "'l shared \<Rightarrow> bool" where
  "calls_live s \<longleftrightarrow> call_key ` set (sh_calls s) \<subseteq> live (sh_rd s)"

text \<open>
  The events the relay is safe for: frames and replies as in \<open>events_ok\<close>, where no frame removes a connection for which
  a call waits. Nothing is asked of the calls themselves.
\<close>

fun shared_ok :: "'l lru_ops \<Rightarrow> link \<Rightarrow> shared_event \<Rightarrow> 'l shared \<Rightarrow> bool" where
  "shared_ok ops lk (Frame ev frame) s \<longleftrightarrow> frame_ok lk ev (sh_rd s) frame \<and>
     (case redirect_frame ops lk ev (sh_rd s) frame of
        Some rd \<Rightarrow> call_key ` set (sh_calls s) \<inter> live (sh_rd s) \<subseteq> live rd
      | None \<Rightarrow> True)"
| "shared_ok ops lk (Receive p r now) s = reply_ok r"
| "shared_ok ops lk _ s = True"

lemma live_frame: "rd_frame rd rd' \<Longrightarrow> live rd' = live rd"
proof -
  assume "rd_frame rd rd'"
  then have "rel_option tx_keeps (fw_states (rd_tx rd) k) (fw_states (rd_tx rd') k)" for k
    using rd_frame_fields(4) unfolding fw_frame_def by blast
  then have "fw_states (rd_tx rd) k = None \<longleftrightarrow> fw_states (rd_tx rd') k = None" for k
    by (metis option.rel_distinct option.exhaust)
  then show ?thesis by (simp add: live_def dom_def)
qed

lemma calls_live_same:
  "calls_live s \<Longrightarrow> live rd = live (sh_rd s) \<Longrightarrow> set calls \<subseteq> set (sh_calls s) \<Longrightarrow> calls_live \<lparr>sh_rd = rd, sh_calls = calls\<rparr>"
  by (auto simp: calls_live_def)

text \<open>A check adds only a call for the connection of its worker, which is live.\<close>

lemma check_call:
  "snd (reader_check w ev) = Some c \<Longrightarrow> call_key c = (sw_src w, sw_dst w)"
  "snd (ticker_check w) = Some c \<Longrightarrow> call_key c = (sw_src w, sw_dst w)"
  by (auto simp: reader_check_def ticker_check_def Let_def split: if_splits read_event.splits)

lemma task_check_live:
  assumes inv: "run_inv ops entries (sh_rd s)" and live: "calls_live s"
    and call: "\<And>w c. snd (check w) = Some c \<Longrightarrow> call_key c = (sw_src w, sw_dst w)"
  shows "calls_live (task_check s key reader check)"
proof (cases "rd_streams (sh_rd s) key")
  case (Some w)
  then have "worker_ok key w" "fw_states (rd_tx (sh_rd s)) key \<noteq> None"
    using inv unfolding run_inv_def rd_inv_def rd_safe_def by blast+
  then have key: "(sw_src w, sw_dst w) = key" "key \<in> live (sh_rd s)" by (auto simp: worker_ok_def live_def)
  obtain w' c where w': "check w = (w', c)" by force
  have "live (put_stream (sh_rd s) key w') = live (sh_rd s)" by (simp add: live_def put_stream_def)
  with call [of w] key live Some w' show ?thesis
    by (auto simp: task_check_def calls_live_def split: option.split)
qed (use live in \<open>simp add: task_check_def\<close>)

text \<open>What holds between the events.\<close>

definition shared_inv :: "'l lru_ops \<Rightarrow> link \<Rightarrow> ('l \<Rightarrow> (u16 \<times> socket_addr_v4) list) \<Rightarrow> 'l shared \<Rightarrow> bool" where
  "shared_inv ops lk entries s \<longleftrightarrow> link_ok lk \<and> lru_ok ops entries \<and> run_inv ops entries (sh_rd s) \<and> calls_live s"

lemma shared_step_ok:
  assumes "shared_inv ops lk entries s" and ok: "shared_ok ops lk e s"
  shows "\<exists>s'. shared_step ops lk e s = Some s' \<and> shared_inv ops lk entries s'"
proof -
  have lk: "link_ok lk" and lru: "lru_ok ops entries" and inv: "run_inv ops entries (sh_rd s)" and live: "calls_live s"
    using assms(1) by (simp_all add: shared_inv_def)
  have rd: "rd_inv (sh_rd s)" "rd_safe (sh_rd s)" using inv by (simp_all add: run_inv_def rd_inv_def)
  show ?thesis
  proof (cases e)
    case (Frame ev frame)
    then obtain rd' where rd': "redirect_frame ops lk ev (sh_rd s) frame = Some rd'" "run_inv ops entries rd'"
      using redirect_frame_ok [OF lk lru inv, of ev frame] ok by auto
    then have "calls_live (s\<lparr>sh_rd := rd'\<rparr>)" using ok Frame live by (auto simp: calls_live_def)
    with rd' Frame lk lru show ?thesis by (simp add: shared_inv_def)
  next
    case (Receive p r now)
    then have t: "task_ok (Receiver p r)" using ok by (simp add: task_ok_def)
    obtain rd' where rd': "task_run lk now (Receiver p r) (sh_rd s) = Some rd'" "rd_safe rd'" "rd_frame (sh_rd s) rd'"
      by (rule task_run_ok [OF lk rd(2) t])
    then have "run_inv ops entries rd'" "calls_live (s\<lparr>sh_rd := rd'\<rparr>)"
      using task_run_inv [OF lk inv t, of now] live live_frame [OF rd'(3)] by (simp_all add: calls_live_def)
    with rd'(1) Receive lk lru show ?thesis by (simp add: shared_inv_def)
  next
    case (Call now i)
    show ?thesis
    proof (cases "i < length (sh_calls s)")
      case True
      then have "call_key (sh_calls s ! i) \<in> live (sh_rd s)" using live unfolding calls_live_def by auto
      then have conn: "fw_states (rd_tx (sh_rd s)) (call_key (sh_calls s ! i)) \<noteq> None" by (auto simp: live_def)
      obtain rd' where rd': "call_run lk now (sh_calls s ! i) (sh_rd s) = Some rd'" "rd_frame (sh_rd s) rd'"
        by (rule call_run_safe [OF lk rd(2) conn])
      have "set (take i (sh_calls s) @ drop (Suc i) (sh_calls s)) \<subseteq> set (sh_calls s)"
        using set_take_subset set_drop_subset by fastforce
      from calls_live_same [OF live live_frame [OF rd'(2)] this] rd'(1) call_run_inv [OF lk inv conn, of now] True Call lk lru
      show ?thesis by (simp add: shared_inv_def)
    qed (use Call assms(1) in simp)
  qed (use task_check_inv [OF inv] task_check_live [OF inv live] check_keeps check_call lk lru in \<open>simp_all add: shared_inv_def\<close>)
qed

interpretation threads: event_safety "shared_step ops lk" "shared_ok ops lk" "shared_inv ops lk entries" for ops lk entries
  by unfold_locales (rule shared_step_ok)

section \<open>Properties\<close>

text \<open>A connection of the sample device in a relay that also serves UDP.\<close>

lemma sample_udp_run_inv: "run_inv sample_lru snd sample_udp_redirector"
  using serving_inv [OF sample_serving sample_link_ok sample_lru_ok]
  by (simp add: run_inv_def sample_udp_redirector_def redirector_new_def defrag_inv_def defraggler_new_def)

lemma sample_threads:
  obtains rd w where "run_inv sample_lru snd rd" and "rd_streams rd sample_key = Some w" and "sw_reader w" and "\<not> sw_is_read_closed w"
    and "(sw_src w, sw_dst w) = sample_key" and "fw_states (rd_tx rd) sample_key \<noteq> None"
proof -
  have inv: "rd_inv sample_udp_redirector" using sample_udp_run_inv by (simp add: run_inv_def)
  have free: "rd_streams sample_udp_redirector k = None" for k by (simp add: sample_udp_redirector_def redirector_new_def)
  obtain rd1 rd where c: "handle_tcp_syn sample_link sample_env sample_udp_redirector (sample_segment 6 2) = Some (Ok (), rd1)"
      "handle_tcp sample_link sample_env rd1 (sample_ack (seq_adv 100 1)) [] = Some (Ok (), rd)"
      "fetching sample_stream (seq_adv 100 1) sample_key 0 0 rd"
    using handshake_fetching [OF sample_link_ok inv free, of "sample_segment 6 2" sample_env "sample_ack (seq_adv 100 1)" sample_env sample_stream]
      sample_ack_simps by (auto simp: sample_env_def sample_key_def)
  have side: "udp_side rd = udp_side sample_udp_redirector"
    using handle_tcp_syn_udp_side [OF c(1)] handle_tcp_udp_side [OF c(2)] by simp
  have f: "rd_inv rd" "\<exists>w. rd_streams rd sample_key = Some w \<and> sw_reader w \<and> \<not> sw_is_read_closed w"
    using c(3) by (auto simp: fetching_def)
  then obtain w where w: "rd_streams rd sample_key = Some w" "sw_reader w" "\<not> sw_is_read_closed w" by blast
  then have "worker_ok sample_key w \<and> fw_states (rd_tx rd) sample_key \<noteq> None" using f(1) unfolding rd_inv_def rd_safe_def by blast
  with w run_inv_udp_side [OF sample_udp_run_inv f(1) side] show ?thesis by (intro that [of rd w]) (auto simp: worker_ok_def)
qed

text \<open>
  C2. The tasks on several threads, with the handling of a frame as one step: let frames, checks of the tasks, replies, and calls of the
  tasks (each made any time after its check, in any order in which the tasks get the lock) follow each other in any order, where
  each frame is one the handlers are safe for (\<open>frame_ok\<close>), each reply has an IPv4 header (\<open>reply_ok\<close>), and no frame
  removes a connection for which a task waits with a call. Then nothing panics, whatever the calls and whenever they are made: every call that
  waits is of a connection in the table, and the tables of connections and ports stay consistent. The condition on removals is needed:
  without it the ticker brings the relay down (below). Tasks that get the lock between two of a handler's own uses of it are not
  part of these schedules.
\<close>

theorem shared_run_safe:
  assumes "link_ok lk" and "lru_ok ops entries" and "run_inv ops entries (sh_rd s)" and "sh_calls s = []"
    and "events_expected (shared_step ops lk) (shared_ok ops lk) es s"
  shows "\<exists>s'. run_events (shared_step ops lk) es s = Some s' \<and> run_inv ops entries (sh_rd s') \<and>
    (\<forall>c\<in>set (sh_calls s'). fw_states (rd_tx (sh_rd s')) (call_key c) \<noteq> None)"
proof -
  have "shared_inv ops lk entries s" using assms(1-4) by (simp add: shared_inv_def calls_live_def)
  from threads.run_safe [OF this assms(5)] obtain s' where "run_events (shared_step ops lk) es s = Some s'" "shared_inv ops lk entries s'" by blast
  then show ?thesis by (auto simp: shared_inv_def calls_live_def live_def)
qed

theorem shared_run_safe_witness:
  "\<exists>rd s. rd_streams rd sample_key \<noteq> None \<and>
    run_events (shared_step sample_lru sample_link) [Read sample_key (Read_ok [1, 2]), Tick sample_key, Call 5 0] \<lparr>sh_rd = rd, sh_calls = []\<rparr> = Some s \<and>
    run_inv sample_lru snd (sh_rd s)"
proof -
  obtain rd w where c: "run_inv sample_lru snd rd" "rd_streams rd sample_key = Some w" "sw_reader w" "\<not> sw_is_read_closed w"
    "(sw_src w, sw_dst w) = sample_key" "fw_states (rd_tx rd) sample_key \<noteq> None" by (rule sample_threads)
  have "events_expected (shared_step sample_lru sample_link) (shared_ok sample_lru sample_link) [Read sample_key (Read_ok [1, 2]), Tick sample_key, Call 5 0]
      \<lparr>sh_rd = rd, sh_calls = []\<rparr>"
    using c(2-6) by (simp add: task_check_def call_waits_def reader_check_def ticker_check_def put_stream_def split: option.split)
  from shared_run_safe [OF sample_link_ok sample_lru_ok _ _ this] c(1,2) show ?thesis by auto
qed

text \<open>
  Which calls panic: a task that has got the lock panics exactly if its connection has been removed since it checked
  its flag. The flag is not looked at again under the lock.
\<close>

theorem call_panics_iff:
  assumes "link_ok lk" and "run_inv ops entries rd"
  shows "call_run lk now c rd = None \<longleftrightarrow> fw_states (rd_tx rd) (call_key c) = None"
  using call_run_inv [OF assms] call_run_stale by (metis option.discI)

theorem call_panics_iff_witness:
  "call_run sample_link 5 (Call_tick sample_key) sample_udp_redirector = None \<and>
    (\<exists>rd. run_inv sample_lru snd rd \<and> call_run sample_link 5 (Call_tick sample_key) rd \<noteq> None)"
proof -
  obtain rd where c: "run_inv sample_lru snd rd" "fw_states (rd_tx rd) sample_key \<noteq> None" by (rule sample_threads)
  have "fw_states (rd_tx sample_udp_redirector) sample_key = None"
    by (simp add: sample_udp_redirector_def redirector_new_def)
  with c call_panics_iff [OF sample_link_ok c(1), of 5 "Call_tick sample_key"]
    call_panics_iff [OF sample_link_ok sample_udp_run_inv, of 5 "Call_tick sample_key"] show ?thesis
    by (intro conjI exI [of _ rd]) simp_all
qed

text \<open>A run in which each task gets the lock at once.\<close>

fun two_steps :: "rx_event \<Rightarrow> shared_event list" where
  "two_steps (Rx_frame ev frame) = [Frame ev frame]"
| "two_steps (Rx_err e) = []"
| "two_steps (Rx_task now (Reader key ev)) = [Read key ev, Call now 0]"
| "two_steps (Rx_task now (Ticker key)) = [Tick key, Call now 0]"
| "two_steps (Rx_task now (Receiver p r)) = [Receive p r now]"

lemma bind_run_events_Nil [simp]: "Option.bind x (run_events step []) = x"
  by (cases x) simp_all

lemma two_steps_task:
  assumes "rd_safe rd"
  shows "run_events (shared_step ops lk) (two_steps (Rx_task now t)) \<lparr>sh_rd = rd, sh_calls = []\<rparr> =
    map_option (\<lambda>rd. \<lparr>sh_rd = rd, sh_calls = []\<rparr>) (task_run lk now t rd)"
proof (cases t)
  case (Reader key ev)
  show ?thesis
  proof (cases "rd_streams rd key")
    case (Some w)
    then have "(sw_src w, sw_dst w) = key" using assms by (auto simp: rd_safe_def worker_ok_def)
    from reader_step_split [OF Some this, of lk now ev] Reader Some show ?thesis
      by (cases "reader_check w ev") (auto simp: task_check_def call_waits_def split: option.split)
  qed (use Reader in \<open>simp add: task_check_def task_run_def\<close>)
next
  case (Ticker key)
  show ?thesis
  proof (cases "rd_streams rd key")
    case (Some w)
    then have "(sw_src w, sw_dst w) = key" using assms by (auto simp: rd_safe_def worker_ok_def)
    from ticker_step_split [OF Some this, of lk now] Ticker Some show ?thesis
      by (cases "ticker_check w") (auto simp: task_check_def call_waits_def split: option.split)
  qed (use Ticker in \<open>simp add: task_check_def task_run_def\<close>)
next
  case (Receiver p r)
  then show ?thesis by simp
qed

text \<open>
  A step of a task in \<open>redirector_open\<close> is two steps here with nothing between them: every run of the main loop in which the tasks
  are steps is one of the runs on threads, with the same result and no call left waiting.
\<close>

theorem task_steps_refined:
  assumes "link_ok lk" and "lru_ok ops entries" and "run_inv ops entries rd" and "events_ok ops lk es rd"
    and "\<forall>e. Rx_err e \<in> set es \<longrightarrow> error_kind e = TimedOut"
  shows "run_events (shared_step ops lk) (concat (map two_steps es)) \<lparr>sh_rd = rd, sh_calls = []\<rparr> =
    map_option (\<lambda>(_, rd). \<lparr>sh_rd = rd, sh_calls = []\<rparr>) (redirector_open ops lk es rd)"
  using assms(3-5)
proof (induction es arbitrary: rd)
  case (Cons e es)
  show ?case
  proof (cases e)
    case (Rx_frame ev frame)
    then obtain rd1 where "redirect_frame ops lk ev rd frame = Some rd1" "run_inv ops entries rd1"
      using redirect_frame_ok [OF assms(1,2) Cons.prems(1)] Cons.prems(2) by auto
    with Cons.IH [of rd1] Cons.prems Rx_frame show ?thesis by simp
  next
    case (Rx_err x)
    with Cons.IH [of rd] Cons.prems show ?thesis by simp
  next
    case (Rx_task now t)
    then obtain rd1 where "task_run lk now t rd = Some rd1" "run_inv ops entries rd1"
      using task_run_inv [OF assms(1) Cons.prems(1)] Cons.prems(2) by auto
    moreover have "rd_safe rd" using Cons.prems(1) by (simp add: run_inv_def rd_inv_def)
    ultimately show ?thesis using Cons.IH [of rd1] Cons.prems Rx_task two_steps_task [of rd ops lk now t] by (simp add: run_events_append)
  qed
qed simp

theorem task_steps_refined_witness:
  "\<exists>rd. run_events (shared_step sample_lru sample_link) [Read sample_key (Read_ok [1, 2]), Call 5 0] \<lparr>sh_rd = rd, sh_calls = []\<rparr> =
    map_option (\<lambda>(_, rd). \<lparr>sh_rd = rd, sh_calls = []\<rparr>)
      (redirector_open sample_lru sample_link [Rx_task 5 (Reader sample_key (Read_ok [1, 2])), Rx_err (IoError TimedOut [])] rd)"
proof -
  obtain rd where "run_inv sample_lru snd rd" by (rule sample_threads)
  moreover have "events_ok sample_lru sample_link [Rx_task 5 (Reader sample_key (Read_ok [1, 2])), Rx_err (IoError TimedOut [])] rd"
    by (simp add: task_ok_def split: option.split)
  ultimately show ?thesis
    using task_steps_refined [OF sample_link_ok sample_lru_ok,
        of rd "[Rx_task 5 (Reader sample_key (Read_ok [1, 2])), Rx_err (IoError TimedOut [])]"]
    by (intro exI [of _ rd]) (simp add: error_kind_def del: run_events.simps)
qed

text \<open>
  C38. A removed connection takes the relay down: the ticker of a connection finds the flag unset; before it gets the lock, a
  frame of the device (a RST, say) removes the connection; the call then panics with the lock held, which poisons it.
\<close>

theorem stale_tick_panics:
  assumes "rd_streams (sh_rd s) key = Some w" and "(sw_src w, sw_dst w) = key" and "sw_ticker w" and "\<not> sw_is_read_closed w" and "sh_calls s = []"
    and "redirect_frame ops lk ev (sh_rd s) frame = Some rd" and "fw_states (rd_tx rd) key = None"
  shows "run_events (shared_step ops lk) [Tick key, Frame ev frame, Call now 0] s = None"
proof -
  have "put_stream (sh_rd s) key w = sh_rd s" using assms(1) by (simp add: put_stream_def fun_upd_idem)
  with assms(1-5) have "shared_step ops lk (Tick key) s = Some (s\<lparr>sh_calls := [Call_tick key]\<rparr>)"
    by (cases s) (simp add: task_check_def call_waits_def ticker_check_def)
  with assms(6,7) call_run_stale [of rd "Call_tick key" lk now] show ?thesis by simp
qed

text \<open>A device whose frames are all RST of the sample connection.\<close>

definition rst_ipv4 :: ipv4 where
  "rst_ipv4 = (sample_ipv4 2 0)\<lparr>ip_next_level_protocol := Protocols_Tcp, ip_total_length := 40\<rparr>"

definition rst_link :: link where
  "rst_link = sample_link\<lparr>lk_pnet := (lk_pnet sample_link)\<lparr>
     pn_get_ethernet := \<lambda>b. Some (\<lparr>eth_destination = [], eth_source = [2, 0, 0, 0, 0, 9], eth_ethertype = EtherTypes_Ipv4\<rparr>, drop 14 b),
     pn_get_ipv4 := \<lambda>b. Some (rst_ipv4, drop 20 b), pn_get_tcp := \<lambda>_. Some (tcp_layer (sample_segment 7 4))\<rparr>\<rparr>"

lemma rst_removes:
  "\<exists>rd. redirect_frame ops rst_link ev sample_closing (replicate 54 0) = Some rd \<and> fw_states (rd_tx rd) sample_key = None"
proof -
  let ?tcp = "tcp_parse (tcp_layer (sample_segment 7 4)) rst_ipv4"
  have whole: "\<not> ipv4_is_fragment rst_ipv4" "ip_source rst_ipv4 = 1"
    by (simp_all add: rst_ipv4_def sample_ipv4_def ipv4_is_fragment_def ipv4_is_more_fragment_def MoreFragments_def)
  obtain e where ind: "indicator_from (lk_pnet rst_link) (replicate 54 0) =
      Some (indicator_new (LEthernet e) (Some (LIpv4 rst_ipv4)) (Some (LTcp ?tcp)))"
    using whole(1) by (simp add: indicator_from_def indicator_parse_def parse_transport_def rst_link_def rst_ipv4_def sample_ipv4_def
        EtherTypes_Arp_def EtherTypes_Ipv4_def Protocols_Tcp_def Protocols_Icmp_def)
  have lens: "pn_ethernet_size (lk_pnet rst_link) e = 14" "ipv4_len (lk_pnet rst_link) rst_ipv4 = Some 20" "tcp_len (lk_pnet rst_link) ?tcp = Some 20"
    by (simp_all add: rst_link_def sample_link_def sample_pnet_def ipv4_len_def rst_ipv4_def sample_ipv4_def tcp_len_def tcp_parse_def
        tcp_set_ipv4_layer_def sample_segment_def tcp_new_ack_def tcp_from_def tcp_set_flags_def Let_def)
  have addr: "(tcp_src_addr ?tcp, tcp_dst_addr ?tcp) = sample_key" "tcp_is_rst ?tcp"
    by (simp_all add: tcp_src_addr_def tcp_dst_addr_def tcp_parse_def tcp_set_ipv4_layer_def sample_key_def rst_ipv4_def sample_ipv4_def
        tcp_is_rst_def TcpFlags_RST_def sample_segment_def tcp_new_ack_def tcp_from_def tcp_set_flags_def Let_def)
  define rd where "rd = learn_hardware_addr sample_closing 1 (eth_source e)"
  have rd: "rd_streams rd = [sample_key \<mapsto> sample_stream_worker]" "stream_close sample_stream_worker \<noteq> None"
    by (simp_all add: rd_def sample_closing_def sample_key_def learn_hardware_addr_def sample_stream_worker_def stream_close_def stream_shutdown_write_def)
  have old: "rd_local_ip_addr sample_closing = 9" "rd_src_contains sample_closing 1" "\<not> rd_is_tx_src_hardware_addr_set sample_closing"
    by (simp_all add: sample_closing_def sample_udp_redirector_def redirector_new_def)
  have "handle_tcp rst_link ev rd ?tcp [] = map_option (\<lambda>rd. (Ok (), rd)) (clean_up rd (fst sample_key) (snd sample_key))"
    using addr by (cases "clean_up rd (fst sample_key) (snd sample_key)") (auto simp: handle_tcp_def handle_tcp_rst_def sample_key_def)
  moreover have "handle_ipv4 ops rst_link ev sample_closing (indicator_new (LEthernet e) (Some (LIpv4 rst_ipv4)) (Some (LTcp ?tcp))) (replicate 54 0) =
      handle_tcp rst_link ev rd ?tcp []"
    using whole lens old by (simp add: handle_ipv4_def indicator_new_def indicator_ipv4_def indicator_ethernet_def indicator_content_len_def
        indicator_len_def handle_transport_def subslice_def rst_ipv4_def receive_text_def indicator_brief_def transport_brief_def usub_def
        Let_def flip: rd_def)
  ultimately show ?thesis
    using rd by (auto simp: redirect_frame_def warn_error_def ind indicator_network_kind_def indicator_new_def Ipv4_kind_def Arp_kind_def clean_up_def fw_clean_up_def
        sample_key_def)
qed

theorem stale_tick_panics_witness:
  "run_events (shared_step sample_lru rst_link) [Tick sample_key, Frame sample_env (replicate 54 0), Call 9 0]
    \<lparr>sh_rd = sample_closing, sh_calls = []\<rparr> = None"
proof -
  obtain rd where "redirect_frame sample_lru rst_link sample_env sample_closing (replicate 54 0) = Some rd" "fw_states (rd_tx rd) sample_key = None"
    using rst_removes by blast
  then show ?thesis
    by (intro stale_tick_panics [where w = sample_stream_worker])
      (simp_all add: sample_closing_def sample_stream_worker_def sample_key_def)
qed

end
