(* ===== verification/Spec2Isabelle.thy ===== *)
theory Spec2Isabelle
  imports Queue Window TcpTx Ranges Layers Packet Forwarder Delivery Fragments Retransmit TcpRx Redirector
    FwInv Tasks Relay Handshake Uploads Runs Progress Downloads Fetches Closing Ports Exchange Faults Interfaces Endpoint Startup
    Texts Briefs Logs Frames Races
begin

text \<open>
  A verification development of pcap2socks, which redirects the IPv4 traffic of devices on a network
  to a SOCKS5 server: it captures their frames, terminates their TCP connections and UDP exchanges
  itself, and relays the contents.

  \<^bold>\<open>The program and its model.\<close> The parts, in the order in which they depend on each other, with the
  theories that model them:

  \<^item> \<open>Prelude\<close>: machine integers, results and panics, slices, and the lemmas the components share. An
    operation that can fail or panic yields a value of type \<open>outcome\<close>: \<open>Some (Ok a, s)\<close> and
    \<open>Some (Err e, s)\<close> are the two cases of \<open>io::Result\<close> with the state afterwards, \<open>None\<close> is a panic (of an
    index, a subtraction, \<open>unwrap\<close> or \<open>unreachable!\<close>) or, where the text says so, a loop that never ends.
    Overflow panics, as in a debug build.
  \<^item> \<open>Seq\<close>: the arithmetic of sequence numbers that \<open>cache/mod.rs\<close> and \<open>lib.rs\<close> write out at each use. It
    counts modulo 2 to the 32 less one; the locale \<open>sequence_space\<close> holds what its clients need of it.
  \<^item> \<open>Ring\<close>, \<open>Timer\<close>, \<open>Queue\<close>: the send cache \<open>Queue\<close> of \<open>cache/mod.rs\<close> with its ring buffer and its
    retransmission clocks; the locale \<open>send_cache\<close> is its contract as a bounded list of bytes.
  \<^item> \<open>Edges\<close>, \<open>Window\<close>: the receive window \<open>Window\<close> with its ranges; the locale \<open>reassembler\<close> is its
    contract as the reassembly of a byte stream.
  \<^item> \<open>Addr\<close>, \<open>Layers\<close>, \<open>Packet\<close>: addresses, the layers of \<open>packet/layer\<close>, and \<open>Indicator\<close>,
    \<open>Fragmentation\<close> and \<open>Defraggler\<close> of \<open>packet/mod.rs\<close>.
  \<^item> \<open>Socks\<close>, \<open>Workers\<close>: the SOCKS5 client of \<open>socks/socks/mod.rs\<close> (\<open>connect\<close>, \<open>bind\<close>, the header of the
    datagrams), and the workers of
    \<open>socks/mod.rs\<close> with the loops of their tasks. The traits \<open>ForwardStream\<close> and \<open>ForwardDatagram\<close> are
    records of operations; their contracts are the locales of the same names.
  \<^item> \<open>TcpTx\<close>, \<open>TcpRx\<close>, \<open>Ranges\<close>, \<open>Forwarder\<close>, \<open>Redirector\<close>: \<open>TcpTxState\<close>, \<open>TcpRxState\<close>,
    \<open>disjoint_u32_range\<close>, \<open>Forwarder\<close> and \<open>Redirector\<close> of \<open>lib.rs\<close>, operation by operation.
  \<^item> \<open>Interfaces\<close>, \<open>Endpoint\<close>, \<open>Startup\<close>: the interfaces of \<open>pcap/mod.rs\<close> and the choice of one in \<open>lib.rs\<close>,
    the address of the server and its text form, and \<open>main\<close> with the instructions it prints.
  \<^item> \<open>Logs\<close>: the messages of \<open>main\<close>, the table of the instructions for the device, and the logger.
  \<^item> \<open>Texts\<close>, \<open>Briefs\<close>: the text forms (\<open>Display\<close>, \<open>brief\<close>) of the caches, of layers, frames, interfaces and
    connections, and the unit tests of \<open>cache/mod.rs\<close>.

  \<^bold>\<open>Parameters.\<close> Code that is not part of the program is an argument: the packet views of the crate
  \<open>pnet\<close> (\<open>pnet\<close>, with the sizes and the setters' behaviour as \<open>pnet_ok\<close>), the device (\<open>link\<close>, \<open>link_ok\<close>),
  the crate \<open>lru\<close> (\<open>lru_ops\<close>, \<open>lru_ok\<close>), the crate \<open>ipnetwork\<close> (\<open>net_ops\<close>, \<open>net_ok\<close>), the interfaces that
  the system reports, the name lookup, the calls of tokio and async_socks5 (\<open>socks_calls\<close>, which \<open>socks_connect\<close> and \<open>socks_bind\<close> use when a handler opens a
  connection or a port), the text of a hardware address, and what the sockets, the clock, the
  random generator and the level of the log are while a frame is handled (\<open>env\<close>) or in a step of a task. The size of a network
  is optional, since \<open>size()\<close> of ipnetwork has no value for the network of all addresses. Each of these
  hypotheses has a concrete instance in a witness.

  \<^bold>\<open>Concurrency.\<close> The tasks of the workers share the \<open>Forwarder\<close> under a lock with the \<open>Redirector\<close>. In \<open>Redirector\<close> and the
  theories on it a step of a task is one iteration of its loop; a handler that awaits a socket runs an arbitrary sequence
  of such steps (\<open>tasks_run\<close>), and between two frames any step may happen. \<open>Races\<close> refines this to the threads of the
  runtime: an iteration of a stream's task is its check of the flag and, later, its call of the forwarder under the lock, and
  frames and other tasks may come between the two. A connection that is opened anew under the same addresses counts as the same one there, and
  the calls of a task that overtake a waiting handler are not split. The handling of a frame is one step there too, although the handlers release and
  take the lock several times: schedules in which a task gets it in the middle of a handler, other than where the handler awaits a socket, are not covered.

  \<^bold>\<open>What is shown.\<close>

  \<^item> The caches (\<open>Queue\<close>, \<open>Window\<close>): every reachable state is well-formed and no operation panics on it;
    the send cache refines a bounded list, the window delivers exactly the in-order prefix of a stream
    for any arrival order in which no segment ends before the expected byte, and \<open>filled\<close> reports only bytes beyond it that have arrived: all of them
    unless a segment began inside an arrived range and ended before its end, which makes the window forget the rest. The unit tests of the program hold
    of the model (\<open>Texts\<close>).
  \<^item> The send side (\<open>TcpTx\<close>, \<open>Delivery\<close>, \<open>Retransmit\<close>, \<open>Fragments\<close>): no byte handed over is lost,
    repeated or reordered; a payload is cut into segments that carry it once; a selective
    retransmission sends exactly what is missing; a fragmented UDP datagram is put together again by
    the \<open>Defraggler\<close> of the receiver.
  \<^item> The relay: \<open>FwInv\<close> shows that each operation of the forwarder returns, keeps its invariant and
    touches one connection only, and interprets the contracts of the workers; \<open>Tasks\<close> lifts this to
    the tasks. \<open>Relay\<close> and \<open>Handshake\<close> treat the TCP handlers step by step; \<open>Uploads\<close> has the invariant
    of the tables over all reachable states, the handshake, and the delivery of a device's stream to
    the SOCKS server. \<open>Ports\<close> has the same for the tables of UDP ports. \<open>Downloads\<close> treats the other direction event by
    event: data from the server, ticks of the timer and acknowledgements of the device.
  \<^item> Whole runs: the locale \<open>event_system\<close> of \<open>Runs\<close> is the contract of events that return, keep an invariant and do
    not undo progress; its clients get it for every sequence of events, and that a run comes to its end. \<open>Progress\<close>
    interprets it for uploads and \<open>Fetches\<close> for downloads: both directions deliver the stream without a loss, and
    completely when the peers keep going.
  \<^item> The end of a connection (\<open>Closing\<close>): a device closes its half without a loss of what it has sent; what the handlers drop when a connection ends.
  \<^item> A UDP exchange (\<open>Exchange\<close>): a request and its answers, from frame to SOCKS datagram and back.
  \<^item> The program as a whole (\<open>Frames\<close>): the layers of a captured frame fit together, and \<open>main\<close>, from the flags
    over all frames and steps of the tasks, does not panic and keeps the invariants of both tables, for the MTUs, sources, frames and replies
    that the hypotheses \<open>frame_ok\<close>, \<open>reply_ok\<close> and \<open>src_sized\<close> admit.
  \<^item> Threads (\<open>Races\<close>): the same for the orders of frames, checks and calls in which no frame removes a connection while a task waits for the lock with a call of it, by
    the contract \<open>event_safety\<close> of \<open>Runs\<close>; the coarser steps are a special case; and a call on a connection that has been removed panics.
  \<^item> The start (\<open>Startup\<close>, \<open>Endpoint\<close>): \<open>main\<close> reaches one of its messages or a relay whose parts agree with
    each other and with what is printed, in an initial state of the two invariants above if the MTU is from 41 to 65535, which \<open>main\<close> does not check; a source that is the network of all
    addresses panics. The printed
    mask is exactly what the source network and the gateway share. Each early return is reported by one line on the standard error (\<open>Logs\<close>).
  \<^item> Faults (the rest of the properties, and \<open>Faults\<close>): inputs on which the code panics, does not
    return, or departs from the protocol. They are also the reason for the hypotheses of the theorems
    above: numbers that do not wrap inside a window, segments not older than the window, window scales
    up to 8, path MTUs above 40, frames as long as their total length says and at the level debug no total length below the headers, SOCKS relays with
    an address \<open>bind\<close> can handle.

  \<^bold>\<open>Fuel.\<close> The loop over the segments of a payload has the length of the payload as fuel, the loop over
  the fragments of a datagram its length: each iteration that makes progress takes at least one byte,
  and an iteration without progress repeats forever in the program, which the model maps to \<open>None\<close>. Where this is
  claimed of the program, it is shown of the body of the loop (\<open>ack_raw_iteration\<close>), of which \<open>None\<close> is only a panic.

  \<^bold>\<open>Not modelled.\<close> The tokenizing of the arguments belongs to structopt; the flags are a record with the
  constraints of its attributes. The colours of the log are left out. Log messages of the relay have no effect on the
  state; of those about received frames the text is made, as it can panic (\<open>receive_text\<close> at the level debug, \<open>warn_error\<close>); those about ARP, sent frames
  and connections, whose texts are always defined, are left out. The waits in the loops of the tasks
  only delay them. Getters that only return a field are the fields of the records.
\<close>

end
